(* ===== verification/Solen_Prelude.thy ===== *)
theory Solen_Prelude
  imports "HOL-Library.Word" "HOL-Library.Countable"
begin

text \<open>
  What every component of the development shares: the machine types of the Rust
  sources (\<open>u8\<close>, \<open>u64\<close>, \<open>u128\<close>, the 32-byte identifiers), Rust's saturating
  and checked arithmetic with its reading on \<open>nat\<close>, little- and big-endian byte
  strings, and the list idioms of the code (\<open>iter().find\<close>, \<open>iter_mut().find\<close>
  followed by a mutation, \<open>sum\<close>).

  A fixed-size integer is a word of its width, so that plain \<open>+\<close>, \<open>-\<close> and \<open>*\<close>
  wrap exactly as the release build does.  A 32-byte array (\<open>Hash\<close>, \<open>AccountId\<close>,
  \<open>ValidatorId\<close>) is a 256-bit word read big-endian: equality is byte equality
  and \<open><\<close> is the lexicographic order that Rust derives for arrays.  Where the
  code looks at the bytes, \<open>id_bytes\<close> and \<open>id_of_bytes\<close> convert.
\<close>

unbundle bit_operations_syntax

named_theorems unat_simps \<open>reading of Rust integer operations on natural numbers\<close>
named_theorems upd_simps \<open>what a mutation of the first matching element keeps\<close>

section \<open>Machine types\<close>

type_synonym u8 = "8 word"
type_synonym u16 = "16 word"
type_synonym u32 = "32 word"
type_synonym u64 = "64 word"
type_synonym u128 = "128 word"
type_synonym bytes = "u8 list"
type_synonym hash = "256 word"
type_synonym account_id = "256 word"
type_synonym validator_id = "256 word"

section \<open>Saturating and checked arithmetic\<close>

definition sat_add :: "'a::len word \<Rightarrow> 'a word \<Rightarrow> 'a word" where
  "sat_add a b = (if unat a + unat b < 2 ^ LENGTH('a) then a + b else - 1)"

definition sat_sub :: "'a::len word \<Rightarrow> 'a word \<Rightarrow> 'a word" where
  "sat_sub a b = (if b \<le> a then a - b else 0)"

definition sat_mul :: "'a::len word \<Rightarrow> 'a word \<Rightarrow> 'a word" where
  "sat_mul a b = (if unat a * unat b < 2 ^ LENGTH('a) then a * b else - 1)"

definition checked_add :: "'a::len word \<Rightarrow> 'a word \<Rightarrow> 'a word option" where
  "checked_add a b = (if unat a + unat b < 2 ^ LENGTH('a) then Some (a + b) else None)"

definition checked_sub :: "'a::len word \<Rightarrow> 'a word \<Rightarrow> 'a word option" where
  "checked_sub a b = (if b \<le> a then Some (a - b) else None)"

lemma unat_lt: "unat (a :: 'a::len word) < 2 ^ LENGTH('a)"
  by (rule unsigned_less)

lemma unat_max: "unat (- 1 :: 'a::len word) = 2 ^ LENGTH('a) - 1"
  by (simp add: unsigned_minus_1_eq_mask mask_eq_exp_minus_1)

lemma unat_add_exact:
  "unat a + unat b < 2 ^ LENGTH('a) \<Longrightarrow> unat (a + b) = unat a + unat (b :: 'a::len word)"
  by (simp add: unat_word_ariths)

lemma unat_mul_exact:
  "unat a * unat b < 2 ^ LENGTH('a) \<Longrightarrow> unat (a * b) = unat a * unat (b :: 'a::len word)"
  by (simp add: unat_word_ariths)

lemma unat_sub_exact: "b \<le> a \<Longrightarrow> unat (a - b) = unat a - unat (b :: 'a::len word)"
  by (rule unat_sub)

lemma unat_sat_add [unat_simps]:
  "unat (sat_add a b) = min (unat a + unat b) (2 ^ LENGTH('a) - 1)" for a b :: "'a::len word"
  using unat_lt [of a]
  by (auto simp: sat_add_def unat_add_exact unat_max min_def)

lemma unat_sat_sub [unat_simps]: "unat (sat_sub a b) = unat a - unat b"
  by (auto simp: sat_sub_def unat_sub_exact word_le_nat_alt)

lemma unat_sat_mul [unat_simps]:
  "unat (sat_mul a b) = min (unat a * unat b) (2 ^ LENGTH('a) - 1)" for a b :: "'a::len word"
  by (simp add: sat_mul_def unat_mul_exact unat_max)

lemma unat_sat_add_le: "unat (sat_add a b) \<le> unat a + unat b"
  by (simp add: unat_sat_add)

lemma sat_add_ge: "a \<le> sat_add a b" and sat_add_ge2: "b \<le> sat_add a b"
  using unat_lt [of a] unat_lt [of b] unfolding word_le_nat_alt unat_sat_add by linarith+

lemma unat_sat_add_exact:
  "unat a + unat b < 2 ^ LENGTH('a) \<Longrightarrow> unat (sat_add a b) = unat a + unat (b :: 'a::len word)"
  by (simp add: unat_sat_add)

lemma checked_add_Some:
  "checked_add a b = Some c \<longleftrightarrow> unat a + unat b < 2 ^ LENGTH('a) \<and> c = a + b"
  for a b c :: "'a::len word"
  by (auto simp: checked_add_def)

lemma checked_add_unat: "checked_add a b = Some c \<Longrightarrow> unat c = unat a + unat b"
  by (auto simp: checked_add_def unat_add_exact split: if_splits)

lemma checked_sub_Some: "checked_sub a b = Some c \<longleftrightarrow> b \<le> a \<and> c = a - b"
  by (auto simp: checked_sub_def)

lemma sat_sub_0 [simp]: "sat_sub a 0 = a" and sat_add_0 [simp]: "sat_add a 0 = a"
  and sat_sub_self [simp]: "sat_sub a a = 0"
  using unat_lt [of a] by (auto simp: sat_sub_def sat_add_def)

lemma unat_of_nat_exact: "n < 2 ^ LENGTH('a) \<Longrightarrow> unat (of_nat n :: 'a::len word) = n"
  by (simp add: unsigned_of_nat take_bit_nat_eq_self)

lemma unat_div' [unat_simps]: "unat (a div b) = unat a div unat b"
  by (rule unat_div)

text \<open>Widening casts (\<open>as u128\<close>) keep the value.\<close>

lemma unat_ucast_up:
  "LENGTH('a) \<le> LENGTH('b) \<Longrightarrow> unat (ucast (x :: 'a::len word) :: 'b::len word) = unat x"
proof -
  assume "LENGTH('a) \<le> LENGTH('b)"
  then have "unat x < 2 ^ LENGTH('b)"
    using unat_lt [of x] by (meson order_less_le_trans one_le_numeral power_increasing)
  then show ?thesis
    by (simp add: unsigned_ucast_eq take_bit_nat_eq_self)
qed

lemma unat_ucast_u64_u128 [simp, unat_simps]: "unat (ucast (x :: u64) :: u128) = unat x"
  by (simp add: unat_ucast_up)

section \<open>List idioms of the code\<close>

text \<open>
  \<open>update_first P f xs\<close> is \<open>if let Some(x) = xs.iter_mut().find(P) { f(x) }\<close>: the
  first element that satisfies \<open>P\<close> is mutated in place, nothing else changes.
\<close>

fun update_first :: "('a \<Rightarrow> bool) \<Rightarrow> ('a \<Rightarrow> 'a) \<Rightarrow> 'a list \<Rightarrow> 'a list" where
  "update_first P f [] = []"
| "update_first P f (x # xs) = (if P x then f x # xs else x # update_first P f xs)"

lemma length_update_first [simp]: "length (update_first P f xs) = length xs"
  by (induction xs) auto

lemma update_first_id [simp]: "find P xs = None \<Longrightarrow> update_first P f xs = xs"
  by (induction xs) (auto split: if_splits)

lemma map_update_first [upd_simps]:
  "(\<And>x. g (f x) = g x) \<Longrightarrow> map g (update_first P f xs) = map g xs"
  by (induction xs) auto

lemma find_SomeD: "find P xs = Some x \<Longrightarrow> x \<in> set xs \<and> P x"
  by (induction xs) (auto split: if_splits)

lemma update_first_decomp:
  assumes "find P xs = Some x"
  obtains ys zs where "xs = ys @ x # zs" "P x" "\<forall>y\<in>set ys. \<not> P y"
    "update_first P f xs = ys @ f x # zs"
proof -
  have "\<exists>ys zs. xs = ys @ x # zs \<and> P x \<and> (\<forall>y\<in>set ys. \<not> P y) \<and>
          update_first P f xs = ys @ f x # zs"
    using assms
  proof (induction xs)
    case (Cons a xs)
    show ?case
    proof (cases "P a")
      case True
      then show ?thesis using Cons.prems by (intro exI [of _ "[]"] exI [of _ xs]) auto
    next
      case False
      then obtain ys zs where "xs = ys @ x # zs" "P x" "\<forall>y\<in>set ys. \<not> P y"
          "update_first P f xs = ys @ f x # zs"
        using Cons by auto
      then show ?thesis using False by (intro exI [of _ "a # ys"] exI [of _ zs]) auto
    qed
  qed simp
  then show thesis using that by blast
qed

lemma set_update_first: "x \<in> set (update_first P f xs) \<Longrightarrow> x \<in> set xs \<or> (\<exists>y\<in>set xs. P y \<and> x = f y)"
  by (induction xs) (auto split: if_splits)

lemma set_update_first_find:
  "find P xs = Some y \<Longrightarrow> x \<in> set (update_first P f xs) \<Longrightarrow> x \<in> set xs \<or> x = f y"
  by (induction xs) (auto split: if_splits)

lemma list_all_update_first:
  assumes "list_all Q xs" "\<And>x. x \<in> set xs \<Longrightarrow> P x \<Longrightarrow> Q x \<Longrightarrow> Q (f x)"
  shows "list_all Q (update_first P f xs)"
  using assms by (fastforce simp: list_all_iff dest: set_update_first)

lemma list_all_update_first_find:
  assumes "list_all Q xs" "\<And>x. find P xs = Some x \<Longrightarrow> Q x \<Longrightarrow> Q (f x)"
  shows "list_all Q (update_first P f xs)"
proof (cases "find P xs")
  case (Some x)
  then have "Q (f x)" using assms by (auto simp: list_all_iff dest: find_SomeD)
  then show ?thesis
    using assms(1) set_update_first_find [OF Some] by (fastforce simp: list_all_iff)
qed (use assms in simp)

lemma keys_update_first:
  assumes "\<And>x. f (g x) = f x" "\<And>x. P (g x) \<Longrightarrow> P x"
  shows "set (map f (filter P (update_first Q g xs))) \<subseteq> set (map f (filter P xs))"
proof
  fix k assume "k \<in> set (map f (filter P (update_first Q g xs)))"
  then obtain x where x: "x \<in> set (update_first Q g xs)" "P x" "k = f x" by auto
  from set_update_first [OF x(1)] show "k \<in> set (map f (filter P xs))"
    using x assms by (auto intro: rev_image_eqI)
qed

lemma distinct_keys_update_first:
  assumes "\<And>x. f (g x) = f x" "\<And>x. P (g x) \<Longrightarrow> P x"
  shows "distinct (map f (filter P xs)) \<Longrightarrow> distinct (map f (filter P (update_first Q g xs)))"
proof (induction xs)
  case (Cons a xs)
  let ?u = "map f (filter P (update_first Q g xs))"
  have sub: "set ?u \<subseteq> set (map f (filter P xs))"
    by (rule keys_update_first) (fact assms)+
  have tl: "distinct (map f (filter P xs))" "P a \<Longrightarrow> f a \<notin> set (map f (filter P xs))"
    using Cons.prems by (simp_all split: if_splits)
  show ?case
  proof (cases "Q a")
    case True
    then show ?thesis using tl assms(2) [of a] by (simp add: assms(1))
  next
    case False
    have "P a \<Longrightarrow> f a \<notin> set ?u" using sub tl(2) by blast
    then show ?thesis using False Cons.IH [OF tl(1)] by simp
  qed
qed simp

lemma find_update_first_same:
  "find P xs = Some x \<Longrightarrow> P (f x) \<Longrightarrow> find P (update_first P f xs) = Some (f x)"
  by (induction xs) (auto split: if_splits)

lemma find_update_first_other:
  "(\<And>x. P x \<Longrightarrow> \<not> Q x) \<Longrightarrow> (\<And>x. P x \<Longrightarrow> \<not> Q (f x)) \<Longrightarrow> find Q (update_first P f xs) = find Q xs"
  by (induction xs) auto

lemma find_snoc:
  "find P (xs @ [x]) = (case find P xs of None \<Rightarrow> if P x then Some x else None | Some y \<Rightarrow> Some y)"
  by (induction xs) auto

text \<open>Rows looked up by a key: a mutation of the row with key \<open>k\<close> is a map update at \<open>k\<close>.\<close>

lemma find_key_update_first:
  assumes "\<And>x. key x = k \<Longrightarrow> key (f x) = k"
  shows "find (\<lambda>x. key x = q) (update_first (\<lambda>x. key x = k) f xs)
       = (if q = k then map_option f (find (\<lambda>x. key x = q) xs) else find (\<lambda>x. key x = q) xs)"
  using assms by (induction xs) auto

lemma find_None_iff2: "find P xs = None \<longleftrightarrow> (\<forall>x\<in>set xs. \<not> P x)"
  by (induction xs) auto

lemma find_key_unique:
  "distinct (map key xs) \<Longrightarrow> x \<in> set xs \<Longrightarrow> find (\<lambda>y. key y = key x) xs = Some x"
  by (induction xs) (auto simp: rev_image_eqI)

lemma sum_list_update_first:
  assumes "find P xs = Some x"
  shows "sum_list (map g (update_first P f xs)) + g x = sum_list (map g xs) + (g (f x) :: nat)"
  using assms by (induction xs) (auto split: if_splits)

lemma sum_list_filter_update_first:
  assumes "find P xs = Some x" "\<And>y. P y \<Longrightarrow> Q (f y) = Q y"
  shows "sum_list (map g (filter Q (update_first P f xs))) + (if Q x then g x else 0)
         = sum_list (map g (filter Q xs)) + (if Q x then g (f x) else (0::nat))"
  using assms by (induction xs) (auto split: if_splits)

lemma sum_list_filter_partition:
  "sum_list (map g (filter P xs)) + sum_list (map g (filter (\<lambda>x. \<not> P x) xs))
   = sum_list (map (g :: 'a \<Rightarrow> nat) xs)"
  by (induction xs) auto

lemma sum_list_elem_le: "x \<in> set xs \<Longrightarrow> g x \<le> sum_list (map (g :: 'a \<Rightarrow> nat) xs)"
  by (simp add: member_le_sum_list)

lemma not_distinct_map:
  "x \<in> set xs \<Longrightarrow> y \<in> set xs \<Longrightarrow> x \<noteq> y \<Longrightarrow> g x = g y \<Longrightarrow> \<not> distinct (map g xs)"
  by (auto simp: distinct_map inj_on_def)

text \<open>\<open>position\<close>: the index of the first element that satisfies a predicate.\<close>

fun find_index :: "('a \<Rightarrow> bool) \<Rightarrow> 'a list \<Rightarrow> nat option" where
  "find_index P [] = None"
| "find_index P (x # xs) = (if P x then Some 0 else map_option Suc (find_index P xs))"

lemma find_index_SomeD:
  "find_index P xs = Some i \<Longrightarrow> i < length xs \<and> P (xs ! i)"
  by (induction xs arbitrary: i) (auto split: if_splits)

text \<open>The wrapping \<open>iter().sum()\<close> of a list of words, and its value when it fits.\<close>

lemma unat_sum_list_exact:
  "sum_list (map unat xs) < 2 ^ LENGTH('a) \<Longrightarrow> unat (sum_list xs) = sum_list (map unat xs)"
  for xs :: "'a::len word list"
  by (induction xs) (auto simp: unat_add_exact)

section \<open>Byte strings\<close>

text \<open>ASCII literals such as \<open>b"acc/"\<close>.\<close>

definition ascii :: "string \<Rightarrow> bytes" where
  "ascii s = map of_char s"

text \<open>
  \<open>to_le_bytes\<close>, \<open>to_be_bytes\<close> and back.  \<open>le_bytes n w\<close> are the \<open>n\<close> low bytes of
  \<open>w\<close>, least significant first.
\<close>

primrec le_bytes :: "nat \<Rightarrow> 'a::len word \<Rightarrow> bytes" where
  "le_bytes 0 w = []"
| "le_bytes (Suc n) w = ucast w # le_bytes n (drop_bit 8 w)"

fun of_le_bytes :: "bytes \<Rightarrow> 'a::len word" where
  "of_le_bytes [] = 0"
| "of_le_bytes (b # bs) = ucast b OR push_bit 8 (of_le_bytes bs)"

definition be_bytes :: "nat \<Rightarrow> 'a::len word \<Rightarrow> bytes" where
  "be_bytes n w = rev (le_bytes n w)"

definition of_be_bytes :: "bytes \<Rightarrow> 'a::len word" where
  "of_be_bytes bs = of_le_bytes (rev bs)"

definition id_bytes :: "hash \<Rightarrow> bytes" where
  "id_bytes w = be_bytes 32 w"

definition id_of_bytes :: "bytes \<Rightarrow> hash" where
  "id_of_bytes bs = of_be_bytes bs"

lemma length_le_bytes [simp]: "length (le_bytes n w) = n"
  by (induction n arbitrary: w) auto

lemma length_id_bytes [simp]: "length (id_bytes w) = 32"
  by (simp add: id_bytes_def be_bytes_def)

lemma of_le_bytes_le_bytes_take:
  "of_le_bytes (le_bytes n w) = take_bit (8 * n) (w :: 'a::len word)"
proof (induction n arbitrary: w)
  case (Suc n)
  have "of_le_bytes (le_bytes (Suc n) w)
      = (ucast (ucast w :: u8) :: 'a word) OR push_bit 8 (take_bit (8 * n) (drop_bit 8 w))"
    by (simp add: Suc)
  also have "\<dots> = take_bit (8 * Suc n) w"
    by (rule bit_eqI) (auto simp: bit_simps)
  finally show ?case .
qed simp

lemma of_le_bytes_le_bytes:
  "LENGTH('a) \<le> 8 * n \<Longrightarrow> of_le_bytes (le_bytes n w) = (w :: 'a::len word)"
  by (simp add: of_le_bytes_le_bytes_take take_bit_word_eq_self)

lemma id_of_bytes_id_bytes [simp]: "id_of_bytes (id_bytes w) = w"
  by (simp add: id_of_bytes_def id_bytes_def of_be_bytes_def be_bytes_def of_le_bytes_le_bytes)

lemma id_bytes_inject [simp]: "id_bytes v = id_bytes w \<longleftrightarrow> v = w"
  by (metis id_of_bytes_id_bytes)

lemma le_bytes_take_bit: "8 * n \<le> m \<Longrightarrow> le_bytes n (take_bit m w) = le_bytes n w"
proof (induction n arbitrary: m w)
  case (Suc n)
  have "ucast (take_bit m w) = (ucast w :: u8)"
    using Suc.prems by (intro bit_eqI) (auto simp: bit_simps)
  moreover have "le_bytes n (drop_bit 8 (take_bit m w)) = le_bytes n (drop_bit 8 w)"
    using Suc.prems Suc.IH [of "m - 8" "drop_bit 8 w"] by (simp add: drop_bit_take_bit)
  ultimately show ?case by simp
qed simp

lemma le_bytes_of_le_bytes:
  "8 * length bs \<le> LENGTH('a) \<Longrightarrow> le_bytes (length bs) (of_le_bytes bs :: 'a::len word) = bs"
proof (induction bs)
  case (Cons b bs)
  have "ucast (ucast b OR push_bit 8 (of_le_bytes bs) :: 'a word) = b"
    using Cons.prems by (intro bit_eqI) (auto simp: bit_simps)
  moreover have "drop_bit 8 (ucast b OR push_bit 8 (of_le_bytes bs) :: 'a word)
      = take_bit (LENGTH('a) - 8) (of_le_bytes bs)"
    using Cons.prems by (intro bit_eqI) (auto simp: bit_simps dest: bit_imp_le_length)
  moreover have "le_bytes (length bs) (take_bit (LENGTH('a) - 8) (of_le_bytes bs :: 'a word)) = bs"
    using Cons by (simp add: le_bytes_take_bit)
  ultimately show ?case by simp
qed simp

lemma id_bytes_id_of_bytes: "length bs = 32 \<Longrightarrow> id_bytes (id_of_bytes bs) = bs"
  using le_bytes_of_le_bytes [of "rev bs", where 'a = 256]
  by (simp add: id_bytes_def id_of_bytes_def be_bytes_def of_be_bytes_def)

lemma le_bytes_inject:
  "LENGTH('a) \<le> 8 * n \<Longrightarrow> le_bytes n v = le_bytes n w \<longleftrightarrow> v = (w :: 'a::len word)"
  by (metis of_le_bytes_le_bytes)

section \<open>A concrete codec\<close>

text \<open>
  The borsh and JSON codecs are parameters of the model, about which only the round trip is
  assumed.  For a countable type this codec has that property: it shows that the assumption can
  be met, and concrete runs of the model use it.
\<close>

definition sample_enc :: "'a::countable \<Rightarrow> bytes" where
  "sample_enc x = replicate (to_nat x) 0"

definition sample_dec :: "bytes \<Rightarrow> 'a::countable" where
  "sample_dec b = from_nat (length b)"

lemma sample_dec_enc [simp]: "sample_dec (sample_enc x) = x"
  by (simp add: sample_enc_def sample_dec_def)

lemma countable_by:
  fixes f :: "'a \<Rightarrow> 'b::countable"
  assumes "\<And>x y. f x = f y \<Longrightarrow> x = y"
  shows "\<exists>g :: 'a \<Rightarrow> nat. inj g"
  using assms by (intro exI [of _ "to_nat \<circ> f"]) (auto simp: inj_def)

section \<open>Tables with a counter\<close>

lemma distinct_map_of_nat:
  "n \<le> 2 ^ LENGTH('a) \<Longrightarrow> distinct (map (of_nat :: nat \<Rightarrow> 'a::len word) [0..<n])"
  by (auto simp: distinct_map inj_on_def word_of_nat_eq_iff take_bit_nat_eq_self)

text \<open>
  Several contracts keep a vector of records and a counter: an operation either appends a record
  that carries the counter's value and advances the counter, or changes records without touching
  their identifiers.  That is the contract of \<open>counter_table\<close>; its lemmas say what follows for
  every reachable state, the wrap-around of the counter included.
\<close>

locale counter_table =
  fixes key :: "'r \<Rightarrow> 'a::len word"
    and rows :: "'s \<Rightarrow> 'r list"
    and next_key :: "'s \<Rightarrow> 'a word"
    and init :: 's
    and trans :: "'s \<Rightarrow> 's \<Rightarrow> bool"
  assumes init_rows: "rows init = []" and init_key: "next_key init = 0"
    and trans_rows: "trans s s' \<Longrightarrow>
      (\<exists>r. rows s' = rows s @ [r] \<and> key r = next_key s \<and> next_key s' = next_key s + 1) \<or>
      (map key (rows s') = map key (rows s) \<and> next_key s' = next_key s)"
begin

lemma keys_counted:
  "trans\<^sup>*\<^sup>* init s \<Longrightarrow>
   map key (rows s) = map of_nat [0..<length (rows s)] \<and> next_key s = of_nat (length (rows s))"
proof (induction rule: rtranclp_induct)
  case base
  show ?case by (simp add: init_rows init_key)
next
  case (step s s')
  from trans_rows [OF step(2)] show ?case
  proof
    assume "\<exists>r. rows s' = rows s @ [r] \<and> key r = next_key s \<and> next_key s' = next_key s + 1"
    then show ?thesis using step.IH by auto
  next
    assume k: "map key (rows s') = map key (rows s) \<and> next_key s' = next_key s"
    then have "length (rows s') = length (rows s)" by (metis length_map)
    then show ?thesis using step.IH k by simp
  qed
qed

lemma keys_distinct:
  "trans\<^sup>*\<^sup>* init s \<Longrightarrow> length (rows s) \<le> 2 ^ LENGTH('a) \<Longrightarrow> distinct (map key (rows s))"
  using keys_counted distinct_map_of_nat by metis

lemma rows_grow: "trans s s' \<Longrightarrow> length (rows s) \<le> length (rows s')"
  using trans_rows [of s s'] by (auto dest: arg_cong [of _ _ length])

lemma key_persists: "trans s s' \<Longrightarrow> i \<in> set (map key (rows s)) \<Longrightarrow> i \<in> set (map key (rows s'))"
  using trans_rows [of s s'] by (auto simp flip: set_map)

lemma find_by_key:
  "trans\<^sup>*\<^sup>* init s \<Longrightarrow> length (rows s) \<le> 2 ^ LENGTH('a) \<Longrightarrow> r \<in> set (rows s) \<Longrightarrow>
   find (\<lambda>x. key x = key r) (rows s) = Some r"
  by (simp add: find_key_unique keys_distinct)

end

section \<open>Keyed records and their history\<close>

text \<open>
  Contracts whose calls each concern one record of a table, looked up by a key.  A client states
  what must hold of a record relative to the calls made so far (\<open>rec_ok\<close>), which calls concern a
  key for good (\<open>touch\<close>), and promises that a call that does not touch the key keeps the record's
  condition.  The lemmas reduce the preservation of the condition for the whole table to the one
  record a call changes or creates.
\<close>

locale keyed_history =
  fixes look :: "'s \<Rightarrow> 'k \<Rightarrow> 'r option"
    and rec_ok :: "'e list \<Rightarrow> 'k \<Rightarrow> 'r \<Rightarrow> bool"
    and touch :: "'k \<Rightarrow> 'e \<Rightarrow> bool"
  assumes rec_mono: "rec_ok es k r \<Longrightarrow> \<not> touch k ev \<Longrightarrow> rec_ok (es @ [ev]) k r"
begin

definition hist_inv :: "'s \<Rightarrow> 'e list \<Rightarrow> bool" where
  "hist_inv s es \<longleftrightarrow>
     (\<forall>k. case look s k of None \<Rightarrow> filter (touch k) es = [] | Some r \<Rightarrow> rec_ok es k r)"

lemma hist_Some: "hist_inv s es \<Longrightarrow> look s k = Some r \<Longrightarrow> rec_ok es k r"
  by (auto simp: hist_inv_def dest: spec [of _ k])

lemma hist_None: "hist_inv s es \<Longrightarrow> look s k = None \<Longrightarrow> filter (touch k) es = []"
  by (auto simp: hist_inv_def dest: spec [of _ k])

lemma hist_touched: "hist_inv s es \<Longrightarrow> ev \<in> set es \<Longrightarrow> touch k ev \<Longrightarrow> \<exists>r. look s k = Some r"
  using hist_None by (fastforce simp: filter_empty_conv)

lemma hist_invI:
  assumes "\<And>k. look s k = None \<Longrightarrow> filter (touch k) es = []"
    "\<And>k r. look s k = Some r \<Longrightarrow> rec_ok es k r"
  shows "hist_inv s es"
  using assms by (auto simp: hist_inv_def split: option.splits)

lemma hist_start: "(\<And>k. look s k = None) \<Longrightarrow> hist_inv s []"
  by (simp add: hist_inv_def)

lemma hist_change:
  assumes inv: "hist_inv s es"
    and same: "\<And>q. q \<notin> K \<Longrightarrow> look s' q = look s q" "\<And>q. q \<notin> K \<Longrightarrow> \<not> touch q ev"
    and new: "\<And>k. k \<in> K \<Longrightarrow> \<exists>r. look s' k = Some r \<and> rec_ok (es @ [ev]) k r"
  shows "hist_inv s' (es @ [ev])"
proof (rule hist_invI)
  fix q assume q: "look s' q = None"
  then have "q \<notin> K" using new by fastforce
  then show "filter (touch q) (es @ [ev]) = []"
    using same q hist_None [OF inv, of q] by simp
next
  fix q r assume r: "look s' q = Some r"
  show "rec_ok (es @ [ev]) q r"
  proof (cases "q \<in> K")
    case True
    then show ?thesis using new r by fastforce
  next
    case False
    then show ?thesis using same r hist_Some [OF inv, of q r] rec_mono by simp
  qed
qed

lemma hist_update:
  assumes "hist_inv s es" "look s k = Some r"
    "\<And>q. look s' q = (if q = k then Some r' else look s q)"
    "\<And>q. q \<noteq> k \<Longrightarrow> \<not> touch q ev"
    "rec_ok es k r \<Longrightarrow> rec_ok (es @ [ev]) k r'"
  shows "hist_inv s' (es @ [ev])"
  using assms hist_Some [OF assms(1,2)] by (intro hist_change [of s es "{k}"]) auto

lemma hist_same:
  assumes "hist_inv s es" "\<And>q. look s' q = look s q" "\<And>q. \<not> touch q ev"
  shows "hist_inv s' (es @ [ev])"
  using assms by (intro hist_change [of s es "{}"]) auto

lemma hist_insert:
  assumes "hist_inv s es"
    "\<And>q. look s' q = (case look s q of None \<Rightarrow> if q = k then Some r else None | Some x \<Rightarrow> Some x)"
    "\<And>q. \<not> touch q ev" "filter (touch k) es = [] \<Longrightarrow> rec_ok (es @ [ev]) k r"
  shows "hist_inv s' (es @ [ev])"
proof (cases "look s k")
  case None
  then show ?thesis
    using assms hist_None [OF assms(1) None]
    by (intro hist_change [OF assms(1), of "{k}"]) (auto split: option.splits)
next
  case (Some x)
  then have "look s' q = look s q" for q using assms(2) [of q] by (auto split: option.splits)
  then show ?thesis using assms(1,3) by (intro hist_same)
qed

end

end
