(* ===== verification/Chain_Types.thy ===== *)
theory Chain_Types
  imports Solen_Prelude
begin

text \<open>
  The data types of \<open>crates/solen-types\<close>: accounts and their authentication
  methods (\<open>account.rs\<close>), user operations and their signing message
  (\<open>transaction.rs\<close>), and the reserved system addresses (\<open>system.rs\<close>).
  The JSON encoding of the actions (serde) and BLAKE3 are arguments of
  \<open>signing_message\<close>.
\<close>

section \<open>Accounts\<close>

datatype auth_method =
    Passkey (credential_id: bytes) (public_key_x: hash) (public_key_y: hash)
      (rp_id: string) (origins: "string list")
  | Ed25519 (public_key: hash)
  | Threshold (signers: "hash list") (auth_threshold: u16)
  | Guardian (guardian_id: account_id)
  | Session (session_key: hash) (expires_at: u64) (spending_limit: u128) (budget_total: u128)
      (allowed_targets: "account_id list") (allowed_methods: "string list")
      (restrict_subcalls: bool)
  | MlDsa (mldsa_public_key: bytes)
  | Hybrid (ed25519_public_key: hash) (hybrid_ml_dsa_public_key: bytes)

record account =
  acct_id :: account_id
  code_hash :: hash
  auth_methods :: "auth_method list"
  acct_nonce :: u64
  balance :: u128

instance auth_method :: countable
  by countable_datatype

instance account_ext :: (countable) countable
  by intro_classes (rule countable_by [of "\<lambda>r. (acct_id r, code_hash r, auth_methods r,
    acct_nonce r, balance r, account.more r)"], simp)

section \<open>User operations\<close>

datatype action =
    Transfer (transfer_to: account_id) (transfer_amount: u128)
  | Call (call_target: account_id) (call_method: string) (call_args: bytes)
  | Deploy (deploy_code: bytes) (deploy_salt: hash)
  | SetAuth (set_auth_methods: "auth_method list")

record user_operation =
  sender :: account_id
  nonce :: u64
  actions :: "action list"
  max_fee :: u128
  signature :: bytes

text \<open>\<open>UserOperation::signing_message\<close>; \<open>json\<close> is serde's encoding of the actions.\<close>

definition signing_message ::
  "(bytes \<Rightarrow> hash) \<Rightarrow> (action list \<Rightarrow> bytes) \<Rightarrow> user_operation \<Rightarrow> u64 \<Rightarrow> bytes" where
  "signing_message blake3 json op chain_id =
     le_bytes 8 chain_id @ id_bytes (sender op) @ le_bytes 8 (nonce op) @
     le_bytes 16 (max_fee op) @ id_bytes (blake3 (json (actions op)))"

section \<open>System addresses\<close>

definition addr :: "u8 \<Rightarrow> account_id" where
  "addr i = id_of_bytes (replicate 31 0xFF @ [i])"

definition "STAKING_ADDRESS = addr 0x01"
definition "GOVERNANCE_ADDRESS = addr 0x02"
definition "BRIDGE_ADDRESS = addr 0x03"
definition "TREASURY_ADDRESS = addr 0x04"
definition "INTENT_ADDRESS = addr 0x05"
definition "VESTING_ADDRESS = addr 0x06"
definition "PAYMASTER_REGISTRY_ADDRESS = addr 0x07"
definition "GUARDIAN_ADDRESS = addr 0x08"
definition "STAKING_POOL_ADDRESS = addr 0x10"
definition "ECOSYSTEM_FUND_ADDRESS = addr 0x20"
definition "COMMUNITY_ADDRESS = addr 0x21"
definition "LIQUIDITY_ADDRESS = addr 0x22"
definition "TEAM_POOL_ADDRESS = addr 0x23"
definition "INVESTOR_POOL_ADDRESS = addr 0x24"

definition is_system_contract :: "account_id \<Rightarrow> bool" where
  "is_system_contract i \<longleftrightarrow> take 30 (id_bytes i) = replicate 30 0xFF"

definition ALL_SYSTEM_ADDRESSES :: "account_id list" where
  "ALL_SYSTEM_ADDRESSES = [STAKING_ADDRESS, GOVERNANCE_ADDRESS, BRIDGE_ADDRESS, TREASURY_ADDRESS,
     INTENT_ADDRESS, VESTING_ADDRESS, PAYMASTER_REGISTRY_ADDRESS, GUARDIAN_ADDRESS]"

lemmas address_defs =
  STAKING_ADDRESS_def GOVERNANCE_ADDRESS_def BRIDGE_ADDRESS_def TREASURY_ADDRESS_def
  INTENT_ADDRESS_def VESTING_ADDRESS_def PAYMASTER_REGISTRY_ADDRESS_def GUARDIAN_ADDRESS_def
  STAKING_POOL_ADDRESS_def ECOSYSTEM_FUND_ADDRESS_def COMMUNITY_ADDRESS_def
  LIQUIDITY_ADDRESS_def TEAM_POOL_ADDRESS_def INVESTOR_POOL_ADDRESS_def

lemma id_bytes_addr: "id_bytes (addr i) = replicate 31 0xFF @ [i]"
  by (simp add: addr_def id_bytes_id_of_bytes)

lemma addr_inject [simp]: "addr i = addr j \<longleftrightarrow> i = j"
  by (metis append1_eq_conv id_bytes_addr)

lemma is_system_contract_addr [simp]: "is_system_contract (addr i)"
  by (simp add: is_system_contract_def id_bytes_addr numeral_eq_Suc)

lemma hd_id_bytes: "hd (id_bytes w) = ucast (drop_bit 248 w)"
  by (simp add: id_bytes_def be_bytes_def numeral_eq_Suc)

lemma system_contract_head: "is_system_contract i \<Longrightarrow> ucast (drop_bit 248 i) = (0xFF :: u8)"
  unfolding is_system_contract_def hd_id_bytes [symmetric]
  by (drule arg_cong [of _ _ hd]) (simp add: hd_take)

lemma small_not_system [simp]:
  "\<not> is_system_contract 0" "\<not> is_system_contract 1" "\<not> is_system_contract 2"
  "\<not> is_system_contract 3" "\<not> is_system_contract 5" "\<not> is_system_contract 7"
  by (auto dest: system_contract_head)

lemma addr_not_small [simp]:
  "addr i \<noteq> 0" "addr i \<noteq> 1" "addr i \<noteq> 2" "addr i \<noteq> 3" "addr i \<noteq> 5" "addr i \<noteq> 7"
  using is_system_contract_addr [of i] by (auto simp del: is_system_contract_addr)

lemma signing_message_length: "length (signing_message blake3 json op chain_id) = 96"
  by (simp add: signing_message_def)

text \<open>
  The fixed layout makes the message unambiguous: two operations with one message
  agree on chain, sender, nonce and fee bound, and on the digest of their actions.
\<close>

lemma signing_message_fields:
  "signing_message blake3 json op c = signing_message blake3 json op' c' \<longleftrightarrow>
   c = c' \<and> sender op = sender op' \<and> nonce op = nonce op' \<and> max_fee op = max_fee op' \<and>
   blake3 (json (actions op)) = blake3 (json (actions op'))"
  by (auto simp: signing_message_def le_bytes_inject)

end
