(* ===== verification/Treasury.thy ===== *)
theory Treasury
  imports Chain_Types
begin

text \<open>
  The treasury contract, \<open>crates/solen-system-contracts/src/treasury.rs\<close>: fee
  collection with a burnt share, grants and their disbursement.  Proved here: the
  collected fees are the balance plus what was burnt plus what was granted, and a grant
  is disbursed at most once.
\<close>

datatype treasury_error = InsufficientBalance (treasury_have: u128) (treasury_need: u128)
  | Unauthorized | GrantNotFound

record grant =
  grant_id :: u64
  grant_recipient :: account_id
  grant_amount :: u128
  grant_description :: string
  disbursed :: bool

record treasury_contract =
  treasury_balance :: u128
  total_fees_collected :: u128
  total_burned :: u128
  total_grants_disbursed :: u128
  grants :: "grant list"
  next_grant_id :: u64

definition new_treasury :: treasury_contract where
  "new_treasury = \<lparr>treasury_balance = 0, total_fees_collected = 0, total_burned = 0,
     total_grants_disbursed = 0, grants = [], next_grant_id = 0\<rparr>"

definition collect_fee :: "treasury_contract \<Rightarrow> u128 \<Rightarrow> u128 \<Rightarrow> treasury_contract" where
  "collect_fee t amount burn =
     t\<lparr>treasury_balance := treasury_balance t + sat_sub amount burn,
       total_fees_collected := total_fees_collected t + amount,
       total_burned := total_burned t + burn\<rparr>"

definition create_grant ::
  "treasury_contract \<Rightarrow> account_id \<Rightarrow> u128 \<Rightarrow> string \<Rightarrow> treasury_error + (u64 \<times> treasury_contract)" where
  "create_grant t recipient amount desc =
     (if treasury_balance t < amount then Inl (InsufficientBalance (treasury_balance t) amount)
      else Inr (next_grant_id t,
             t\<lparr>next_grant_id := next_grant_id t + 1,
               grants := grants t @ [\<lparr>grant_id = next_grant_id t, grant_recipient = recipient,
                 grant_amount = amount, grant_description = desc, disbursed = False\<rparr>]\<rparr>))"

definition open_grant :: "u64 \<Rightarrow> grant \<Rightarrow> bool" where
  "open_grant i g \<longleftrightarrow> grant_id g = i \<and> \<not> disbursed g"

definition disburse_grant ::
  "treasury_contract \<Rightarrow> u64 \<Rightarrow> treasury_error + ((account_id \<times> u128) \<times> treasury_contract)" where
  "disburse_grant t i =
     (case find (open_grant i) (grants t) of
        None \<Rightarrow> Inl GrantNotFound
      | Some g \<Rightarrow>
          if treasury_balance t < grant_amount g
            then Inl (InsufficientBalance (treasury_balance t) (grant_amount g))
          else Inr ((grant_recipient g, grant_amount g),
             t\<lparr>treasury_balance := treasury_balance t - grant_amount g,
               total_grants_disbursed := total_grants_disbursed t + grant_amount g,
               grants := update_first (open_grant i) (\<lambda>g. g\<lparr>disbursed := True\<rparr>) (grants t)\<rparr>))"

section \<open>Histories\<close>

datatype treasury_event = Collected u128 u128 | Granted u64 | Disbursed u64 account_id u128

inductive treasury_step :: "treasury_contract \<Rightarrow> treasury_event \<Rightarrow> treasury_contract \<Rightarrow> bool" where
  collect: "burn \<le> amount \<Longrightarrow> treasury_step t (Collected amount burn) (collect_fee t amount burn)"
| create: "create_grant t r amt d = Inr (i, t') \<Longrightarrow> treasury_step t (Granted i) t'"
| disburse: "disburse_grant t i = Inr ((r, amt), t') \<Longrightarrow> treasury_step t (Disbursed i r amt) t'"

inductive treasury_run :: "treasury_contract \<Rightarrow> treasury_event list \<Rightarrow> bool" where
  start: "treasury_run new_treasury []"
| step: "treasury_run t es \<Longrightarrow> treasury_step t ev t' \<Longrightarrow> treasury_run t' (es @ [ev])"

fun fees :: "treasury_event \<Rightarrow> nat" where
  "fees (Collected amount burn) = unat amount"
| "fees _ = 0"

fun disburses :: "u64 \<Rightarrow> treasury_event \<Rightarrow> bool" where
  "disburses i (Disbursed j r amt) \<longleftrightarrow> i = j"
| "disburses i _ \<longleftrightarrow> False"

definition balanced :: "treasury_contract \<Rightarrow> treasury_event list \<Rightarrow> bool" where
  "balanced t es \<longleftrightarrow>
     unat (treasury_balance t) + unat (total_burned t) + unat (total_grants_disbursed t)
       = sum_list (map fees es) \<and>
     unat (total_fees_collected t) = sum_list (map fees es) \<and>
     unat (total_grants_disbursed t) = sum_list (map (unat \<circ> grant_amount) (filter disbursed (grants t)))"

lemma disburse_Inr:
  assumes "disburse_grant t i = Inr ((r, amt), t')"
  obtains g where "find (open_grant i) (grants t) = Some g" "amt = grant_amount g" "r = grant_recipient g"
    "amt \<le> treasury_balance t"
    "t' = t\<lparr>treasury_balance := treasury_balance t - amt,
            total_grants_disbursed := total_grants_disbursed t + amt,
            grants := update_first (open_grant i) (\<lambda>g. g\<lparr>disbursed := True\<rparr>) (grants t)\<rparr>"
  using assms by (auto simp: disburse_grant_def not_less split: option.splits if_splits)

lemma disbursed_sum_update:
  assumes "find (open_grant i) gs = Some g"
  shows "sum_list (map (unat \<circ> grant_amount) (filter disbursed (update_first (open_grant i) (\<lambda>g. g\<lparr>disbursed := True\<rparr>) gs)))
       = sum_list (map (unat \<circ> grant_amount) (filter disbursed gs)) + unat (grant_amount g)"
  using assms by (induction gs) (auto simp: open_grant_def split: if_splits)

lemma balanced_step:
  assumes "balanced t es" "treasury_step t ev t'" "sum_list (map fees (es @ [ev])) < 2 ^ 128"
  shows "balanced t' (es @ [ev])"
  using assms(2)
proof cases
  case (collect burn amount)
  have room: "sum_list (map fees es) + unat amount < 2 ^ 128" using assms(3) collect(1) by simp
  have le: "unat burn \<le> unat amount" using collect(3) by (simp add: word_le_nat_alt)
  note b = assms(1) [unfolded balanced_def]
  have "unat (treasury_balance t + sat_sub amount burn) = unat (treasury_balance t) + (unat amount - unat burn)"
  proof -
    have "unat (treasury_balance t) + unat (sat_sub amount burn) < 2 ^ 128"
      using b room le unfolding unat_sat_sub by linarith
    then show ?thesis using unat_add_exact [of "treasury_balance t" "sat_sub amount burn"]
      by (simp add: unat_sat_sub)
  qed
  moreover have "unat (total_fees_collected t + amount) = unat (total_fees_collected t) + unat amount"
    by (rule unat_add_exact) (use b room in simp)
  moreover have "unat (total_burned t + burn) = unat (total_burned t) + unat burn"
    by (rule unat_add_exact) (use b room le in simp)
  ultimately show ?thesis
    using b le collect(1,2) by (simp add: balanced_def collect_fee_def)
next
  case (create r amt d i)
  then show ?thesis using assms(1) by (auto simp: balanced_def create_grant_def split: if_splits)
next
  case (disburse i r amt)
  from disburse(2) show ?thesis
  proof (rule disburse_Inr)
    fix g
    assume g: "find (open_grant i) (grants t) = Some g" "amt = grant_amount g" "amt \<le> treasury_balance t"
      "t' = t\<lparr>treasury_balance := treasury_balance t - amt,
            total_grants_disbursed := total_grants_disbursed t + amt,
            grants := update_first (open_grant i) (\<lambda>g. g\<lparr>disbursed := True\<rparr>) (grants t)\<rparr>"
    note b = assms(1) [unfolded balanced_def]
    have le: "unat amt \<le> unat (treasury_balance t)" using g(3) by (simp add: word_le_nat_alt)
    have "unat (total_grants_disbursed t + amt) = unat (total_grants_disbursed t) + unat amt"
      by (rule unat_add_exact) (use b le assms(3) in simp)
    then show ?thesis
      using b le g(2,3) disbursed_sum_update [OF g(1)] disburse(1)
      by (simp add: balanced_def g(4) unat_sub_exact)
  qed
qed

lemma balanced_run: "treasury_run t es \<Longrightarrow> sum_list (map fees es) < 2 ^ 128 \<Longrightarrow> balanced t es"
proof (induction rule: treasury_run.induct)
  case start
  show ?case by (simp add: balanced_def new_treasury_def)
next
  case (step t es ev t')
  then have "balanced t es" by simp
  then show ?case using step.hyps(2) step.prems by (rule balanced_step)
qed

text \<open>The grants are a table with a counter.\<close>

interpretation grant_table: counter_table grant_id grants next_grant_id new_treasury
  "\<lambda>t t'. \<exists>ev. treasury_step t ev t'"
proof (unfold_locales, goal_cases)
  case (3 t t')
  then obtain ev where "treasury_step t ev t'" by blast
  then show ?case
    by (cases rule: treasury_step.cases)
       (auto simp: collect_fee_def create_grant_def map_update_first split: if_splits elim!: disburse_Inr)
qed (simp_all add: new_treasury_def)

lemma run_grants: "treasury_run t es \<Longrightarrow> (\<lambda>t t'. \<exists>ev. treasury_step t ev t')\<^sup>*\<^sup>* new_treasury t"
  by (induction rule: treasury_run.induct) (auto intro: rtranclp.rtrancl_into_rtrancl)

section \<open>Properties\<close>

text \<open>Over any history of fee collections (with a burnt share no larger than the fee), grants and
  disbursements that fits in 128 bits, the collected fees are the treasury's balance plus the burnt
  amount plus the disbursed grants, the disbursed total is the sum of the grants marked disbursed,
  and the grant identifiers are distinct.\<close>

theorem treasury_balances:
  assumes "treasury_run t es" "sum_list (map fees es) < 2 ^ 128" "length (grants t) \<le> 2 ^ 64"
  shows "unat (total_fees_collected t) = unat (treasury_balance t) + unat (total_burned t) + unat (total_grants_disbursed t) \<and>
    unat (total_grants_disbursed t) = sum_list (map (unat \<circ> grant_amount) (filter disbursed (grants t))) \<and>
    distinct (map grant_id (grants t))"
  using balanced_run [OF assms(1,2)] grant_table.keys_distinct [OF run_grants [OF assms(1)]] assms(3)
  by (simp add: balanced_def)

theorem treasury_balances_witness:
  "\<exists>t es. treasury_run t es \<and> unat (treasury_balance t) = 20 \<and> unat (total_fees_collected t) = 100 \<and>
     unat (total_fees_collected t) = unat (treasury_balance t) + unat (total_burned t) + unat (total_grants_disbursed t)"
proof -
  let ?t1 = "collect_fee new_treasury 100 50"
  let ?g = "\<lambda>b. \<lparr>grant_id = 0, grant_recipient = 3, grant_amount = 30, grant_description = [], disbursed = b\<rparr>"
  let ?t2 = "?t1\<lparr>next_grant_id := 1, grants := [?g False]\<rparr>"
  let ?t3 = "?t2\<lparr>treasury_balance := 20, total_grants_disbursed := 30, grants := [?g True]\<rparr>"
  have c: "create_grant ?t1 3 30 [] = Inr (0, ?t2)"
    by (simp add: create_grant_def collect_fee_def new_treasury_def sat_sub_def)
  have d: "disburse_grant ?t2 0 = Inr ((3, 30), ?t3)"
    by (simp add: disburse_grant_def open_grant_def collect_fee_def new_treasury_def sat_sub_def)
  have r: "treasury_run ?t3 [Collected 100 50, Granted 0, Disbursed 0 3 30]"
    using treasury_run.step [OF treasury_run.step [OF treasury_run.step [OF treasury_run.start
          treasury_step.collect [of 50 100]] treasury_step.create [OF c]] treasury_step.disburse [OF d]]
    by simp
  show ?thesis
    using r treasury_balances [OF r]
    by (intro exI conjI) (assumption, simp_all add: collect_fee_def new_treasury_def)
qed

end
