(* ===== verification/Storage.thy ===== *)
theory Storage
  imports Chain_Types "HOL-Library.AList" "HOL-Library.List_Lexorder" "HOL-Library.Sublist"
    "HOL-Library.Multiset"
begin

text \<open>
  The state stores of the crate \<open>solen-storage\<close>: the sorted map that stands for
  \<open>BTreeMap\<close>, the in-memory store with its cached Merkle root (\<open>memory.rs\<close>), the
  copy-on-write overlay on which every block executes (\<open>overlay.rs\<close>), the default
  methods of the trait \<open>StateStore\<close> (\<open>traits.rs\<close>) and the incremental Merkle tree
  (\<open>merkle.rs\<close>).  The locale \<open>state_store\<close> is the contract of the trait; it is
  interpreted on the memory store and on the overlay, and carries the lemmas on
  batches, reverts and savepoints.  The hash function \<open>blake3\<close> is a parameter of
  the definitions that use it.
\<close>

section \<open>Sorted maps\<close>

text \<open>
  A \<open>BTreeMap\<close> is the list of its entries in the strictly ascending order of the keys.
  The functions on entry lists come first; the type of the sorted ones follows.
\<close>

definition bt_wf :: "('k::linorder \<times> 'v) list \<Rightarrow> bool" where
  "bt_wf m = sorted_wrt (<) (map fst m)"

fun ins_entry :: "'k::linorder \<Rightarrow> 'v \<Rightarrow> ('k \<times> 'v) list \<Rightarrow> ('k \<times> 'v) list" where
  "ins_entry k v [] = [(k, v)]"
| "ins_entry k v ((k', v') # m) =
     (if k < k' then (k, v) # (k', v') # m
      else if k = k' then (k, v) # m
      else (k', v') # ins_entry k v m)"

definition del_entry :: "'k \<Rightarrow> ('k \<times> 'v) list \<Rightarrow> ('k \<times> 'v) list" where
  "del_entry k m = filter (\<lambda>(k', _). k' \<noteq> k) m"

definition range_from :: "'k::linorder \<Rightarrow> ('k \<times> 'v) list \<Rightarrow> ('k \<times> 'v) list" where
  "range_from p m = dropWhile (\<lambda>(k, _). k < p) m"

definition prefix_entries :: "bytes \<Rightarrow> (bytes \<times> 'v) list \<Rightarrow> (bytes \<times> 'v) list" where
  "prefix_entries p m = takeWhile (\<lambda>(k, _). prefix p k) (range_from p m)"

lemma bt_wf_Nil [simp]: "bt_wf []"
  by (simp add: bt_wf_def)

lemma bt_wf_Cons [simp]:
  "bt_wf ((k, v) # m) \<longleftrightarrow> (\<forall>k' \<in> fst ` set m. k < k') \<and> bt_wf m"
  by (auto simp: bt_wf_def)

lemma bt_wf_distinct: "bt_wf m \<Longrightarrow> distinct (map fst m)"
  by (simp add: bt_wf_def strict_sorted_iff)

lemma keys_ins_entry: "fst ` set (ins_entry k v m) = insert k (fst ` set m)"
  by (induction k v m rule: ins_entry.induct) auto

lemma bt_wf_ins: "bt_wf m \<Longrightarrow> bt_wf (ins_entry k v m)"
  by (induction k v m rule: ins_entry.induct) (auto simp: keys_ins_entry)

lemma ins_entry_get:
  "bt_wf m \<Longrightarrow> map_of (ins_entry k v m) k' = (if k' = k then Some v else map_of m k')"
proof (induction k v m rule: ins_entry.induct)
  case (2 k v k0 v0 m)
  have "k' \<notin> fst ` set m" if "k' \<le> k0"
    using 2(2) that by fastforce
  then show ?case
    using 2 by (auto simp: map_of_eq_None_iff)
qed simp

lemma bt_wf_del: "bt_wf m \<Longrightarrow> bt_wf (del_entry k m)"
  by (induction m) (auto simp: del_entry_def)

lemma del_entry_get:
  "map_of (del_entry k m) k' = (if k' = k then None else map_of m k')"
  by (induction m) (auto simp: del_entry_def)

lemma entries_canonical:
  assumes "bt_wf m" "bt_wf m'" "map_of m = map_of m'"
  shows "m = m'"
proof -
  have d: "distinct (map fst m)" "distinct (map fst m')"
    using assms by (auto dest: bt_wf_distinct)
  have "set m = set m'"
    using map_of_inject_set [OF d] assms(3) by simp
  then have keys: "map fst m = map fst m'"
    using assms(1,2) unfolding bt_wf_def by (intro strict_sorted_equal) simp_all
  show ?thesis
  proof (rule nth_equalityI)
    show "length m = length m'" using keys by (rule map_eq_imp_length_eq)
  next
    fix i assume i: "i < length m"
    then have "fst (m ! i) = fst (m' ! i)" "i < length m'"
      using keys map_eq_imp_length_eq [OF keys] by (metis nth_map, simp)
    then obtain k v v' where e: "m ! i = (k, v)" "m' ! i = (k, v')"
      by (metis prod.collapse)
    then have "(k, v) \<in> set m" "(k, v') \<in> set m"
      using i \<open>i < length m'\<close> \<open>set m = set m'\<close> by (metis nth_mem)+
    then show "m ! i = m' ! i"
      using eq_key_imp_eq_value [OF d(1)] e by simp
  qed
qed

text \<open>Over byte-string keys the entries with a given prefix are contiguous.\<close>

lemma prefix_imp_le: "prefix p k \<Longrightarrow> p \<le> (k :: 'a::linorder list)"
  by (induction p arbitrary: k) (auto simp: prefix_def)

lemma prefix_interval:
  "p \<le> k \<Longrightarrow> k \<le> k' \<Longrightarrow> prefix p k' \<Longrightarrow> prefix p (k :: 'a::linorder list)"
proof (induction p arbitrary: k k')
  case (Cons a p)
  then obtain r where r: "k' = a # r" "prefix p r"
    by (cases k') auto
  moreover obtain b q where "k = b # q"
    using Cons.prems by (cases k) auto
  ultimately show ?case
    using Cons by (auto simp: order.strict_iff_order split: if_splits)
qed simp

lemma prefix_entries_filter:
  assumes "bt_wf m"
  shows "prefix_entries p m = filter (\<lambda>(k, _). prefix p k) m"
  using assms
proof (induction m)
  case (Cons e m)
  obtain k v where e: "e = (k, v)" by force
  show ?case
  proof (cases "k < p")
    case True
    then have "\<not> prefix p k" using prefix_imp_le leD by blast
    then show ?thesis
      using Cons True by (simp add: e prefix_entries_def range_from_def)
  next
    case False
    have rest: "range_from p m = m"
      using Cons.prems False unfolding range_from_def e
      by (cases m) fastforce+
    show ?thesis
    proof (cases "prefix p k")
      case True
      then show ?thesis
        using Cons False rest by (simp add: e prefix_entries_def range_from_def)
    next
      case np: False
      have "\<not> prefix p k'" if "k' \<in> fst ` set m" for k'
        using np False Cons.prems that prefix_interval [of p k k'] by (fastforce simp: e)
      then have "filter (\<lambda>(k, _). prefix p k) m = []"
        by (force simp: filter_empty_conv)
      then show ?thesis
        using np False by (simp add: e prefix_entries_def range_from_def)
    qed
  qed
qed (simp add: prefix_entries_def range_from_def)


typedef (overloaded) ('k::linorder, 'v) btree_map = "{m :: ('k \<times> 'v) list. bt_wf m}"
  morphisms bt_entries Abs_btree_map
  by (rule exI [of _ "[]"]) simp

setup_lifting type_definition_btree_map

lift_definition bt_empty :: "('k::linorder, 'v) btree_map" is "[]"
  by simp

lift_definition bt_insert :: "'k::linorder \<Rightarrow> 'v \<Rightarrow> ('k, 'v) btree_map \<Rightarrow> ('k, 'v) btree_map"
  is ins_entry by (rule bt_wf_ins)

lift_definition bt_remove :: "'k::linorder \<Rightarrow> ('k, 'v) btree_map \<Rightarrow> ('k, 'v) btree_map"
  is del_entry by (rule bt_wf_del)

lift_definition bt_get :: "('k::linorder, 'v) btree_map \<Rightarrow> 'k \<Rightarrow> 'v option" is map_of .

lift_definition bt_scan_prefix :: "bytes \<Rightarrow> (bytes, 'v) btree_map \<Rightarrow> (bytes \<times> 'v) list"
  is prefix_entries .

lift_definition bt_map :: "('k \<Rightarrow> 'v \<Rightarrow> 'w) \<Rightarrow> ('k::linorder, 'v) btree_map \<Rightarrow> ('k, 'w) btree_map"
  is "\<lambda>f. map (\<lambda>(k, v). (k, f k v))"
  by (simp add: bt_wf_def comp_def split_def)

lemma bt_get_empty [simp]: "bt_get bt_empty k = None"
  by transfer simp

lemma bt_get_insert [simp]: "bt_get (bt_insert k v m) = (bt_get m)(k \<mapsto> v)"
  by transfer (simp add: fun_eq_iff ins_entry_get)

lemma bt_get_remove [simp]: "bt_get (bt_remove k m) = (bt_get m)(k := None)"
  by transfer (simp add: fun_eq_iff del_entry_get)

lemma bt_get_map [simp]: "bt_get (bt_map f m) k = map_option (f k) (bt_get m k)"
proof transfer
  fix f :: "'k \<Rightarrow> 'v \<Rightarrow> 'w" and m :: "('k \<times> 'v) list" and k
  show "map_of (map (\<lambda>(k, v). (k, f k v)) m) k = map_option (f k) (map_of m k)"
    by (induction m) auto
qed

lemma bt_eqI: "bt_get m = bt_get m' \<Longrightarrow> m = m'"
  by transfer (rule entries_canonical)

lemma bt_map_insert: "bt_map f (bt_insert k v m) = bt_insert k (f k v) (bt_map f m)"
  by (rule bt_eqI) (auto simp: fun_eq_iff)

lemma bt_map_remove: "bt_map f (bt_remove k m) = bt_remove k (bt_map f m)"
  by (rule bt_eqI) (auto simp: fun_eq_iff)

lemma bt_insert_same: "bt_get m k = Some v \<Longrightarrow> bt_insert k v m = m"
  by (rule bt_eqI) auto

lemma map_of_entries [simp]: "map_of (bt_entries m) = bt_get m"
  by transfer simp

lemma distinct_entries [simp]: "distinct (map fst (bt_entries m))"
  by transfer (rule bt_wf_distinct)

lemma bt_scan_prefix_filter: "bt_scan_prefix p m = filter (\<lambda>(k, _). prefix p k) (bt_entries m)"
  by transfer (rule prefix_entries_filter)

lemma bt_entries_simps [simp]:
  "bt_entries bt_empty = []"
  "bt_entries (bt_insert k v m) = ins_entry k v (bt_entries m)"
  "bt_entries (bt_remove k m) = del_entry k (bt_entries m)"
  "bt_entries (bt_map f m) = map (\<lambda>(k, v). (k, f k v)) (bt_entries m)"
  by (transfer, simp)+

lemma bt_entries_empty_iff: "bt_entries m = [] \<longleftrightarrow> m = bt_empty"
  by transfer simp

section \<open>The trait \<open>StateStore\<close>\<close>

text \<open>
  \<open>HashMap<Vec<u8>, Option<Vec<u8>>>\<close>: an association list in the order in which the
  map happens to be iterated.  The lemmas below need only that its keys are distinct,
  so they hold for every iteration order.
\<close>

type_synonym change_set = "(bytes \<times> bytes option) list"

definition EAGER_REVERT_PREFIX :: bytes where
  "EAGER_REVERT_PREFIX = ascii ''__eager_revert__/''"

definition eager_revert_key :: "u64 \<Rightarrow> bytes" where
  "eager_revert_key height = EAGER_REVERT_PREFIX @ be_bytes 8 height"

text \<open>The default methods of the trait, over the methods an implementation supplies.\<close>

definition apply_batch_atomic ::
    "(bytes \<Rightarrow> bytes \<Rightarrow> 's \<Rightarrow> 's) \<Rightarrow> (bytes \<Rightarrow> 's \<Rightarrow> 's) \<Rightarrow> change_set \<Rightarrow> 's \<Rightarrow> 's" where
  "apply_batch_atomic put delete changes s =
     fold (\<lambda>(k, v) s. case v of Some val \<Rightarrow> put k val s | None \<Rightarrow> delete k s) changes s"

definition restore_full ::
    "('s \<Rightarrow> (bytes \<times> bytes) list) \<Rightarrow> (bytes \<Rightarrow> bytes \<Rightarrow> 's \<Rightarrow> 's) \<Rightarrow> (bytes \<Rightarrow> 's \<Rightarrow> 's)
     \<Rightarrow> (bytes \<times> bytes) list \<Rightarrow> 's \<Rightarrow> 's" where
  "restore_full scan_all put delete snap_entries s =
     (let snap_keys = map fst snap_entries;
          s1 = fold (\<lambda>(k, _) s. if k \<in> set snap_keys then s else delete k s) (scan_all s) s
      in fold (\<lambda>(k, v) s. put k v s) snap_entries s1)"

definition clear_store ::
    "('s \<Rightarrow> (bytes \<times> bytes) list) \<Rightarrow> (bytes \<Rightarrow> 's \<Rightarrow> 's) \<Rightarrow> 's \<Rightarrow> 's" where
  "clear_store scan_all delete s = fold (\<lambda>k s. delete k s) (map fst (scan_all s)) s"

text \<open>
  The contract of the trait: what a \<open>get\<close> returns after a \<open>put\<close> and a \<open>delete\<close>.
\<close>

locale state_store =
  fixes get :: "'s \<Rightarrow> bytes \<Rightarrow> bytes option"
    and put :: "bytes \<Rightarrow> bytes \<Rightarrow> 's \<Rightarrow> 's"
    and delete :: "bytes \<Rightarrow> 's \<Rightarrow> 's"
  assumes get_put: "get (put k v s) = (get s)(k \<mapsto> v)"
    and get_delete: "get (delete k s) = (get s)(k := None)"
begin

lemma get_batch:
  assumes "distinct (map fst cs)"
  shows "get (apply_batch_atomic put delete cs s) k =
           (case map_of cs k of None \<Rightarrow> get s k | Some v \<Rightarrow> v)"
  using assms
proof (induction cs arbitrary: s)
  case (Cons c cs)
  obtain k0 v0 where c: "c = (k0, v0)" by force
  define s1 where "s1 = (case v0 of Some val \<Rightarrow> put k0 val s | None \<Rightarrow> delete k0 s)"
  have s1: "get s1 = (get s)(k0 := v0)"
    using Cons.prems by (auto simp: s1_def get_put get_delete split: option.split)
  have "apply_batch_atomic put delete (c # cs) s = apply_batch_atomic put delete cs s1"
    by (simp add: apply_batch_atomic_def c s1_def)
  moreover have "map_of cs k0 = None"
    using Cons.prems by (auto simp: c map_of_eq_None_iff)
  ultimately show ?case
    using Cons.IH [of s1] Cons.prems s1 by (auto simp: c split: option.split)
qed (simp add: apply_batch_atomic_def)

lemma batch_reverted:
  assumes "distinct (map fst cs)" "distinct (map fst r)"
    and "fst ` set cs \<subseteq> fst ` set r" and "\<And>k v. (k, v) \<in> set r \<Longrightarrow> v = get s k"
  shows "get (apply_batch_atomic put delete r (apply_batch_atomic put delete cs s)) = get s"
proof
  fix k
  show "get (apply_batch_atomic put delete r (apply_batch_atomic put delete cs s)) k = get s k"
  proof (cases "map_of r k")
    case None
    then have "map_of cs k = None"
      using assms(3) by (auto simp: map_of_eq_None_iff)
    then show ?thesis
      using assms(1,2) None by (simp add: get_batch)
  next
    case (Some v)
    then have "v = get s k"
      by (intro assms(4) map_of_SomeD)
    then show ?thesis
      using assms(1,2) Some by (simp add: get_batch)
  qed
qed

lemma fold_put:
  "distinct (map fst es) \<Longrightarrow>
     get (fold (\<lambda>(k, v) s. put k v s) es s) = get s ++ map_of es"
proof (induction es arbitrary: s)
  case (Cons e es)
  obtain k v where e: "e = (k, v)" by force
  have "map_of es k = None"
    using Cons.prems by (simp add: e map_of_eq_None_iff)
  then show ?case
    using Cons.IH [of "put k v s"] Cons.prems
    by (auto simp: e get_put map_add_def fun_eq_iff split: option.split)
qed simp

lemma fold_delete:
  "get (fold delete ks s) k = (if k \<in> set ks then None else get s k)"
  by (induction ks arbitrary: s) (auto simp: get_delete)

end

text \<open>A store whose contents can be enumerated.\<close>

locale scannable_store = state_store get put delete
  for get :: "'s \<Rightarrow> bytes \<Rightarrow> bytes option" and put delete +
  fixes scan_all :: "'s \<Rightarrow> (bytes \<times> bytes) list"
  assumes scan_all_get: "map_of (scan_all s) = get s"
begin

lemma scan_all_keys: "fst ` set (scan_all s) = dom (get s)"
  by (metis dom_map_of_conv_image_fst scan_all_get)

lemma get_restore_full:
  assumes "distinct (map fst es)"
  shows "get (restore_full scan_all put delete es s) = map_of es"
proof -
  let ?ks = "filter (\<lambda>k. k \<notin> fst ` set es) (map fst (scan_all s))"
  have f: "fold (\<lambda>(k, _) s. if k \<in> set (map fst es) then s else delete k s) xs s =
          fold delete (filter (\<lambda>k. k \<notin> fst ` set es) (map fst xs)) s"
    for xs :: "(bytes \<times> bytes) list" and s
    by (induction xs arbitrary: s) (simp_all add: split_beta)
  have g: "get (fold delete ?ks s) k = (if k \<in> fst ` set es then get s k else None)" for k
    using fold_delete [of ?ks s k] scan_all_keys [of s]
    by (auto simp: dom_def)
  have "get (fold (\<lambda>(k, v) s. put k v s) es (fold delete ?ks s)) =
          get (fold delete ?ks s) ++ map_of es"
    using fold_put assms by blast
  then show ?thesis
    unfolding restore_full_def Let_def f
    by (auto simp: fun_eq_iff g map_add_def map_of_eq_None_iff eq_commute [of None]
        split: option.split)
qed

lemma get_clear_store: "get (clear_store scan_all delete s) k = None"
  using fold_delete [of "map fst (scan_all s)" s k] scan_all_keys [of s]
  by (auto simp: clear_store_def dom_def)

end

section \<open>The in-memory store\<close>

definition is_non_state_key :: "bytes \<Rightarrow> bool" where
  "is_non_state_key key \<longleftrightarrow>
     prefix (ascii ''block/'') key
     \<or> prefix (ascii ''__chain_meta__'') key
     \<or> prefix (ascii ''__chain_id__'') key
     \<or> prefix (ascii ''slash/'') key
     \<or> prefix (ascii ''source/'') key
     \<or> prefix (ascii ''__finalized_checkpoint__'') key
     \<or> prefix (ascii ''__last_attestation__'') key
     \<or> prefix EAGER_REVERT_PREFIX key"

definition hash_leaf :: "(bytes \<Rightarrow> hash) \<Rightarrow> bytes \<Rightarrow> bytes \<Rightarrow> hash" where
  "hash_leaf blake3 key val = blake3 (key @ val)"

text \<open>One pass of the pairing loop: an odd last element is promoted unchanged.\<close>

fun merkle_pairs :: "(bytes \<Rightarrow> hash) \<Rightarrow> hash list \<Rightarrow> hash list" where
  "merkle_pairs blake3 (a # b # current) =
     blake3 (id_bytes a @ id_bytes b) # merkle_pairs blake3 current"
| "merkle_pairs blake3 [a] = [a]"
| "merkle_pairs blake3 [] = []"

lemma length_merkle_pairs: "length (merkle_pairs blake3 xs) = (length xs + 1) div 2"
  by (induction blake3 xs rule: merkle_pairs.induct) auto

function merkle_loop :: "(bytes \<Rightarrow> hash) \<Rightarrow> hash list \<Rightarrow> hash" where
  "merkle_loop blake3 current =
     (if 1 < length current then merkle_loop blake3 (merkle_pairs blake3 current)
      else current ! 0)"
  by pat_completeness auto
termination
  by (relation "measure (\<lambda>(_, current). length current)") (auto simp: length_merkle_pairs)

declare merkle_loop.simps [simp del]

definition merkle_root :: "(bytes \<Rightarrow> hash) \<Rightarrow> hash list \<Rightarrow> hash" where
  "merkle_root blake3 leaves =
     (if leaves = [] then 0
      else if length leaves = 1 then leaves ! 0
      else merkle_loop blake3 leaves)"

record memory_store =
  mem_data :: "(bytes, bytes) btree_map"
  leaf_hashes :: "(bytes, hash) btree_map"
  tree_cache :: "hash option"

definition mem_new :: memory_store where
  "mem_new = \<lparr>mem_data = bt_empty, leaf_hashes = bt_empty, tree_cache = None\<rparr>"

definition mem_get :: "memory_store \<Rightarrow> bytes \<Rightarrow> bytes option" where
  "mem_get s key = bt_get (mem_data s) key"

definition invalidate :: "memory_store \<Rightarrow> memory_store" where
  "invalidate s = s\<lparr>tree_cache := None\<rparr>"

definition mem_put :: "(bytes \<Rightarrow> hash) \<Rightarrow> bytes \<Rightarrow> bytes \<Rightarrow> memory_store \<Rightarrow> memory_store" where
  "mem_put blake3 key val s =
     (let leaf_hash = hash_leaf blake3 key val;
          is_new_key = (bt_get (leaf_hashes s) key = None);
          value_changed = (case bt_get (leaf_hashes s) key of
                             Some h \<Rightarrow> h \<noteq> leaf_hash | None \<Rightarrow> True);
          s1 = s\<lparr>mem_data := bt_insert key val (mem_data s),
                 leaf_hashes := bt_insert key leaf_hash (leaf_hashes s)\<rparr>
      in if is_new_key then invalidate s1
         else if value_changed then invalidate s1
         else s1)"

definition mem_delete :: "bytes \<Rightarrow> memory_store \<Rightarrow> memory_store" where
  "mem_delete key s =
     (if bt_get (mem_data s) key \<noteq> None
      then invalidate (s\<lparr>mem_data := bt_remove key (mem_data s),
                         leaf_hashes := bt_remove key (leaf_hashes s)\<rparr>)
      else s)"

definition mem_leaves :: "memory_store \<Rightarrow> hash list" where
  "mem_leaves s = map snd (filter (\<lambda>(k, _). \<not> is_non_state_key k) (bt_entries (leaf_hashes s)))"

definition mem_state_root :: "(bytes \<Rightarrow> hash) \<Rightarrow> memory_store \<Rightarrow> hash" where
  "mem_state_root blake3 s =
     (case tree_cache s of
        Some root \<Rightarrow> root
      | None \<Rightarrow>
          if bt_entries (leaf_hashes s) = [] then 0
          else let leaves = mem_leaves s
               in if leaves = [] then 0 else merkle_root blake3 leaves)"

definition mem_commit_root :: "(bytes \<Rightarrow> hash) \<Rightarrow> memory_store \<Rightarrow> memory_store" where
  "mem_commit_root blake3 s =
     (if tree_cache s \<noteq> None then s
      else if bt_entries (leaf_hashes s) = [] then s\<lparr>tree_cache := Some 0\<rparr>
      else let leaves = mem_leaves s;
               root = (if leaves = [] then 0 else merkle_root blake3 leaves)
           in s\<lparr>tree_cache := Some root\<rparr>)"

definition mem_snapshot :: "memory_store \<Rightarrow> memory_store" where
  "mem_snapshot s = s\<lparr>tree_cache := None\<rparr>"

definition mem_len :: "memory_store \<Rightarrow> nat" where
  "mem_len s = length (bt_entries (mem_data s))"

definition mem_scan_prefix :: "memory_store \<Rightarrow> bytes \<Rightarrow> (bytes \<times> bytes) list" where
  "mem_scan_prefix s p = bt_scan_prefix p (mem_data s)"

definition mem_scan_all :: "memory_store \<Rightarrow> (bytes \<times> bytes) list" where
  "mem_scan_all s = bt_entries (mem_data s)"

definition mem_delete_prefix :: "bytes \<Rightarrow> memory_store \<Rightarrow> nat \<times> memory_store" where
  "mem_delete_prefix p s =
     (let keys_to_delete = map fst (bt_scan_prefix p (mem_data s));
          count = length keys_to_delete;
          s1 = fold (\<lambda>key s. s\<lparr>mem_data := bt_remove key (mem_data s),
                              leaf_hashes := bt_remove key (leaf_hashes s)\<rparr>)
                 keys_to_delete s
      in (count, if 0 < count then invalidate s1 else s1))"

text \<open>
  \<open>writable_snapshot\<close>, the trait's default: a memory store filled from the entries of
  the store it copies.
\<close>

definition writable_snapshot :: "(bytes \<Rightarrow> hash) \<Rightarrow> (bytes \<times> bytes) list \<Rightarrow> memory_store" where
  "writable_snapshot blake3 entries = fold (\<lambda>(k, v) mem. mem_put blake3 k v mem) entries mem_new"

text \<open>
  The invariant: the leaf hashes are the hashes of the entries,
  and a cached root is the root that a recomputation would give.
\<close>

definition leaf_map :: "(bytes \<Rightarrow> hash) \<Rightarrow> (bytes, bytes) btree_map \<Rightarrow> (bytes, hash) btree_map" where
  "leaf_map blake3 d = bt_map (hash_leaf blake3) d"

definition mem_inv :: "(bytes \<Rightarrow> hash) \<Rightarrow> memory_store \<Rightarrow> bool" where
  "mem_inv blake3 s \<longleftrightarrow>
     leaf_hashes s = leaf_map blake3 (mem_data s)
     \<and> (\<forall>root. tree_cache s = Some root \<longrightarrow> root = merkle_root blake3 (mem_leaves s))"

lemmas leaf_map_simps = leaf_map_def bt_map_insert bt_map_remove

lemmas mem_defs = mem_put_def mem_delete_def invalidate_def mem_leaves_def mem_get_def
  mem_commit_root_def mem_scan_all_def mem_scan_prefix_def

lemma bt_map_empty [simp]: "bt_map f bt_empty = bt_empty"
  by (rule bt_eqI) (simp add: fun_eq_iff)

lemma mem_inv_new: "mem_inv blake3 mem_new"
  by (simp add: mem_inv_def mem_new_def leaf_map_def)

lemma mem_inv_put: "mem_inv blake3 s \<Longrightarrow> mem_inv blake3 (mem_put blake3 k v s)"
  by (auto simp: mem_inv_def mem_put_def invalidate_def mem_leaves_def Let_def leaf_map_simps
      bt_insert_same simp del: bt_entries_simps split: option.splits)

lemma mem_inv_delete: "mem_inv blake3 s \<Longrightarrow> mem_inv blake3 (mem_delete k s)"
  by (auto simp: mem_inv_def mem_delete_def invalidate_def leaf_map_simps)

lemma mem_inv_commit_root: "mem_inv blake3 s \<Longrightarrow> mem_inv blake3 (mem_commit_root blake3 s)"
  by (auto simp: mem_inv_def mem_commit_root_def mem_leaves_def Let_def merkle_root_def)

lemma mem_inv_snapshot: "mem_inv blake3 s \<Longrightarrow> mem_inv blake3 (mem_snapshot s)"
  by (auto simp: mem_inv_def mem_snapshot_def)

lemma remove_keys:
  "fold (\<lambda>key s. s\<lparr>mem_data := bt_remove key (mem_data s),
                    leaf_hashes := bt_remove key (leaf_hashes s)\<rparr>) ks s =
     s\<lparr>mem_data := fold bt_remove ks (mem_data s),
       leaf_hashes := fold bt_remove ks (leaf_hashes s)\<rparr>"
  by (induction ks arbitrary: s) simp_all

lemma leaf_map_removes: "leaf_map blake3 (fold bt_remove ks d) = fold bt_remove ks (leaf_map blake3 d)"
  by (induction ks arbitrary: d) (simp_all add: leaf_map_simps)

lemma mem_inv_delete_prefix: "mem_inv blake3 s \<Longrightarrow> mem_inv blake3 (snd (mem_delete_prefix p s))"
  by (auto simp: mem_inv_def mem_delete_prefix_def Let_def remove_keys leaf_map_removes
      invalidate_def mem_leaves_def)

lemma mem_state_root_inv:
  "mem_inv blake3 s \<Longrightarrow> mem_state_root blake3 s = merkle_root blake3 (mem_leaves s)"
  by (auto simp: mem_inv_def mem_state_root_def Let_def merkle_root_def mem_leaves_def
      split: option.split)

lemma map_of_filter_key:
  "map_of (filter (\<lambda>(k, _). P k) xs) k = (if P k then map_of xs k else None)"
  by (induction xs) auto

lemma state_entries_determined:
  assumes "\<And>k. P k \<Longrightarrow> bt_get m k = bt_get m' k"
  shows "filter (\<lambda>(k, _). P k) (bt_entries m) = filter (\<lambda>(k, _). P k) (bt_entries m')"
proof -
  have *: "bt_wf (filter (\<lambda>(k, _). P k) (bt_entries m))" for m :: "('a, 'b) btree_map"
    using bt_entries [of m] sorted_wrt_filter [of "\<lambda>x y. fst x < fst y" "bt_entries m"]
    by (simp add: bt_wf_def sorted_wrt_map)
  show ?thesis
    using assms by (intro entries_canonical *) (auto simp: fun_eq_iff map_of_filter_key)
qed

lemma mem_leaves_entries:
  "mem_inv blake3 s \<Longrightarrow> mem_leaves s =
     map (\<lambda>(k, v). hash_leaf blake3 k v)
       (filter (\<lambda>(k, _). \<not> is_non_state_key k) (bt_entries (mem_data s)))"
  by (simp add: mem_inv_def mem_leaves_def leaf_map_def filter_map comp_def split_def)

lemma mem_state_root_determined:
  assumes "mem_inv blake3 s" "mem_inv blake3 s'"
    and "\<And>k. \<not> is_non_state_key k \<Longrightarrow> mem_get s k = mem_get s' k"
  shows "mem_state_root blake3 s = mem_state_root blake3 s'"
  using assms state_entries_determined [of "\<lambda>k. \<not> is_non_state_key k" "mem_data s" "mem_data s'"]
  by (simp add: mem_state_root_inv mem_leaves_entries mem_get_def)

lemma mem_get_put: "mem_get (mem_put blake3 k v s) = (mem_get s)(k \<mapsto> v)"
  by (auto simp: mem_get_def mem_put_def invalidate_def Let_def fun_eq_iff)

lemma mem_get_delete: "mem_get (mem_delete k s) = (mem_get s)(k := None)"
  by (auto simp: mem_get_def mem_delete_def invalidate_def fun_eq_iff)

lemma mem_get_commit_root [simp]: "mem_get (mem_commit_root blake3 s) = mem_get s"
  by (simp add: mem_get_def mem_commit_root_def Let_def fun_eq_iff)

lemma mem_get_new [simp]: "mem_get mem_new k = None"
  by (simp add: mem_get_def mem_new_def)

interpretation mem: scannable_store mem_get "mem_put blake3" mem_delete mem_scan_all
  for blake3
  by unfold_locales (auto simp: mem_get_put mem_get_delete mem_scan_all_def mem_get_def)

lemma bt_get_removes: "bt_get (fold bt_remove ks m) k = (if k \<in> set ks then None else bt_get m k)"
  by (induction ks arbitrary: m) auto

lemma mem_get_delete_prefix:
  "mem_get (snd (mem_delete_prefix p s)) k = (if prefix p k then None else mem_get s k)"
proof -
  have "k \<in> fst ` set (bt_scan_prefix p (mem_data s)) \<longleftrightarrow> prefix p k \<and> mem_get s k \<noteq> None"
    unfolding bt_scan_prefix_filter dom_map_of_conv_image_fst [symmetric] domIff map_of_filter_key
    by (simp add: mem_get_def)
  then show ?thesis
    by (auto simp: mem_delete_prefix_def Let_def remove_keys mem_get_def bt_get_removes
        invalidate_def)
qed

lemma mem_scan_prefix_get:
  "map_of (mem_scan_prefix s p) k = (if prefix p k then mem_get s k else None)"
  by (simp add: mem_scan_prefix_def bt_scan_prefix_filter mem_get_def map_of_filter_key)

section \<open>The overlay store\<close>

text \<open>
  The overlay borrows its base read-only; the borrow is an argument (\<open>base\<close>, a memory
  store) of the methods that read it.  \<open>HashSet\<close> is a list without duplicates, and
  inserting into a \<open>HashMap\<close> is \<open>AList.update\<close>.
\<close>

datatype savepoint = Delta change_set | Full memory_store

record overlay_store =
  ov_writes :: "(bytes, bytes) btree_map"
  ov_deletes :: "bytes list"

definition ov_new :: overlay_store where
  "ov_new = \<lparr>ov_writes = bt_empty, ov_deletes = []\<rparr>"

definition into_changes :: "overlay_store \<Rightarrow> change_set" where
  "into_changes s =
     (let changes = fold (\<lambda>(k, v) changes. AList.update k (Some v) changes)
                      (bt_entries (ov_writes s)) []
      in fold (\<lambda>k changes. AList.update k None changes) (ov_deletes s) changes)"

definition ov_get :: "memory_store \<Rightarrow> overlay_store \<Rightarrow> bytes \<Rightarrow> bytes option" where
  "ov_get base s key =
     (if key \<in> set (ov_deletes s) then None
      else case bt_get (ov_writes s) key of
             Some val \<Rightarrow> Some val
           | None \<Rightarrow> mem_get base key)"

definition ov_put :: "bytes \<Rightarrow> bytes \<Rightarrow> overlay_store \<Rightarrow> overlay_store" where
  "ov_put key val s =
     s\<lparr>ov_deletes := removeAll key (ov_deletes s),
       ov_writes := bt_insert key val (ov_writes s)\<rparr>"

definition ov_delete :: "bytes \<Rightarrow> overlay_store \<Rightarrow> overlay_store" where
  "ov_delete key s =
     s\<lparr>ov_writes := bt_remove key (ov_writes s),
       ov_deletes := List.insert key (ov_deletes s)\<rparr>"

definition ov_state_root :: "(bytes \<Rightarrow> hash) \<Rightarrow> memory_store \<Rightarrow> overlay_store \<Rightarrow> hash" where
  "ov_state_root blake3 base s = mem_state_root blake3 base"

definition ov_snapshot :: "(bytes \<Rightarrow> hash) \<Rightarrow> overlay_store \<Rightarrow> memory_store" where
  "ov_snapshot blake3 s =
     fold (\<lambda>(k, v) mem. mem_put blake3 k v mem) (bt_entries (ov_writes s)) mem_new"

definition ov_savepoint :: "overlay_store \<Rightarrow> savepoint" where
  "ov_savepoint s =
     Delta (let delta = fold (\<lambda>(k, v) delta. AList.update k (Some v) delta)
                          (bt_entries (ov_writes s)) []
            in fold (\<lambda>k delta. AList.update k None delta) (ov_deletes s) delta)"

definition ov_restore_savepoint :: "savepoint \<Rightarrow> overlay_store \<Rightarrow> overlay_store" where
  "ov_restore_savepoint sp s =
     (case sp of
        Delta delta \<Rightarrow>
          fold (\<lambda>(k, v) s. case v of
                  Some val \<Rightarrow> s\<lparr>ov_writes := bt_insert k val (ov_writes s)\<rparr>
                | None \<Rightarrow> s\<lparr>ov_deletes := List.insert k (ov_deletes s)\<rparr>)
            delta (s\<lparr>ov_writes := bt_empty, ov_deletes := []\<rparr>)
      | Full _ \<Rightarrow> s)"

definition ov_len :: "memory_store \<Rightarrow> overlay_store \<Rightarrow> nat" where
  "ov_len base s = mem_len base + length (bt_entries (ov_writes s))"

definition ov_scan_prefix :: "memory_store \<Rightarrow> overlay_store \<Rightarrow> bytes \<Rightarrow> (bytes \<times> bytes) list" where
  "ov_scan_prefix base s p =
     (let results = fold (\<lambda>(k, v) results. if k \<in> set (ov_deletes s) then results
                                           else bt_insert k v results)
                      (mem_scan_prefix base p) bt_empty;
          results = fold (\<lambda>(k, v) results. bt_insert k v results)
                      (bt_scan_prefix p (ov_writes s)) results
      in bt_entries results)"

definition ov_scan_all :: "memory_store \<Rightarrow> overlay_store \<Rightarrow> (bytes \<times> bytes) list" where
  "ov_scan_all base s =
     (let results = fold (\<lambda>(k, v) results. if k \<in> set (ov_deletes s) then results
                                           else bt_insert k v results)
                      (mem_scan_all base) bt_empty;
          results = fold (\<lambda>(k, v) results. bt_insert k v results)
                      (bt_entries (ov_writes s)) results
      in bt_entries results)"

definition ov_delete_prefix :: "bytes \<Rightarrow> overlay_store \<Rightarrow> nat \<times> overlay_store" where
  "ov_delete_prefix p s =
     (let keys = map fst (bt_scan_prefix p (ov_writes s))
      in (length keys,
          fold (\<lambda>k s. s\<lparr>ov_writes := bt_remove k (ov_writes s),
                        ov_deletes := List.insert k (ov_deletes s)\<rparr>) keys s))"

subsection \<open>What the overlay's methods compute\<close>

lemma ov_get_put [simp]: "ov_get base (ov_put k v s) = (ov_get base s)(k \<mapsto> v)"
  by (auto simp: ov_get_def ov_put_def fun_eq_iff)

lemma ov_get_delete [simp]: "ov_get base (ov_delete k s) = (ov_get base s)(k := None)"
  by (auto simp: ov_get_def ov_delete_def fun_eq_iff split: option.split)

lemma ov_get_new [simp]: "ov_get base ov_new = mem_get base"
  by (simp add: ov_get_def ov_new_def fun_eq_iff)

lemma map_of_rev_distinct: "distinct (map fst xs) \<Longrightarrow> map_of (rev xs) = map_of xs"
  by (subst map_of_inject_set) (simp_all add: rev_map [symmetric])

lemma fold_update_Some:
  "map_of (fold (\<lambda>(k, v) m. AList.update k (f v) m) xs m) k =
     (case map_of (rev xs) k of Some v \<Rightarrow> Some (f v) | None \<Rightarrow> map_of m k)"
  by (induction xs arbitrary: m) (auto simp: update_conv' map_add_def split: option.split)

lemma fold_update_None:
  "map_of (fold (\<lambda>k m. AList.update k c m) ks m) k = (if k \<in> set ks then Some c else map_of m k)"
  by (induction ks arbitrary: m) (auto simp: update_conv')

lemma distinct_fold_update:
  "distinct (map fst m) \<Longrightarrow> distinct (map fst (fold (\<lambda>e. AList.update (f e) (g e)) xs m))"
  by (induction xs arbitrary: m) (auto simp: distinct_update)

lemma distinct_into_changes [simp]: "distinct (map fst (into_changes s))"
  unfolding into_changes_def Let_def split_def by (intro distinct_fold_update) simp

lemma map_of_into_changes:
  "map_of (into_changes s) k =
     (if k \<in> set (ov_deletes s) then Some None else map_option Some (bt_get (ov_writes s) k))"
  by (simp add: map_of_rev_distinct into_changes_def Let_def fold_update_None fold_update_Some
      split: option.split)

lemma ov_get_changes:
  "ov_get base s k = (case map_of (into_changes s) k of None \<Rightarrow> mem_get base k | Some v \<Rightarrow> v)"
  by (auto simp: map_of_into_changes ov_get_def split: option.split)

lemma restore_fold:
  assumes "distinct (map fst delta)"
  shows "ov_get base (fold (\<lambda>(k, v) s. case v of
            Some val \<Rightarrow> s\<lparr>ov_writes := bt_insert k val (ov_writes s)\<rparr>
          | None \<Rightarrow> s\<lparr>ov_deletes := List.insert k (ov_deletes s)\<rparr>) delta s) k =
         (if k \<in> fst ` set delta \<and> k \<in> set (ov_deletes s) then None
          else case map_of delta k of None \<Rightarrow> ov_get base s k | Some v \<Rightarrow> v)"
  using assms
proof (induction delta arbitrary: s)
  case (Cons e delta)
  obtain k0 v0 where e: "e = (k0, v0)" by force
  have "map_of delta k0 = None"
    using Cons.prems by (simp add: e map_of_eq_None_iff)
  with Cons show ?case
    by (cases v0) (auto simp: e ov_get_def split: option.splits)
qed simp

lemma ov_get_restore:
  "ov_get base (ov_restore_savepoint (ov_savepoint s) s') = ov_get base s"
proof
  fix k
  have sp: "ov_savepoint s = Delta (into_changes s)"
    by (simp add: ov_savepoint_def into_changes_def)
  have "ov_get base (ov_restore_savepoint (ov_savepoint s) s') k =
          (case map_of (into_changes s) k of None \<Rightarrow> mem_get base k | Some v \<Rightarrow> v)"
    unfolding sp ov_restore_savepoint_def
    by (simp add: restore_fold) (simp add: ov_get_def cong: option.case_cong)
  then show "ov_get base (ov_restore_savepoint (ov_savepoint s) s') k = ov_get base s k"
    by (simp add: ov_get_changes)
qed

lemma fold_bt_insert:
  "bt_get (fold (\<lambda>(k, v) r. if P k then r else bt_insert k v r) xs r) k =
     (case map_of (rev xs) k of None \<Rightarrow> bt_get r k | Some v \<Rightarrow> if P k then bt_get r k else Some v)"
  by (induction xs arbitrary: r) (auto split: option.split)

lemma fold_bt_insert_all:
  "bt_get (fold (\<lambda>(k, v) r. bt_insert k v r) xs r) k =
     (case map_of (rev xs) k of None \<Rightarrow> bt_get r k | Some v \<Rightarrow> Some v)"
  using fold_bt_insert [of "\<lambda>_. False" xs r k] by (simp split: option.splits)

lemma distinct_filter_keys:
  "distinct (map fst xs) \<Longrightarrow> distinct (map fst (filter P xs))"
  by (induction xs) auto

lemma ov_scan_all_get: "map_of (ov_scan_all base s) k =
    (case bt_get (ov_writes s) k of
       Some v \<Rightarrow> Some v
     | None \<Rightarrow> if k \<in> set (ov_deletes s) then None else mem_get base k)"
  by (auto simp: ov_scan_all_def Let_def fold_bt_insert fold_bt_insert_all map_of_rev_distinct
      mem_scan_all_def mem_get_def split: option.split)

lemma ov_scan_prefix_get: "map_of (ov_scan_prefix base s p) k =
    (if prefix p k then map_of (ov_scan_all base s) k else None)"
  by (auto simp: ov_scan_all_get ov_scan_prefix_def Let_def fold_bt_insert fold_bt_insert_all
      map_of_rev_distinct bt_scan_prefix_filter mem_scan_prefix_def mem_get_def
      distinct_filter_keys map_of_filter_key split: option.split)

text \<open>
  No key is both written and deleted: kept by every method, and what makes the scans
  agree with the lookups.
\<close>

definition ov_inv :: "overlay_store \<Rightarrow> bool" where
  "ov_inv s \<longleftrightarrow> distinct (ov_deletes s) \<and> (\<forall>k \<in> set (ov_deletes s). bt_get (ov_writes s) k = None)"

lemma ov_inv_new: "ov_inv ov_new"
  by (simp add: ov_inv_def ov_new_def)

lemma ov_inv_put: "ov_inv s \<Longrightarrow> ov_inv (ov_put k v s)"
  by (auto simp: ov_inv_def ov_put_def distinct_removeAll)

lemma ov_inv_delete: "ov_inv s \<Longrightarrow> ov_inv (ov_delete k s)"
  by (auto simp: ov_inv_def ov_delete_def)

lemma ov_inv_restore_fold:
  "ov_inv s \<Longrightarrow> distinct (map fst delta) \<Longrightarrow>
   (\<forall>k \<in> fst ` set delta. k \<notin> set (ov_deletes s) \<and> bt_get (ov_writes s) k = None) \<Longrightarrow>
   ov_inv (fold (\<lambda>(k, v) s. case v of
            Some val \<Rightarrow> s\<lparr>ov_writes := bt_insert k val (ov_writes s)\<rparr>
          | None \<Rightarrow> s\<lparr>ov_deletes := List.insert k (ov_deletes s)\<rparr>) delta s)"
proof (induction delta arbitrary: s)
  case (Cons e delta)
  obtain k v where e: "e = (k, v)" by force
  define s1 where "s1 = (case v of
            Some val \<Rightarrow> s\<lparr>ov_writes := bt_insert k val (ov_writes s)\<rparr>
          | None \<Rightarrow> s\<lparr>ov_deletes := List.insert k (ov_deletes s)\<rparr>)"
  have "ov_inv s1" "\<forall>k \<in> fst ` set delta. k \<notin> set (ov_deletes s1) \<and> bt_get (ov_writes s1) k = None"
    using Cons.prems by (auto simp: s1_def e ov_inv_def split: option.split)
  then show ?case
    using Cons.IH [of s1] Cons.prems by (simp add: e s1_def)
qed simp

lemma ov_inv_restore: "ov_inv (ov_restore_savepoint (ov_savepoint s) s')"
  using ov_inv_restore_fold [of "s'\<lparr>ov_writes := bt_empty, ov_deletes := []\<rparr>" "into_changes s"]
  by (simp add: ov_restore_savepoint_def ov_savepoint_def into_changes_def [symmetric] ov_inv_def)

lemma ov_scan_all_inv: "ov_inv s \<Longrightarrow> map_of (ov_scan_all base s) = ov_get base s"
  by (auto simp: fun_eq_iff ov_scan_all_get ov_get_def ov_inv_def split: option.split)

interpretation overlay: state_store "ov_get base" ov_put ov_delete
  for base
  by unfold_locales simp_all

section \<open>The incremental Merkle tree\<close>

lemma right_half_shorter:
  "xs \<noteq> [] \<Longrightarrow> length xs \<noteq> Suc 0 \<Longrightarrow> length xs - length xs div 2 < length xs"
  by (cases xs; cases "tl xs") auto

function merkle_root_from_leaves :: "(bytes \<Rightarrow> hash) \<Rightarrow> hash list \<Rightarrow> hash" where
  "merkle_root_from_leaves blake3 leaves =
     (if length leaves = 0 then 0
      else if length leaves = 1 then leaves ! 0
      else let mid = length leaves div 2;
               left = merkle_root_from_leaves blake3 (take mid leaves);
               right = merkle_root_from_leaves blake3 (drop mid leaves)
           in blake3 (id_bytes left @ id_bytes right))"
  by pat_completeness auto
termination
  by (relation "measure (\<lambda>(_, leaves). length leaves)")
    (auto simp: right_half_shorter)

declare merkle_root_from_leaves.simps [simp del]

record incremental_merkle =
  root_hash :: "hash option"
  dirty :: bool
  im_entries :: "(bytes, hash) btree_map"
  dirty_keys :: "bytes list"

definition im_new :: incremental_merkle where
  "im_new = \<lparr>root_hash = Some 0, dirty = False, im_entries = bt_empty, dirty_keys = []\<rparr>"

definition im_insert ::
    "(bytes \<Rightarrow> hash) \<Rightarrow> bytes \<Rightarrow> bytes \<Rightarrow> incremental_merkle \<Rightarrow> incremental_merkle" where
  "im_insert blake3 key val m =
     (let value_hash = blake3 (key @ val);
          prev = bt_get (im_entries m) key;
          m1 = m\<lparr>im_entries := bt_insert key value_hash (im_entries m)\<rparr>
      in if (case prev of Some h \<Rightarrow> h \<noteq> value_hash | None \<Rightarrow> True)
         then m1\<lparr>dirty := True, dirty_keys := dirty_keys m @ [key]\<rparr>
         else m1)"

definition im_remove :: "bytes \<Rightarrow> incremental_merkle \<Rightarrow> incremental_merkle" where
  "im_remove key m =
     (if bt_get (im_entries m) key \<noteq> None
      then m\<lparr>im_entries := bt_remove key (im_entries m), dirty := True,
             dirty_keys := dirty_keys m @ [key]\<rparr>
      else m)"

definition im_root :: "(bytes \<Rightarrow> hash) \<Rightarrow> incremental_merkle \<Rightarrow> hash \<times> incremental_merkle" where
  "im_root blake3 m =
     (if \<not> dirty m then (case root_hash m of Some r \<Rightarrow> r | None \<Rightarrow> 0, m)
      else let root = (if bt_entries (im_entries m) = [] then 0
                       else merkle_root_from_leaves blake3 (map snd (bt_entries (im_entries m))))
           in (root, m\<lparr>root_hash := Some root, dirty := False, dirty_keys := []\<rparr>))"

definition im_inv :: "(bytes \<Rightarrow> hash) \<Rightarrow> incremental_merkle \<Rightarrow> bool" where
  "im_inv blake3 m \<longleftrightarrow>
     (\<not> dirty m \<longrightarrow>
        root_hash m = Some (merkle_root_from_leaves blake3 (map snd (bt_entries (im_entries m)))))
     \<and> (\<not> dirty m \<longleftrightarrow> dirty_keys m = [])"

lemma im_inv_new: "im_inv blake3 im_new"
  by (simp add: im_inv_def im_new_def merkle_root_from_leaves.simps)

lemma im_inv_insert: "im_inv blake3 m \<Longrightarrow> im_inv blake3 (im_insert blake3 k v m)"
  by (auto simp: im_inv_def im_insert_def Let_def bt_insert_same simp del: bt_entries_simps
      split: option.splits)

lemma im_inv_remove: "im_inv blake3 m \<Longrightarrow> im_inv blake3 (im_remove k m)"
  by (auto simp: im_inv_def im_remove_def)

lemma im_root_correct:
  "im_inv blake3 m \<Longrightarrow>
     fst (im_root blake3 m) = merkle_root_from_leaves blake3 (map snd (bt_entries (im_entries m)))
     \<and> im_inv blake3 (snd (im_root blake3 m))
     \<and> im_entries (snd (im_root blake3 m)) = im_entries m"
  by (auto simp: im_inv_def im_root_def Let_def merkle_root_from_leaves.simps [of _ "[]"])

text \<open>
  The two Merkle computations of the crate shape three leaves differently: the memory
  store pairs from the left, the incremental tree splits in the middle.
\<close>

lemma merkle_shapes:
  "merkle_root blake3 [a, b, c] = blake3 (id_bytes (blake3 (id_bytes a @ id_bytes b)) @ id_bytes c)"
  "merkle_root_from_leaves blake3 [a, b, c] =
     blake3 (id_bytes a @ id_bytes (blake3 (id_bytes b @ id_bytes c)))"
  by (simp_all add: merkle_root_def merkle_loop.simps merkle_root_from_leaves.simps Let_def)

section \<open>Histories of a memory store\<close>

datatype mem_op = MPut bytes bytes | MDelete bytes | MDeletePrefix bytes | MCommitRoot

fun mem_step :: "(bytes \<Rightarrow> hash) \<Rightarrow> mem_op \<Rightarrow> memory_store \<Rightarrow> memory_store" where
  "mem_step blake3 (MPut k v) s = mem_put blake3 k v s"
| "mem_step blake3 (MDelete k) s = mem_delete k s"
| "mem_step blake3 (MDeletePrefix p) s = snd (mem_delete_prefix p s)"
| "mem_step blake3 MCommitRoot s = mem_commit_root blake3 s"

definition mem_run :: "(bytes \<Rightarrow> hash) \<Rightarrow> mem_op list \<Rightarrow> memory_store" where
  "mem_run blake3 ops = fold (mem_step blake3) ops mem_new"

lemma mem_inv_step: "mem_inv blake3 s \<Longrightarrow> mem_inv blake3 (mem_step blake3 op s)"
  by (cases op) (simp_all add: mem_inv_put mem_inv_delete mem_inv_delete_prefix mem_inv_commit_root)

lemma mem_inv_run: "mem_inv blake3 (mem_run blake3 ops)"
proof -
  have "mem_inv blake3 s \<Longrightarrow> mem_inv blake3 (fold (mem_step blake3) ops s)" for s
    by (induction ops arbitrary: s) (simp_all add: mem_inv_step)
  then show ?thesis
    by (simp add: mem_run_def mem_inv_new)
qed

text \<open>A concrete hash function on which the properties are exercised.\<close>

definition sample_hash :: "bytes \<Rightarrow> hash" where
  "sample_hash bs = foldl (\<lambda>a b. 31 * a + ucast b) 7 bs"

text \<open>C13: State roots are a function of the execution state alone.  Two memory stores that
  went through any two histories of puts, deletes, prefix deletions and root commits have
  the same state root as soon as they agree on the keys that belong to the execution
  state: neither the order of the writes, nor deleted keys, nor the cached root, nor the
  bookkeeping keys (blocks, chain metadata, slashing evidence, undo records) show in it.\<close>

theorem state_root_history_independent:
  assumes "\<And>k. \<not> is_non_state_key k \<Longrightarrow>
             mem_get (mem_run blake3 ops) k = mem_get (mem_run blake3 ops') k"
  shows "mem_state_root blake3 (mem_run blake3 ops) = mem_state_root blake3 (mem_run blake3 ops')"
  using assms by (intro mem_state_root_determined mem_inv_run)

theorem state_root_history_independent_witness:
  "mem_state_root sample_hash (mem_run sample_hash [MPut [1] [7], MPut [2] [8], MCommitRoot, MPut [2] [9]]) =
   mem_state_root sample_hash (mem_run sample_hash [MPut [2] [9], MPut [3] [5], MPut [1] [7],
      MPut (ascii ''block/1'') [4], MDeletePrefix [3]])"
proof (rule state_root_history_independent)
  fix k assume "\<not> is_non_state_key k"
  then have "k \<noteq> ascii ''block/1''"
    by (auto simp: is_non_state_key_def ascii_def)
  then show "mem_get (mem_run sample_hash [MPut [1] [7], MPut [2] [8], MCommitRoot, MPut [2] [9]]) k =
      mem_get (mem_run sample_hash [MPut [2] [9], MPut [3] [5], MPut [1] [7],
        MPut (ascii ''block/1'') [4], MDeletePrefix [3]]) k"
    by (auto simp: mem_run_def mem_get_put mem_get_delete_prefix prefix_def)
qed

text \<open>C14: Committing an overlay makes the base read as the overlay did.  Whatever was staged
  in the overlay, and in whatever order the change set is iterated, applying the change
  set to the base yields a store in which every key reads as it did through the overlay.\<close>

theorem overlay_commit_refines:
  assumes "mset changes = mset (into_changes s)"
  shows "mem_get (apply_batch_atomic (mem_put blake3) mem_delete changes base) = ov_get base s"
proof
  fix k
  have perm: "distinct (map fst changes)" "set changes = set (into_changes s)"
    using assms distinct_into_changes [of s] mset_eq_setD [OF assms]
    by (metis mset_map mset_eq_imp_distinct_iff)+
  then have "map_of changes = map_of (into_changes s)"
    by (subst map_of_inject_set) simp_all
  then show "mem_get (apply_batch_atomic (mem_put blake3) mem_delete changes base) k = ov_get base s k"
    using perm by (simp add: mem.get_batch ov_get_changes)
qed

theorem overlay_commit_refines_witness:
  "mem_get (apply_batch_atomic (mem_put sample_hash) mem_delete
      (rev (into_changes (ov_delete [1] (ov_put [2] [20] (ov_put [1] [10] ov_new)))))
      (mem_run sample_hash [MPut [1] [5], MPut [3] [30]])) [3] = Some [30]"
  using overlay_commit_refines
    [of "rev (into_changes (ov_delete [1] (ov_put [2] [20] (ov_put [1] [10] ov_new))))"
        "ov_delete [1] (ov_put [2] [20] (ov_put [1] [10] ov_new))" sample_hash
        "mem_run sample_hash [MPut [1] [5], MPut [3] [30]]"]
  by (simp add: mem_run_def mem_get_put)

text \<open>C15: The state root does not commit to where a key ends and its value begins.  A leaf
  is the hash of the key followed by the value with nothing between them, so moving bytes
  from the front of the value to the end of the key changes what the store answers and
  leaves its state root as it was.\<close>

theorem state_root_ambiguous:
  assumes "\<not> is_non_state_key k" "\<not> is_non_state_key (k @ x)" "x \<noteq> []"
  shows "mem_state_root blake3 (mem_run blake3 [MPut k (x @ v)]) =
           mem_state_root blake3 (mem_run blake3 [MPut (k @ x) v])
         \<and> mem_get (mem_run blake3 [MPut k (x @ v)]) k = Some (x @ v)
         \<and> mem_get (mem_run blake3 [MPut (k @ x) v]) k = None"
  using assms mem_inv_run [of blake3 "[MPut k (x @ v)]"] mem_inv_run [of blake3 "[MPut (k @ x) v]"]
  by (simp add: mem_state_root_inv mem_leaves_def mem_run_def mem_put_def mem_new_def
      invalidate_def hash_leaf_def mem_get_def Let_def)

theorem state_root_ambiguous_witness:
  "mem_state_root sample_hash (mem_run sample_hash [MPut (ascii ''cs/a'') (ascii ''bc'')]) =
   mem_state_root sample_hash (mem_run sample_hash [MPut (ascii ''cs/ab'') (ascii ''c'')])"
  using state_root_ambiguous [of "ascii ''cs/a''" "ascii ''b''" sample_hash "ascii ''c''"]
  by (simp add: is_non_state_key_def EAGER_REVERT_PREFIX_def ascii_def)

text \<open>
  The overlay's \<open>delete_prefix\<close> looks at the staged writes only: a key of the base under
  the prefix stays visible, where the memory store's method removes it.
\<close>

lemma ov_delete_prefix_base_survives:
  assumes "prefix p k" "bt_get (ov_writes s) k = None" "k \<notin> set (ov_deletes s)"
    "mem_get base k = Some v"
  shows "ov_get base (snd (ov_delete_prefix p s)) k = Some v"
    and "mem_get (snd (mem_delete_prefix p base)) k = None"
proof -
  have fold: "k \<notin> set ks \<Longrightarrow>
      ov_get base (fold (\<lambda>k s. s\<lparr>ov_writes := bt_remove k (ov_writes s),
                        ov_deletes := List.insert k (ov_deletes s)\<rparr>) ks s) k = ov_get base s k"
    for ks s
    by (induction ks arbitrary: s) (auto simp: ov_get_def split: option.split)
  have "k \<notin> fst ` set (bt_scan_prefix p (ov_writes s))"
    using assms(2) by (force simp: bt_scan_prefix_filter map_of_entries [symmetric]
        map_of_eq_None_iff simp del: map_of_entries)
  then show "ov_get base (snd (ov_delete_prefix p s)) k = Some v"
    using assms by (simp add: ov_delete_prefix_def Let_def fold) (simp add: ov_get_def)
  show "mem_get (snd (mem_delete_prefix p base)) k = None"
    using assms by (simp add: mem_get_delete_prefix)
qed

end
