(* ===== verification/Encoding.thy ===== *)
theory Encoding
  imports Chain_Types "HOL-Library.Sublist"
begin

text \<open>
  Text encodings.  \<open>crates/solen-types/src/encoding.rs\<close>: Base58 and hexadecimal
  addresses and \<open>parse_address\<close>; and the parts of Rust's standard library that the node
  uses on strings (UTF-8 validation, lossy decoding, trimming, decimal numbers).

  A Rust \<open>str\<close> is a \<open>string\<close>: the list of its UTF-8 bytes, read as characters.  Proved
  here: decoding inverts encoding for Base58 (leading zero bytes included) and for
  hexadecimal, and \<open>parse_address\<close> accepts both spellings of every 32-byte address.
\<close>

section \<open>Strings of the standard library\<close>

abbreviation as_bytes :: "string \<Rightarrow> bytes" where
  "as_bytes \<equiv> ascii"

definition of_bytes :: "bytes \<Rightarrow> string" where
  "of_bytes bs = map (\<lambda>b. char_of (unat b)) bs"

definition is_cont :: "u8 \<Rightarrow> bool" where
  "is_cont b \<longleftrightarrow> 0x80 \<le> b \<and> b \<le> 0xBF"

text \<open>
  \<open>utf8_step\<close>: the well-formedness table of UTF-8 at the head of a non-empty byte string.
  The result tells whether a character starts there and how many bytes it takes; for an
  ill-formed head, how many bytes the replacement character stands for (the longest
  prefix of a well-formed character, at least one byte).
\<close>

definition second_ok :: "u8 \<Rightarrow> u8 \<Rightarrow> bool" where
  "second_ok a b \<longleftrightarrow>
     (if a = 0xE0 then 0xA0 \<le> b \<and> b \<le> 0xBF
      else if a = 0xED then 0x80 \<le> b \<and> b \<le> 0x9F
      else if a = 0xF0 then 0x90 \<le> b \<and> b \<le> 0xBF
      else if a = 0xF4 then 0x80 \<le> b \<and> b \<le> 0x8F
      else is_cont b)"

definition utf8_width :: "u8 \<Rightarrow> nat" where
  "utf8_width a =
     (if a < 0x80 then 1
      else if 0xC2 \<le> a \<and> a \<le> 0xDF then 2
      else if 0xE0 \<le> a \<and> a \<le> 0xEF then 3
      else if 0xF0 \<le> a \<and> a \<le> 0xF4 then 4
      else 0)"

fun utf8_step :: "bytes \<Rightarrow> bool \<times> nat" where
  "utf8_step [] = (False, 0)"
| "utf8_step (a # bs) =
     (let w = utf8_width a in
      if w = 0 then (False, 1)
      else if w = 1 then (True, 1)
      else if bs = [] \<or> \<not> second_ok a (bs ! 0) then (False, 1)
      else if w = 2 then (True, 2)
      else if length bs < 2 \<or> \<not> is_cont (bs ! 1) then (False, 2)
      else if w = 3 then (True, 3)
      else if length bs < 3 \<or> \<not> is_cont (bs ! 2) then (False, 3)
      else (True, 4))"

lemma utf8_step_pos: "bs \<noteq> [] \<Longrightarrow> 0 < snd (utf8_step bs)"
  by (cases bs) (auto simp: Let_def)

lemma utf8_step_less: "bs \<noteq> [] \<Longrightarrow> length bs - snd (utf8_step bs) < length bs"
  using utf8_step_pos [of bs] by (cases bs) auto

function valid_utf8 :: "bytes \<Rightarrow> bool" where
  "valid_utf8 bs =
     (if bs = [] then True
      else fst (utf8_step bs) \<and> valid_utf8 (drop (snd (utf8_step bs)) bs))"
  by pat_completeness auto
termination
  by (relation "measure length") (auto simp: utf8_step_less)

declare valid_utf8.simps [simp del]

definition from_utf8 :: "bytes \<Rightarrow> string option" where
  "from_utf8 bs = (if valid_utf8 bs then Some (of_bytes bs) else None)"

function utf8_lossy :: "bytes \<Rightarrow> bytes" where
  "utf8_lossy bs =
     (if bs = [] then []
      else let (ok, n) = utf8_step bs
           in (if ok then take n bs else [0xEF, 0xBF, 0xBD]) @ utf8_lossy (drop (snd (utf8_step bs)) bs))"
  by pat_completeness auto
termination
  by (relation "measure length") (auto simp: utf8_step_less)

declare utf8_lossy.simps [simp del]

definition from_utf8_lossy :: "bytes \<Rightarrow> string" where
  "from_utf8_lossy bs = of_bytes (utf8_lossy bs)"

text \<open>A valid string is decoded unchanged by the lossy decoder.\<close>

lemma utf8_lossy_valid: "valid_utf8 bs \<Longrightarrow> utf8_lossy bs = bs"
proof (induction bs rule: valid_utf8.induct)
  case (1 bs)
  show ?case
  proof (cases "bs = []")
    case False
    have "fst (utf8_step bs)" "valid_utf8 (drop (snd (utf8_step bs)) bs)"
      using 1(2) False by (simp_all add: valid_utf8.simps [of bs])
    then show ?thesis
      using 1(1) [OF False] False by (simp add: utf8_lossy.simps [of bs] split_def)
  qed (simp add: utf8_lossy.simps)
qed

text \<open>\<open>trim\<close>: the UTF-8 spellings of the characters with the \<open>White_Space\<close> property.\<close>

definition whitespace :: "bytes list" where
  "whitespace = map (\<lambda>b. [b]) [0x09, 0x0A, 0x0B, 0x0C, 0x0D, 0x20]
     @ [[0xC2, 0x85], [0xC2, 0xA0], [0xE1, 0x9A, 0x80]]
     @ map (\<lambda>b. [0xE2, 0x80, b])
         [0x80, 0x81, 0x82, 0x83, 0x84, 0x85, 0x86, 0x87, 0x88, 0x89, 0x8A, 0xA8, 0xA9, 0xAF]
     @ [[0xE2, 0x81, 0x9F], [0xE3, 0x80, 0x80]]"

function strip_all :: "bytes list \<Rightarrow> bytes \<Rightarrow> bytes" where
  "strip_all ws s =
     (case find (\<lambda>w. w \<noteq> [] \<and> prefix w s) ws of
        None \<Rightarrow> s
      | Some w \<Rightarrow> strip_all ws (drop (length w) s))"
  by pat_completeness auto
termination
  by (relation "measure (\<lambda>(_, s). length s)") (auto dest!: find_SomeD simp: prefix_def)

declare strip_all.simps [simp del]

definition trim_start :: "string \<Rightarrow> string" where
  "trim_start s = of_bytes (strip_all whitespace (as_bytes s))"

definition trim_end :: "string \<Rightarrow> string" where
  "trim_end s = of_bytes (rev (strip_all (map rev whitespace) (rev (as_bytes s))))"

definition trim :: "string \<Rightarrow> string" where
  "trim s = trim_end (trim_start s)"

text \<open>\<open>to_string\<close> and \<open>{}\<close> on unsigned integers.\<close>

definition digit_char :: "nat \<Rightarrow> char" where
  "digit_char d = ''0123456789abcdef'' ! d"

function dec_string :: "nat \<Rightarrow> string" where
  "dec_string n = (if n < 10 then [digit_char n] else dec_string (n div 10) @ [digit_char (n mod 10)])"
  by pat_completeness auto
termination
  by (relation "measure id") auto

declare dec_string.simps [simp del]

section \<open>Hexadecimal\<close>

definition hex_encode :: "bytes \<Rightarrow> string" where
  "hex_encode bs = concat (map (\<lambda>b. [digit_char (unat b div 16), digit_char (unat b mod 16)]) bs)"

definition hex_digit :: "char \<Rightarrow> nat option" where
  "hex_digit c =
     (let n = of_char c :: nat in
      if 48 \<le> n \<and> n \<le> 57 then Some (n - 48)
      else if 97 \<le> n \<and> n \<le> 102 then Some (n - 87)
      else if 65 \<le> n \<and> n \<le> 70 then Some (n - 55)
      else None)"

text \<open>\<open>u8::from_str_radix(_, 16)\<close>: an optional \<open>+\<close>, then at least one digit, no overflow.\<close>

fun hex_value :: "string \<Rightarrow> nat \<Rightarrow> nat option" where
  "hex_value [] acc = Some acc"
| "hex_value (c # cs) acc =
     (case hex_digit c of None \<Rightarrow> None | Some d \<Rightarrow> hex_value cs (acc * 16 + d))"

definition from_str_radix16 :: "string \<Rightarrow> u8 option" where
  "from_str_radix16 s =
     (let digits = (if length s > 1 \<and> hd s = CHR ''+'' then tl s else s) in
      if digits = [] then None
      else case hex_value digits 0 of
             None \<Rightarrow> None
           | Some n \<Rightarrow> if n < 256 then Some (of_nat n) else None)"

datatype hex_error =
    OddLength
  | InvalidHex nat
  | SlicePanic nat

definition char_boundary :: "string \<Rightarrow> nat \<Rightarrow> bool" where
  "char_boundary s i \<longleftrightarrow> i = 0 \<or> i = length s \<or> (i < length s \<and> \<not> is_cont (of_char (s ! i)))"

text \<open>
  The loop of \<open>hex_decode\<close> from position \<open>i\<close> on.  The slice \<open>&s[i..i + 2]\<close> panics when one
  of its ends is inside a multi-byte character.
\<close>

function hex_pairs :: "string \<Rightarrow> nat \<Rightarrow> hex_error + bytes" where
  "hex_pairs s i =
     (if length s \<le> i then Inr []
      else if \<not> (char_boundary s i \<and> char_boundary s (i + 2)) then Inl (SlicePanic i)
      else case from_str_radix16 (take 2 (drop i s)) of
             None \<Rightarrow> Inl (InvalidHex i)
           | Some b \<Rightarrow>
               (case hex_pairs s (i + 2) of
                  Inl e \<Rightarrow> Inl e
                | Inr bs \<Rightarrow> Inr (b # bs)))"
  by pat_completeness auto
termination
  by (relation "measure (\<lambda>(s, i). length s - i)") auto

declare hex_pairs.simps [simp del]

definition strip_0x :: "string \<Rightarrow> string" where
  "strip_0x s = (if prefix ''0x'' s then drop 2 s else s)"

definition hex_decode :: "string \<Rightarrow> hex_error + bytes" where
  "hex_decode s0 =
     (let s = strip_0x s0 in
      if length s mod 2 \<noteq> 0 then Inl OddLength else hex_pairs s 0)"

section \<open>Base58\<close>

definition BASE58_ALPHABET :: string where
  "BASE58_ALPHABET = ''123456789ABCDEFGHJKLMNPQRSTUVWXYZabcdefghijkmnopqrstuvwxyz''"

text \<open>
  The inner loops of both directions: multiply the little-endian digit string by \<open>m\<close>
  and add a carry, in base \<open>B\<close>; what is left of the carry becomes new digits.  The carry
  is a \<open>u32\<close> that stays below \<open>2 ^ 16\<close>, so it is a natural number here.
\<close>

fun scale_digits :: "nat \<Rightarrow> nat \<Rightarrow> nat list \<Rightarrow> nat \<Rightarrow> nat list \<times> nat" where
  "scale_digits B m [] carry = ([], carry)"
| "scale_digits B m (d # ds) carry =
     (let carry' = carry + d * m;
          (ds', out) = scale_digits B m ds (carry' div B)
      in (carry' mod B # ds', out))"

function push_carry :: "nat \<Rightarrow> nat \<Rightarrow> nat list" where
  "push_carry B carry =
     (if 0 < carry \<and> 1 < B then carry mod B # push_carry B (carry div B) else [])"
  by pat_completeness auto
termination
  by (relation "measure snd") auto

declare push_carry.simps [simp del]

definition push_digit :: "nat \<Rightarrow> nat \<Rightarrow> nat list \<Rightarrow> nat \<Rightarrow> nat list" where
  "push_digit B m ds v = (let (ds', carry) = scale_digits B m ds v in ds' @ push_carry B carry)"

definition base58_encode :: "bytes \<Rightarrow> string" where
  "base58_encode bs =
     (if bs = [] then []
      else let zeros = length (takeWhile (\<lambda>b. b = 0) bs);
               digits = foldl (\<lambda>ds b. push_digit 58 256 ds (unat b)) [] bs
           in replicate zeros (CHR ''1'') @ map (\<lambda>d. BASE58_ALPHABET ! d) (rev digits))"

definition base58_value :: "char \<Rightarrow> nat option" where
  "base58_value c =
     (if 128 \<le> (of_char c :: nat) then None else find_index (\<lambda>x. x = c) BASE58_ALPHABET)"

fun base58_digits :: "string \<Rightarrow> nat list \<Rightarrow> char + nat list" where
  "base58_digits [] bs = Inr bs"
| "base58_digits (c # cs) bs =
     (case base58_value c of
        None \<Rightarrow> Inl c
      | Some v \<Rightarrow> base58_digits cs (push_digit 256 58 bs v))"

definition base58_decode :: "string \<Rightarrow> char + bytes" where
  "base58_decode s =
     (if s = [] then Inr []
      else let zeros = length (takeWhile (\<lambda>c. c = CHR ''1'') s)
           in case base58_digits s [] of
                Inl e \<Rightarrow> Inl e
              | Inr bs \<Rightarrow> Inr (replicate zeros 0 @ map of_nat (rev bs)))"

definition account_to_base58 :: "account_id \<Rightarrow> string" where
  "account_to_base58 i = base58_encode (id_bytes i)"

section \<open>Addresses\<close>

datatype address_error =
    BadHex hex_error
  | BadBase58 char
  | WrongLength nat

definition parse_address :: "string \<Rightarrow> address_error + account_id" where
  "parse_address s0 =
     (let s = trim s0;
          clean = strip_0x s
      in if length clean = 64 \<and> (\<forall>c \<in> set clean. hex_digit c \<noteq> None)
         then (case hex_decode clean of
                 Inl e \<Rightarrow> Inl (BadHex e)
               | Inr bs \<Rightarrow> Inr (id_of_bytes bs))
         else (case base58_decode s of
                 Inl c \<Rightarrow> Inl (BadBase58 c)
               | Inr bs \<Rightarrow> if length bs \<noteq> 32 then Inl (WrongLength (length bs))
                           else Inr (id_of_bytes bs)))"

section \<open>Positional number systems\<close>

text \<open>The value of a little-endian digit string, and the strings without superfluous zeros.\<close>

fun digits_value :: "nat \<Rightarrow> nat list \<Rightarrow> nat" where
  "digits_value B [] = 0"
| "digits_value B (d # ds) = d + B * digits_value B ds"

definition canonical :: "nat \<Rightarrow> nat list \<Rightarrow> bool" where
  "canonical B ds \<longleftrightarrow> (\<forall>d \<in> set ds. d < B) \<and> (ds \<noteq> [] \<longrightarrow> last ds \<noteq> 0)"

lemma digits_value_append:
  "digits_value B (ds @ es) = digits_value B ds + B ^ length ds * digits_value B es"
  by (induction ds) (simp_all add: algebra_simps)

lemma digits_value_zeros [simp]: "digits_value B (replicate n 0) = 0"
  by (induction n) simp_all

lemma digits_value_foldl:
  "digits_value B (rev ds) = foldl (\<lambda>a d. a * B + d) 0 ds"
  by (induction ds rule: rev_induct) (simp_all add: digits_value_append algebra_simps)

locale radix =
  fixes B :: nat
  assumes base: "1 < B"
begin

lemma scale_value:
  "scale_digits B m ds c = (ds', out) \<Longrightarrow>
     length ds' = length ds \<and> (\<forall>d \<in> set ds'. d < B)
     \<and> digits_value B ds' + B ^ length ds * out = digits_value B ds * m + c"
proof (induction ds arbitrary: c ds' out)
  case (Cons d ds)
  obtain es where es: "scale_digits B m ds ((c + d * m) div B) = (es, out)"
      "ds' = (c + d * m) mod B # es"
    using Cons.prems by (auto simp: Let_def split: prod.splits)
  have "(c + d * m) mod B + B * (digits_value B es + B ^ length ds * out) =
          (c + d * m) mod B + B * (digits_value B ds * m + (c + d * m) div B)"
    using Cons.IH [OF es(1)] by simp
  also have "\<dots> = (c + d * m) + B * (digits_value B ds * m)"
    using mod_mult_div_eq [of "c + d * m" B] by (simp add: algebra_simps)
  finally show ?case
    using Cons.IH [OF es(1)] base by (simp add: es(2) algebra_simps)
qed simp

lemma push_carry_value: "digits_value B (push_carry B c) = c \<and> canonical B (push_carry B c)"
proof (induction c rule: less_induct)
  case (less c)
  show ?case
  proof (cases "c = 0")
    case False
    then have "digits_value B (push_carry B (c div B)) = c div B" "canonical B (push_carry B (c div B))"
      using less base by simp_all
    moreover have "push_carry B c = c mod B # push_carry B (c div B)"
      using False base by (subst push_carry.simps) simp
    moreover have "c mod B \<noteq> 0" if "push_carry B (c div B) = []"
      using that False calculation(1) by (metis digits_value.simps(1) add.right_neutral mod_mult_div_eq
          mult_0_right)
    ultimately show ?thesis
      using base by (auto simp: canonical_def)
  qed (simp add: push_carry.simps canonical_def)
qed

lemma canonical_lower: "canonical B ds \<Longrightarrow> ds \<noteq> [] \<Longrightarrow> B ^ (length ds - 1) \<le> digits_value B ds"
proof -
  assume a: "canonical B ds" "ds \<noteq> []"
  then have "digits_value B ds =
      digits_value B (butlast ds) + B ^ (length ds - 1) * last ds"
    using digits_value_append [of B "butlast ds" "[last ds]"] by simp
  then show ?thesis
    using a by (simp add: canonical_def trans_le_add2)
qed

lemma value_upper: "\<forall>d \<in> set ds. d < B \<Longrightarrow> digits_value B ds < B ^ length ds"
proof (induction ds)
  case (Cons d ds)
  then have "digits_value B ds + 1 \<le> B ^ length ds" "d < B" by simp_all
  then have "d + B * digits_value B ds < B * (digits_value B ds + 1)" by simp
  also have "\<dots> \<le> B * B ^ length ds"
    using \<open>digits_value B ds + 1 \<le> B ^ length ds\<close> by (intro mult_le_mono2)
  finally show ?case by simp
qed simp

lemma canonical_iff:
  "\<forall>d \<in> set ds. d < B \<Longrightarrow> canonical B ds \<longleftrightarrow> ds = [] \<or> B ^ (length ds - 1) \<le> digits_value B ds"
proof (cases "ds = []")
  case False
  assume d: "\<forall>d \<in> set ds. d < B"
  have "last ds \<noteq> 0" if "B ^ (length ds - 1) \<le> digits_value B ds"
  proof
    assume "last ds = 0"
    then have "digits_value B ds = digits_value B (butlast ds)"
      using digits_value_append [of B "butlast ds" "[last ds]"] False
      by (metis append_butlast_last_id add.right_neutral digits_value.simps mult_0_right)
    moreover have "digits_value B (butlast ds) < B ^ (length ds - 1)"
      using value_upper [of "butlast ds"] d by (auto dest: in_set_butlastD)
    ultimately show False using that by simp
  qed
  then show ?thesis
    using canonical_lower [of ds] d False by (auto simp: canonical_def)
qed (simp add: canonical_def)

lemma push_digit_value:
  assumes "canonical B ds" "0 < m"
  shows "digits_value B (push_digit B m ds v) = digits_value B ds * m + v"
    and "canonical B (push_digit B m ds v)"
proof -
  obtain es c where e: "scale_digits B m ds v = (es, c)" by force
  note sv = scale_value [OF e]
  have pd: "push_digit B m ds v = es @ push_carry B c"
    by (simp add: push_digit_def e)
  show val: "digits_value B (push_digit B m ds v) = digits_value B ds * m + v"
    using sv push_carry_value [of c] by (simp add: pd digits_value_append)
  show "canonical B (push_digit B m ds v)"
  proof (cases "push_carry B c = []")
    case True
    moreover have "digits_value B ds \<le> digits_value B ds * m + v"
      using assms(2) by (simp add: trans_le_add1)
    ultimately have "es = [] \<or> B ^ (length es - 1) \<le> digits_value B es"
      using sv val canonical_lower [OF assms(1)] pd by (cases "ds = []") auto
    then show ?thesis
      using sv True pd canonical_iff [of es] by simp
  next
    case False
    then show ?thesis
      using sv push_carry_value [of c] by (auto simp: pd canonical_def)
  qed
qed

lemma canonical_zero: "canonical B ds \<Longrightarrow> digits_value B ds = 0 \<longleftrightarrow> ds = []"
proof -
  assume "canonical B ds"
  then have "0 < B ^ (length ds - 1)" "ds \<noteq> [] \<Longrightarrow> B ^ (length ds - 1) \<le> digits_value B ds"
    using canonical_lower base by simp_all
  then show ?thesis
    by (metis digits_value.simps(1) leD)
qed

lemma canonical_unique:
  "canonical B ds \<Longrightarrow> canonical B es \<Longrightarrow> digits_value B ds = digits_value B es \<Longrightarrow> ds = es"
proof (induction ds arbitrary: es)
  case Nil
  then show ?case
    using canonical_zero [of es] by simp
next
  case (Cons d ds)
  then have "es \<noteq> []"
    using canonical_zero [of "d # ds"] by (metis digits_value.simps(1) list.distinct(1))
  then obtain e es' where es: "es = e # es'"
    by (cases es) auto
  have lt: "d < B" "e < B"
    using Cons.prems by (auto simp: canonical_def es)
  have "d + B * digits_value B ds = e + B * digits_value B es'"
    using Cons.prems by (simp add: es)
  then have "(d + B * digits_value B ds) mod B = (e + B * digits_value B es') mod B"
      "(d + B * digits_value B ds) div B = (e + B * digits_value B es') div B"
    by (rule arg_cong)+
  then have "d = e" "digits_value B ds = digits_value B es'"
    using lt by simp_all
  moreover have "canonical B ds" "canonical B es'"
    using Cons.prems(1,2) unfolding es by (auto simp: canonical_def split: if_splits)
  ultimately have "ds = es'"
    by (intro Cons.IH)
  with \<open>d = e\<close> show ?case
    by (simp add: es)
qed

lemma fold_push_digit:
  "canonical B ds \<Longrightarrow> 0 < m \<Longrightarrow>
     canonical B (foldl (\<lambda>ds v. push_digit B m ds v) ds vs)
     \<and> digits_value B (foldl (\<lambda>ds v. push_digit B m ds v) ds vs) =
         foldl (\<lambda>a v. a * m + v) (digits_value B ds) vs"
  by (induction vs arbitrary: ds) (simp_all add: push_digit_value)

end

interpretation b58: radix 58
  by unfold_locales simp

interpretation b256: radix 256
  by unfold_locales simp

section \<open>Round trips\<close>

lemma base58_value_alphabet: "d < 58 \<Longrightarrow> base58_value (BASE58_ALPHABET ! d) = Some d"
proof -
  have "map base58_value BASE58_ALPHABET = map Some [0..<58]"
    by (simp add: BASE58_ALPHABET_def base58_value_def upt_rec)
  moreover have "length BASE58_ALPHABET = 58"
    by (simp add: BASE58_ALPHABET_def)
  ultimately show "d < 58 \<Longrightarrow> ?thesis"
    by (metis (no_types, lifting) add_0 diff_zero length_upt nth_map nth_upt)
qed

lemma base58_one: "BASE58_ALPHABET ! 0 = CHR ''1''"
  by (simp add: BASE58_ALPHABET_def)

lemma alphabet_one_iff: "d < 58 \<Longrightarrow> BASE58_ALPHABET ! d = CHR ''1'' \<longleftrightarrow> d = 0"
  using base58_value_alphabet [of d] base58_value_alphabet [of 0] base58_one by fastforce

lemma base58_digits_alphabet:
  "\<forall>d \<in> set ds. d < 58 \<Longrightarrow>
     base58_digits (map (\<lambda>d. BASE58_ALPHABET ! d) ds) bs = Inr (foldl (\<lambda>bs d. push_digit 256 58 bs d) bs ds)"
  by (induction ds arbitrary: bs) (simp_all add: base58_value_alphabet)

lemma bytes_canonical:
  assumes "bs = [] \<or> hd bs \<noteq> (0 :: u8)"
  shows "canonical 256 (map unat (rev bs))"
proof -
  have "unat b < 256" for b :: u8
    using unsigned_less [of b] by simp
  then show ?thesis
    using assms by (auto simp: canonical_def last_map last_rev unat_eq_0)
qed

lemma leading_zeros: "bs = replicate (length (takeWhile (\<lambda>b. b = z) bs)) z @ dropWhile (\<lambda>b. b = z) bs"
  by (induction bs) auto

lemma fold_zeros: "foldl (\<lambda>a v. a * m + v) 0 (replicate n 0 @ vs) = foldl (\<lambda>a v. a * m + v) (0::nat) vs"
  by (induction n) simp_all

lemma takeWhile_replicate:
  "ys = [] \<or> hd ys \<noteq> z \<Longrightarrow> takeWhile (\<lambda>b. b = z) (replicate n z @ ys) = replicate n z"
  by (cases ys) (simp_all add: takeWhile_append)

lemma base58_decode_encode: "base58_decode (base58_encode bs) = Inr bs"
proof (cases "bs = []")
  case False
  define z where "z = length (takeWhile (\<lambda>b. b = 0) bs)"
  define rest where "rest = dropWhile (\<lambda>b. b = 0) bs"
  define ds where "ds = foldl (\<lambda>ds v. push_digit 58 256 ds v) [] (map unat bs)"
  have bs: "bs = replicate z 0 @ rest"
    unfolding z_def rest_def by (rule leading_zeros)
  have rest: "rest = [] \<or> hd rest \<noteq> 0"
    unfolding rest_def using hd_dropWhile [of "\<lambda>b. b = 0" bs] by auto
  have map_unat: "map unat bs = replicate z 0 @ map unat rest"
    unfolding bs by simp
  have ds: "canonical 58 ds" "digits_value 58 ds = digits_value 256 (map unat (rev rest))"
    using b58.fold_push_digit [of "[]" 256 "map unat bs"] map_unat
    by (simp_all add: ds_def canonical_def rev_map [symmetric] digits_value_foldl fold_zeros
        del: foldl_append)
  have enc: "base58_encode bs = map (\<lambda>d. BASE58_ALPHABET ! d) (replicate z 0 @ rev ds)"
    using False by (simp add: base58_encode_def Let_def z_def ds_def base58_one foldl_map)
  have "base58_digits (base58_encode bs) [] =
      Inr (foldl (\<lambda>bs d. push_digit 256 58 bs d) [] (replicate z 0 @ rev ds))"
    unfolding enc using ds(1) by (subst base58_digits_alphabet) (auto simp: canonical_def)
  moreover have "foldl (\<lambda>bs d. push_digit 256 58 bs d) [] (replicate z 0 @ rev ds) = map unat (rev rest)"
    using b256.fold_push_digit [of "[]" 58 "replicate z 0 @ rev ds"] ds bytes_canonical [OF rest]
    by (intro b256.canonical_unique)
      (simp_all add: canonical_def digits_value_foldl [symmetric] digits_value_append
        del: foldl_append)
  moreover have "takeWhile (\<lambda>c. c = CHR ''1'') (base58_encode bs) = replicate z (CHR ''1'')"
    unfolding enc using ds(1) alphabet_one_iff
    by (simp add: base58_one) (intro takeWhile_replicate, cases ds rule: rev_cases,
        auto simp: canonical_def)
  moreover have "base58_encode bs \<noteq> []"
    using False bs ds canonical_def b58.canonical_zero [of ds] b256.canonical_zero [OF bytes_canonical [OF rest]]
    unfolding enc by auto
  ultimately show ?thesis
    by (simp add: base58_decode_def Let_def bs rev_map comp_def)
qed (simp add: base58_encode_def base58_decode_def)


text \<open>C16: Base58 is lossless.  Decoding the Base58 text of any byte string gives the byte
  string back, leading zero bytes included.\<close>

theorem base58_roundtrip: "base58_decode (base58_encode bs) = Inr bs"
  by (rule base58_decode_encode)

lemma hex_digit_char: "n < 16 \<Longrightarrow> hex_digit (digit_char n) = Some n"
proof -
  have "map (\<lambda>n. hex_digit (digit_char n)) [0..<16] = map Some [0..<16]"
    by (simp add: hex_digit_def digit_char_def upt_rec)
  then show "n < 16 \<Longrightarrow> ?thesis"
    by (metis (no_types, lifting) add_0 diff_zero length_upt nth_map nth_upt)
qed

lemma unat_of_char: "unat (of_char c :: u8) = of_char c"
  using unat_of_nat_exact [of "of_char c", where 'a = 8] nat_of_char_less_256 [of c]
  by (simp add: of_nat_of_char)

lemma hex_digit_ascii: "hex_digit c = Some n \<Longrightarrow> \<not> is_cont (of_char c) \<and> c \<noteq> CHR ''+'' \<and> c \<noteq> CHR ''x''"
  by (auto simp: hex_digit_def is_cont_def Let_def word_le_nat_alt unat_of_char split: if_splits)


lemma hex_encode_append: "hex_encode (as @ bs) = hex_encode as @ hex_encode bs"
  by (simp add: hex_encode_def)

lemma length_hex_encode [simp]: "length (hex_encode bs) = 2 * length bs"
  by (induction bs) (simp_all add: hex_encode_def)

lemma hex_encode_digits: "c \<in> set (hex_encode bs) \<Longrightarrow> hex_digit c \<noteq> None"
proof -
  have "unat b div 16 < 16" for b :: u8
    using unat_lt [of b] by (simp add: less_mult_imp_div_less)
  then show "c \<in> set (hex_encode bs) \<Longrightarrow> ?thesis"
    by (auto simp: hex_encode_def hex_digit_char)
qed

lemma char_boundary_hex:
  "\<forall>c \<in> set s. hex_digit c \<noteq> None \<Longrightarrow> i \<le> length s \<Longrightarrow> char_boundary s i"
  using hex_digit_ascii by (fastforce simp: char_boundary_def)

lemma from_str_radix16_digits:
  "from_str_radix16 [digit_char (unat b div 16), digit_char (unat b mod 16)] = Some (b :: u8)"
proof -
  have h: "unat b div 16 < 16" "unat b mod 16 < 16"
    using unat_lt [of b] by (simp_all add: less_mult_imp_div_less)
  have "unat b div 16 * 16 + unat b mod 16 = unat b" by simp
  moreover have "unat b < 256"
    using unat_lt [of b] by simp
  ultimately show ?thesis
    using h hex_digit_char hex_digit_ascii
    by (auto simp: from_str_radix16_def Let_def)
qed

lemma hex_pairs_encode:
  "hex_pairs (hex_encode (as @ bs)) (2 * length as) = Inr bs"
proof (induction bs arbitrary: as)
  case (Cons b bs)
  let ?s = "hex_encode (as @ b # bs)"
  have bd: "char_boundary ?s i" if "i \<le> length ?s" for i
    using that hex_encode_digits by (intro char_boundary_hex) auto
  have "take 2 (drop (2 * length as) ?s) = [digit_char (unat b div 16), digit_char (unat b mod 16)]"
    by (simp add: hex_encode_append) (simp add: hex_encode_def numeral_2_eq_2)
  moreover have "hex_pairs ?s (2 * length as + 2) = Inr bs"
    using Cons.IH [of "as @ [b]"] by simp
  ultimately show ?case
    using bd by (subst hex_pairs.simps) (simp add: from_str_radix16_digits)
qed (simp add: hex_pairs.simps)

lemma strip_0x_hex: "\<forall>c \<in> set s. hex_digit c \<noteq> None \<Longrightarrow> strip_0x s = s"
  using hex_digit_ascii [of "CHR ''x''"] by (auto simp: strip_0x_def prefix_def)

lemma hex_decode_encode: "hex_decode (hex_encode bs) = Inr bs"
  using hex_pairs_encode [of "[]" bs] hex_encode_digits [of _ bs]
  by (simp add: hex_decode_def Let_def strip_0x_hex)


text \<open>Strings of letters and digits have nothing to trim.\<close>

definition plain :: "string \<Rightarrow> bool" where
  "plain s \<longleftrightarrow> (\<forall>c \<in> set s. 48 \<le> (of_char c :: nat) \<and> of_char c \<le> (122 :: nat))"

lemma of_bytes_as_bytes [simp]: "of_bytes (as_bytes s) = s"
  by (simp add: of_bytes_def ascii_def comp_def unat_of_char char_of_char)

lemma strip_all_none:
  assumes "\<forall>w \<in> set ws. w = [] \<or> \<not> P (hd w)" and "s = [] \<or> P (hd s)"
  shows "strip_all ws s = s"
proof -
  have "\<not> (w \<noteq> [] \<and> prefix w s)" if "w \<in> set ws" for w
    using assms that by (cases w; cases s) auto
  then have "find (\<lambda>w. w \<noteq> [] \<and> prefix w s) ws = None"
    by (simp add: find_None_iff)
  then show ?thesis
    by (subst strip_all.simps) simp
qed

lemma whitespace_bounds:
  "\<forall>w \<in> set whitespace. w = [] \<or> \<not> (48 \<le> hd w \<and> hd w \<le> 122)"
  "\<forall>w \<in> set (map rev whitespace). w = [] \<or> \<not> (48 \<le> hd w \<and> hd w \<le> 122)"
  by (simp_all add: whitespace_def word_le_nat_alt)

lemma no_whitespace:
  "s = [] \<or> (48 \<le> hd s \<and> hd s \<le> 122) \<Longrightarrow>
     strip_all whitespace s = s \<and> strip_all (map rev whitespace) s = s"
  using strip_all_none [OF whitespace_bounds(1), of s] strip_all_none [OF whitespace_bounds(2), of s]
  by simp

lemma plain_bounds: "plain s \<Longrightarrow> b \<in> set (as_bytes s) \<Longrightarrow> 48 \<le> b \<and> b \<le> 122"
  by (auto simp: plain_def ascii_def word_le_nat_alt unat_of_char)

lemma trim_plain: "plain s \<Longrightarrow> trim s = s"
proof -
  assume p: "plain s"
  have "as_bytes s = [] \<or> (48 \<le> hd (as_bytes s) \<and> hd (as_bytes s) \<le> 122)"
    "rev (as_bytes s) = [] \<or> (48 \<le> hd (rev (as_bytes s)) \<and> hd (rev (as_bytes s)) \<le> 122)"
    using plain_bounds [OF p] hd_in_set [of "as_bytes s"] hd_in_set [of "rev (as_bytes s)"] by auto
  then show ?thesis
    by (simp add: trim_def trim_start_def trim_end_def no_whitespace)
qed

lemma base58_chars: "c \<in> set (base58_encode bs) \<Longrightarrow> c \<in> set BASE58_ALPHABET"
proof -
  have "canonical 58 (foldl (\<lambda>ds v. push_digit 58 256 ds v) [] (map unat bs))"
    using b58.fold_push_digit [of "[]" 256 "map unat bs"] by (simp add: canonical_def)
  moreover have "length BASE58_ALPHABET = 58" "CHR ''1'' \<in> set BASE58_ALPHABET"
    by (simp_all add: BASE58_ALPHABET_def)
  ultimately show "c \<in> set (base58_encode bs) \<Longrightarrow> ?thesis"
    by (auto simp: base58_encode_def canonical_def foldl_map Let_def split: if_splits)
qed

lemma alphabet_plain: "plain BASE58_ALPHABET" "CHR ''0'' \<notin> set BASE58_ALPHABET"
  by (simp_all add: plain_def BASE58_ALPHABET_def)

lemma base58_length:
  assumes "length bs \<le> 32"
  shows "length (base58_encode bs) < 64"
proof -
  define z where "z = length (takeWhile (\<lambda>b. b = 0) bs)"
  define rest where "rest = dropWhile (\<lambda>b. b = 0) bs"
  define ds where "ds = foldl (\<lambda>ds v. push_digit 58 256 ds v) [] (map unat bs)"
  define m where "m = length rest"
  have bs: "bs = replicate z 0 @ rest"
    unfolding z_def rest_def by (rule leading_zeros)
  then have "length bs = z + m" "map unat bs = map unat (replicate z 0 @ rest)"
    unfolding m_def by (metis length_append length_replicate, rule arg_cong)
  then have m: "z + m \<le> 32" "map unat bs = replicate z 0 @ map unat rest"
    using assms by simp_all
  have len: "length (base58_encode bs) \<le> z + length ds"
    by (simp add: base58_encode_def Let_def z_def ds_def foldl_map)
  have ds: "canonical 58 ds" "digits_value 58 ds = digits_value 256 (rev (map unat rest))"
    using b58.fold_push_digit [of "[]" 256 "map unat bs"] m(2)
    by (simp_all add: ds_def canonical_def digits_value_foldl fold_zeros del: foldl_append)
  have "unat b < 256" for b :: u8
    using unat_lt [of b] by simp
  then have "digits_value 58 ds < 256 ^ m"
    using b256.value_upper [of "rev (map unat rest)"] by (simp add: ds(2) m_def)
  also have "(256 :: nat) ^ m \<le> (58 * 5) ^ m"
    by (rule power_mono) simp_all
  also have "\<dots> = 58 ^ m * 5 ^ m"
    by (rule power_mult_distrib)
  finally have up: "digits_value 58 ds < 58 ^ m * 5 ^ m" .
  have "length ds \<le> m + 31"
  proof (rule ccontr)
    assume "\<not> length ds \<le> m + 31"
    then have "58 ^ (m + 31) \<le> (58 :: nat) ^ (length ds - 1)" "ds \<noteq> []"
      by (auto intro: power_increasing)
    then have "58 ^ m * 58 ^ 31 \<le> digits_value 58 ds"
      using b58.canonical_lower [OF ds(1)] by (simp add: power_add)
    also note up
    also have "(58 :: nat) ^ m * 5 ^ m \<le> 58 ^ m * 5 ^ 32"
      using m(1) by (intro mult_le_mono2 power_increasing) auto
    finally show False by simp
  qed
  then show ?thesis
    using len m(1) by simp
qed

lemma parse_hex:
  assumes "plain s" "strip_0x s = hex_encode (id_bytes i)"
  shows "parse_address s = Inr i"
  using assms hex_encode_digits [of _ "id_bytes i"]
  by (simp add: parse_address_def Let_def trim_plain hex_decode_encode)

lemma hex_plain: "plain (hex_encode bs)"
  using hex_encode_digits [of _ bs] by (fastforce simp: plain_def hex_digit_def Let_def split: if_splits)

lemma parse_base58: "parse_address (account_to_base58 i) = Inr i"
proof -
  let ?s = "base58_encode (id_bytes i)"
  have "plain ?s"
    using base58_chars [of _ "id_bytes i"] alphabet_plain(1) unfolding plain_def by blast
  moreover have "strip_0x ?s = ?s"
    using base58_chars [of _ "id_bytes i"] alphabet_plain(2) by (auto simp: strip_0x_def prefix_def)
  moreover have "length ?s \<noteq> 64"
    using base58_length [of "id_bytes i"] by simp
  ultimately show ?thesis
    by (simp add: parse_address_def account_to_base58_def Let_def trim_plain base58_decode_encode)
qed

text \<open>C17: Every address can be written and read back.  For each 32-byte identifier
  \<open>parse_address\<close> recognises its Base58 text, its 64 hexadecimal digits, and those digits
  after \<open>0x\<close>, and returns the identifier: no Base58 address is mistaken for hexadecimal.\<close>

theorem parse_address_roundtrip:
  "parse_address (account_to_base58 i) = Inr i
   \<and> parse_address (hex_encode (id_bytes i)) = Inr i
   \<and> parse_address (''0x'' @ hex_encode (id_bytes i)) = Inr i"
proof (intro conjI parse_base58)
  have d: "\<forall>c \<in> set (hex_encode (id_bytes i)). hex_digit c \<noteq> None"
    using hex_encode_digits by blast
  show "parse_address (hex_encode (id_bytes i)) = Inr i"
    using d by (intro parse_hex hex_plain strip_0x_hex)
  show "parse_address (''0x'' @ hex_encode (id_bytes i)) = Inr i"
    using hex_plain [of "id_bytes i"] by (intro parse_hex) (simp_all add: plain_def strip_0x_def)
qed

text \<open>
  \<open>hex_decode\<close> slices by byte offsets: a two-byte character at an odd offset makes it
  panic instead of reporting invalid input.
\<close>

lemma hex_decode_panics: "hex_decode [CHR ''a'', CHR 0xC3, CHR 0xA9, CHR ''b''] = Inl (SlicePanic 0)"
  by (simp add: hex_decode_def Let_def strip_0x_def hex_pairs.simps char_boundary_def
      is_cont_def)

end
