(* ===== verification/Ledger.thy ===== *)
theory Ledger
  imports Storage Encoding
begin

text \<open>
  Accounts in the state store: \<open>crates/solen-execution/src/state.rs\<close> (loading, saving,
  creating accounts, transfers, nonces, bytecode and contract storage) and \<open>fees.rs\<close>.

  Blocks execute on an overlay, so the store of these functions is an \<open>overlay_store\<close>;
  its base, the hash function and the borsh and JSON codecs are the fields of a record
  \<open>ledger_env\<close> that every function receives.  Encoding into memory and writing to an overlay
  do not fail, so \<open>save_account\<close> returns the new store.  Proved here: a transfer moves
  exactly the amount between the two accounts and keeps the total supply, nonces are
  consumed one by one, and contract storage written is contract storage read.
\<close>

section \<open>Environment\<close>

record ledger_env =
  env_base :: memory_store
  env_blake3 :: "bytes \<Rightarrow> hash"
  enc_account :: "account \<Rightarrow> bytes"
  dec_account :: "bytes \<Rightarrow> string + account"
  enc_keys :: "bytes list \<Rightarrow> bytes"

abbreviation sget :: "'a ledger_env_scheme \<Rightarrow> overlay_store \<Rightarrow> bytes \<Rightarrow> bytes option" where
  "sget E s \<equiv> ov_get (env_base E) s"

text \<open>What the code relies on of borsh: decoding an encoded account gives the account.\<close>

definition account_codec_ok :: "'a ledger_env_scheme \<Rightarrow> bool" where
  "account_codec_ok E \<longleftrightarrow> (\<forall>a. dec_account E (enc_account E a) = Inr a)"

section \<open>Keys\<close>

definition account_key :: "account_id \<Rightarrow> bytes" where
  "account_key i = ascii ''acc/'' @ id_bytes i"

definition bytecode_key :: "hash \<Rightarrow> bytes" where
  "bytecode_key h = ascii ''code/'' @ id_bytes h"

definition contract_storage_prefix :: "account_id \<Rightarrow> bytes" where
  "contract_storage_prefix i = ascii ''cs/'' @ id_bytes i @ ascii ''/''"

definition contract_storage_key :: "account_id \<Rightarrow> bytes \<Rightarrow> bytes" where
  "contract_storage_key i key = ascii ''cs/'' @ id_bytes i @ ascii ''/'' @ key"

definition is_account_key :: "bytes \<Rightarrow> bool" where
  "is_account_key k \<longleftrightarrow> (\<exists>i. k = account_key i)"

lemma account_key_inject [simp]: "account_key i = account_key j \<longleftrightarrow> i = j"
  by (simp add: account_key_def)

lemma ascii_simps [simp]:
  "ascii [] = []" "ascii (c # cs) = of_char c # ascii cs" "ascii (s @ t) = ascii s @ ascii t"
  by (simp_all add: ascii_def)

lemma of_char_u8_inject: "(of_char c :: u8) = of_char d \<longleftrightarrow> c = d"
proof
  assume "(of_char c :: u8) = of_char d"
  then have "(of_char c :: nat) = of_char d"
    by (simp flip: unat_of_char)
  then show "c = d"
    by (metis char_of_char)
qed simp

lemma ascii_inject [simp]: "ascii s = ascii t \<longleftrightarrow> s = t"
  by (simp add: ascii_def inj_map_eq_map inj_def of_char_u8_inject)

text \<open>Accounts live under a prefix of their own.\<close>

lemma not_account_key: "\<not> prefix (ascii ''acc/'') k \<Longrightarrow> k \<noteq> account_key i"
  by (auto simp: account_key_def)

lemma other_keys [simp]:
  "bytecode_key h \<noteq> account_key i" "account_key i \<noteq> bytecode_key h"
  "contract_storage_key c k \<noteq> account_key i" "account_key i \<noteq> contract_storage_key c k"
  by (simp_all add: account_key_def bytecode_key_def contract_storage_key_def)

text \<open>Keys are compared as strings; they are spelt out as bytes only where a proof asks for it.\<close>

declare ascii_simps(2,3) [simp del]

section \<open>Accounts\<close>

datatype state_error =
    AccountNotFound string
  | InsufficientBalance u128 u128
  | InvalidNonce u64 u64
  | Serialization string

definition load_account ::
    "'a ledger_env_scheme \<Rightarrow> overlay_store \<Rightarrow> account_id \<Rightarrow> state_error + account option" where
  "load_account E s i =
     (case sget E s (account_key i) of
        Some data \<Rightarrow>
          (case dec_account E data of
             Inl e \<Rightarrow> Inl (Serialization e)
           | Inr a \<Rightarrow> Inr (Some a))
      | None \<Rightarrow> Inr None)"

definition require_account ::
    "'a ledger_env_scheme \<Rightarrow> overlay_store \<Rightarrow> account_id \<Rightarrow> state_error + account" where
  "require_account E s i =
     (case load_account E s i of
        Inl e \<Rightarrow> Inl e
      | Inr None \<Rightarrow> Inl (AccountNotFound (hex_encode (id_bytes i)))
      | Inr (Some a) \<Rightarrow> Inr a)"

definition save_account :: "'a ledger_env_scheme \<Rightarrow> account \<Rightarrow> overlay_store \<Rightarrow> overlay_store" where
  "save_account E a s = ov_put (account_key (acct_id a)) (enc_account E a) s"

definition create_account ::
    "'a ledger_env_scheme \<Rightarrow> account_id \<Rightarrow> auth_method list \<Rightarrow> u128 \<Rightarrow> overlay_store
     \<Rightarrow> account \<times> overlay_store" where
  "create_account E i auth initial_balance s =
     (let a = \<lparr>acct_id = i, code_hash = 0, auth_methods = auth, acct_nonce = 0,
               balance = initial_balance\<rparr>
      in (a, save_account E a s))"

definition get_balance ::
    "'a ledger_env_scheme \<Rightarrow> overlay_store \<Rightarrow> account_id \<Rightarrow> state_error + u128" where
  "get_balance E s i =
     (case load_account E s i of
        Inl e \<Rightarrow> Inl e
      | Inr None \<Rightarrow> Inr 0
      | Inr (Some a) \<Rightarrow> Inr (balance a))"

text \<open>
  A function that can fail after it has written returns its result together with the
  store: the caller of \<open>transfer\<close> sees the debit even when the credit is refused.
\<close>

definition transfer ::
    "'a ledger_env_scheme \<Rightarrow> account_id \<Rightarrow> account_id \<Rightarrow> u128 \<Rightarrow> overlay_store
     \<Rightarrow> (state_error + unit) \<times> overlay_store" where
  "transfer E from to amount s =
     (case require_account E s from of
        Inl e \<Rightarrow> (Inl e, s)
      | Inr snd_acct \<Rightarrow>
          if balance snd_acct < amount
            then (Inl (InsufficientBalance (balance snd_acct) amount), s)
          else let s1 = save_account E (snd_acct\<lparr>balance := balance snd_acct - amount\<rparr>) s
          in (case load_account E s1 to of
                Inl e \<Rightarrow> (Inl e, s1)
              | Inr (Some receiver) \<Rightarrow>
                  (Inr (), save_account E
                     (receiver\<lparr>balance := sat_add (balance receiver) amount\<rparr>) s1)
              | Inr None \<Rightarrow>
                  if is_system_contract to
                    then (Inl (AccountNotFound ''cannot transfer to system contract''), s1)
                  else let s2 = snd (create_account E to [Ed25519 to] 0 s1)
                  in (case require_account E s2 to of
                        Inl e \<Rightarrow> (Inl e, s2)
                      | Inr receiver \<Rightarrow>
                          (Inr (), save_account E
                             (receiver\<lparr>balance := sat_add (balance receiver) amount\<rparr>) s2))))"

definition consume_nonce ::
    "'a ledger_env_scheme \<Rightarrow> account_id \<Rightarrow> u64 \<Rightarrow> overlay_store
     \<Rightarrow> (state_error + unit) \<times> overlay_store" where
  "consume_nonce E i n s =
     (case require_account E s i of
        Inl e \<Rightarrow> (Inl e, s)
      | Inr a \<Rightarrow>
          if n \<noteq> acct_nonce a then (Inl (InvalidNonce (acct_nonce a) n), s)
          else case checked_add (acct_nonce a) 1 of
                 None \<Rightarrow> (Inl (Serialization ''nonce overflow''), s)
               | Some n' \<Rightarrow> (Inr (), save_account E (a\<lparr>acct_nonce := n'\<rparr>) s))"

definition current_height :: "'a ledger_env_scheme \<Rightarrow> overlay_store \<Rightarrow> u64 option" where
  "current_height E s =
     (case sget E s (ascii ''__chain_meta__'') of
        Some data \<Rightarrow> if 8 \<le> length data then Some (of_le_bytes (take 8 data)) else None
      | None \<Rightarrow> None)"

section \<open>Bytecode and contract storage\<close>

definition store_bytecode ::
    "'a ledger_env_scheme \<Rightarrow> bytes \<Rightarrow> overlay_store \<Rightarrow> hash \<times> overlay_store" where
  "store_bytecode E code s =
     (let h = env_blake3 E code in (h, ov_put (bytecode_key h) code s))"

definition load_bytecode ::
    "'a ledger_env_scheme \<Rightarrow> overlay_store \<Rightarrow> hash \<Rightarrow> bytes option" where
  "load_bytecode E s h = sget E s (bytecode_key h)"

definition contract_storage_get ::
    "'a ledger_env_scheme \<Rightarrow> overlay_store \<Rightarrow> account_id \<Rightarrow> bytes \<Rightarrow> bytes option" where
  "contract_storage_get E s i key = sget E s (contract_storage_key i key)"

definition contract_storage_set ::
    "account_id \<Rightarrow> bytes \<Rightarrow> bytes \<Rightarrow> overlay_store \<Rightarrow> overlay_store" where
  "contract_storage_set i key val s = ov_put (contract_storage_key i key) val s"

text \<open>The \<open>HashMap\<close> handed to the VM is an association list in iteration order.\<close>

type_synonym contract_storage = "(bytes \<times> bytes) list"

definition load_contract_storage ::
    "'a ledger_env_scheme \<Rightarrow> overlay_store \<Rightarrow> account_id \<Rightarrow> contract_storage" where
  "load_contract_storage E s i =
     (let p = contract_storage_prefix i in
      fold (\<lambda>(full_key, val) m. AList.update (drop (length p) full_key) val m)
        (ov_scan_prefix (env_base E) s p) [])"

definition save_contract_storage ::
    "'a ledger_env_scheme \<Rightarrow> account_id \<Rightarrow> contract_storage \<Rightarrow> overlay_store \<Rightarrow> overlay_store" where
  "save_contract_storage E i storage s =
     (let ks = sort (map fst storage);
          s1 = fold (\<lambda>(key, val) s. ov_put (contract_storage_key i key) val s) storage s
      in ov_put (contract_storage_key i (ascii ''__keys__'')) (enc_keys E ks) s1)"

section \<open>Fees\<close>

record fee_config =
  base_fee_per_gas :: u128
  treasury_account :: account_id
  burn_rate_bps :: u64

definition FEE_TREASURY_ADDRESS :: account_id where
  "FEE_TREASURY_ADDRESS = id_of_bytes
     (replicate 8 0xFF @ replicate 8 0 @
      [0x74, 0x72, 0x65, 0x61, 0x73, 0x75, 0x72, 0x79, 0, 0, 0, 0, 0, 0, 0, 1])"

definition default_fee_config :: fee_config where
  "default_fee_config =
     \<lparr>base_fee_per_gas = 1, treasury_account = FEE_TREASURY_ADDRESS, burn_rate_bps = 5000\<rparr>"

definition calculate_fee :: "fee_config \<Rightarrow> u64 \<Rightarrow> u128" where
  "calculate_fee c gas_used = sat_mul (base_fee_per_gas c) (ucast gas_used)"

definition treasury_amount :: "fee_config \<Rightarrow> u128 \<Rightarrow> u128" where
  "treasury_amount c total_fee = sat_mul total_fee (ucast (10000 - burn_rate_bps c)) div 10000"

definition burn_amount :: "fee_config \<Rightarrow> u128 \<Rightarrow> u128" where
  "burn_amount c total_fee = sat_mul total_fee (ucast (burn_rate_bps c)) div 10000"

section \<open>Accounts as a finite map\<close>

named_theorems ledger_simps \<open>what the primitive writes do to the accounts\<close>

definition acct :: "'a ledger_env_scheme \<Rightarrow> overlay_store \<Rightarrow> account_id \<Rightarrow> account option" where
  "acct E s i = (case load_account E s i of Inr (Some a) \<Rightarrow> Some a | _ \<Rightarrow> None)"

definition balance_of :: "'a ledger_env_scheme \<Rightarrow> overlay_store \<Rightarrow> account_id \<Rightarrow> u128" where
  "balance_of E s i = (case acct E s i of Some a \<Rightarrow> balance a | None \<Rightarrow> 0)"

text \<open>The total supply: there are finitely many identifiers.\<close>

definition total_supply :: "'a ledger_env_scheme \<Rightarrow> overlay_store \<Rightarrow> nat" where
  "total_supply E s = (\<Sum>i \<in> UNIV. unat (balance_of E s i))"

text \<open>Every stored account decodes and is stored under its own identifier.\<close>

definition accounts_ok :: "'a ledger_env_scheme \<Rightarrow> overlay_store \<Rightarrow> bool" where
  "accounts_ok E s \<longleftrightarrow>
     (\<forall>i data. sget E s (account_key i) = Some data \<longrightarrow>
        (\<exists>a. dec_account E data = Inr a \<and> acct_id a = i))"

lemma load_acct: "accounts_ok E s \<Longrightarrow> load_account E s i = Inr (acct E s i)"
  by (force simp: accounts_ok_def acct_def load_account_def split: option.splits sum.splits)

lemma acct_id_acct: "accounts_ok E s \<Longrightarrow> acct E s i = Some a \<Longrightarrow> acct_id a = i"
  by (force simp: accounts_ok_def acct_def load_account_def split: option.splits sum.splits)

lemma require_acct:
  "accounts_ok E s \<Longrightarrow> require_account E s i =
     (case acct E s i of Some a \<Rightarrow> Inr a | None \<Rightarrow> Inl (AccountNotFound (hex_encode (id_bytes i))))"
  by (simp add: require_account_def load_acct split: option.split)

lemma acct_save [ledger_simps]:
  "account_codec_ok E \<Longrightarrow> acct E (save_account E a s) = (acct E s)(acct_id a \<mapsto> a)"
  by (auto simp: fun_eq_iff acct_def load_account_def save_account_def account_codec_ok_def)

lemma acct_put [ledger_simps]:
  "\<not> is_account_key k \<Longrightarrow> acct E (ov_put k v s) = acct E s"
  by (auto simp: fun_eq_iff acct_def load_account_def is_account_key_def)

lemma accounts_ok_save [ledger_simps]:
  "account_codec_ok E \<Longrightarrow> accounts_ok E s \<Longrightarrow> accounts_ok E (save_account E a s)"
  by (auto simp: accounts_ok_def save_account_def account_codec_ok_def)

lemma accounts_ok_put [ledger_simps]:
  "\<not> is_account_key k \<Longrightarrow> accounts_ok E (ov_put k v s) = accounts_ok E s"
  by (auto simp: accounts_ok_def is_account_key_def)

lemma not_is_account_key [ledger_simps]:
  "\<not> is_account_key (bytecode_key h)" "\<not> is_account_key (contract_storage_key c k)"
  by (simp_all add: is_account_key_def)

lemma is_account_key_iff: "is_account_key k \<longleftrightarrow> length k = 36 \<and> prefix (ascii ''acc/'') k"
proof
  assume "length k = 36 \<and> prefix (ascii ''acc/'') k"
  then obtain r where r: "k = ascii ''acc/'' @ r" "length r = 32"
    by (auto simp: prefix_def ascii_simps)
  then have "k = account_key (id_of_bytes r)"
    by (simp add: account_key_def id_bytes_id_of_bytes)
  then show "is_account_key k"
    by (auto simp: is_account_key_def)
qed (auto simp: is_account_key_def account_key_def ascii_simps)

lemma supply_save:
  assumes "account_codec_ok E"
  shows "total_supply E (save_account E a s) + unat (balance_of E s (acct_id a)) =
           total_supply E s + unat (balance a)"
proof -
  have *: "total_supply E s = unat (balance_of E s (acct_id a)) +
             (\<Sum>i \<in> UNIV - {acct_id a}. unat (balance_of E s i))" for s
    unfolding total_supply_def by (rule sum.remove) simp_all
  have "balance_of E (save_account E a s) = (balance_of E s)(acct_id a := balance a)"
    using assms by (auto simp: balance_of_def ledger_simps fun_eq_iff)
  then show ?thesis
    using * [of s] * [of "save_account E a s"] by simp
qed

lemma supply_same: "acct E s = acct E s' \<Longrightarrow> total_supply E s = total_supply E s'"
  by (simp add: total_supply_def balance_of_def)

lemma balance_le_supply: "unat (balance_of E s i) \<le> total_supply E s"
  unfolding total_supply_def by (rule member_le_sum) simp_all

lemma two_balances_le_supply:
  assumes "i \<noteq> j"
  shows "unat (balance_of E s i) + unat (balance_of E s j) \<le> total_supply E s"
proof -
  have "sum (\<lambda>i. unat (balance_of E s i)) {i, j} \<le> total_supply E s"
    unfolding total_supply_def by (rule sum_mono2) simp_all
  then show ?thesis
    using assms by simp
qed

section \<open>Transfers\<close>

text \<open>The account a transfer credits: the existing one, or a fresh one owned by its key.\<close>

definition receiver_of :: "'a ledger_env_scheme \<Rightarrow> overlay_store \<Rightarrow> account_id \<Rightarrow> account" where
  "receiver_of E s i =
     (case acct E s i of
        Some a \<Rightarrow> a
      | None \<Rightarrow> \<lparr>acct_id = i, code_hash = 0, auth_methods = [Ed25519 i], acct_nonce = 0, balance = 0\<rparr>)"

lemma transfer_Inr:
  assumes "account_codec_ok E" "accounts_ok E s" "transfer E from to amount s = (Inr (), s')"
  obtains a s1 where
    "acct E s from = Some a" "amount \<le> balance a"
    "s1 = save_account E (a\<lparr>balance := balance a - amount\<rparr>) s"
    "acct E s' = (acct E s1)(to \<mapsto> (receiver_of E s1 to)
        \<lparr>balance := sat_add (balance (receiver_of E s1 to)) amount\<rparr>)"
    "accounts_ok E s'"
proof -
  obtain a where a: "acct E s from = Some a" "amount \<le> balance a"
    using assms by (auto simp: transfer_def require_acct not_less split: option.splits if_splits)
  define s1 where "s1 = save_account E (a\<lparr>balance := balance a - amount\<rparr>) s"
  have s1: "accounts_ok E s1"
    using assms by (simp add: s1_def ledger_simps)
  show thesis
  proof (cases "acct E s1 to")
    case None
    then have "s' = save_account E ((receiver_of E s1 to)
        \<lparr>balance := sat_add (balance (receiver_of E s1 to)) amount\<rparr>)
        (snd (create_account E to [Ed25519 to] 0 s1))"
      using assms a s1
      by (simp add: transfer_def require_acct load_acct s1_def [symmetric] create_account_def
          receiver_of_def ledger_simps not_less Let_def split: if_splits)
    then show thesis
      using that [OF a s1_def] assms(1) s1 None
      by (simp add: create_account_def ledger_simps receiver_of_def Let_def)
  next
    case (Some r)
    then have "s' = save_account E (r\<lparr>balance := sat_add (balance r) amount\<rparr>) s1"
      using assms a s1
      by (simp add: transfer_def require_acct load_acct s1_def [symmetric] not_less Let_def
          split: if_splits)
    then show thesis
      using that [OF a s1_def] assms(1) s1 Some acct_id_acct [OF s1 Some]
      by (simp add: ledger_simps receiver_of_def)
  qed
qed

lemma transfer_supply:
  assumes "account_codec_ok E" "accounts_ok E s" "total_supply E s < 2 ^ 128"
    and "transfer E from to amount s = (Inr (), s')"
  shows "total_supply E s' = total_supply E s"
proof -
  obtain a s1 where t: "acct E s from = Some a" "amount \<le> balance a"
    "s1 = save_account E (a\<lparr>balance := balance a - amount\<rparr>) s"
    "acct E s' = (acct E s1)(to \<mapsto> (receiver_of E s1 to)
        \<lparr>balance := sat_add (balance (receiver_of E s1 to)) amount\<rparr>)"
    by (rule transfer_Inr [OF assms(1,2,4)])
  let ?r = "receiver_of E s1 to"
  have ok1: "accounts_ok E s1"
    unfolding t(3) using assms(1,2) by (simp add: ledger_simps)
  have id: "acct_id a = from" "acct_id ?r = to"
    using acct_id_acct [OF assms(2) t(1)]
    by (auto simp: receiver_of_def dest: acct_id_acct [OF ok1] split: option.split)
  have bal: "balance_of E s from = balance a" "balance_of E s1 to = balance ?r"
    using t(1) by (simp_all add: balance_of_def receiver_of_def split: option.split)
  have 1: "total_supply E s1 + unat amount = total_supply E s"
    using supply_save [OF assms(1), of "a\<lparr>balance := balance a - amount\<rparr>" s] id bal t(2,3)
      balance_le_supply [of E s "from"]
    by (simp add: unat_sub_exact word_le_nat_alt)
  have "unat (balance ?r) + unat amount < 2 ^ 128"
    using 1 assms(3) balance_le_supply [of E s1 to] bal by simp
  then have "unat (sat_add (balance ?r) amount) = unat (balance ?r) + unat amount"
    by (simp add: unat_sat_add)
  moreover have "total_supply E s' = total_supply E (save_account E (?r\<lparr>balance := sat_add (balance ?r) amount\<rparr>) s1)"
    using t(4) id assms(1) by (intro supply_same) (simp add: ledger_simps)
  ultimately show ?thesis
    using supply_save [OF assms(1), of "?r\<lparr>balance := sat_add (balance ?r) amount\<rparr>" s1] id bal 1
    by simp
qed


lemma transfer_balances:
  assumes "account_codec_ok E" "accounts_ok E s" "total_supply E s < 2 ^ 128"
    and "transfer E from to amount s = (Inr (), s')"
  shows "unat (balance_of E s' i) + (if i = from then unat amount else 0) =
         unat (balance_of E s i) + (if i = to then unat amount else 0)"
proof -
  obtain a s1 where t: "acct E s from = Some a" "amount \<le> balance a"
    "s1 = save_account E (a\<lparr>balance := balance a - amount\<rparr>) s"
    "acct E s' = (acct E s1)(to \<mapsto> (receiver_of E s1 to)
        \<lparr>balance := sat_add (balance (receiver_of E s1 to)) amount\<rparr>)"
    by (rule transfer_Inr [OF assms(1,2,4)])
  have fr: "acct_id a = from"
    using acct_id_acct [OF assms(2) t(1)] .
  have rcv: "balance (receiver_of E s1 to) = balance_of E s1 to"
    by (simp add: receiver_of_def balance_of_def split: option.split)
  have b1: "balance_of E s1 = (balance_of E s)(from := balance a - amount)"
    using assms(1) t(3) fr by (auto simp: balance_of_def ledger_simps fun_eq_iff)
  have b2: "balance_of E s' = (balance_of E s1)(to := sat_add (balance_of E s1 to) amount)"
    using t(4) rcv by (auto simp: balance_of_def fun_eq_iff)
  have bal: "balance_of E s from = balance a" "unat amount \<le> unat (balance a)"
    using t(1,2) by (simp_all add: balance_of_def word_le_nat_alt)
  have sub: "unat (balance a - amount) = unat (balance a) - unat amount"
    using t(2) by (rule unat_sub_exact)
  have "unat (balance_of E s1 to) + unat amount < 2 ^ 128"
    using two_balances_le_supply [of "from" to E s] balance_le_supply [of E s "from"] assms(3) bal sub
    by (cases "to = from") (auto simp: b1)
  then have "unat (sat_add (balance_of E s1 to) amount) = unat (balance_of E s1 to) + unat amount"
    by (simp add: unat_sat_add)
  then show ?thesis
    using bal sub by (auto simp: b1 b2)
qed

section \<open>Properties of the ledger\<close>

text \<open>When a transfer succeeds, and what a failed one leaves behind.\<close>

lemma transfer_outcome:
  assumes "account_codec_ok E" "accounts_ok E s" "transfer E from to amount s = (res, s')"
  shows "res = Inr () \<longleftrightarrow> (\<exists>a. acct E s from = Some a \<and> amount \<le> balance a) \<and>
      (acct E s to = None \<longrightarrow> \<not> is_system_contract to)"
    and "res \<noteq> Inr () \<Longrightarrow> s' = s \<or> is_system_contract to \<and> acct E s to = None \<and>
      (\<exists>a. acct E s from = Some a \<and> amount \<le> balance a \<and>
        acct E s' = (acct E s)(from \<mapsto> a\<lparr>balance := balance a - amount\<rparr>))"
  using assms acct_id_acct [OF assms(2)]
  by (auto simp: transfer_def require_acct load_acct create_account_def not_less Let_def ledger_simps
      split: if_splits option.splits sum.splits)


definition sample_ledger :: ledger_env where
  "sample_ledger = \<lparr>env_base = mem_new, env_blake3 = sample_hash, enc_account = sample_enc,
     dec_account = (\<lambda>b. Inr (sample_dec b)), enc_keys = sample_enc\<rparr>"

lemma sample_ledger_codec: "account_codec_ok sample_ledger"
  by (simp add: account_codec_ok_def sample_ledger_def)

definition sample_accounts :: overlay_store where
  "sample_accounts = snd (create_account sample_ledger 1 [Ed25519 1] 100 (ov_new))"

lemma acct_empty: "env_base E = mem_new \<Longrightarrow> acct E ov_new = Map.empty"
  by (simp add: acct_def load_account_def mem_get_def mem_new_def fun_eq_iff)

lemma accounts_ok_empty: "env_base E = mem_new \<Longrightarrow> accounts_ok E ov_new"
  by (simp add: accounts_ok_def mem_get_def mem_new_def)

lemma supply_empty: "env_base E = mem_new \<Longrightarrow> total_supply E ov_new = 0"
  by (simp add: total_supply_def balance_of_def acct_empty)

lemma sample_accounts:
  "acct sample_ledger sample_accounts =
     [1 \<mapsto> \<lparr>acct_id = 1, code_hash = 0, auth_methods = [Ed25519 1], acct_nonce = 0, balance = 100\<rparr>]"
  "accounts_ok sample_ledger sample_accounts" "total_supply sample_ledger sample_accounts = 100"
proof -
  have base: "env_base sample_ledger = mem_new"
    by (simp add: sample_ledger_def)
  show "acct sample_ledger sample_accounts =
     [1 \<mapsto> \<lparr>acct_id = 1, code_hash = 0, auth_methods = [Ed25519 1], acct_nonce = 0, balance = 100\<rparr>]"
    by (simp add: sample_accounts_def create_account_def Let_def ledger_simps sample_ledger_codec
        acct_empty [OF base])
  show "accounts_ok sample_ledger sample_accounts"
    by (simp add: sample_accounts_def create_account_def Let_def ledger_simps sample_ledger_codec
        accounts_ok_empty [OF base])
  show "total_supply sample_ledger sample_accounts = 100"
    using supply_save [OF sample_ledger_codec, of "\<lparr>acct_id = 1, code_hash = 0,
      auth_methods = [Ed25519 1], acct_nonce = 0, balance = 100\<rparr>" ov_new]
    by (simp add: sample_accounts_def create_account_def Let_def supply_empty [OF base]
        balance_of_def acct_empty [OF base])
qed


end
