(* ===== verification/Staking.thy ===== *)
theory Staking
  imports Chain_Types "HOL-Library.Sublist"
begin

text \<open>
  The staking contract, \<open>crates/solen-system-contracts/src/staking.rs\<close>: validator
  registration, delegation and undelegation with an unbonding period, jailing and key
  rotation.  Proved here: over any history of these calls the tokens paid in are the
  tokens still held plus the tokens paid out; a validator's delegated total is the sum
  of its delegations; undelegated tokens are only released after the unbonding period.
\<close>

section \<open>State\<close>

definition DEFAULT_UNBONDING_PERIOD :: u64 where "DEFAULT_UNBONDING_PERIOD = 7"
definition DEFAULT_MIN_VALIDATOR_STAKE :: u128 where
  "DEFAULT_MIN_VALIDATOR_STAKE = 500000 * 100000000"
definition UNBONDING_PERIOD :: u64 where "UNBONDING_PERIOD = DEFAULT_UNBONDING_PERIOD"
definition MIN_VALIDATOR_STAKE :: u128 where "MIN_VALIDATOR_STAKE = DEFAULT_MIN_VALIDATOR_STAKE"
definition MIN_VALIDATOR_COUNT :: nat where "MIN_VALIDATOR_COUNT = 20"
definition GENESIS_LOCK_EPOCHS :: u64 where "GENESIS_LOCK_EPOCHS = 157680"
definition DEFAULT_COMMISSION_BPS :: u64 where "DEFAULT_COMMISSION_BPS = 1000"
definition MAX_UNDELEGATION_ENTRIES :: nat where "MAX_UNDELEGATION_ENTRIES = 7"

datatype staking_error =
    InsufficientStake (stake_need: u128) (stake_have: u128)
  | ValidatorNotFound
  | DelegationNotFound
  | UnbondingNotReady u64
  | AlreadyRegistered
  | GenesisLocked (unlock_at: u64) (locked_at: u64)
  | BelowMinValidators nat
  | RotationAlreadyPending
  | KeyAlreadyInUse
  | TooManyUndelegations

record delegation =
  delegator :: account_id
  del_validator :: validator_id
  del_amount :: u128
  reward_debt :: u128
  del_eligible_from :: u64

record undelegation =
  und_delegator :: account_id
  und_validator :: validator_id
  und_amount :: u128
  unlock_epoch :: u64

record staking_validator =
  sv_id :: validator_id
  self_stake :: u128
  total_delegated :: u128
  accumulated_reward_per_token :: u128
  is_active :: bool
  is_genesis :: bool
  genesis_lock_until :: u64
  commission_rate_bps :: u64
  sv_eligible_from :: u64
  pending_new_key :: "validator_id option"
  key_rotation_epoch :: u64

definition total_stake :: "staking_validator \<Rightarrow> u128" where
  "total_stake v = self_stake v + total_delegated v"

record staking_contract =
  validators :: "staking_validator list"
  delegations :: "delegation list"
  undelegations :: "undelegation list"
  min_validator_stake :: "u128 option"
  unbonding_period :: "u64 option"

definition new_staking :: staking_contract where
  "new_staking = \<lparr>validators = [], delegations = [], undelegations = [],
     min_validator_stake = None, unbonding_period = None\<rparr>"

section \<open>Registration\<close>

definition fresh_validator :: "validator_id \<Rightarrow> u128 \<Rightarrow> bool \<Rightarrow> u64 \<Rightarrow> u64 \<Rightarrow> staking_validator" where
  "fresh_validator i stake genesis lock eligible =
     \<lparr>sv_id = i, self_stake = stake, total_delegated = 0, accumulated_reward_per_token = 0,
      is_active = True, is_genesis = genesis, genesis_lock_until = lock,
      commission_rate_bps = DEFAULT_COMMISSION_BPS, sv_eligible_from = eligible,
      pending_new_key = None, key_rotation_epoch = 0\<rparr>"

definition register_validator_with_min_stake ::
  "staking_contract \<Rightarrow> validator_id \<Rightarrow> u128 \<Rightarrow> u128 \<Rightarrow> staking_error + staking_contract" where
  "register_validator_with_min_stake s i stake min_stake =
     (if stake < min_stake then Inl (InsufficientStake min_stake stake)
      else if \<exists>v\<in>set (validators s). sv_id v = i then Inl AlreadyRegistered
      else Inr (s\<lparr>validators := validators s @ [fresh_validator i stake False 0 (- 1)]\<rparr>))"

definition register_validator ::
  "staking_contract \<Rightarrow> validator_id \<Rightarrow> u128 \<Rightarrow> staking_error + staking_contract" where
  "register_validator s i stake = register_validator_with_min_stake s i stake MIN_VALIDATOR_STAKE"

definition register_validator_at_epoch_with_config ::
  "staking_contract \<Rightarrow> validator_id \<Rightarrow> u128 \<Rightarrow> u64 \<Rightarrow> u128 \<Rightarrow> staking_error + staking_contract" where
  "register_validator_at_epoch_with_config s i stake current_epoch min_stake =
     (if stake < min_stake then Inl (InsufficientStake min_stake stake)
      else if \<exists>v\<in>set (validators s). sv_id v = i then Inl AlreadyRegistered
      else Inr (s\<lparr>validators := validators s @
                  [fresh_validator i stake False 0 (current_epoch + 1)]\<rparr>))"

definition register_validator_at_epoch ::
  "staking_contract \<Rightarrow> validator_id \<Rightarrow> u128 \<Rightarrow> u64 \<Rightarrow> staking_error + staking_contract" where
  "register_validator_at_epoch s i stake current_epoch =
     register_validator_at_epoch_with_config s i stake current_epoch MIN_VALIDATOR_STAKE"

definition register_genesis_validator ::
  "staking_contract \<Rightarrow> validator_id \<Rightarrow> u128 \<Rightarrow> staking_error + staking_contract" where
  "register_genesis_validator s i stake =
     (if \<exists>v\<in>set (validators s). sv_id v = i then Inl AlreadyRegistered
      else Inr (s\<lparr>validators := validators s @
                  [fresh_validator i stake True GENESIS_LOCK_EPOCHS 0]\<rparr>))"

definition active_validator_count :: "staking_contract \<Rightarrow> nat" where
  "active_validator_count s = length (filter is_active (validators s))"

definition upd_validator ::
  "validator_id \<Rightarrow> (staking_validator \<Rightarrow> staking_validator) \<Rightarrow> staking_contract \<Rightarrow> staking_contract" where
  "upd_validator i f s = s\<lparr>validators := update_first (\<lambda>v. sv_id v = i) f (validators s)\<rparr>"

definition get_validator :: "staking_contract \<Rightarrow> validator_id \<Rightarrow> staking_validator option" where
  "get_validator s i = find (\<lambda>v. sv_id v = i) (validators s)"

definition deregister_validator ::
  "staking_contract \<Rightarrow> validator_id \<Rightarrow> u64 \<Rightarrow> staking_error + (u128 \<times> staking_contract)" where
  "deregister_validator s i current_epoch =
     (case find (\<lambda>v. sv_id v = i) (validators s) of
        None \<Rightarrow> Inl ValidatorNotFound
      | Some v \<Rightarrow>
          if is_genesis v \<and> current_epoch < genesis_lock_until v
            then Inl (GenesisLocked (genesis_lock_until v) current_epoch)
          else if length (filter is_active (validators s)) \<le> MIN_VALIDATOR_COUNT
            then Inl (BelowMinValidators MIN_VALIDATOR_COUNT)
          else Inr (self_stake v,
                 upd_validator i (\<lambda>v. v\<lparr>is_active := False, self_stake := 0\<rparr>) s))"

section \<open>Delegation\<close>

definition delegates :: "account_id \<Rightarrow> validator_id \<Rightarrow> delegation \<Rightarrow> bool" where
  "delegates a i d \<longleftrightarrow> delegator d = a \<and> del_validator d = i"

definition add_delegated :: "u128 \<Rightarrow> staking_validator \<Rightarrow> staking_validator" where
  "add_delegated amount v = v\<lparr>total_delegated := sat_add (total_delegated v) amount\<rparr>"

definition sub_delegated :: "u128 \<Rightarrow> staking_validator \<Rightarrow> staking_validator" where
  "sub_delegated amount v = v\<lparr>total_delegated := sat_sub (total_delegated v) amount\<rparr>"

definition top_up :: "u128 \<Rightarrow> u128 \<Rightarrow> delegation \<Rightarrow> delegation" where
  "top_up amount debt d = d\<lparr>del_amount := sat_add (del_amount d) amount,
                            reward_debt := sat_add (reward_debt d) debt\<rparr>"

definition put_delegation ::
  "account_id \<Rightarrow> validator_id \<Rightarrow> u128 \<Rightarrow> u128 \<Rightarrow> u64 \<Rightarrow> delegation list \<Rightarrow> delegation list" where
  "put_delegation a i amount debt current_epoch ds =
     (case find (delegates a i) ds of
        Some d \<Rightarrow> update_first (delegates a i) (top_up amount debt) ds
      | None \<Rightarrow> ds @ [\<lparr>delegator = a, del_validator = i, del_amount = amount, reward_debt = debt,
                       del_eligible_from = current_epoch + 1\<rparr>])"

definition delegate_at_epoch ::
  "staking_contract \<Rightarrow> account_id \<Rightarrow> validator_id \<Rightarrow> u128 \<Rightarrow> u64 \<Rightarrow> staking_error + staking_contract" where
  "delegate_at_epoch s a i amount current_epoch =
     (case find (\<lambda>v. sv_id v = i) (validators s) of
        None \<Rightarrow> Inl ValidatorNotFound
      | Some v \<Rightarrow>
          let s1 = upd_validator i (add_delegated amount) s;
              debt = sat_mul (accumulated_reward_per_token v) amount div 1000000
          in Inr (s1\<lparr>delegations := put_delegation a i amount debt current_epoch (delegations s)\<rparr>))"

definition delegate ::
  "staking_contract \<Rightarrow> account_id \<Rightarrow> validator_id \<Rightarrow> u128 \<Rightarrow> staking_error + staking_contract" where
  "delegate s a i amount = delegate_at_epoch s a i amount 0"

definition take_delegation ::
  "account_id \<Rightarrow> validator_id \<Rightarrow> u128 \<Rightarrow> delegation \<Rightarrow> delegation list \<Rightarrow> delegation list" where
  "take_delegation a i amount d ds =
     (let ds' = update_first (delegates a i) (\<lambda>d. d\<lparr>del_amount := del_amount d - amount\<rparr>) ds
      in if del_amount d - amount = 0
         then filter (\<lambda>d. \<not> (delegates a i d \<and> del_amount d = 0)) ds'
         else ds')"

definition undelegate ::
  "staking_contract \<Rightarrow> account_id \<Rightarrow> validator_id \<Rightarrow> u128 \<Rightarrow> u64 \<Rightarrow> staking_error + staking_contract" where
  "undelegate s a i amount current_epoch =
     (case find (delegates a i) (delegations s) of
        None \<Rightarrow> Inl DelegationNotFound
      | Some d \<Rightarrow>
          if del_amount d < amount then Inl (InsufficientStake amount (del_amount d))
          else if MAX_UNDELEGATION_ENTRIES \<le>
              length (filter (\<lambda>u. und_delegator u = a \<and> und_validator u = i) (undelegations s))
            then Inl TooManyUndelegations
          else let s1 = upd_validator i (sub_delegated amount) s
          in Inr (s1\<lparr>delegations := take_delegation a i amount d (delegations s),
               undelegations := undelegations s @
                 [\<lparr>und_delegator = a, und_validator = i, und_amount = amount,
                   unlock_epoch = current_epoch +
                     (case unbonding_period s of None \<Rightarrow> UNBONDING_PERIOD | Some p \<Rightarrow> p)\<rparr>]\<rparr>))"

definition withdrawable :: "account_id \<Rightarrow> u64 \<Rightarrow> undelegation \<Rightarrow> bool" where
  "withdrawable a e u \<longleftrightarrow> und_delegator u = a \<and> unlock_epoch u \<le> e"

definition withdraw_undelegated ::
  "staking_contract \<Rightarrow> account_id \<Rightarrow> u64 \<Rightarrow> u128 \<times> staking_contract" where
  "withdraw_undelegated s a current_epoch =
     (sum_list (map und_amount (filter (withdrawable a current_epoch) (undelegations s))),
      s\<lparr>undelegations := filter (\<lambda>u. \<not> withdrawable a current_epoch u) (undelegations s)\<rparr>)"

section \<open>Rewards, jailing, key rotation\<close>

definition distribute_rewards ::
  "staking_contract \<Rightarrow> validator_id \<Rightarrow> u128 \<Rightarrow> staking_error + staking_contract" where
  "distribute_rewards s i reward =
     (case find (\<lambda>v. sv_id v = i) (validators s) of
        None \<Rightarrow> Inl ValidatorNotFound
      | Some v \<Rightarrow>
          Inr (if 0 < total_stake v
               then upd_validator i (\<lambda>v. v\<lparr>accumulated_reward_per_token :=
                      accumulated_reward_per_token v + reward * 1000000 div total_stake v\<rparr>) s
               else s))"

definition delegator_total_stake :: "staking_contract \<Rightarrow> account_id \<Rightarrow> u128" where
  "delegator_total_stake s a = sum_list (map del_amount (filter (\<lambda>d. delegator d = a) (delegations s)))"

definition set_commission ::
  "staking_contract \<Rightarrow> validator_id \<Rightarrow> u64 \<Rightarrow> staking_error + staking_contract" where
  "set_commission s i bps =
     (case find (\<lambda>v. sv_id v = i) (validators s) of
        None \<Rightarrow> Inl ValidatorNotFound
      | Some v \<Rightarrow> Inr (upd_validator i (\<lambda>v. v\<lparr>commission_rate_bps := min bps 10000\<rparr>) s))"

definition unjail :: "staking_contract \<Rightarrow> validator_id \<Rightarrow> staking_error + staking_contract" where
  "unjail s i =
     (case find (\<lambda>v. sv_id v = i) (validators s) of
        None \<Rightarrow> Inl ValidatorNotFound
      | Some v \<Rightarrow>
          if is_active v then Inr s
          else let min_stake = (case min_validator_stake s of None \<Rightarrow> MIN_VALIDATOR_STAKE | Some m \<Rightarrow> m)
          in if self_stake v < min_stake then Inl (InsufficientStake min_stake (self_stake v))
             else Inr (upd_validator i (\<lambda>v. v\<lparr>is_active := True\<rparr>) s))"

definition rotate_key ::
  "staking_contract \<Rightarrow> validator_id \<Rightarrow> validator_id \<Rightarrow> u64 \<Rightarrow> staking_error + staking_contract" where
  "rotate_key s i new_key current_epoch =
     (if \<exists>v\<in>set (validators s). sv_id v = new_key then Inl KeyAlreadyInUse
      else case find (\<lambda>v. sv_id v = i) (validators s) of
        None \<Rightarrow> Inl ValidatorNotFound
      | Some v \<Rightarrow>
          if pending_new_key v \<noteq> None then Inl RotationAlreadyPending
          else Inr (upd_validator i (\<lambda>v. v\<lparr>pending_new_key := Some new_key,
                                           key_rotation_epoch := current_epoch + 1\<rparr>) s))"

definition rotate_validator ::
  "u64 \<Rightarrow> staking_validator \<Rightarrow> staking_validator \<times> (validator_id \<times> validator_id) list" where
  "rotate_validator e v =
     (case pending_new_key v of
        None \<Rightarrow> (v, [])
      | Some new_key \<Rightarrow>
          if key_rotation_epoch v \<le> e
          then (v\<lparr>pending_new_key := None, sv_id := new_key, key_rotation_epoch := 0\<rparr>,
                [(sv_id v, new_key)])
          else (v, []))"

definition rekey :: "(validator_id \<times> validator_id) list \<Rightarrow> validator_id \<Rightarrow> validator_id" where
  "rekey rs i = fold (\<lambda>(old, new) k. if k = old then new else k) rs i"

definition apply_pending_rotations ::
  "staking_contract \<Rightarrow> u64 \<Rightarrow> (validator_id \<times> validator_id) list \<times> staking_contract" where
  "apply_pending_rotations s current_epoch =
     (let rotated = concat (map (\<lambda>v. snd (rotate_validator current_epoch v)) (validators s))
      in (rotated,
          s\<lparr>validators := map (\<lambda>v. fst (rotate_validator current_epoch v)) (validators s),
            delegations := map (\<lambda>d. d\<lparr>del_validator := rekey rotated (del_validator d)\<rparr>) (delegations s),
            undelegations := map (\<lambda>u. u\<lparr>und_validator := rekey rotated (und_validator u)\<rparr>)
                                 (undelegations s)\<rparr>))"

definition delegations_for_validator :: "staking_contract \<Rightarrow> validator_id \<Rightarrow> delegation list" where
  "delegations_for_validator s i = filter (\<lambda>d. del_validator d = i) (delegations s)"

definition eligible_delegations_for_validator ::
  "staking_contract \<Rightarrow> validator_id \<Rightarrow> u64 \<Rightarrow> delegation list" where
  "eligible_delegations_for_validator s i epoch =
     filter (\<lambda>d. del_validator d = i \<and> del_eligible_from d \<le> epoch) (delegations s)"

definition eligible_validators :: "staking_contract \<Rightarrow> u64 \<Rightarrow> staking_validator list" where
  "eligible_validators s epoch = filter (\<lambda>v. is_active v \<and> sv_eligible_from v \<le> epoch) (validators s)"

definition total_active_stake :: "staking_contract \<Rightarrow> u128" where
  "total_active_stake s = sum_list (map total_stake (filter is_active (validators s)))"

definition active_validators :: "staking_contract \<Rightarrow> staking_validator list" where
  "active_validators s = filter is_active (validators s)"

section \<open>Histories\<close>

datatype staking_event =
    Registered validator_id u128
  | Deregistered validator_id u128
  | Delegated account_id validator_id u128
  | Undelegated account_id validator_id u128 u64
  | Withdrawn account_id u128 u64
  | RotationRequested validator_id validator_id
  | RotationsApplied u64
  | Reconfigured

text \<open>
  The successful calls.  \<open>Reconfigured\<close> covers the calls that touch no stake: commission, unjail,
  the reward accumulator, and the two parameters that governance sets.
\<close>

inductive staking_step :: "staking_contract \<Rightarrow> staking_event \<Rightarrow> staking_contract \<Rightarrow> bool" where
  register: "register_validator_with_min_stake s i st m = Inr s' \<Longrightarrow> staking_step s (Registered i st) s'"
| register_at: "register_validator_at_epoch_with_config s i st e m = Inr s' \<Longrightarrow>
    staking_step s (Registered i st) s'"
| register_genesis: "register_genesis_validator s i st = Inr s' \<Longrightarrow> staking_step s (Registered i st) s'"
| deregister: "deregister_validator s i e = Inr (st, s') \<Longrightarrow> staking_step s (Deregistered i st) s'"
| delegate: "delegate_at_epoch s a i amt e = Inr s' \<Longrightarrow> staking_step s (Delegated a i amt) s'"
| undelegate: "undelegate s a i amt e = Inr s' \<Longrightarrow> staking_step s (Undelegated a i amt e) s'"
| withdraw: "withdraw_undelegated s a e = (amt, s') \<Longrightarrow> staking_step s (Withdrawn a amt e) s'"
| rotate: "rotate_key s i k e = Inr s' \<Longrightarrow> staking_step s (RotationRequested i k) s'"
| apply_rotations: "apply_pending_rotations s e = (rs, s') \<Longrightarrow> staking_step s (RotationsApplied e) s'"
| rewards: "distribute_rewards s i r = Inr s' \<Longrightarrow> staking_step s Reconfigured s'"
| commission: "set_commission s i b = Inr s' \<Longrightarrow> staking_step s Reconfigured s'"
| unjailed: "unjail s i = Inr s' \<Longrightarrow> staking_step s Reconfigured s'"
| parameters: "staking_step s Reconfigured (s\<lparr>min_validator_stake := m, unbonding_period := p\<rparr>)"

text \<open>Runs of the contract whose every step satisfies a guard on the state and the call.\<close>

inductive staking_run ::
  "(staking_contract \<Rightarrow> staking_event \<Rightarrow> bool) \<Rightarrow> staking_contract \<Rightarrow> staking_event list \<Rightarrow> bool" for ok where
  start: "staking_run ok new_staking []"
| step: "staking_run ok s es \<Longrightarrow> staking_step s ev s' \<Longrightarrow> ok s ev \<Longrightarrow> staking_run ok s' (es @ [ev])"

fun paid_in :: "staking_event \<Rightarrow> nat" where
  "paid_in (Registered i st) = unat st"
| "paid_in (Delegated a i amt) = unat amt"
| "paid_in _ = 0"

fun paid_out :: "staking_event \<Rightarrow> nat" where
  "paid_out (Deregistered i st) = unat st"
| "paid_out (Withdrawn a amt e) = unat amt"
| "paid_out _ = 0"

definition held :: "staking_contract \<Rightarrow> nat" where
  "held s = sum_list (map (unat \<circ> self_stake) (validators s))
          + sum_list (map (unat \<circ> del_amount) (delegations s))
          + sum_list (map (unat \<circ> und_amount) (undelegations s))"

section \<open>Conservation\<close>

lemma self_stake_upd_validator:
  "(\<And>v. self_stake (f v) = self_stake v) \<Longrightarrow>
   map (unat \<circ> self_stake) (validators (upd_validator i f s)) = map (unat \<circ> self_stake) (validators s)"
  by (simp add: upd_validator_def map_update_first)

lemma upd_validator_others [simp]:
  "delegations (upd_validator i f s) = delegations s"
  "undelegations (upd_validator i f s) = undelegations s"
  "unbonding_period (upd_validator i f s) = unbonding_period s"
  by (simp_all add: upd_validator_def)

lemma held_upd_validator:
  "(\<And>v. self_stake (f v) = self_stake v) \<Longrightarrow> held (upd_validator i f s) = held s"
  by (simp only: held_def self_stake_upd_validator upd_validator_others)

lemma sum_list_filter_zero:
  "(\<And>x. x \<in> set xs \<Longrightarrow> \<not> P x \<Longrightarrow> g x = 0) \<Longrightarrow>
   sum_list (map g (filter P xs)) = sum_list (map (g :: 'a \<Rightarrow> nat) xs)"
  by (induction xs) auto

abbreviation del_sum :: "delegation list \<Rightarrow> nat" where
  "del_sum ds \<equiv> sum_list (map (unat \<circ> del_amount) ds)"

lemma self_stake_delegated [simp]:
  "self_stake (add_delegated amt v) = self_stake v" "self_stake (sub_delegated amt v) = self_stake v"
  by (simp_all add: add_delegated_def sub_delegated_def)

lemma delegate_Inr:
  assumes "delegate_at_epoch s a i amt e = Inr s'"
  obtains v debt where "get_validator s i = Some v"
    "validators s' = validators (upd_validator i (add_delegated amt) s)"
    "delegations s' = put_delegation a i amt debt e (delegations s)"
    "undelegations s' = undelegations s"
  using assms by (auto simp: delegate_at_epoch_def Let_def get_validator_def split: option.splits)

lemma undelegate_Inr:
  assumes "undelegate s a i amt e = Inr s'"
  obtains d where "find (delegates a i) (delegations s) = Some d" "amt \<le> del_amount d"
    "validators s' = validators (upd_validator i (sub_delegated amt) s)"
    "delegations s' = take_delegation a i amt d (delegations s)"
    "undelegations s' = undelegations s @ [\<lparr>und_delegator = a, und_validator = i, und_amount = amt,
       unlock_epoch = e + (case unbonding_period s of None \<Rightarrow> UNBONDING_PERIOD | Some p \<Rightarrow> p)\<rparr>]"
    "unbonding_period s' = unbonding_period s"
  using assms by (auto simp: undelegate_def Let_def not_less split: option.splits if_splits)

lemma del_sum_put:
  assumes "del_sum ds + unat amt < 2 ^ 128"
  shows "del_sum (put_delegation a i amt debt e ds) = del_sum ds + unat amt"
proof (cases "find (delegates a i) ds")
  case (Some d)
  have "unat (del_amount d) \<le> del_sum ds"
    using find_SomeD [OF Some] sum_list_elem_le [of d _ "unat \<circ> del_amount"] by auto
  then have "unat (del_amount (top_up amt debt d)) = unat (del_amount d) + unat amt"
    using assms by (simp add: top_up_def unat_sat_add)
  then show ?thesis
    using sum_list_update_first [OF Some, of "unat \<circ> del_amount" "top_up amt debt"] Some
    by (simp add: put_delegation_def)
qed (simp add: put_delegation_def)

lemma del_sum_take:
  assumes "find (delegates a i) ds = Some d" "amt \<le> del_amount d"
  shows "del_sum (take_delegation a i amt d ds) + unat amt = del_sum ds"
proof -
  let ?ds = "update_first (delegates a i) (\<lambda>d. d\<lparr>del_amount := del_amount d - amt\<rparr>) ds"
  have "unat (del_amount d - amt) + unat amt = unat (del_amount d)"
    using assms(2) by (simp add: unat_sub_exact word_le_nat_alt)
  then have "del_sum ?ds + unat amt = del_sum ds"
    using sum_list_update_first [OF assms(1), of "unat \<circ> del_amount"
        "\<lambda>d. d\<lparr>del_amount := del_amount d - amt\<rparr>"] by simp
  moreover have "del_sum (filter (\<lambda>d. \<not> (delegates a i d \<and> del_amount d = 0)) ?ds) = del_sum ?ds"
    by (rule sum_list_filter_zero) auto
  ultimately show ?thesis by (simp add: take_delegation_def Let_def)
qed

lemma held_register:
  "register_validator_with_min_stake s i st m = Inr s' \<Longrightarrow> held s' = held s + unat st"
  "register_validator_at_epoch_with_config s i st e m = Inr s' \<Longrightarrow> held s' = held s + unat st"
  "register_genesis_validator s i st = Inr s' \<Longrightarrow> held s' = held s + unat st"
  by (auto simp: register_validator_with_min_stake_def register_validator_at_epoch_with_config_def
      register_genesis_validator_def held_def fresh_validator_def split: if_splits)

lemma held_deregister:
  assumes "deregister_validator s i e = Inr (st, s')"
  shows "held s' + unat st = held s"
proof -
  obtain v where v: "find (\<lambda>v. sv_id v = i) (validators s) = Some v" "st = self_stake v"
    "s' = upd_validator i (\<lambda>v. v\<lparr>is_active := False, self_stake := 0\<rparr>) s"
    using assms by (auto simp: deregister_validator_def split: option.splits if_splits)
  show ?thesis
    using sum_list_update_first [OF v(1), of "unat \<circ> self_stake"
        "\<lambda>v. v\<lparr>is_active := False, self_stake := 0\<rparr>"] v(2,3)
    by (simp add: held_def upd_validator_def)
qed

lemma held_delegate:
  assumes "delegate_at_epoch s a i amt e = Inr s'" "held s + unat amt < 2 ^ 128"
  shows "held s' = held s + unat amt"
  using assms(1)
proof (rule delegate_Inr)
  fix v debt
  assume d: "validators s' = validators (upd_validator i (add_delegated amt) s)"
    "delegations s' = put_delegation a i amt debt e (delegations s)"
    "undelegations s' = undelegations s"
  have "del_sum (delegations s) + unat amt < 2 ^ 128" using assms(2) by (simp add: held_def)
  then show ?thesis
    using self_stake_upd_validator [of "add_delegated amt" i s]
    by (simp add: held_def d del_sum_put del: comp_apply)
qed

lemma held_undelegate:
  assumes "undelegate s a i amt e = Inr s'"
  shows "held s' = held s"
  using assms
proof (rule undelegate_Inr)
  fix d
  assume d: "find (delegates a i) (delegations s) = Some d" "amt \<le> del_amount d"
    "validators s' = validators (upd_validator i (sub_delegated amt) s)"
    "delegations s' = take_delegation a i amt d (delegations s)"
    "undelegations s' = undelegations s @ [\<lparr>und_delegator = a, und_validator = i, und_amount = amt,
       unlock_epoch = e + (case unbonding_period s of None \<Rightarrow> UNBONDING_PERIOD | Some p \<Rightarrow> p)\<rparr>]"
  then show ?thesis
    using self_stake_upd_validator [of "sub_delegated amt" i s] del_sum_take [OF d(1,2)]
    by (simp add: held_def del: comp_apply) simp
qed

lemma held_withdraw:
  assumes "withdraw_undelegated s a e = (amt, s')" "held s < 2 ^ 128"
  shows "held s' + unat amt = held s"
proof -
  let ?P = "withdrawable a e"
  note part = sum_list_filter_partition [of "unat \<circ> und_amount" ?P "undelegations s"]
  have "sum_list (map unat (map und_amount (filter ?P (undelegations s)))) < 2 ^ 128"
    using part assms(2) by (simp add: held_def)
  then have "unat (sum_list (map und_amount (filter ?P (undelegations s))))
      = sum_list (map (unat \<circ> und_amount) (filter ?P (undelegations s)))"
    by (subst unat_sum_list_exact) simp_all
  then show ?thesis
    using assms(1) part by (auto simp: withdraw_undelegated_def held_def)
qed

lemma rotate_validator_stake [simp]:
  "self_stake (fst (rotate_validator e v)) = self_stake v"
  "total_delegated (fst (rotate_validator e v)) = total_delegated v"
  by (auto simp: rotate_validator_def split: option.splits)

lemma held_rotations:
  assumes "apply_pending_rotations s e = (rs, s')"
  shows "held s' = held s"
proof -
  have "map (unat \<circ> self_stake) (validators s') = map (unat \<circ> self_stake) (validators s)"
    "map (unat \<circ> del_amount) (delegations s') = map (unat \<circ> del_amount) (delegations s)"
    "map (unat \<circ> und_amount) (undelegations s') = map (unat \<circ> und_amount) (undelegations s)"
    using assms by (auto simp: apply_pending_rotations_def Let_def)
  then show ?thesis by (simp only: held_def)
qed

lemma held_step:
  assumes "staking_step s ev s'" "held s + paid_in ev < 2 ^ 128"
  shows "held s' + paid_out ev = held s + paid_in ev"
  using assms
proof (cases rule: staking_step.cases)
  case (withdraw a e amt)
  then show ?thesis using held_withdraw assms(2) by simp
next
  case (rotate i k e)
  then show ?thesis
    by (auto simp: rotate_key_def held_upd_validator split: option.splits if_splits)
next
  case (rewards i r)
  then show ?thesis
    by (auto simp: distribute_rewards_def held_upd_validator split: option.splits if_splits)
next
  case (commission i b)
  then show ?thesis
    by (auto simp: set_commission_def held_upd_validator split: option.splits)
next
  case (unjailed i)
  then show ?thesis
    by (auto simp: unjail_def held_upd_validator Let_def split: option.splits if_splits)
next
  case (parameters m p)
  then show ?thesis by (simp add: held_def)
qed (simp_all add: held_register held_deregister held_delegate held_undelegate held_rotations)

lemma held_run:
  "staking_run ok s es \<Longrightarrow> sum_list (map paid_in es) < 2 ^ 128 \<Longrightarrow>
   held s + sum_list (map paid_out es) = sum_list (map paid_in es)"
proof (induction rule: staking_run.induct)
  case start
  show ?case by (simp add: held_def new_staking_def)
next
  case (step s es ev s')
  then have IH: "held s + sum_list (map paid_out es) = sum_list (map paid_in es)" by simp
  then have "held s + paid_in ev < 2 ^ 128" using step.prems by simp
  from held_step [OF step.hyps(2) this] IH show ?case by simp
qed

section \<open>Delegated totals\<close>

definition pending_keys :: "staking_contract \<Rightarrow> validator_id set" where
  "pending_keys s = {k. \<exists>v\<in>set (validators s). pending_new_key v = Some k}"

definition keys_of :: "staking_validator \<Rightarrow> validator_id list" where
  "keys_of v = sv_id v # (case pending_new_key v of None \<Rightarrow> [] | Some k \<Rightarrow> [k])"

definition ids :: "staking_contract \<Rightarrow> validator_id list" where
  "ids s = map sv_id (validators s)"

text \<open>A call that does not take a key another validator is about to rotate to.\<close>

fun avoids_pending :: "staking_contract \<Rightarrow> staking_event \<Rightarrow> bool" where
  "avoids_pending s (Registered i st) \<longleftrightarrow> i \<notin> pending_keys s"
| "avoids_pending s (RotationRequested i k) \<longleftrightarrow> k \<notin> pending_keys s"
| "avoids_pending s _ \<longleftrightarrow> True"

definition delegated_to :: "delegation list \<Rightarrow> validator_id \<Rightarrow> nat" where
  "delegated_to ds i = del_sum (filter (\<lambda>d. del_validator d = i) ds)"

definition keys_ok :: "staking_contract \<Rightarrow> bool" where
  "keys_ok s \<longleftrightarrow> distinct (concat (map keys_of (validators s))) \<and>
     (\<forall>d\<in>set (delegations s). del_validator d \<in> set (ids s))"

definition totals_ok :: "staking_contract \<Rightarrow> bool" where
  "totals_ok s \<longleftrightarrow> (\<forall>v\<in>set (validators s). unat (total_delegated v) = delegated_to (delegations s) (sv_id v))"

lemma delegated_to_put:
  assumes "del_sum ds + unat amt < 2 ^ 128"
  shows "delegated_to (put_delegation a i amt debt e ds) j
       = delegated_to ds j + (if j = i then unat amt else 0)"
proof (cases "find (delegates a i) ds")
  case (Some d)
  have "unat (del_amount d) \<le> del_sum ds"
    using find_SomeD [OF Some] sum_list_elem_le [of d _ "unat \<circ> del_amount"] by auto
  then have t: "unat (del_amount (top_up amt debt d)) = unat (del_amount d) + unat amt"
    using assms by (simp add: top_up_def unat_sat_add)
  have v: "del_validator d = i" using find_SomeD [OF Some] by (simp add: delegates_def)
  show ?thesis
    using sum_list_filter_update_first [OF Some, of "\<lambda>d. del_validator d = j" "top_up amt debt"
        "unat \<circ> del_amount"] t v Some
    by (auto simp: put_delegation_def delegated_to_def top_up_def split: if_splits)
qed (auto simp: put_delegation_def delegated_to_def)

lemma delegated_to_take:
  assumes "find (delegates a i) ds = Some d" "amt \<le> del_amount d"
  shows "delegated_to (take_delegation a i amt d ds) j + (if j = i then unat amt else 0)
       = delegated_to ds j"
proof -
  let ?f = "\<lambda>d. d\<lparr>del_amount := del_amount d - amt\<rparr>"
  let ?ds = "update_first (delegates a i) ?f ds"
  have v: "del_validator d = i" using find_SomeD [OF assms(1)] by (simp add: delegates_def)
  have "unat (del_amount d - amt) + unat amt = unat (del_amount d)"
    using assms(2) by (simp add: unat_sub_exact word_le_nat_alt)
  then have "delegated_to ?ds j + (if j = i then unat amt else 0) = delegated_to ds j"
    using sum_list_filter_update_first [OF assms(1), of "\<lambda>d. del_validator d = j" ?f
        "unat \<circ> del_amount"] v
    by (auto simp: delegated_to_def split: if_splits)
  moreover have "delegated_to (filter (\<lambda>d. \<not> (delegates a i d \<and> del_amount d = 0)) ?ds) j
      = delegated_to ?ds j"
    unfolding delegated_to_def filter_filter conj_commute [of "\<not> _"]
    unfolding filter_filter [symmetric] by (rule sum_list_filter_zero) auto
  ultimately show ?thesis by (cases "j = i") (auto simp: take_delegation_def Let_def)
qed

lemma ids_upd_validator:
  "(\<And>v. sv_id (f v) = sv_id v) \<Longrightarrow> ids (upd_validator i f s) = ids s"
  by (simp add: ids_def upd_validator_def map_update_first)

lemma keys_upd_validator:
  assumes "\<And>v. keys_of (f v) = keys_of v"
  shows "map keys_of (validators (upd_validator i f s)) = map keys_of (validators s)"
  by (simp add: upd_validator_def map_update_first assms)

lemma set_keys: "set (concat (map keys_of (validators s))) = set (ids s) \<union> pending_keys s"
  by (auto simp: keys_of_def ids_def pending_keys_def split: option.splits)

lemma distinct_ids: "keys_ok s \<Longrightarrow> distinct (ids s)"
proof -
  have "distinct (concat (map keys_of vs)) \<Longrightarrow> distinct (map sv_id vs)" for vs
  proof (induction vs)
    case (Cons v vs)
    have "set (map sv_id vs) \<subseteq> set (concat (map keys_of vs))" by (auto simp: keys_of_def)
    then show ?case using Cons by (auto simp: keys_of_def)
  qed simp
  then show "keys_ok s \<Longrightarrow> distinct (ids s)" by (simp add: keys_ok_def ids_def)
qed

lemma find_ids: "get_validator s i = Some v \<Longrightarrow> i \<in> set (ids s) \<and> v \<in> set (validators s) \<and> sv_id v = i"
  by (auto simp: get_validator_def ids_def dest: find_SomeD)

lemma set_put_delegation:
  "d \<in> set (put_delegation a i amt debt e ds) \<Longrightarrow>
   del_validator d = i \<or> (\<exists>d'\<in>set ds. del_validator d = del_validator d')"
  by (auto simp: put_delegation_def top_up_def split: option.splits dest!: set_update_first)

lemma set_take_delegation:
  "d \<in> set (take_delegation a i amt x ds) \<Longrightarrow> \<exists>d'\<in>set ds. del_validator d = del_validator d'"
  by (auto simp: take_delegation_def Let_def split: if_splits dest!: set_update_first)

text \<open>Updating the one validator that carries the identifier keeps the totals of the others.\<close>

lemma totals_upd_validator:
  assumes "totals_ok s" "distinct (ids s)" "get_validator s i = Some v"
    "\<And>v. sv_id (f v) = sv_id v"
    "validators s' = validators (upd_validator i f s)"
    "\<And>j. j \<noteq> i \<Longrightarrow> delegated_to (delegations s') j = delegated_to (delegations s) j"
    "unat (total_delegated (f v)) = delegated_to (delegations s') i"
  shows "totals_ok s'"
  unfolding totals_ok_def
proof
  fix w assume w: "w \<in> set (validators s')"
  have fv: "find (\<lambda>v. sv_id v = i) (validators s) = Some v"
    using assms(3) by (simp add: get_validator_def)
  obtain ys zs where d: "validators s = ys @ v # zs" "sv_id v = i"
    "validators s' = ys @ f v # zs"
    using update_first_decomp [OF fv, of f thesis] assms(5) by (auto simp: upd_validator_def)
  show "unat (total_delegated w) = delegated_to (delegations s') (sv_id w)"
  proof (cases "w = f v")
    case True
    then show ?thesis using assms(4,7) d(2) by simp
  next
    case False
    then have "w \<in> set ys \<union> set zs" using w d(3) by auto
    then have "sv_id w \<noteq> i" "w \<in> set (validators s)"
      using assms(2) d(1,2) by (auto simp: ids_def image_iff)
    then show ?thesis using assms(1,6) by (simp add: totals_ok_def)
  qed
qed

lemma keys_ok_upd:
  assumes "keys_ok s" "\<And>v. keys_of (f v) = keys_of v"
    "validators s' = validators (upd_validator i f s)"
    "\<And>d. d \<in> set (delegations s') \<Longrightarrow> del_validator d \<in> set (ids s)"
  shows "keys_ok s'"
proof -
  have k: "map keys_of (validators s') = map keys_of (validators s)"
    using keys_upd_validator [of f i s, OF assms(2)] assms(3) by simp
  have "ids s' = map hd (map keys_of (validators s'))" by (simp add: ids_def keys_of_def comp_def)
  also have "\<dots> = ids s" unfolding k by (simp add: ids_def keys_of_def comp_def)
  finally show ?thesis using assms(1,4) k by (simp add: keys_ok_def)
qed

lemma keys_of_same [simp]:
  "keys_of (add_delegated amt v) = keys_of v" "keys_of (sub_delegated amt v) = keys_of v"
  "sv_id (add_delegated amt v) = sv_id v" "sv_id (sub_delegated amt v) = sv_id v"
  "total_delegated (add_delegated amt v) = sat_add (total_delegated v) amt"
  "total_delegated (sub_delegated amt v) = sat_sub (total_delegated v) amt"
  by (simp_all add: keys_of_def add_delegated_def sub_delegated_def)

lemma delegated_le_held: "delegated_to (delegations s) i \<le> held s"
  using sum_list_filter_partition [of "unat \<circ> del_amount" "\<lambda>d. del_validator d = i" "delegations s"]
  by (simp add: delegated_to_def held_def)

lemma totals_delegate:
  assumes "keys_ok s" "totals_ok s" "delegate_at_epoch s a i amt e = Inr s'" "held s + unat amt < 2 ^ 128"
  shows "keys_ok s' \<and> totals_ok s'"
  using assms(3)
proof (rule delegate_Inr)
  fix v debt
  assume d: "get_validator s i = Some v"
    "validators s' = validators (upd_validator i (add_delegated amt) s)"
    "delegations s' = put_delegation a i amt debt e (delegations s)"
  have b: "del_sum (delegations s) + unat amt < 2 ^ 128" using assms(4) by (simp add: held_def)
  have tot: "unat (total_delegated v) = delegated_to (delegations s) i"
    using assms(2) find_ids [OF d(1)] by (auto simp: totals_ok_def)
  have "keys_ok s'"
  proof (rule keys_ok_upd [OF assms(1) _ d(2)])
    fix x assume "x \<in> set (delegations s')"
    then show "del_validator x \<in> set (ids s)"
      using set_put_delegation [of x] find_ids [OF d(1)] assms(1) d(3)
      by (fastforce simp: keys_ok_def)
  qed simp
  moreover have "totals_ok s'"
    using delegated_le_held [of s i] assms(4) tot
    by (intro totals_upd_validator [OF assms(2) distinct_ids [OF assms(1)] d(1) _ d(2)])
       (simp_all add: d(3) delegated_to_put [OF b] unat_sat_add)
  ultimately show ?thesis by simp
qed

lemma totals_undelegate:
  assumes "keys_ok s" "totals_ok s" "undelegate s a i amt e = Inr s'"
  shows "keys_ok s' \<and> totals_ok s'"
  using assms(3)
proof (rule undelegate_Inr)
  fix d
  assume d: "find (delegates a i) (delegations s) = Some d" "amt \<le> del_amount d"
    "validators s' = validators (upd_validator i (sub_delegated amt) s)"
    "delegations s' = take_delegation a i amt d (delegations s)"
  have "d \<in> set (delegations s)" "del_validator d = i"
    using find_SomeD [OF d(1)] by (auto simp: delegates_def)
  then obtain v where v: "get_validator s i = Some v"
    using assms(1) by (force simp: keys_ok_def ids_def get_validator_def find_None_iff2 not_None_eq [symmetric])
  note take = delegated_to_take [OF d(1,2)]
  have "keys_ok s'"
  proof (rule keys_ok_upd [OF assms(1) _ d(3)])
    fix x assume "x \<in> set (delegations s')"
    then show "del_validator x \<in> set (ids s)"
      using set_take_delegation [of x] assms(1) d(4) by (fastforce simp: keys_ok_def)
  qed simp
  moreover have "totals_ok s'"
  proof (rule totals_upd_validator [OF assms(2) distinct_ids [OF assms(1)] v _ d(3)])
    show "delegated_to (delegations s') j = delegated_to (delegations s) j" if "j \<noteq> i" for j
      using take [of j] that d(4) by simp
    have "unat (total_delegated v) = delegated_to (delegations s) i"
      using assms(2) find_ids [OF v] by (auto simp: totals_ok_def)
    then show "unat (total_delegated (sub_delegated amt v)) = delegated_to (delegations s') i"
      using take [of i] d(4) by (simp add: unat_sat_sub)
  qed simp
  ultimately show ?thesis by simp
qed

lemma delegated_to_none: "\<forall>d\<in>set ds. del_validator d \<noteq> i \<Longrightarrow> delegated_to ds i = 0"
  by (simp add: delegated_to_def filter_empty_conv [THEN iffD2])

lemma totals_register:
  assumes "keys_ok s" "totals_ok s" "validators s' = validators s @ [fresh_validator i st g l e]"
    "delegations s' = delegations s" "i \<notin> set (ids s)" "i \<notin> pending_keys s"
  shows "keys_ok s' \<and> totals_ok s'"
proof -
  have k: "keys_of (fresh_validator i st g l e) = [i]" "sv_id (fresh_validator i st g l e) = i"
    "total_delegated (fresh_validator i st g l e) = 0"
    by (simp_all add: keys_of_def fresh_validator_def)
  have "i \<notin> set (concat (map keys_of (validators s)))"
    using assms(5,6) set_keys by blast
  then have "keys_ok s'"
    using assms(1,3,4) by (auto simp: keys_ok_def k ids_def)
  moreover have "delegated_to (delegations s) i = 0"
    using assms(1,5) by (intro delegated_to_none) (auto simp: keys_ok_def)
  then have "totals_ok s'"
    using assms(2-4) by (auto simp: totals_ok_def k)
  ultimately show ?thesis by simp
qed

lemma totals_same:
  assumes "keys_ok s" "totals_ok s" "\<And>v. keys_of (f v) = keys_of v"
    "\<And>v. total_delegated (f v) = total_delegated v"
  shows "keys_ok (upd_validator i f s) \<and> totals_ok (upd_validator i f s)"
proof -
  have id: "sv_id (f v) = sv_id v" for v using assms(3) [of v] by (simp add: keys_of_def)
  have "keys_ok (upd_validator i f s)"
    using assms(1) by (intro keys_ok_upd [OF assms(1,3) refl]) (auto simp: keys_ok_def)
  moreover have "totals_ok (upd_validator i f s)"
    using assms(2) unfolding totals_ok_def upd_validator_def
    by (auto simp: id assms(4) dest!: set_update_first)
  ultimately show ?thesis by simp
qed

lemma totals_rotate_key:
  assumes "keys_ok s" "totals_ok s" "rotate_key s i k e = Inr s'" "k \<notin> pending_keys s"
  shows "keys_ok s' \<and> totals_ok s'"
proof -
  let ?f = "\<lambda>v. v\<lparr>pending_new_key := Some k, key_rotation_epoch := e + 1\<rparr>"
  obtain v where v: "find (\<lambda>v. sv_id v = i) (validators s) = Some v" "pending_new_key v = None"
    "s' = upd_validator i ?f s" "k \<notin> set (ids s)"
    using assms(3) by (fastforce simp: rotate_key_def ids_def split: option.splits if_splits)
  obtain ys zs where d: "validators s = ys @ v # zs" "validators s' = ys @ ?f v # zs"
    using update_first_decomp [OF v(1), of ?f thesis] v(3) by (auto simp: upd_validator_def)
  have "k \<notin> set (concat (map keys_of (validators s)))"
    using v(4) assms(4) set_keys by blast
  then have "distinct (concat (map keys_of (validators s')))"
    using assms(1) v(2) unfolding keys_ok_def d by (auto simp: keys_of_def)
  moreover have "ids s' = ids s" "delegations s' = delegations s"
    by (simp_all add: v(3) ids_upd_validator)
  moreover have "totals_ok s'"
    using assms(2) unfolding totals_ok_def v(3)
    by (auto simp: upd_validator_def dest!: set_update_first)
  ultimately show ?thesis using assms(1) by (simp add: keys_ok_def)
qed

subsection \<open>Key rotation\<close>

abbreviation rotated_of :: "u64 \<Rightarrow> staking_validator \<Rightarrow> (validator_id \<times> validator_id) list" where
  "rotated_of e v \<equiv> snd (rotate_validator e v)"

lemma distinct_subseq: "subseq xs ys \<Longrightarrow> distinct ys \<Longrightarrow> distinct xs"
  by (induction rule: list_emb.induct) (auto dest: list_emb_set)

lemma rekey_map_of:
  assumes "distinct (map fst rs)" "fst ` set rs \<inter> snd ` set rs = {}"
  shows "rekey rs k = (case map_of rs k of None \<Rightarrow> k | Some n \<Rightarrow> n)"
  using assms
proof (induction rs arbitrary: k)
  case (Cons p rs)
  obtain old new where p: "p = (old, new)" by force
  have "map_of rs new = None"
    using Cons.prems p by (auto simp: map_of_eq_None_iff)
  then have "rekey rs new = new" using Cons by auto
  then show ?case using Cons p by (auto simp: rekey_def)
qed (simp add: rekey_def)

lemma rotated_of_cases:
  "rotated_of e v = [] \<and> fst (rotate_validator e v) = v \<or>
   (\<exists>k. pending_new_key v = Some k \<and> rotated_of e v = [(sv_id v, k)] \<and>
        keys_of (fst (rotate_validator e v)) = [k] \<and> sv_id (fst (rotate_validator e v)) = k)"
  by (auto simp: rotate_validator_def keys_of_def split: option.splits)

lemma keys_rotate_subseq:
  "subseq (concat (map keys_of (map (\<lambda>v. fst (rotate_validator e v)) vs))) (concat (map keys_of vs))"
proof (induction vs)
  case (Cons v vs)
  have "subseq (keys_of (fst (rotate_validator e v))) (keys_of v)"
    using rotated_of_cases [of e v] by (auto simp: keys_of_def split: option.splits)
  then show ?case using Cons by (simp add: list_emb_append_mono)
qed simp

lemma ids_pending_disjoint: "keys_ok s \<Longrightarrow> set (ids s) \<inter> pending_keys s = {}"
proof -
  have "distinct (concat (map keys_of vs)) \<Longrightarrow> v \<in> set vs \<Longrightarrow> w \<in> set vs \<Longrightarrow>
        pending_new_key w = Some k \<Longrightarrow> sv_id v \<noteq> k" for vs v w k
  proof (induction vs)
    case (Cons x vs)
    have "sv_id y \<in> set (keys_of y)" for y by (simp add: keys_of_def)
    moreover have "k \<in> set (keys_of w)" using Cons.prems(4) by (simp add: keys_of_def)
    moreover have "v = x \<Longrightarrow> w = x \<Longrightarrow> sv_id v \<noteq> k"
      using Cons.prems(1,4) by (simp add: keys_of_def)
    ultimately show ?case using Cons by (fastforce simp del: distinct_concat_iff)
  qed simp
  then show "keys_ok s \<Longrightarrow> set (ids s) \<inter> pending_keys s = {}"
    by (fastforce simp: keys_ok_def ids_def pending_keys_def)
qed

lemma rotated_ofD: "p \<in> set (rotated_of e v) \<Longrightarrow> fst p = sv_id v \<and> pending_new_key v = Some (snd p)"
  using rotated_of_cases [of e v] by auto

lemma map_of_rotated:
  assumes "distinct (map sv_id vs)" "v \<in> set vs"
  shows "map_of (concat (map (rotated_of e) vs)) (sv_id v) = map_of (rotated_of e v) (sv_id v)"
  using assms
proof (induction vs)
  case (Cons x vs)
  have none: "map_of (rotated_of e x) k = None" if "k \<noteq> sv_id x" for k
    using that by (auto simp: map_of_eq_None_iff dest!: rotated_ofD)
  have fresh: "map_of (concat (map (rotated_of e) vs)) (sv_id x) = None"
    unfolding map_of_eq_None_iff
    using Cons.prems(1) by (auto simp: image_iff dest!: rotated_ofD)
  show ?case
  proof (cases "v = x")
    case True
    then show ?thesis using fresh by (simp add: map_add_def split: option.splits)
  next
    case False
    then have v: "v \<in> set vs" using Cons.prems(2) by simp
    then have "sv_id v \<noteq> sv_id x" using Cons.prems(1) by (auto simp: image_iff)
    then have "map_of (rotated_of e x) (sv_id v) = None" by (rule none)
    then show ?thesis using Cons.IH Cons.prems(1) v by (simp add: map_add_def split: option.splits)
  qed
qed simp

lemma rekey_id:
  assumes "keys_ok s" "v \<in> set (validators s)"
  shows "rekey (concat (map (rotated_of e) (validators s))) (sv_id v) = sv_id (fst (rotate_validator e v))"
proof -
  let ?rs = "concat (map (rotated_of e) (validators s))"
  have "subseq (map fst (concat (map (rotated_of e) vs))) (map sv_id vs)" for vs
  proof (induction vs)
    case (Cons x vs)
    then show ?case using rotated_of_cases [of e x] by auto
  qed simp
  then have "distinct (map fst ?rs)"
    using distinct_ids [OF assms(1)] distinct_subseq unfolding ids_def by blast
  moreover have "fst ` set ?rs \<subseteq> set (ids s)" "snd ` set ?rs \<subseteq> pending_keys s"
    by (auto simp: ids_def pending_keys_def dest!: rotated_ofD)
  ultimately have "rekey ?rs (sv_id v) = (case map_of ?rs (sv_id v) of None \<Rightarrow> sv_id v | Some n \<Rightarrow> n)"
    using ids_pending_disjoint [OF assms(1)] by (intro rekey_map_of) blast+
  also have "map_of ?rs (sv_id v) = map_of (rotated_of e v) (sv_id v)"
    using distinct_ids [OF assms(1)] assms(2) by (intro map_of_rotated) (simp_all add: ids_def)
  finally show ?thesis using rotated_of_cases [of e v] by auto
qed

lemma totals_rotations:
  assumes "keys_ok s" "totals_ok s" "apply_pending_rotations s e = (rs, s')"
  shows "keys_ok s' \<and> totals_ok s'"
proof -
  let ?r = "\<lambda>v. fst (rotate_validator e v)"
  let ?rs = "concat (map (rotated_of e) (validators s))"
  let ?k = "\<lambda>d. d\<lparr>del_validator := rekey ?rs (del_validator d)\<rparr>"
  have s': "validators s' = map ?r (validators s)" "delegations s' = map ?k (delegations s)"
    using assms(3) by (auto simp: apply_pending_rotations_def Let_def)
  have dist: "distinct (concat (map keys_of (validators s')))"
    using keys_rotate_subseq [of e "validators s"] assms(1) distinct_subseq
    unfolding s' keys_ok_def by blast
  have own: "\<exists>w\<in>set (validators s). del_validator d = sv_id w" if "d \<in> set (delegations s)" for d
    using that assms(1) by (auto simp: keys_ok_def ids_def)
  have keys: "keys_ok s'"
    unfolding keys_ok_def
  proof (intro conjI ballI dist)
    fix d assume "d \<in> set (delegations s')"
    then obtain d0 where d0: "d0 \<in> set (delegations s)" "d = ?k d0" using s'(2) by auto
    then obtain w where "w \<in> set (validators s)" "del_validator d0 = sv_id w" using own by blast
    then show "del_validator d \<in> set (ids s')"
      using d0 rekey_id [OF assms(1)] by (simp add: ids_def s'(1))
  qed
  moreover have "totals_ok s'"
    unfolding totals_ok_def
  proof
    fix v' assume "v' \<in> set (validators s')"
    then obtain v where v: "v \<in> set (validators s)" "v' = ?r v" using s'(1) by auto
    have inj: "sv_id (?r w) = sv_id (?r v) \<longleftrightarrow> sv_id w = sv_id v" if "w \<in> set (validators s)" for w
      using distinct_ids [OF keys] distinct_ids [OF assms(1)] that v(1)
      by (auto simp: ids_def s'(1) distinct_map inj_on_def)
    have "filter (\<lambda>d. del_validator (?k d) = sv_id v') (delegations s)
        = filter (\<lambda>d. del_validator d = sv_id v) (delegations s)"
      by (rule filter_cong [OF refl])
         (use own rekey_id [OF assms(1)] inj v(2) in fastforce)
    then have "delegated_to (delegations s') (sv_id v') = delegated_to (delegations s) (sv_id v)"
      by (simp add: delegated_to_def s'(2) filter_map comp_def)
    then show "unat (total_delegated v') = delegated_to (delegations s') (sv_id v')"
      using assms(2) v by (simp add: totals_ok_def)
  qed
  ultimately show ?thesis by simp
qed

lemma totals_step:
  assumes "staking_step s ev s'" "avoids_pending s ev" "keys_ok s" "totals_ok s"
    "held s + paid_in ev < 2 ^ 128"
  shows "keys_ok s' \<and> totals_ok s'"
  using assms(1)
proof (cases rule: staking_step.cases)
  case (register i st m)
  then show ?thesis using assms(2)
    by (intro totals_register [OF assms(3,4)])
       (auto simp: register_validator_with_min_stake_def ids_def split: if_splits)
next
  case (register_at i st e m)
  then show ?thesis using assms(2)
    by (intro totals_register [OF assms(3,4)])
       (auto simp: register_validator_at_epoch_with_config_def ids_def split: if_splits)
next
  case (register_genesis i st)
  then show ?thesis using assms(2)
    by (intro totals_register [OF assms(3,4)])
       (auto simp: register_genesis_validator_def ids_def split: if_splits)
next
  case (deregister i e st)
  then have "s' = upd_validator i (\<lambda>v. v\<lparr>is_active := False, self_stake := 0\<rparr>) s"
    by (auto simp: deregister_validator_def split: option.splits if_splits)
  with totals_same [OF assms(3,4)] show ?thesis by (simp add: keys_of_def)
next
  case (delegate a i amt e)
  then show ?thesis using totals_delegate [OF assms(3,4) delegate(2)] assms(5) by simp
next
  case (undelegate a i amt e)
  then show ?thesis using totals_undelegate [OF assms(3,4) undelegate(2)] by simp
next
  case (withdraw a e amt)
  then have "validators s' = validators s" "delegations s' = delegations s"
    by (auto simp: withdraw_undelegated_def)
  then show ?thesis using assms(3,4) by (simp add: keys_ok_def totals_ok_def ids_def)
next
  case (rotate i k e)
  then show ?thesis using totals_rotate_key [OF assms(3,4) rotate(2)] assms(2) by simp
next
  case (apply_rotations e rs)
  then show ?thesis using totals_rotations [OF assms(3,4) apply_rotations(2)] by simp
next
  case (rewards i r)
  let ?f = "\<lambda>v. v\<lparr>accumulated_reward_per_token :=
              accumulated_reward_per_token v + r * 1000000 div total_stake v\<rparr>"
  have "s' = s \<or> s' = upd_validator i ?f s"
    using rewards(2) by (auto simp: distribute_rewards_def split: option.splits if_splits)
  then show ?thesis
    using totals_same [OF assms(3,4), of ?f i] assms(3,4) by (auto simp: keys_of_def)
next
  case (commission i b)
  then have "s' = upd_validator i (\<lambda>v. v\<lparr>commission_rate_bps := min b 10000\<rparr>) s"
    by (auto simp: set_commission_def split: option.splits)
  with totals_same [OF assms(3,4)] show ?thesis by (simp add: keys_of_def)
next
  case (unjailed i)
  then have "s' = s \<or> s' = upd_validator i (\<lambda>v. v\<lparr>is_active := True\<rparr>) s"
    by (auto simp: unjail_def Let_def split: option.splits if_splits)
  then show ?thesis
    using totals_same [OF assms(3,4), of "\<lambda>v. v\<lparr>is_active := True\<rparr>" i] assms(3,4)
    by (auto simp: keys_of_def)
next
  case (parameters m p)
  then show ?thesis using assms(3,4) by (simp add: keys_ok_def totals_ok_def ids_def)
qed

lemma totals_run:
  "staking_run avoids_pending s es \<Longrightarrow> sum_list (map paid_in es) < 2 ^ 128 \<Longrightarrow> keys_ok s \<and> totals_ok s"
proof (induction rule: staking_run.induct)
  case start
  show ?case by (simp add: keys_ok_def totals_ok_def new_staking_def)
next
  case (step s es ev s')
  then have "held s + paid_in ev < 2 ^ 128" using held_run [OF step.hyps(1)] by simp
  then show ?case using step by (intro totals_step [OF step.hyps(2,3)]) auto
qed

section \<open>Properties\<close>

text \<open>C6: over any history of calls whose deposits fit in 128 bits, the tokens paid in by registrations
  and delegations are exactly the tokens the contract still accounts for (self-stakes, delegations
  and pending undelegations) plus the tokens it has released.\<close>

theorem staking_conserves_tokens:
  assumes "staking_run ok s es" "sum_list (map paid_in es) < 2 ^ 128"
  shows "held s + sum_list (map paid_out es) = sum_list (map paid_in es)"
  using assms by (rule held_run)

text \<open>C7: as long as no registration or rotation request takes a key that another validator is about
  to rotate to, validator identifiers stay distinct and every validator's delegated total is the sum
  of the delegations made to it, through delegations, undelegations and applied key rotations.\<close>

theorem delegated_totals_exact:
  assumes "staking_run avoids_pending s es" "sum_list (map paid_in es) < 2 ^ 128"
  shows "distinct (ids s) \<and>
    (\<forall>v\<in>set (validators s). unat (total_delegated v) = delegated_to (delegations s) (sv_id v))"
  using totals_run [OF assms] distinct_ids by (auto simp: totals_ok_def)

text \<open>C8: an undelegation adds nothing to what anyone can withdraw until the unbonding period has
  passed, and from then on adds exactly the undelegated amount to what its delegator can withdraw.\<close>

theorem undelegation_respects_unbonding:
  assumes "undelegate s a i amt e0 = Inr s'"
    "unat e0 + unat (case unbonding_period s of None \<Rightarrow> UNBONDING_PERIOD | Some p \<Rightarrow> p) < 2 ^ 64"
  shows "fst (withdraw_undelegated s' b e) = fst (withdraw_undelegated s b e) +
    (if b = a \<and> unat e0 + unat (case unbonding_period s of None \<Rightarrow> UNBONDING_PERIOD | Some p \<Rightarrow> p) \<le> unat e
     then amt else 0)"
proof -
  let ?p = "case unbonding_period s of None \<Rightarrow> UNBONDING_PERIOD | Some p \<Rightarrow> p"
  have le: "e0 + ?p \<le> e \<longleftrightarrow> unat e0 + unat ?p \<le> unat e"
    using assms(2) by (simp add: word_le_nat_alt unat_add_exact)
  from assms(1) show ?thesis
    by (rule undelegate_Inr) (auto simp: withdraw_undelegated_def withdrawable_def le)
qed

text \<open>A successful deregistration leaves at least twenty active validators, is refused while a
  genesis validator's lock runs, pays out exactly the validator's self-stake and deactivates it.\<close>

theorem deregistration_keeps_minimum:
  assumes "deregister_validator s i e = Inr (st, s')"
  shows "MIN_VALIDATOR_COUNT \<le> active_validator_count s' \<and>
    (\<exists>v. get_validator s i = Some v \<and> st = self_stake v \<and> (is_genesis v \<longrightarrow> genesis_lock_until v \<le> e) \<and>
         get_validator s' i = Some (v\<lparr>is_active := False, self_stake := 0\<rparr>))"
proof -
  let ?f = "\<lambda>v. v\<lparr>is_active := False, self_stake := 0\<rparr>"
  obtain v where v: "find (\<lambda>v. sv_id v = i) (validators s) = Some v" "st = self_stake v"
    "\<not> (is_genesis v \<and> e < genesis_lock_until v)"
    "MIN_VALIDATOR_COUNT < length (filter is_active (validators s))" "s' = upd_validator i ?f s"
    using assms by (auto simp: deregister_validator_def not_le split: option.splits if_splits)
  obtain ys zs where d: "validators s = ys @ v # zs" "validators s' = ys @ ?f v # zs"
    using update_first_decomp [OF v(1), of ?f thesis] v(5) by (auto simp: upd_validator_def)
  have "MIN_VALIDATOR_COUNT \<le> active_validator_count s'"
    using v(4) by (auto simp: active_validator_count_def d split: if_splits)
  moreover have "get_validator s' i = Some (?f v)"
    using find_key_update_first [of sv_id i ?f i "validators s"] v(1,5)
    by (simp add: get_validator_def upd_validator_def)
  ultimately show ?thesis using v(1-3) by (auto simp: get_validator_def)
qed

lemma get_upd_validator:
  "(\<And>v. sv_id (f v) = sv_id v) \<Longrightarrow> get_validator (upd_validator i f s) q =
     (if q = i then map_option f (get_validator s q) else get_validator s q)"
  by (simp add: get_validator_def upd_validator_def find_key_update_first)

text \<open>The request for a key rotation checks the new key against current identifiers only.  Two
  validators can both request the same unused key, both requests are accepted, and when the
  rotations are applied at the next epoch two validators carry one identifier.\<close>

theorem rotation_key_collision:
  assumes "get_validator s i = Some v" "get_validator s j = Some w" "i \<noteq> j"
    "pending_new_key v = None" "pending_new_key w = None" "k \<notin> set (ids s)"
  shows "\<exists>s1 s2. rotate_key s i k e = Inr s1 \<and> rotate_key s1 j k e = Inr s2 \<and>
    \<not> distinct (ids (snd (apply_pending_rotations s2 (e + 1))))"
proof -
  let ?f = "\<lambda>v. v\<lparr>pending_new_key := Some k, key_rotation_epoch := e + 1\<rparr>"
  let ?s1 = "upd_validator i ?f s" and ?s2 = "upd_validator j ?f (upd_validator i ?f s)"
  have k: "\<not> (\<exists>v\<in>set (validators s). sv_id v = k)" using assms(6) by (auto simp: ids_def)
  have r1: "rotate_key s i k e = Inr ?s1"
    using assms(1,4) k by (simp add: rotate_key_def get_validator_def)
  have "k \<notin> set (ids ?s1)" using assms(6) by (simp add: ids_upd_validator)
  then have k1: "\<not> (\<exists>v\<in>set (validators ?s1). sv_id v = k)" by (auto simp: ids_def)
  have g1: "get_validator ?s1 j = Some w" using assms(2,3) by (simp add: get_upd_validator)
  then have r2: "rotate_key ?s1 j k e = Inr ?s2"
    using assms(5) k1 by (simp add: rotate_key_def get_validator_def)
  have "get_validator ?s2 i = Some (?f v)" "get_validator ?s2 j = Some (?f w)"
    using assms(1-3) by (simp_all add: get_upd_validator)
  then have mem: "?f v \<in> set (validators ?s2)" "?f w \<in> set (validators ?s2)"
    and "sv_id v = i" "sv_id w = j"
    using find_ids by fastforce+
  then have ne: "?f v \<noteq> ?f w" using assms(3) by (auto dest: arg_cong [of _ _ sv_id])
  have id: "sv_id (fst (rotate_validator (e + 1) (?f x))) = k" for x
    by (simp add: rotate_validator_def)
  have "ids (snd (apply_pending_rotations ?s2 (e + 1)))
      = map (\<lambda>v. sv_id (fst (rotate_validator (e + 1) v))) (validators ?s2)"
    by (simp add: apply_pending_rotations_def Let_def ids_def)
  then have "\<not> distinct (ids (snd (apply_pending_rotations ?s2 (e + 1))))"
    using not_distinct_map [OF mem ne, of "\<lambda>v. sv_id (fst (rotate_validator (e + 1) v))"]
      id [of v] id [of w] by simp
  then show ?thesis using r1 r2 by blast
qed

text \<open>A concrete history for the witnesses.\<close>

definition sample_validator :: "validator_id \<Rightarrow> u128 \<Rightarrow> staking_validator" where
  "sample_validator i d = (fresh_validator i 100 False 0 1)\<lparr>total_delegated := d\<rparr>"

definition sample_staking :: "u128 \<Rightarrow> delegation list \<Rightarrow> undelegation list \<Rightarrow> staking_contract" where
  "sample_staking d ds us = \<lparr>validators = [sample_validator 1 d], delegations = ds,
     undelegations = us, min_validator_stake = None, unbonding_period = None\<rparr>"

definition sample_delegation :: delegation where
  "sample_delegation = \<lparr>delegator = 9, del_validator = 1, del_amount = 40, reward_debt = 0,
     del_eligible_from = 1\<rparr>"

lemmas sample_staking_defs = sample_staking_def sample_validator_def sample_delegation_def
  fresh_validator_def new_staking_def upd_validator_def

lemma sample_delegated:
  "staking_run avoids_pending (sample_staking 40 [sample_delegation] []) [Registered 1 100, Delegated 9 1 40]"
proof -
  have r: "register_validator_at_epoch_with_config new_staking 1 100 0 0 = Inr (sample_staking 0 [] [])"
    by (simp add: register_validator_at_epoch_with_config_def sample_staking_defs)
  have d: "delegate_at_epoch (sample_staking 0 [] []) 9 1 40 0
      = Inr (sample_staking 40 [sample_delegation] [])"
    by (simp add: delegate_at_epoch_def put_delegation_def add_delegated_def sat_add_def sat_mul_def
        sample_staking_defs)
  show ?thesis
    using staking_run.step [OF staking_run.step [OF staking_run.start
          staking_step.register_at [OF r]] staking_step.delegate [OF d]]
    by (simp add: pending_keys_def new_staking_def)
qed

lemma sample_undelegate:
  "undelegate (sample_staking 40 [sample_delegation] []) 9 1 40 1
   = Inr (sample_staking 0 [] [\<lparr>und_delegator = 9, und_validator = 1, und_amount = 40, unlock_epoch = 8\<rparr>])"
  by (simp add: undelegate_def take_delegation_def delegates_def sub_delegated_def sat_sub_def
      MAX_UNDELEGATION_ENTRIES_def UNBONDING_PERIOD_def DEFAULT_UNBONDING_PERIOD_def sample_staking_defs)

theorem staking_conserves_tokens_witness:
  "\<exists>s es. staking_run avoids_pending s es \<and> sum_list (map paid_out es) = 40 \<and> held s = 100"
proof -
  let ?u = "\<lparr>und_delegator = 9, und_validator = 1, und_amount = 40, unlock_epoch = 8\<rparr>"
  have w: "withdraw_undelegated (sample_staking 0 [] [?u]) 9 8 = (40, sample_staking 0 [] [])"
    by (simp add: withdraw_undelegated_def withdrawable_def sample_staking_defs)
  have r: "staking_run avoids_pending (sample_staking 0 [] [])
      [Registered 1 100, Delegated 9 1 40, Undelegated 9 1 40 1, Withdrawn 9 40 8]"
    using staking_run.step [OF staking_run.step [OF sample_delegated
          staking_step.undelegate [OF sample_undelegate]] staking_step.withdraw [OF w]] by simp
  show ?thesis
    using r staking_conserves_tokens [OF r]
    by (intro exI conjI) (assumption, simp_all)
qed

theorem delegated_totals_exact_witness:
  "unat (total_delegated (sample_validator 1 40)) = delegated_to [sample_delegation] 1"
  using delegated_totals_exact [OF sample_delegated] by (simp add: sample_staking_defs)

theorem undelegation_respects_unbonding_witness:
  "\<exists>s'. undelegate (sample_staking 40 [sample_delegation] []) 9 1 40 1 = Inr s' \<and>
     fst (withdraw_undelegated s' 9 7) = 0 \<and> fst (withdraw_undelegated s' 9 8) = 40"
  using undelegation_respects_unbonding [OF sample_undelegate, of 9 7]
    undelegation_respects_unbonding [OF sample_undelegate, of 9 8] sample_undelegate
  by (simp add: sample_staking_def withdraw_undelegated_def UNBONDING_PERIOD_def
      DEFAULT_UNBONDING_PERIOD_def)

definition many_validators :: staking_contract where
  "many_validators = new_staking\<lparr>validators := map (\<lambda>n. sample_validator (of_nat n) 0) [0..<21]\<rparr>"

theorem deregistration_keeps_minimum_witness:
  "\<exists>s'. deregister_validator many_validators 3 5 = Inr (100, s') \<and>
     MIN_VALIDATOR_COUNT \<le> active_validator_count s'"
proof -
  have "\<exists>s'. deregister_validator many_validators 3 5 = Inr (100, s')"
    by (simp add: deregister_validator_def many_validators_def sample_staking_defs
        MIN_VALIDATOR_COUNT_def upt_rec)
  then show ?thesis using deregistration_keeps_minimum by blast
qed

theorem rotation_key_collision_witness:
  "\<exists>s1 s2. rotate_key many_validators 3 99 5 = Inr s1 \<and> rotate_key s1 4 99 5 = Inr s2 \<and>
     \<not> distinct (ids (snd (apply_pending_rotations s2 6)))"
  using rotation_key_collision [of many_validators 3 "sample_validator 3 0" 4 "sample_validator 4 0" 99 5]
  by (simp add: get_validator_def many_validators_def sample_staking_defs ids_def upt_rec)

end
