(* ===== verification/Governance.thy ===== *)
theory Governance
  imports Chain_Types
begin

text \<open>
  The governance contract, \<open>crates/solen-system-contracts/src/governance.rs\<close>:
  proposals, stake-weighted votes, finalization by quorum and supermajority, and
  execution after a timelock.  Proved here: each account votes at most once and the
  tallies are the sums of the recorded votes; an executed proposal had passed with
  quorum and supermajority after its voting window closed, ran no earlier than its
  timelock, and ran once.
\<close>

section \<open>State\<close>

definition DEFAULT_VOTING_PERIOD :: u64 where "DEFAULT_VOTING_PERIOD = 14"
definition MAX_SANE_VOTING_PERIOD :: u64 where "MAX_SANE_VOTING_PERIOD = 50000"
definition SANE_VOTING_PERIOD :: u64 where "SANE_VOTING_PERIOD = 2016"
definition TIMELOCK_DELAY :: u64 where "TIMELOCK_DELAY = 3"
definition QUORUM_BPS :: u64 where "QUORUM_BPS = 3000"
definition PASS_THRESHOLD_BPS :: u64 where "PASS_THRESHOLD_BPS = 6667"
definition EMERGENCY_FASTTRACK_ACTIVATION_EPOCH :: u64 where
  "EMERGENCY_FASTTRACK_ACTIVATION_EPOCH = - 1"
definition PROPOSAL_DEPOSIT :: u128 where "PROPOSAL_DEPOSIT = 1000 * 100000000"

definition emergency_fasttrack_active :: "u64 \<Rightarrow> bool" where
  "emergency_fasttrack_active epoch =
     (if EMERGENCY_FASTTRACK_ACTIVATION_EPOCH = - 1 then False
      else EMERGENCY_FASTTRACK_ACTIVATION_EPOCH \<le> epoch)"

datatype governance_error =
    ProposalNotFound | VotingEnded | VotingNotEnded | AlreadyVoted | ProposalNotPassed
  | TimelockNotExpired | AlreadyExecuted | InvalidProposalType

datatype proposal_action =
    SetBaseFee u128
  | SetBlockTime u64
  | SetMaxOpsPerBlock u64
  | RegisterRollup u64 string
  | SetBurnRate u64
  | SetEpochReward u128
  | SetMinValidatorStake u128
  | SetUnbondingPeriod u64
  | EmergencyPause
  | EmergencyResume
  | SetBridgeRelayer hash
  | SetVestingAdmin hash
  | MigrateTeamPoolToVesting
  | SetGovernanceVotingPeriod u64

fun is_emergency :: "proposal_action \<Rightarrow> bool" where
  "is_emergency EmergencyPause = True"
| "is_emergency EmergencyResume = True"
| "is_emergency _ = False"

datatype proposal_status = Active | Passed | Rejected | Executed | Expired

record gov_vote =
  voter :: account_id
  support :: bool
  stake_weight :: u128

record proposal =
  prop_id :: u64
  proposer :: account_id
  prop_action :: proposal_action
  description :: string
  created_epoch :: u64
  voting_end_epoch :: u64
  execute_after_epoch :: u64
  prop_status :: proposal_status
  votes :: "gov_vote list"
  total_for :: u128
  total_against :: u128
  deposit :: u128

record governance_contract =
  proposals :: "proposal list"
  next_proposal_id :: u64
  is_paused :: bool
  voting_period :: u64

definition new_governance :: governance_contract where
  "new_governance = \<lparr>proposals = [], next_proposal_id = 0, is_paused = False,
     voting_period = DEFAULT_VOTING_PERIOD\<rparr>"

definition effective_voting_period :: "governance_contract \<Rightarrow> u64" where
  "effective_voting_period g =
     (if voting_period g = 0 \<or> MAX_SANE_VOTING_PERIOD < voting_period g then SANE_VOTING_PERIOD
      else voting_period g)"

section \<open>Operations\<close>

definition create_proposal ::
  "governance_contract \<Rightarrow> account_id \<Rightarrow> proposal_action \<Rightarrow> string \<Rightarrow> u64
   \<Rightarrow> u64 \<times> governance_contract" where
  "create_proposal g prop act desc current_epoch =
     (let pid = next_proposal_id g;
          voting_end = current_epoch + effective_voting_period g;
          execute_after = voting_end + TIMELOCK_DELAY
      in (pid, g\<lparr>next_proposal_id := pid + 1,
                proposals := proposals g @
                  [\<lparr>prop_id = pid, proposer = prop, prop_action = act, description = desc,
                    created_epoch = current_epoch, voting_end_epoch = voting_end,
                    execute_after_epoch = execute_after, prop_status = Active, votes = [],
                    total_for = 0, total_against = 0, deposit = PROPOSAL_DEPOSIT\<rparr>]\<rparr>))"

definition cast_vote :: "account_id \<Rightarrow> bool \<Rightarrow> u128 \<Rightarrow> proposal \<Rightarrow> proposal" where
  "cast_vote who supp weight p =
     (if supp then p\<lparr>total_for := total_for p + weight\<rparr>
      else p\<lparr>total_against := total_against p + weight\<rparr>)
       \<lparr>votes := votes p @ [\<lparr>voter = who, support = supp, stake_weight = weight\<rparr>]\<rparr>"

definition vote ::
  "governance_contract \<Rightarrow> u64 \<Rightarrow> account_id \<Rightarrow> bool \<Rightarrow> u128 \<Rightarrow> u64
   \<Rightarrow> governance_error + governance_contract" where
  "vote g pid who supp weight current_epoch =
     (case find (\<lambda>p. prop_id p = pid) (proposals g) of
        None \<Rightarrow> Inl ProposalNotFound
      | Some p \<Rightarrow>
          if prop_status p \<noteq> Active then Inl VotingEnded
          else if voting_end_epoch p < current_epoch then Inl VotingEnded
          else if \<exists>v\<in>set (votes p). voter v = who then Inl AlreadyVoted
          else Inr (g\<lparr>proposals := update_first (\<lambda>p. prop_id p = pid)
                 (cast_vote who supp weight) (proposals g)\<rparr>))"

definition quorum_met :: "proposal \<Rightarrow> u128 \<Rightarrow> bool" where
  "quorum_met p total_stake \<longleftrightarrow>
     0 < total_stake \<and>
     sat_mul total_stake (ucast QUORUM_BPS) \<le> sat_mul (total_for p + total_against p) 10000"

definition threshold_met :: "proposal \<Rightarrow> bool" where
  "threshold_met p \<longleftrightarrow>
     0 < total_for p + total_against p \<and>
     sat_mul (total_for p + total_against p) (ucast PASS_THRESHOLD_BPS) \<le> sat_mul (total_for p) 10000"

definition set_prop_status :: "u64 \<Rightarrow> proposal_status \<Rightarrow> governance_contract \<Rightarrow> governance_contract" where
  "set_prop_status pid st g =
     g\<lparr>proposals := update_first (\<lambda>p. prop_id p = pid) (\<lambda>p. p\<lparr>prop_status := st\<rparr>) (proposals g)\<rparr>"

definition finalize ::
  "governance_contract \<Rightarrow> u64 \<Rightarrow> u128 \<Rightarrow> u64 \<Rightarrow> bool
   \<Rightarrow> governance_error + (proposal_status \<times> governance_contract)" where
  "finalize g pid total_stake current_epoch emergency_fasttrack =
     (case find (\<lambda>p. prop_id p = pid) (proposals g) of
        None \<Rightarrow> Inl ProposalNotFound
      | Some p \<Rightarrow>
          let emergency = emergency_fasttrack \<and> is_emergency (prop_action p)
          in if \<not> emergency \<and> current_epoch \<le> voting_end_epoch p then Inl VotingNotEnded
             else if prop_status p \<noteq> Active then Inr (prop_status p, g)
             else if quorum_met p total_stake \<and> threshold_met p
               then Inr (Passed, set_prop_status pid Passed g)
             else if emergency \<and> current_epoch \<le> voting_end_epoch p then Inr (Active, g)
             else Inr (Rejected, set_prop_status pid Rejected g))"

definition execute ::
  "governance_contract \<Rightarrow> u64 \<Rightarrow> u64 \<Rightarrow> bool
   \<Rightarrow> governance_error + (proposal_action \<times> governance_contract)" where
  "execute g pid current_epoch emergency_fasttrack =
     (case find (\<lambda>p. prop_id p = pid) (proposals g) of
        None \<Rightarrow> Inl ProposalNotFound
      | Some p \<Rightarrow>
          if prop_status p \<noteq> Passed then Inl ProposalNotPassed
          else let emergency = emergency_fasttrack \<and> is_emergency (prop_action p)
          in if \<not> emergency \<and> current_epoch < execute_after_epoch p then Inl TimelockNotExpired
             else let g' = set_prop_status pid Executed g
             in Inr (prop_action p,
                  case prop_action p of
                    EmergencyPause \<Rightarrow> g'\<lparr>is_paused := True\<rparr>
                  | EmergencyResume \<Rightarrow> g'\<lparr>is_paused := False\<rparr>
                  | _ \<Rightarrow> g'))"

definition get_proposal :: "governance_contract \<Rightarrow> u64 \<Rightarrow> proposal option" where
  "get_proposal g pid = find (\<lambda>p. prop_id p = pid) (proposals g)"

section \<open>Histories\<close>

text \<open>
  The calls that change the contract.  \<open>finalize\<close> and \<open>execute\<close> are called with
  \<open>emergency_fasttrack_active\<close> of the current epoch; \<open>period\<close> is the effect of an executed
  \<open>SetGovernanceVotingPeriod\<close>, which the executor writes into the contract.
\<close>

datatype gov_event =
    EvCreated u64 u64
  | EvVoted u64 account_id bool u128 u64
  | EvFinalized u64 proposal_status u128 u64
  | EvExecuted u64 proposal_action u64
  | EvPeriod u64

inductive gov_step :: "governance_contract \<Rightarrow> gov_event \<Rightarrow> governance_contract \<Rightarrow> bool" where
  create: "create_proposal g a act d e = (pid, g') \<Longrightarrow> gov_step g (EvCreated pid e) g'"
| votes: "vote g pid who s w e = Inr g' \<Longrightarrow> gov_step g (EvVoted pid who s w e) g'"
| final: "finalize g pid ts e (emergency_fasttrack_active e) = Inr (st, g') \<Longrightarrow>
    gov_step g (EvFinalized pid st ts e) g'"
| exec: "execute g pid e (emergency_fasttrack_active e) = Inr (act, g') \<Longrightarrow>
    gov_step g (EvExecuted pid act e) g'"
| period: "gov_step g (EvPeriod n) (g\<lparr>voting_period := n\<rparr>)"

inductive gov_reach :: "governance_contract \<Rightarrow> gov_event list \<Rightarrow> bool" where
  start: "gov_reach new_governance []"
| step: "gov_reach g es \<Longrightarrow> gov_step g ev g' \<Longrightarrow> gov_reach g' (es @ [ev])"

fun executes :: "u64 \<Rightarrow> gov_event \<Rightarrow> bool" where
  "executes pid (EvExecuted q a e) \<longleftrightarrow> q = pid"
| "executes pid _ \<longleftrightarrow> False"

lemma fasttrack_dormant [simp]: "emergency_fasttrack_active e = False"
  by (simp add: emergency_fasttrack_active_def EMERGENCY_FASTTRACK_ACTIVATION_EPOCH_def)

section \<open>Invariant\<close>

definition tallies_ok :: "proposal \<Rightarrow> bool" where
  "tallies_ok p \<longleftrightarrow>
     distinct (map voter (votes p)) \<and>
     total_for p = sum_list (map stake_weight (filter support (votes p))) \<and>
     total_against p = sum_list (map stake_weight (filter (\<lambda>v. \<not> support v) (votes p)))"

definition schedule_ok :: "proposal \<Rightarrow> bool" where
  "schedule_ok p \<longleftrightarrow>
     execute_after_epoch p = voting_end_epoch p + TIMELOCK_DELAY \<and>
     (\<exists>k. 0 < k \<and> k \<le> MAX_SANE_VOTING_PERIOD \<and> voting_end_epoch p = created_epoch p + k)"

definition votes_cast :: "gov_event list \<Rightarrow> proposal \<Rightarrow> bool" where
  "votes_cast es p \<longleftrightarrow>
     (\<forall>v\<in>set (votes p). \<exists>e. e \<le> voting_end_epoch p \<and>
        EvVoted (prop_id p) (voter v) (support v) (stake_weight v) e \<in> set es)"

definition passed_ok :: "gov_event list \<Rightarrow> proposal \<Rightarrow> bool" where
  "passed_ok es p \<longleftrightarrow>
     (prop_status p \<in> {Passed, Executed} \<longrightarrow>
        (\<exists>ts e. EvFinalized (prop_id p) Passed ts e \<in> set es \<and> voting_end_epoch p < e \<and>
                quorum_met p ts \<and> threshold_met p))"

definition executed_ok :: "gov_event list \<Rightarrow> proposal \<Rightarrow> bool" where
  "executed_ok es p \<longleftrightarrow>
     length (filter (executes (prop_id p)) es) = (if prop_status p = Executed then 1 else 0) \<and>
     (\<forall>a e. EvExecuted (prop_id p) a e \<in> set es \<longrightarrow>
        a = prop_action p \<and> execute_after_epoch p \<le> e)"

definition prop_ok :: "gov_event list \<Rightarrow> proposal \<Rightarrow> bool" where
  "prop_ok es p \<longleftrightarrow> tallies_ok p \<and> schedule_ok p \<and> votes_cast es p \<and> passed_ok es p \<and> executed_ok es p"

lemmas prop_ok_defs = prop_ok_def tallies_ok_def schedule_ok_def votes_cast_def passed_ok_def executed_ok_def

lemma get_proposal_id: "get_proposal g pid = Some p \<Longrightarrow> prop_id p = pid"
  by (auto simp: get_proposal_def dest: find_SomeD)

lemma prop_ok_mono: "prop_ok es p \<Longrightarrow> \<not> executes (prop_id p) ev \<Longrightarrow> prop_ok (es @ [ev]) p"
  by (cases ev) (fastforce simp: prop_ok_defs)+

interpretation gov: keyed_history get_proposal "\<lambda>es pid p. prop_id p = pid \<and> prop_ok es p" executes
  by unfold_locales (auto simp: prop_ok_mono)

lemma get_update:
  assumes "proposals g' = update_first (\<lambda>p. prop_id p = pid) f (proposals g)"
    "\<And>p. prop_id (f p) = prop_id p" "get_proposal g pid = Some p"
  shows "get_proposal g' q = (if q = pid then Some (f p) else get_proposal g q)"
  using assms find_key_update_first [of prop_id pid f q "proposals g"]
  by (simp add: get_proposal_def)

lemma cast_vote_simps [simp]:
  "prop_id (cast_vote a s w p) = prop_id p" "prop_status (cast_vote a s w p) = prop_status p"
  "prop_action (cast_vote a s w p) = prop_action p"
  "created_epoch (cast_vote a s w p) = created_epoch p"
  "voting_end_epoch (cast_vote a s w p) = voting_end_epoch p"
  "execute_after_epoch (cast_vote a s w p) = execute_after_epoch p"
  "votes (cast_vote a s w p) = votes p @ [\<lparr>voter = a, support = s, stake_weight = w\<rparr>]"
  "total_for (cast_vote a s w p) = (if s then total_for p + w else total_for p)"
  "total_against (cast_vote a s w p) = (if s then total_against p else total_against p + w)"
  by (simp_all add: cast_vote_def)

lemma vote_Inr:
  assumes "vote g pid who s w e = Inr g'"
  obtains p where "get_proposal g pid = Some p" "prop_status p = Active" "e \<le> voting_end_epoch p"
    "who \<notin> set (map voter (votes p))"
    "proposals g' = update_first (\<lambda>p. prop_id p = pid) (cast_vote who s w) (proposals g)"
  using assms
  by (fastforce simp: vote_def get_proposal_def not_less split: option.splits if_splits)

lemma finalize_Inr:
  assumes "finalize g pid ts e False = Inr (st, g')"
  obtains p where "get_proposal g pid = Some p" "voting_end_epoch p < e"
    "prop_status p \<noteq> Active \<Longrightarrow> st = prop_status p \<and> g' = g"
    "prop_status p = Active \<Longrightarrow> st = (if quorum_met p ts \<and> threshold_met p then Passed else Rejected) \<and>
       g' = set_prop_status pid st g"
  using assms by (auto simp: finalize_def get_proposal_def Let_def split: option.splits if_splits)

lemma execute_Inr:
  assumes "execute g pid e False = Inr (act, g')"
  obtains p where "get_proposal g pid = Some p" "prop_status p = Passed" "act = prop_action p"
    "execute_after_epoch p \<le> e" "proposals g' = proposals (set_prop_status pid Executed g)"
  using assms
  by (auto simp: execute_def get_proposal_def Let_def split: option.splits if_splits
      proposal_action.splits)

lemma gov_inv_vote:
  assumes inv: "gov.hist_inv g es" and v: "vote g pid who s w e = Inr g'"
  shows "gov.hist_inv g' (es @ [EvVoted pid who s w e])"
  using v
proof (rule vote_Inr)
  fix p
  assume p: "get_proposal g pid = Some p" "prop_status p = Active" "e \<le> voting_end_epoch p"
    "who \<notin> set (map voter (votes p))"
    "proposals g' = update_first (\<lambda>p. prop_id p = pid) (cast_vote who s w) (proposals g)"
  note pid = get_proposal_id [OF p(1)]
  show ?thesis
  proof (rule gov.hist_update [OF inv p(1) get_update [OF p(5) _ p(1)]])
    assume "prop_id p = pid \<and> prop_ok es p"
    then show "prop_id (cast_vote who s w p) = pid \<and>
        prop_ok (es @ [EvVoted pid who s w e]) (cast_vote who s w p)"
      using p(2-4) by (auto simp: prop_ok_defs add.commute)
  qed simp_all
qed

lemma set_prop_status_get:
  "get_proposal g pid = Some p \<Longrightarrow> proposals g' = proposals (set_prop_status pid st g) \<Longrightarrow>
   get_proposal g' q = (if q = pid then Some (p\<lparr>prop_status := st\<rparr>) else get_proposal g q)"
  by (rule get_update) (simp_all add: set_prop_status_def)

lemma tally_status [simp]:
  "quorum_met (p\<lparr>prop_status := st\<rparr>) ts = quorum_met p ts"
  "threshold_met (p\<lparr>prop_status := st\<rparr>) = threshold_met p"
  by (simp_all add: quorum_met_def threshold_met_def)

lemma gov_inv_finalize:
  assumes inv: "gov.hist_inv g es" and f: "finalize g pid ts e False = Inr (st, g')"
  shows "gov.hist_inv g' (es @ [EvFinalized pid st ts e])"
  using f
proof (rule finalize_Inr)
  fix p
  assume p: "get_proposal g pid = Some p" "voting_end_epoch p < e"
    "prop_status p \<noteq> Active \<Longrightarrow> st = prop_status p \<and> g' = g"
    "prop_status p = Active \<Longrightarrow> st = (if quorum_met p ts \<and> threshold_met p then Passed else Rejected) \<and>
       g' = set_prop_status pid st g"
  note pid = get_proposal_id [OF p(1)]
  have upd: "get_proposal g' q = (if q = pid then Some (p\<lparr>prop_status := st\<rparr>) else get_proposal g q)" for q
    using p set_prop_status_get [OF p(1), of g' st q] by (cases "prop_status p = Active") auto
  show ?thesis
  proof (rule gov.hist_update [OF inv p(1) upd])
    assume ok: "prop_id p = pid \<and> prop_ok es p"
    show "prop_id (p\<lparr>prop_status := st\<rparr>) = pid \<and>
        prop_ok (es @ [EvFinalized pid st ts e]) (p\<lparr>prop_status := st\<rparr>)"
    proof (cases "prop_status p = Active")
      case True
      then show ?thesis using ok p(2) p(4) pid by (auto simp: prop_ok_defs)
    next
      case False
      then have "p\<lparr>prop_status := st\<rparr> = p" using p(3) by simp
      then show ?thesis using ok by (simp add: prop_ok_mono)
    qed
  qed simp_all
qed

lemma gov_inv_execute:
  assumes inv: "gov.hist_inv g es" and x: "execute g pid e False = Inr (act, g')"
  shows "gov.hist_inv g' (es @ [EvExecuted pid act e])"
  using x
proof (rule execute_Inr)
  fix p
  assume p: "get_proposal g pid = Some p" "prop_status p = Passed" "act = prop_action p"
    "execute_after_epoch p \<le> e" "proposals g' = proposals (set_prop_status pid Executed g)"
  note pid = get_proposal_id [OF p(1)]
  show ?thesis
  proof (rule gov.hist_update [OF inv p(1) set_prop_status_get [OF p(1) p(5)]])
    assume "prop_id p = pid \<and> prop_ok es p"
    then show "prop_id (p\<lparr>prop_status := Executed\<rparr>) = pid \<and>
        prop_ok (es @ [EvExecuted pid act e]) (p\<lparr>prop_status := Executed\<rparr>)"
      using p(2-4) by (auto simp: prop_ok_defs)
  qed simp_all
qed

lemma effective_voting_period_sane:
  "0 < effective_voting_period g \<and> effective_voting_period g \<le> MAX_SANE_VOTING_PERIOD"
  by (auto simp: effective_voting_period_def SANE_VOTING_PERIOD_def MAX_SANE_VOTING_PERIOD_def
      not_less word_neq_0_conv)

lemma gov_inv_create:
  assumes inv: "gov.hist_inv g es" and c: "create_proposal g a act d e = (pid, g')"
  shows "gov.hist_inv g' (es @ [EvCreated pid e])"
proof -
  let ?n = "\<lparr>prop_id = pid, proposer = a, prop_action = act, description = d, created_epoch = e,
     voting_end_epoch = e + effective_voting_period g,
     execute_after_epoch = e + effective_voting_period g + TIMELOCK_DELAY, prop_status = Active,
     votes = [], total_for = 0, total_against = 0, deposit = PROPOSAL_DEPOSIT\<rparr>"
  have get: "get_proposal g' q = (case get_proposal g q of
       None \<Rightarrow> if q = pid then Some ?n else None | Some p \<Rightarrow> Some p)" for q
    using c by (auto simp: create_proposal_def Let_def get_proposal_def find_snoc split: option.splits)
  show ?thesis
    by (rule gov.hist_insert [OF inv get])
       (use effective_voting_period_sane [of g] in \<open>auto simp: prop_ok_defs filter_empty_conv\<close>)
qed

lemma gov_inv_step:
  assumes "gov.hist_inv g es" "gov_step g ev g'"
  shows "gov.hist_inv g' (es @ [ev])"
  using assms(2)
proof cases
  case (period n)
  then show ?thesis by (intro gov.hist_same [OF assms(1)]) (simp_all add: get_proposal_def)
qed (use assms(1) in \<open>auto intro: gov_inv_create gov_inv_vote gov_inv_finalize gov_inv_execute\<close>)

lemma gov_inv_new: "gov.hist_inv new_governance []"
  by (rule gov.hist_start) (simp add: new_governance_def get_proposal_def)

lemma gov_inv_reach: "gov_reach g es \<Longrightarrow> gov.hist_inv g es"
  by (induction rule: gov_reach.induct) (auto intro: gov_inv_new gov_inv_step)

lemma reach_prop_ok: "gov_reach g es \<Longrightarrow> get_proposal g pid = Some p \<Longrightarrow> prop_ok es p"
  using gov.hist_Some [OF gov_inv_reach] by blast

section \<open>Properties\<close>

text \<open>C3: every execution in a history is of a proposal that had been finalized as passed after its
  voting window closed, with the quorum and the supermajority over its recorded tallies; it
  happened no earlier than the timelock, it enacted the proposal's action, and the same proposal
  is executed only once.\<close>

theorem executed_proposal_legitimate:
  assumes "gov_reach g es" "EvExecuted pid act e \<in> set es"
  shows "\<exists>p. get_proposal g pid = Some p \<and> prop_status p = Executed \<and> act = prop_action p \<and>
    execute_after_epoch p = voting_end_epoch p + 3 \<and> execute_after_epoch p \<le> e \<and>
    (\<exists>ts e'. EvFinalized pid Passed ts e' \<in> set es \<and> voting_end_epoch p < e' \<and>
       quorum_met p ts \<and> threshold_met p) \<and>
    length (filter (executes pid) es) = 1"
proof -
  have some: "executes pid (EvExecuted pid act e)" by simp
  obtain p where p: "get_proposal g pid = Some p"
    using gov.hist_touched [OF gov_inv_reach [OF assms(1)] assms(2) some] by blast
  have ok: "prop_ok es p" by (rule reach_prop_ok [OF assms(1) p])
  have "filter (executes pid) es \<noteq> []"
    using assms(2) some unfolding filter_empty_conv by blast
  then have "prop_status p = Executed"
    using ok get_proposal_id [OF p] by (auto simp: prop_ok_defs split: if_splits)
  then show ?thesis
    using ok p assms(2) get_proposal_id [OF p] by (auto simp: prop_ok_defs TIMELOCK_DELAY_def)
qed

text \<open>C4: in every reachable state each account has at most one vote on a proposal, every recorded
  vote was cast by that account no later than the end of the voting window, and the tallies are
  exactly the (128-bit) sums of the recorded weights for and against.\<close>

theorem tallies_are_votes:
  assumes "gov_reach g es" "get_proposal g pid = Some p"
  shows "distinct (map voter (votes p)) \<and>
    total_for p = sum_list (map stake_weight (filter support (votes p))) \<and>
    total_against p = sum_list (map stake_weight (filter (\<lambda>v. \<not> support v) (votes p))) \<and>
    (\<forall>v\<in>set (votes p). \<exists>e. e \<le> voting_end_epoch p \<and>
       EvVoted pid (voter v) (support v) (stake_weight v) e \<in> set es)"
  using reach_prop_ok [OF assms] get_proposal_id [OF assms(2)] by (auto simp: prop_ok_defs)

text \<open>C5: finalizing an active proposal after its window passes it exactly when at least 30 per cent of
  the stake voted and at least 66.67 per cent of the votes are in favour, and rejects it
  otherwise, as long as the tallies and the stake leave room for the multiplication by 10000.\<close>

theorem finalize_decides:
  assumes "get_proposal g pid = Some p" "prop_status p = Active" "voting_end_epoch p < e"
    "(unat (total_for p) + unat (total_against p)) * 10000 < 2 ^ 128" "unat ts * 3000 < 2 ^ 128"
  shows "finalize g pid ts e False =
    (let st = if 0 < ts \<and> unat ts * 3000 \<le> (unat (total_for p) + unat (total_against p)) * 10000 \<and>
                 0 < unat (total_for p) + unat (total_against p) \<and>
                 (unat (total_for p) + unat (total_against p)) * 6667 \<le> unat (total_for p) * 10000
              then Passed else Rejected
     in Inr (st, set_prop_status pid st g))"
proof -
  have s: "unat (total_for p + total_against p) = unat (total_for p) + unat (total_against p)"
    by (rule unat_add_exact) (use assms(4) in simp)
  have q: "quorum_met p ts \<longleftrightarrow> 0 < ts \<and>
      unat ts * 3000 \<le> (unat (total_for p) + unat (total_against p)) * 10000"
    using assms(4,5) unat_lt [of "total_for p"]
    by (auto simp: quorum_met_def word_le_nat_alt unat_sat_mul s QUORUM_BPS_def)
  have t: "threshold_met p \<longleftrightarrow> 0 < unat (total_for p) + unat (total_against p) \<and>
      (unat (total_for p) + unat (total_against p)) * 6667 \<le> unat (total_for p) * 10000"
    using assms(4)
    by (auto simp: threshold_met_def word_le_nat_alt word_less_nat_alt unat_sat_mul s
        PASS_THRESHOLD_BPS_def)
  show ?thesis
    using assms(1-3) q t by (auto simp: finalize_def get_proposal_def Let_def)
qed

text \<open>A concrete history for the witnesses: one proposal, one vote, passed and executed.\<close>

definition sample_proposal :: "proposal_status \<Rightarrow> gov_vote list \<Rightarrow> u128 \<Rightarrow> proposal" where
  "sample_proposal st vs f = \<lparr>prop_id = 0, proposer = 7, prop_action = SetBaseFee 2, description = [],
     created_epoch = 1, voting_end_epoch = 15, execute_after_epoch = 18, prop_status = st,
     votes = vs, total_for = f, total_against = 0, deposit = PROPOSAL_DEPOSIT\<rparr>"

definition sample_gov :: "proposal_status \<Rightarrow> gov_vote list \<Rightarrow> u128 \<Rightarrow> governance_contract" where
  "sample_gov st vs f = \<lparr>proposals = [sample_proposal st vs f], next_proposal_id = 1,
     is_paused = False, voting_period = 14\<rparr>"

lemmas sample_gov_defs = sample_gov_def sample_proposal_def new_governance_def
  DEFAULT_VOTING_PERIOD_def MAX_SANE_VOTING_PERIOD_def TIMELOCK_DELAY_def
  set_prop_status_def quorum_met_def threshold_met_def QUORUM_BPS_def PASS_THRESHOLD_BPS_def

definition sample_vote :: gov_vote where
  "sample_vote = \<lparr>voter = 5, support = True, stake_weight = 40\<rparr>"

lemma sample_gov_voted:
  "gov_reach (sample_gov Active [sample_vote] 40) [EvCreated 0 1, EvVoted 0 5 True 40 2]"
proof -
  have c: "create_proposal new_governance 7 (SetBaseFee 2) [] 1 = (0, sample_gov Active [] 0)"
    by (simp add: create_proposal_def effective_voting_period_def sample_gov_defs)
  have v: "vote (sample_gov Active [] 0) 0 5 True 40 2 = Inr (sample_gov Active [sample_vote] 40)"
    by (simp add: vote_def cast_vote_def sample_gov_defs sample_vote_def)
  show ?thesis
    using gov_reach.step [OF gov_reach.step [OF gov_reach.start gov_step.create [OF c]]
        gov_step.votes [OF v]] by simp
qed

lemma sample_finalize:
  "finalize (sample_gov Active [sample_vote] 40) 0 100 16 False
   = Inr (Passed, sample_gov Passed [sample_vote] 40)"
  by (simp add: finalize_def sample_gov_defs sat_mul_def)

lemma sample_gov_executed:
  "gov_reach (sample_gov Executed [sample_vote] 40)
     [EvCreated 0 1, EvVoted 0 5 True 40 2, EvFinalized 0 Passed 100 16, EvExecuted 0 (SetBaseFee 2) 18]"
proof -
  have x: "execute (sample_gov Passed [sample_vote] 40) 0 18 False
      = Inr (SetBaseFee 2, sample_gov Executed [sample_vote] 40)"
    by (simp add: execute_def sample_gov_defs)
  show ?thesis
    using gov_reach.step [OF gov_reach.step [OF sample_gov_voted
          gov_step.final [of _ 0 100 16, unfolded fasttrack_dormant, OF sample_finalize]]
        gov_step.exec [of _ 0 18, unfolded fasttrack_dormant, OF x]] by simp
qed

theorem executed_proposal_legitimate_witness:
  "\<exists>g es. gov_reach g es \<and> EvExecuted 0 (SetBaseFee 2) 18 \<in> set es \<and>
     length (filter (executes 0) es) = 1"
  using executed_proposal_legitimate [OF sample_gov_executed, of 0 "SetBaseFee 2" 18]
    sample_gov_executed by (metis list.set_intros)

theorem tallies_are_votes_witness:
  "get_proposal (sample_gov Active [sample_vote] 40) 0 = Some (sample_proposal Active [sample_vote] 40) \<and>
   total_for (sample_proposal Active [sample_vote] 40) = sum_list [40]"
  using tallies_are_votes [OF sample_gov_voted, of 0 "sample_proposal Active [sample_vote] 40"]
  by (simp add: get_proposal_def sample_gov_def sample_proposal_def sample_vote_def)

theorem finalize_decides_witness:
  "finalize (sample_gov Active [sample_vote] 40) 0 100 16 False
   = Inr (Passed, set_prop_status 0 Passed (sample_gov Active [sample_vote] 40))"
  using finalize_decides [of "sample_gov Active [sample_vote] 40" 0
      "sample_proposal Active [sample_vote] 40" 16 100]
  by (simp add: get_proposal_def sample_gov_def sample_proposal_def)

end
