(* ===== verification/Bridge.thy ===== *)
theory Bridge
  imports Chain_Types
begin

text \<open>
  The bridge contract, \<open>crates/solen-system-contracts/src/bridge.rs\<close>: a vault per rollup,
  deposits, and withdrawals that wait out a challenge window and may be disputed.
  Proved here: a withdrawal is paid at most once and not before its window has passed; as
  long as nothing is disputed every vault covers its pending withdrawals and its balance
  is what was deposited minus what was paid; and a dispute breaks that cover, since a
  disputed withdrawal is not counted when the next one is accepted.

  An operation returns its result together with the contract state, because
  \<open>finalize_withdrawal\<close> has already marked the withdrawal when it looks for the vault.
\<close>

section \<open>State\<close>

definition DEFAULT_CHALLENGE_WINDOW :: u64 where "DEFAULT_CHALLENGE_WINDOW = 100"
definition DEFAULT_WITHDRAWAL_DELAY :: u64 where "DEFAULT_WITHDRAWAL_DELAY = 50"
definition DISPUTE_BOND :: u128 where "DISPUTE_BOND = 100 * 100000000"

datatype bridge_error =
    VaultNotFound u64
  | InsufficientVaultBalance (vault_have: u128) (vault_need: u128)
  | WithdrawalNotFound
  | WithdrawalNotReady u64
  | WithdrawalDisputed
  | VaultAlreadyExists u64
  | RollupAlreadyRegistered u64

datatype withdrawal_status = WPending | WDisputed | WFinalized

record pending_withdrawal =
  wd_id :: u64
  wd_rollup :: u64
  wd_recipient :: account_id
  wd_amount :: u128
  initiated_block :: u64
  finalize_after_block :: u64
  proof_hash :: hash
  wd_status :: withdrawal_status
  disputer :: "account_id option"
  dispute_bond :: u128

record bridge_vault =
  vault_rollup :: u64
  vault_balance :: u128
  total_deposited :: u128
  total_withdrawn :: u128
  challenge_window :: u64
  withdrawal_delay :: u64

record registered_rollup =
  rollup_id :: u64
  rollup_name :: string
  proof_type :: string
  sequencer :: account_id
  genesis_state_root :: hash
  registered_at_height :: u64

record bridge_contract =
  vaults :: "bridge_vault list"
  pending_withdrawals :: "pending_withdrawal list"
  registered_rollups :: "registered_rollup list"
  next_withdrawal_id :: u64

definition new_bridge :: bridge_contract where
  "new_bridge = \<lparr>vaults = [], pending_withdrawals = [], registered_rollups = [], next_withdrawal_id = 0\<rparr>"

section \<open>Operations\<close>

definition fresh_vault :: "u64 \<Rightarrow> bridge_vault" where
  "fresh_vault r = \<lparr>vault_rollup = r, vault_balance = 0, total_deposited = 0, total_withdrawn = 0,
     challenge_window = DEFAULT_CHALLENGE_WINDOW, withdrawal_delay = DEFAULT_WITHDRAWAL_DELAY\<rparr>"

definition register_rollup ::
  "bridge_contract \<Rightarrow> u64 \<Rightarrow> string \<Rightarrow> string \<Rightarrow> account_id \<Rightarrow> hash \<Rightarrow> u64 \<Rightarrow> bridge_error + bridge_contract" where
  "register_rollup b r name ptype seq root height =
     (if \<exists>x\<in>set (registered_rollups b). rollup_id x = r then Inl (RollupAlreadyRegistered r)
      else let b1 = b\<lparr>registered_rollups := registered_rollups b @
             [\<lparr>rollup_id = r, rollup_name = name, proof_type = ptype, sequencer = seq,
               genesis_state_root = root, registered_at_height = height\<rparr>]\<rparr>
      in Inr (if \<exists>v\<in>set (vaults b). vault_rollup v = r then b1
              else b1\<lparr>vaults := vaults b @ [fresh_vault r]\<rparr>))"

definition get_rollup :: "bridge_contract \<Rightarrow> u64 \<Rightarrow> registered_rollup option" where
  "get_rollup b r = find (\<lambda>x. rollup_id x = r) (registered_rollups b)"

definition register_vault :: "bridge_contract \<Rightarrow> u64 \<Rightarrow> bridge_error + bridge_contract" where
  "register_vault b r =
     (if \<exists>v\<in>set (vaults b). vault_rollup v = r then Inl (VaultAlreadyExists r)
      else Inr (b\<lparr>vaults := vaults b @ [fresh_vault r]\<rparr>))"

definition get_vault :: "bridge_contract \<Rightarrow> u64 \<Rightarrow> bridge_vault option" where
  "get_vault b r = find (\<lambda>v. vault_rollup v = r) (vaults b)"

definition upd_vault :: "u64 \<Rightarrow> (bridge_vault \<Rightarrow> bridge_vault) \<Rightarrow> bridge_contract \<Rightarrow> bridge_contract" where
  "upd_vault r f b = b\<lparr>vaults := update_first (\<lambda>v. vault_rollup v = r) f (vaults b)\<rparr>"

definition get_withdrawal :: "bridge_contract \<Rightarrow> u64 \<Rightarrow> pending_withdrawal option" where
  "get_withdrawal b i = find (\<lambda>w. wd_id w = i) (pending_withdrawals b)"

definition upd_withdrawal ::
  "u64 \<Rightarrow> (pending_withdrawal \<Rightarrow> pending_withdrawal) \<Rightarrow> bridge_contract \<Rightarrow> bridge_contract" where
  "upd_withdrawal i f b =
     b\<lparr>pending_withdrawals := update_first (\<lambda>w. wd_id w = i) f (pending_withdrawals b)\<rparr>"

definition deposit :: "bridge_contract \<Rightarrow> u64 \<Rightarrow> u128 \<Rightarrow> bridge_error + bridge_contract" where
  "deposit b r amount =
     (case get_vault b r of
        None \<Rightarrow> Inl (VaultNotFound r)
      | Some v \<Rightarrow> Inr (upd_vault r (\<lambda>v. v\<lparr>vault_balance := vault_balance v + amount,
                                          total_deposited := total_deposited v + amount\<rparr>) b))"

definition pending_on :: "u64 \<Rightarrow> pending_withdrawal \<Rightarrow> bool" where
  "pending_on r w \<longleftrightarrow> wd_rollup w = r \<and> wd_status w = WPending"

definition initiate_withdrawal ::
  "bridge_contract \<Rightarrow> u64 \<Rightarrow> account_id \<Rightarrow> u128 \<Rightarrow> u64 \<Rightarrow> hash \<Rightarrow> bridge_error + (u64 \<times> bridge_contract)" where
  "initiate_withdrawal b r recipient amount current_block proof =
     (case get_vault b r of
        None \<Rightarrow> Inl (VaultNotFound r)
      | Some v \<Rightarrow>
          let pending_amount = sum_list (map wd_amount (filter (pending_on r) (pending_withdrawals b)));
              available = sat_sub (vault_balance v) pending_amount
          in if available < amount then Inl (InsufficientVaultBalance available amount)
             else Inr (next_withdrawal_id b,
               b\<lparr>next_withdrawal_id := next_withdrawal_id b + 1,
                 pending_withdrawals := pending_withdrawals b @
                   [\<lparr>wd_id = next_withdrawal_id b, wd_rollup = r, wd_recipient = recipient,
                     wd_amount = amount, initiated_block = current_block,
                     finalize_after_block = current_block + challenge_window v + withdrawal_delay v,
                     proof_hash = proof, wd_status = WPending, disputer = None, dispute_bond = 0\<rparr>]\<rparr>))"

definition dispute_withdrawal ::
  "bridge_contract \<Rightarrow> u64 \<Rightarrow> account_id \<Rightarrow> bridge_error + (u128 \<times> bridge_contract)" where
  "dispute_withdrawal b i who =
     (case get_withdrawal b i of
        None \<Rightarrow> Inl WithdrawalNotFound
      | Some w \<Rightarrow>
          if wd_status w \<noteq> WPending then Inl WithdrawalNotFound
          else Inr (DISPUTE_BOND,
                 upd_withdrawal i (\<lambda>w. w\<lparr>wd_status := WDisputed, disputer := Some who,
                                         dispute_bond := DISPUTE_BOND\<rparr>) b))"

definition resolve_dispute ::
  "bridge_contract \<Rightarrow> u64 \<Rightarrow> bool \<Rightarrow> bridge_error + ((account_id option \<times> u128) \<times> bridge_contract)" where
  "resolve_dispute b i valid_dispute =
     (case get_withdrawal b i of
        None \<Rightarrow> Inl WithdrawalNotFound
      | Some w \<Rightarrow>
          if wd_status w \<noteq> WDisputed then Inl WithdrawalNotFound
          else if valid_dispute
            then Inr ((disputer w, dispute_bond w),
                   upd_withdrawal i (\<lambda>w. w\<lparr>disputer := None, dispute_bond := 0\<rparr>) b)
            else Inr ((None, 0),
                   upd_vault (wd_rollup w)
                     (\<lambda>v. v\<lparr>vault_balance := sat_add (vault_balance v) (dispute_bond w)\<rparr>)
                     (upd_withdrawal i
                       (\<lambda>w. w\<lparr>disputer := None, dispute_bond := 0, wd_status := WPending\<rparr>) b)))"

definition finalize_withdrawal ::
  "bridge_contract \<Rightarrow> u64 \<Rightarrow> u64 \<Rightarrow> (bridge_error + (account_id \<times> u128)) \<times> bridge_contract" where
  "finalize_withdrawal b i current_block =
     (case get_withdrawal b i of
        None \<Rightarrow> (Inl WithdrawalNotFound, b)
      | Some w \<Rightarrow>
          (case wd_status w of
             WDisputed \<Rightarrow> (Inl WithdrawalDisputed, b)
           | WFinalized \<Rightarrow> (Inl WithdrawalNotFound, b)
           | WPending \<Rightarrow>
               if current_block < finalize_after_block w
                 then (Inl (WithdrawalNotReady (finalize_after_block w - current_block)), b)
               else let b1 = upd_withdrawal i (\<lambda>w. w\<lparr>wd_status := WFinalized\<rparr>) b
               in (case get_vault b1 (wd_rollup w) of
                     None \<Rightarrow> (Inl (VaultNotFound (wd_rollup w)), b1)
                   | Some v \<Rightarrow> (Inr (wd_recipient w, wd_amount w),
                       upd_vault (wd_rollup w)
                         (\<lambda>v. v\<lparr>vault_balance := sat_sub (vault_balance v) (wd_amount w),
                                total_withdrawn := total_withdrawn v + wd_amount w\<rparr>) b1))))"

definition pending_for_recipient :: "bridge_contract \<Rightarrow> account_id \<Rightarrow> pending_withdrawal list" where
  "pending_for_recipient b a =
     filter (\<lambda>w. wd_recipient w = a \<and> wd_status w = WPending) (pending_withdrawals b)"

section \<open>Histories\<close>

datatype bridge_event =
    Deposited u64 u128
  | Requested u64 u64 u64
  | DisputedBy u64 account_id
  | Resolved u64 bool
  | Paid u64 account_id u128 u64
  | Opened u64

inductive bridge_step :: "bridge_contract \<Rightarrow> bridge_event \<Rightarrow> bridge_contract \<Rightarrow> bool" where
  open_vault: "register_vault b r = Inr b' \<Longrightarrow> bridge_step b (Opened r) b'"
| open_rollup: "register_rollup b r nm pt sq rt h = Inr b' \<Longrightarrow> bridge_step b (Opened r) b'"
| deposits: "deposit b r amt = Inr b' \<Longrightarrow> bridge_step b (Deposited r amt) b'"
| request: "initiate_withdrawal b r a amt blk pf = Inr (i, b') \<Longrightarrow> bridge_step b (Requested i r blk) b'"
| dispute: "dispute_withdrawal b i who = Inr (bond, b') \<Longrightarrow> bridge_step b (DisputedBy i who) b'"
| resolve: "resolve_dispute b i valid = Inr (x, b') \<Longrightarrow> bridge_step b (Resolved i valid) b'"
| pay: "finalize_withdrawal b i blk = (Inr (a, amt), b') \<Longrightarrow> bridge_step b (Paid i a amt blk) b'"

inductive bridge_run ::
  "(bridge_event \<Rightarrow> bool) \<Rightarrow> bridge_contract \<Rightarrow> bridge_event list \<Rightarrow> bool" for ok where
  start: "bridge_run ok new_bridge []"
| step: "bridge_run ok b es \<Longrightarrow> bridge_step b ev b' \<Longrightarrow> ok ev \<Longrightarrow> bridge_run ok b' (es @ [ev])"

section \<open>One payment per withdrawal\<close>

fun pays :: "u64 \<Rightarrow> bridge_event \<Rightarrow> bool" where
  "pays i (Paid j a amt blk) \<longleftrightarrow> i = j"
| "pays i _ \<longleftrightarrow> False"

definition withdrawal_ok :: "bridge_event list \<Rightarrow> u64 \<Rightarrow> pending_withdrawal \<Rightarrow> bool" where
  "withdrawal_ok es i w \<longleftrightarrow>
     wd_id w = i \<and>
     finalize_after_block w = initiated_block w + DEFAULT_CHALLENGE_WINDOW + DEFAULT_WITHDRAWAL_DELAY \<and>
     length (filter (pays i) es) = (if wd_status w = WFinalized then 1 else 0) \<and>
     (\<forall>a amt blk. Paid i a amt blk \<in> set es \<longrightarrow>
        a = wd_recipient w \<and> amt = wd_amount w \<and> finalize_after_block w \<le> blk)"

interpretation wd: keyed_history get_withdrawal withdrawal_ok pays
proof
  fix es k r ev
  assume "withdrawal_ok es k r" "\<not> pays k ev"
  then show "withdrawal_ok (es @ [ev]) k r"
    by (cases ev) (auto simp: withdrawal_ok_def)
qed

definition windows_default :: "bridge_contract \<Rightarrow> bool" where
  "windows_default b \<longleftrightarrow>
     list_all (\<lambda>v. challenge_window v = DEFAULT_CHALLENGE_WINDOW \<and>
                   withdrawal_delay v = DEFAULT_WITHDRAWAL_DELAY) (vaults b)"

lemma get_upd_withdrawal:
  "(\<And>w. wd_id (f w) = wd_id w) \<Longrightarrow> get_withdrawal (upd_withdrawal i f b) q =
     (if q = i then map_option f (get_withdrawal b q) else get_withdrawal b q)"
  by (simp add: get_withdrawal_def upd_withdrawal_def find_key_update_first)

lemma get_upd_vault:
  "(\<And>v. vault_rollup (f v) = vault_rollup v) \<Longrightarrow> get_vault (upd_vault r f b) q =
     (if q = r then map_option f (get_vault b q) else get_vault b q)"
  by (simp add: get_vault_def upd_vault_def find_key_update_first)

lemma upd_frames [simp]:
  "get_withdrawal (upd_vault r f b) q = get_withdrawal b q"
  "get_vault (upd_withdrawal i g b) r' = get_vault b r'"
  "vaults (upd_withdrawal i g b) = vaults b"
  "pending_withdrawals (upd_vault r f b) = pending_withdrawals b"
  by (simp_all add: get_withdrawal_def get_vault_def upd_vault_def upd_withdrawal_def)

lemma windows_upd_vault:
  "windows_default b \<Longrightarrow> (\<And>v. challenge_window (f v) = challenge_window v) \<Longrightarrow>
   (\<And>v. withdrawal_delay (f v) = withdrawal_delay v) \<Longrightarrow> windows_default (upd_vault r f b)"
  by (auto simp: windows_default_def upd_vault_def intro: list_all_update_first)

lemma finalize_withdrawal_Inr:
  assumes "finalize_withdrawal b i blk = (Inr (a, amt), b')"
  obtains w v where "get_withdrawal b i = Some w" "wd_status w = WPending"
    "finalize_after_block w \<le> blk" "get_vault b (wd_rollup w) = Some v"
    "a = wd_recipient w" "amt = wd_amount w"
    "b' = upd_vault (wd_rollup w)
            (\<lambda>v. v\<lparr>vault_balance := sat_sub (vault_balance v) (wd_amount w),
                   total_withdrawn := total_withdrawn v + wd_amount w\<rparr>)
            (upd_withdrawal i (\<lambda>w. w\<lparr>wd_status := WFinalized\<rparr>) b)"
  using assms
  by (auto simp: finalize_withdrawal_def Let_def not_less split: option.splits withdrawal_status.splits
      if_splits)

lemma initiate_Inr:
  assumes "initiate_withdrawal b r a amt blk pf = Inr (i, b')"
  obtains v w where "get_vault b r = Some v" "i = next_withdrawal_id b"
    "amt \<le> sat_sub (vault_balance v)
       (sum_list (map wd_amount (filter (pending_on r) (pending_withdrawals b))))"
    "pending_withdrawals b' = pending_withdrawals b @ [w]" "vaults b' = vaults b"
    "wd_id w = i" "wd_rollup w = r" "wd_amount w = amt" "wd_status w = WPending"
    "initiated_block w = blk"
    "finalize_after_block w = blk + challenge_window v + withdrawal_delay v"
  using assms by (fastforce simp: initiate_withdrawal_def Let_def not_less split: option.splits if_splits)

lemma open_same:
  "register_vault b r = Inr b' \<Longrightarrow> pending_withdrawals b' = pending_withdrawals b"
  "register_rollup b r nm pt sq rt h = Inr b' \<Longrightarrow> pending_withdrawals b' = pending_withdrawals b"
  by (auto simp: register_vault_def register_rollup_def Let_def split: if_splits)

lemma windows_step: "windows_default b \<Longrightarrow> bridge_step b ev b' \<Longrightarrow> windows_default b'"
proof (erule bridge_step.cases, goal_cases)
  case (4 b r a amt blk pf i b')
  then show ?case by (auto elim!: initiate_Inr simp: windows_default_def)
next
  case (7 b i blk a amt b')
  then show ?case
    by (auto elim!: finalize_withdrawal_Inr intro!: windows_upd_vault) (simp add: windows_default_def)
qed (auto simp: register_vault_def register_rollup_def Let_def fresh_vault_def deposit_def
      dispute_withdrawal_def resolve_dispute_def windows_default_def upd_vault_def
      split: if_splits option.splits intro!: list_all_update_first)

lemma get_withdrawal_snoc:
  "pending_withdrawals b' = pending_withdrawals b @ [w] \<Longrightarrow> get_withdrawal b' q =
     (case get_withdrawal b q of None \<Rightarrow> if q = wd_id w then Some w else None | Some x \<Rightarrow> Some x)"
  by (auto simp: get_withdrawal_def find_snoc split: option.splits)

lemma wd_same:
  "wd.hist_inv b es \<Longrightarrow> pending_withdrawals b' = pending_withdrawals b \<Longrightarrow> (\<And>q. \<not> pays q ev) \<Longrightarrow>
   wd.hist_inv b' (es @ [ev])"
  by (rule wd.hist_same) (simp_all add: get_withdrawal_def)

lemma wd_upd:
  assumes "wd.hist_inv b es" "get_withdrawal b i = Some w"
    "pending_withdrawals b' = pending_withdrawals (upd_withdrawal i f b)"
    "\<And>w. wd_id (f w) = wd_id w" "\<And>q. q \<noteq> i \<Longrightarrow> \<not> pays q ev"
    "withdrawal_ok es i w \<Longrightarrow> withdrawal_ok (es @ [ev]) i (f w)"
  shows "wd.hist_inv b' (es @ [ev])"
proof (rule wd.hist_update [OF assms(1,2) _ assms(5,6)])
  have "get_withdrawal b' q = get_withdrawal (upd_withdrawal i f b) q" for q
    by (simp add: get_withdrawal_def assms(3))
  then show "get_withdrawal b' q = (if q = i then Some (f w) else get_withdrawal b q)" for q
    using assms(2,4) by (simp add: get_upd_withdrawal)
qed

lemma wd_step:
  assumes "windows_default b" "wd.hist_inv b es" "bridge_step b ev b'"
  shows "wd.hist_inv b' (es @ [ev])"
  using assms(3)
proof cases
  case (request r a amt blk pf i)
  from request(2) show ?thesis
  proof (rule initiate_Inr)
    fix v w
    assume v: "get_vault b r = Some v" and w: "pending_withdrawals b' = pending_withdrawals b @ [w]"
      "wd_id w = i" "wd_status w = WPending" "initiated_block w = blk"
      "finalize_after_block w = blk + challenge_window v + withdrawal_delay v"
    have "v \<in> set (vaults b)" using v by (auto simp: get_vault_def dest: find_SomeD)
    then have "finalize_after_block w = blk + DEFAULT_CHALLENGE_WINDOW + DEFAULT_WITHDRAWAL_DELAY"
      using assms(1) w(5) by (auto simp: windows_default_def list_all_iff)
    then show ?thesis
      using w by (intro wd.hist_insert [OF assms(2) get_withdrawal_snoc [OF w(1)]])
        (auto simp: withdrawal_ok_def request(1) filter_empty_conv)
  qed
next
  case (dispute i who bond)
  then obtain w where w: "get_withdrawal b i = Some w" "wd_status w = WPending"
    "pending_withdrawals b' = pending_withdrawals (upd_withdrawal i
       (\<lambda>w. w\<lparr>wd_status := WDisputed, disputer := Some who, dispute_bond := DISPUTE_BOND\<rparr>) b)"
    by (auto simp: dispute_withdrawal_def split: option.splits if_splits)
  then show ?thesis
    by (intro wd_upd [OF assms(2) w(1,3)]) (auto simp: dispute(1) withdrawal_ok_def)
next
  case (resolve i valid x)
  then obtain w f where w: "get_withdrawal b i = Some w" "wd_status w = WDisputed"
    "pending_withdrawals b' = pending_withdrawals (upd_withdrawal i f b)"
    "f = (if valid then (\<lambda>w. w\<lparr>disputer := None, dispute_bond := 0\<rparr>)
          else (\<lambda>w. w\<lparr>disputer := None, dispute_bond := 0, wd_status := WPending\<rparr>))"
    by (auto simp: resolve_dispute_def split: option.splits if_splits)
  then show ?thesis
    by (intro wd_upd [OF assms(2) w(1,3)]) (auto simp: resolve(1) withdrawal_ok_def)
next
  case (pay i blk a amt)
  from pay(2) show ?thesis
  proof (rule finalize_withdrawal_Inr)
    fix w v
    let ?f = "\<lambda>w. w\<lparr>wd_status := WFinalized\<rparr>"
    assume w: "get_withdrawal b i = Some w" "wd_status w = WPending" "finalize_after_block w \<le> blk"
      "a = wd_recipient w" "amt = wd_amount w"
      and b': "b' = upd_vault (wd_rollup w)
            (\<lambda>v. v\<lparr>vault_balance := sat_sub (vault_balance v) (wd_amount w),
                   total_withdrawn := total_withdrawn v + wd_amount w\<rparr>) (upd_withdrawal i ?f b)"
    then show ?thesis
      by (intro wd_upd [OF assms(2) w(1), of _ ?f]) (auto simp: pay(1) withdrawal_ok_def)
  qed
next
  case (deposits r amt)
  then have "pending_withdrawals b' = pending_withdrawals b"
    by (auto simp: deposit_def split: option.splits)
  then show ?thesis using deposits(1) by (intro wd_same [OF assms(2)]) auto
qed (use assms(2) open_same in \<open>auto intro!: wd_same\<close>)

lemma bridge_inv_run: "bridge_run ok b es \<Longrightarrow> windows_default b \<and> wd.hist_inv b es"
proof (induction rule: bridge_run.induct)
  case start
  have "wd.hist_inv new_bridge []"
    by (rule wd.hist_start) (simp add: new_bridge_def get_withdrawal_def)
  then show ?case by (simp add: windows_default_def new_bridge_def)
next
  case (step b es ev b')
  then show ?case by (auto intro: windows_step wd_step)
qed

section \<open>Cover of pending withdrawals\<close>

fun undisputed :: "bridge_event \<Rightarrow> bool" where
  "undisputed (DisputedBy i who) = False"
| "undisputed _ = True"

fun deposited :: "u64 \<Rightarrow> bridge_event \<Rightarrow> nat" where
  "deposited r (Deposited r' amt) = (if r = r' then unat amt else 0)"
| "deposited r _ = 0"

fun paid_from :: "bridge_event \<Rightarrow> nat" where
  "paid_from (Paid i a amt blk) = unat amt"
| "paid_from _ = 0"

text \<open>What a payment took from the vault of a rollup, by the rollup its withdrawal was requested for.\<close>

fun paid_on :: "bridge_contract \<Rightarrow> u64 \<Rightarrow> bridge_event \<Rightarrow> nat" where
  "paid_on b r (Paid i a amt blk) =
     (case get_withdrawal b i of Some w \<Rightarrow> if wd_rollup w = r then unat amt else 0 | None \<Rightarrow> 0)"
| "paid_on b r _ = 0"

definition paid_sum :: "bridge_contract \<Rightarrow> bridge_event list \<Rightarrow> u64 \<Rightarrow> nat" where
  "paid_sum b es r = sum_list (map (paid_on b r) es)"

definition pending_sum :: "pending_withdrawal list \<Rightarrow> u64 \<Rightarrow> nat" where
  "pending_sum ws r = sum_list (map (unat \<circ> wd_amount) (filter (pending_on r) ws))"

definition vault_covers :: "bridge_contract \<Rightarrow> bridge_event list \<Rightarrow> u64 \<Rightarrow> bridge_vault \<Rightarrow> bool" where
  "vault_covers b es r v \<longleftrightarrow>
     pending_sum (pending_withdrawals b) r \<le> unat (vault_balance v) \<and>
     unat (vault_balance v) + unat (total_withdrawn v) = unat (total_deposited v) \<and>
     unat (total_deposited v) = sum_list (map (deposited r) es)"

definition covered :: "bridge_contract \<Rightarrow> bridge_event list \<Rightarrow> bool" where
  "covered b es \<longleftrightarrow>
     list_all (\<lambda>w. wd_status w \<noteq> WDisputed) (pending_withdrawals b) \<and>
     (\<forall>r. case get_vault b r of
            None \<Rightarrow> sum_list (map (deposited r) es) = 0 \<and> pending_sum (pending_withdrawals b) r = 0
          | Some v \<Rightarrow> vault_covers b es r v)"

lemma covered_vault: "covered b es \<Longrightarrow> get_vault b r = Some v \<Longrightarrow> vault_covers b es r v"
  by (auto simp: covered_def dest: spec [of _ r])

lemma coveredI:
  assumes "list_all (\<lambda>w. wd_status w \<noteq> WDisputed) (pending_withdrawals b)"
    "\<And>r. get_vault b r = None \<Longrightarrow>
       sum_list (map (deposited r) es) = 0 \<and> pending_sum (pending_withdrawals b) r = 0"
    "\<And>r v. get_vault b r = Some v \<Longrightarrow> vault_covers b es r v"
  shows "covered b es"
  using assms by (auto simp: covered_def split: option.splits)

lemma covered_open:
  assumes "covered b es" "\<And>q. deposited q ev = 0"
    "vaults b' = vaults b \<or> (vaults b' = vaults b @ [fresh_vault r] \<and> get_vault b r = None)"
    "pending_withdrawals b' = pending_withdrawals b"
  shows "covered b' (es @ [ev])"
proof (rule coveredI)
  show "list_all (\<lambda>w. wd_status w \<noteq> WDisputed) (pending_withdrawals b')"
    using assms(1,4) by (simp add: covered_def)
next
  fix q assume "get_vault b' q = None"
  then have "get_vault b q = None"
    using assms(3) by (auto simp: get_vault_def find_snoc split: option.splits)
  then show "sum_list (map (deposited q) (es @ [ev])) = 0 \<and> pending_sum (pending_withdrawals b') q = 0"
    using assms(1,2,4) by (auto simp: covered_def dest: spec [of _ q])
next
  fix q v assume v: "get_vault b' q = Some v"
  show "vault_covers b' (es @ [ev]) q v"
  proof (cases "get_vault b q")
    case (Some v')
    then have "v' = v" using v assms(3) by (auto simp: get_vault_def find_snoc)
    then show ?thesis
      using covered_vault [OF assms(1) Some] assms(2,4) by (simp add: vault_covers_def)
  next
    case None
    then have q: "q = r" "v = fresh_vault r"
      using v assms(3) by (auto simp: get_vault_def find_snoc fresh_vault_def split: if_splits)
    have "sum_list (map (deposited q) es) = 0 \<and> pending_sum (pending_withdrawals b) q = 0"
      using None assms(1) by (auto simp: covered_def dest: spec [of _ q])
    then show ?thesis
      using q assms(2,4) by (auto simp: vault_covers_def fresh_vault_def)
  qed
qed

lemma pending_sum_snoc:
  "pending_sum (ws @ [w]) r = pending_sum ws r + (if pending_on r w then unat (wd_amount w) else 0)"
  by (simp add: pending_sum_def)

lemma covered_request:
  assumes "covered b es" "initiate_withdrawal b r a amt blk pf = Inr (i, b')"
  shows "covered b' (es @ [Requested i r blk])"
  using assms(2)
proof (rule initiate_Inr)
  fix v w
  let ?ws = "filter (pending_on r) (pending_withdrawals b)"
  assume v: "get_vault b r = Some v" and le: "amt \<le> sat_sub (vault_balance v) (sum_list (map wd_amount ?ws))"
    and w: "pending_withdrawals b' = pending_withdrawals b @ [w]" "vaults b' = vaults b"
      "wd_rollup w = r" "wd_amount w = amt" "wd_status w = WPending"
  note cv = covered_vault [OF assms(1) v]
  have "sum_list (map unat (map wd_amount ?ws)) < 2 ^ 128"
    using cv unat_lt [of "vault_balance v"] by (simp add: vault_covers_def pending_sum_def)
  then have "unat (sum_list (map wd_amount ?ws)) = pending_sum (pending_withdrawals b) r"
    by (subst unat_sum_list_exact) (simp_all add: pending_sum_def)
  then have room: "pending_sum (pending_withdrawals b) r + unat amt \<le> unat (vault_balance v)"
    using le cv unfolding word_le_nat_alt unat_sat_sub vault_covers_def by linarith
  have gv: "get_vault b' q = get_vault b q" for q by (simp add: get_vault_def w(2))
  show ?thesis
  proof (rule coveredI)
    show "list_all (\<lambda>w. wd_status w \<noteq> WDisputed) (pending_withdrawals b')"
      using assms(1) w by (simp add: covered_def)
    show "sum_list (map (deposited q) (es @ [Requested i r blk])) = 0 \<and>
        pending_sum (pending_withdrawals b') q = 0" if "get_vault b' q = None" for q
      using that assms(1) gv v w
      by (auto simp: covered_def pending_sum_snoc pending_on_def dest: spec [of _ q])
    show "vault_covers b' (es @ [Requested i r blk]) q u" if "get_vault b' q = Some u" for q u
      using that gv covered_vault [OF assms(1), of q u] room v w
      by (auto simp: vault_covers_def pending_sum_snoc pending_on_def)
  qed
qed

lemma covered_deposit:
  assumes "covered b es" "deposit b r amt = Inr b'"
    "sum_list (map (deposited r) es) + unat amt < 2 ^ 128"
  shows "covered b' (es @ [Deposited r amt])"
proof -
  let ?f = "\<lambda>v. v\<lparr>vault_balance := vault_balance v + amt, total_deposited := total_deposited v + amt\<rparr>"
  obtain v where v: "get_vault b r = Some v" and b': "b' = upd_vault r ?f b"
    using assms(2) by (auto simp: deposit_def split: option.splits)
  note cv = covered_vault [OF assms(1) v, unfolded vault_covers_def]
  have "unat (vault_balance v + amt) = unat (vault_balance v) + unat amt"
    by (rule unat_add_exact) (use cv assms(3) in simp)
  moreover have "unat (total_deposited v + amt) = unat (total_deposited v) + unat amt"
    by (rule unat_add_exact) (use cv assms(3) in simp)
  ultimately have own: "vault_covers b' (es @ [Deposited r amt]) r (?f v)"
    using cv by (simp add: vault_covers_def b')
  show ?thesis
  proof (rule coveredI)
    show "list_all (\<lambda>w. wd_status w \<noteq> WDisputed) (pending_withdrawals b')"
      using assms(1) by (simp add: covered_def b')
    show "sum_list (map (deposited q) (es @ [Deposited r amt])) = 0 \<and>
        pending_sum (pending_withdrawals b') q = 0" if "get_vault b' q = None" for q
      using that assms(1) v
      by (auto simp: covered_def b' get_upd_vault split: if_splits dest: spec [of _ q])
    show "vault_covers b' (es @ [Deposited r amt]) q u" if "get_vault b' q = Some u" for q u
    proof (cases "q = r")
      case True
      then show ?thesis using that own v by (simp add: b' get_upd_vault)
    next
      case False
      then have "get_vault b q = Some u" using that by (simp add: b' get_upd_vault)
      then show ?thesis
        using covered_vault [OF assms(1)] False by (simp add: vault_covers_def b')
    qed
  qed
qed

lemma pending_sum_finalize:
  assumes "get_withdrawal b i = Some w" "wd_status w = WPending"
  shows "pending_sum (pending_withdrawals (upd_withdrawal i (\<lambda>w. w\<lparr>wd_status := WFinalized\<rparr>) b)) r +
    (if r = wd_rollup w then unat (wd_amount w) else 0) = pending_sum (pending_withdrawals b) r"
proof -
  let ?f = "\<lambda>w. w\<lparr>wd_status := WFinalized\<rparr>"
  have "find (\<lambda>w. wd_id w = i) (pending_withdrawals b) = Some w"
    using assms(1) by (simp add: get_withdrawal_def)
  then obtain ys zs where "pending_withdrawals b = ys @ w # zs"
    "pending_withdrawals (upd_withdrawal i ?f b) = ys @ ?f w # zs"
    using update_first_decomp [of "\<lambda>w. wd_id w = i" "pending_withdrawals b" w ?f thesis]
    by (auto simp: upd_withdrawal_def)
  then show ?thesis using assms(2) by (auto simp: pending_sum_def pending_on_def)
qed

lemma covered_pay:
  assumes "covered b es" "finalize_withdrawal b i blk = (Inr (a, amt), b')"
  shows "covered b' (es @ [Paid i a amt blk])"
  using assms(2)
proof (rule finalize_withdrawal_Inr)
  fix w :: pending_withdrawal and v
  let ?f = "\<lambda>v. v\<lparr>vault_balance := sat_sub (vault_balance v) (wd_amount w),
                 total_withdrawn := total_withdrawn v + wd_amount w\<rparr>"
  let ?b = "upd_withdrawal i (\<lambda>w. w\<lparr>wd_status := WFinalized\<rparr>) b"
  assume w: "get_withdrawal b i = Some w" "wd_status w = WPending"
    "get_vault b (wd_rollup w) = Some v" "b' = upd_vault (wd_rollup w) ?f ?b"
  note ps = pending_sum_finalize [OF w(1,2)]
  note cv = covered_vault [OF assms(1) w(3), unfolded vault_covers_def]
  have le: "unat (wd_amount w) \<le> unat (vault_balance v)"
    using ps [of "wd_rollup w"] cv by simp
  then have "unat (total_withdrawn v + wd_amount w) = unat (total_withdrawn v) + unat (wd_amount w)"
    using cv unat_lt [of "total_deposited v"] by (intro unat_add_exact) simp
  then have own: "vault_covers b' (es @ [Paid i a amt blk]) (wd_rollup w) (?f v)"
    using cv ps [of "wd_rollup w"] le by (simp add: vault_covers_def w(4) unat_sat_sub; linarith)
  have "list_all (\<lambda>w. wd_status w \<noteq> WDisputed) (pending_withdrawals ?b)"
    using assms(1) by (auto simp: covered_def upd_withdrawal_def intro: list_all_update_first)
  then show ?thesis
  proof (intro coveredI, goal_cases)
    case 1
    then show ?case by (simp add: w(4))
  next
    case (2 r)
    then have "get_vault b r = None" "r \<noteq> wd_rollup w"
      using w(3) by (auto simp: w(4) get_upd_vault split: if_splits)
    then show ?case using assms(1) ps [of r] by (auto simp: covered_def w(4) dest: spec [of _ r])
  next
    case (3 r u)
    show ?case
    proof (cases "r = wd_rollup w")
      case True
      then show ?thesis using 3 own w(3) by (simp add: w(4) get_upd_vault)
    next
      case False
      then have "get_vault b r = Some u" using 3 by (simp add: w(4) get_upd_vault)
      then show ?thesis
        using covered_vault [OF assms(1)] False ps [of r] by (simp add: vault_covers_def w(4))
    qed
  qed
qed

lemma covered_step:
  assumes "covered b es" "bridge_step b ev b'" "undisputed ev"
    "\<And>r. sum_list (map (deposited r) (es @ [ev])) < 2 ^ 128"
  shows "covered b' (es @ [ev])"
  using assms(2)
proof cases
  case (open_vault r)
  then show ?thesis
    by (intro covered_open [OF assms(1), of _ _ r])
       (auto simp: register_vault_def get_vault_def find_None_iff2 split: if_splits)
next
  case (open_rollup r nm pt sq rt h)
  then show ?thesis
    by (intro covered_open [OF assms(1), of _ _ r])
       (auto simp: register_rollup_def Let_def get_vault_def find_None_iff2 split: if_splits)
next
  case (deposits r amt)
  then show ?thesis using covered_deposit [OF assms(1)] assms(4) [of r] by simp
next
  case (request r a amt blk pf i)
  then show ?thesis using covered_request [OF assms(1)] by simp
next
  case (resolve i valid x)
  then obtain w where "get_withdrawal b i = Some w" "wd_status w = WDisputed"
    by (auto simp: resolve_dispute_def split: option.splits if_splits)
  then show ?thesis
    using assms(1) by (auto simp: covered_def list_all_iff get_withdrawal_def dest: find_SomeD)
next
  case (pay i blk a amt)
  then show ?thesis using covered_pay [OF assms(1)] by simp
qed (use assms(3) in simp)

lemma covered_run:
  "bridge_run undisputed b es \<Longrightarrow> (\<And>r. sum_list (map (deposited r) es) < 2 ^ 128) \<Longrightarrow> covered b es"
proof (induction rule: bridge_run.induct)
  case start
  show ?case by (simp add: covered_def new_bridge_def get_vault_def pending_sum_def)
next
  case (step b es ev b')
  have "sum_list (map (deposited r) es) < 2 ^ 128" for r
    using step.prems [of r] by simp
  then have "covered b es" by (rule step.IH)
  then show ?case using step.hyps(2,3) step.prems by (rule covered_step)
qed

text \<open>The withdrawn total of a vault is the sum of the payments made from it.\<close>

definition withdrawn_exact :: "bridge_contract \<Rightarrow> bridge_event list \<Rightarrow> bool" where
  "withdrawn_exact b es \<longleftrightarrow>
     (\<forall>r. paid_sum b es r = (case get_vault b r of None \<Rightarrow> 0 | Some v \<Rightarrow> unat (total_withdrawn v)))"

lemma paid_on_kept:
  assumes "wd.hist_inv b es"
    and "\<And>i w. get_withdrawal b i = Some w \<Longrightarrow> \<exists>w'. get_withdrawal b' i = Some w' \<and> wd_rollup w' = wd_rollup w"
  shows "paid_sum b' es r = paid_sum b es r"
  unfolding paid_sum_def
proof (intro arg_cong [where f = sum_list] map_cong refl)
  fix ev assume ev: "ev \<in> set es"
  show "paid_on b' r ev = paid_on b r ev"
  proof (cases ev)
    case (Paid i a amt blk)
    then have "pays i ev" by simp
    then obtain w where "get_withdrawal b i = Some w"
      using wd.hist_touched [OF assms(1) ev] by blast
    then show ?thesis using assms(2) [of i w] Paid by auto
  qed simp_all
qed

lemma paid_sum_snoc: "paid_sum b (es @ [ev]) r = paid_sum b es r + paid_on b r ev"
  by (simp add: paid_sum_def)

lemma rollup_kept:
  assumes "\<And>w. wd_id (f w) = wd_id w" "\<And>w. wd_rollup (f w) = wd_rollup w" "get_withdrawal b i = Some w"
  shows "\<exists>w'. get_withdrawal (upd_withdrawal j f b) i = Some w' \<and> wd_rollup w' = wd_rollup w"
  using assms(3) by (auto simp: get_upd_withdrawal [OF assms(1)] assms(2))

lemma withdrawn_same:
  assumes "withdrawn_exact b es" "wd.hist_inv b es" "\<And>q. paid_on b' q ev = 0"
    and "\<And>i w. get_withdrawal b i = Some w \<Longrightarrow> \<exists>w'. get_withdrawal b' i = Some w' \<and> wd_rollup w' = wd_rollup w"
    and "\<And>r. (case get_vault b' r of None \<Rightarrow> 0 | Some v \<Rightarrow> unat (total_withdrawn v)) =
              (case get_vault b r of None \<Rightarrow> 0 | Some v \<Rightarrow> unat (total_withdrawn v))"
  shows "withdrawn_exact b' (es @ [ev])"
  using assms(1) paid_on_kept [OF assms(2,4)] by (simp add: withdrawn_exact_def paid_sum_snoc assms(3,5))

lemma withdrawn_pay:
  assumes "withdrawn_exact b es" "wd.hist_inv b es" "covered b es" "finalize_withdrawal b i blk = (Inr (a, amt), b')"
  shows "withdrawn_exact b' (es @ [Paid i a amt blk])"
  using assms(4)
proof (rule finalize_withdrawal_Inr)
  fix w :: pending_withdrawal and v
  let ?f = "\<lambda>v. v\<lparr>vault_balance := sat_sub (vault_balance v) (wd_amount w),
                 total_withdrawn := total_withdrawn v + wd_amount w\<rparr>"
  let ?g = "\<lambda>w. w\<lparr>wd_status := WFinalized\<rparr>"
  assume w: "get_withdrawal b i = Some w" "wd_status w = WPending" "get_vault b (wd_rollup w) = Some v"
    "b' = upd_vault (wd_rollup w) ?f (upd_withdrawal i ?g b)" "amt = wd_amount w"
  have gw: "get_withdrawal b' q = get_withdrawal (upd_withdrawal i ?g b) q" for q
    by (simp add: w(4) get_withdrawal_def)
  note kept = paid_on_kept [OF assms(2), of b', unfolded gw, OF rollup_kept [of ?g]]
  note cv = covered_vault [OF assms(3) w(3), unfolded vault_covers_def]
  have "unat (wd_amount w) \<le> unat (vault_balance v)"
    using pending_sum_finalize [OF w(1,2), of "wd_rollup w"] cv by simp
  then have "unat (total_withdrawn v + wd_amount w) = unat (total_withdrawn v) + unat (wd_amount w)"
    using cv unat_lt [of "total_deposited v"] by (intro unat_add_exact) simp
  moreover have "get_withdrawal b' i = Some (?g w)"
    using w(1) by (simp add: gw get_upd_withdrawal)
  ultimately show ?thesis
    using assms(1) kept w(3)
    by (auto simp: withdrawn_exact_def paid_sum_snoc w(5)) (auto simp: w(4) get_upd_vault)
qed

lemma withdrawn_step:
  assumes "withdrawn_exact b es" "wd.hist_inv b es" "covered b es" "bridge_step b ev b'"
  shows "withdrawn_exact b' (es @ [ev])"
  using assms(4)
proof cases
  case (open_vault r)
  then show ?thesis
    by (intro withdrawn_same [OF assms(1,2)])
       (auto simp: register_vault_def get_vault_def get_withdrawal_def find_snoc fresh_vault_def
         split: if_splits option.splits)
next
  case (open_rollup r nm pt sq rt h)
  then show ?thesis
    by (intro withdrawn_same [OF assms(1,2)])
       (auto simp: register_rollup_def Let_def get_vault_def get_withdrawal_def find_snoc fresh_vault_def
         split: if_splits option.splits)
next
  case (deposits r amt)
  then show ?thesis
    by (intro withdrawn_same [OF assms(1,2)])
       (auto simp: deposit_def get_upd_vault get_withdrawal_def split: option.splits if_splits)
next
  case (request r a amt blk pf i)
  from request(2) show ?thesis
  proof (rule initiate_Inr)
    fix v w
    assume w: "pending_withdrawals b' = pending_withdrawals b @ [w]" "vaults b' = vaults b"
    then show ?thesis
      using request(1) by (intro withdrawn_same [OF assms(1,2)]) (auto simp: get_withdrawal_snoc [OF w(1)] get_vault_def)
  qed
next
  case (dispute i who bond)
  then show ?thesis
    by (intro withdrawn_same [OF assms(1,2)])
       (auto simp: dispute_withdrawal_def get_vault_def get_upd_withdrawal split: option.splits if_splits)
next
  case (resolve i valid x)
  then obtain w where "get_withdrawal b i = Some w" "wd_status w = WDisputed"
    by (auto simp: resolve_dispute_def split: option.splits if_splits)
  then show ?thesis
    using assms(3) by (auto simp: covered_def list_all_iff get_withdrawal_def dest: find_SomeD)
next
  case (pay i blk a amt)
  then show ?thesis using withdrawn_pay [OF assms(1-3)] by simp
qed

lemma withdrawn_run:
  "bridge_run undisputed b es \<Longrightarrow> (\<And>r. sum_list (map (deposited r) es) < 2 ^ 128) \<Longrightarrow> withdrawn_exact b es"
proof (induction rule: bridge_run.induct)
  case start
  show ?case by (simp add: withdrawn_exact_def paid_sum_def new_bridge_def get_vault_def)
next
  case (step b es ev b')
  have le: "sum_list (map (deposited r) es) < 2 ^ 128" for r
    using step.prems [of r] by simp
  then show ?case
    using withdrawn_step [OF step.IH _ _ step.hyps(2)] covered_run [OF step.hyps(1)] bridge_inv_run [OF step.hyps(1)] by blast
qed

section \<open>Properties\<close>

text \<open>C9: in every history a withdrawal is paid at most once; the payment goes to the recipient and is
  of the amount recorded when the withdrawal was requested, and happens no earlier than 150 blocks
  after the request (the challenge window and the withdrawal delay).\<close>

theorem withdrawal_paid_once_after_window:
  assumes "bridge_run ok b es" "Paid i a amt blk \<in> set es"
  shows "length (filter (pays i) es) = 1 \<and>
    (\<exists>w. get_withdrawal b i = Some w \<and> wd_status w = WFinalized \<and> a = wd_recipient w \<and>
         amt = wd_amount w \<and> initiated_block w + 150 \<le> blk)"
proof -
  have inv: "wd.hist_inv b es" using bridge_inv_run [OF assms(1)] by simp
  have p: "pays i (Paid i a amt blk)" by simp
  then obtain w where w: "get_withdrawal b i = Some w"
    using wd.hist_touched [OF inv assms(2)] by blast
  have ok: "withdrawal_ok es i w" by (rule wd.hist_Some [OF inv w])
  have "filter (pays i) es \<noteq> []" using assms(2) p unfolding filter_empty_conv by blast
  then have "wd_status w = WFinalized" using ok by (auto simp: withdrawal_ok_def split: if_splits)
  then show ?thesis
    using ok w assms(2)
    by (auto simp: withdrawal_ok_def DEFAULT_CHALLENGE_WINDOW_def DEFAULT_WITHDRAWAL_DELAY_def
        add.assoc)
qed

text \<open>C10: in a history without disputes every vault's balance is what was deposited into it minus what
  was paid to the recipients of its withdrawals, and covers all its pending withdrawals, as long as the
  deposits fit in 128 bits; the vault's own counters agree with the deposits and the payments.\<close>

theorem vaults_cover_withdrawals:
  assumes "bridge_run undisputed b es" "\<And>r. sum_list (map (deposited r) es) < 2 ^ 128"
    "get_vault b r = Some v"
  shows "pending_sum (pending_withdrawals b) r \<le> unat (vault_balance v) \<and>
    unat (vault_balance v) + paid_sum b es r = sum_list (map (deposited r) es) \<and>
    unat (total_withdrawn v) = paid_sum b es r \<and>
    unat (total_deposited v) = sum_list (map (deposited r) es)"
proof -
  have "paid_sum b es r = unat (total_withdrawn v)"
    using withdrawn_run [OF assms(1,2)] assms(3) by (simp add: withdrawn_exact_def)
  then show ?thesis
    using covered_vault [OF covered_run [OF assms(1,2)] assms(3)] by (simp add: vault_covers_def)
qed

text \<open>A concrete vault for the witnesses, with the withdrawals recorded so far.\<close>

definition sample_wd :: "u64 \<Rightarrow> withdrawal_status \<Rightarrow> pending_withdrawal" where
  "sample_wd i st = \<lparr>wd_id = i, wd_rollup = 1, wd_recipient = 5, wd_amount = 1000000000000,
     initiated_block = 10, finalize_after_block = 160, proof_hash = 0, wd_status = st,
     disputer = (if st = WDisputed then Some 6 else None),
     dispute_bond = (if st = WDisputed then DISPUTE_BOND else 0)\<rparr>"

definition sample_bridge :: "u128 \<Rightarrow> u128 \<Rightarrow> pending_withdrawal list \<Rightarrow> bridge_contract" where
  "sample_bridge bal out ws = \<lparr>vaults = [(fresh_vault 1)\<lparr>vault_balance := bal,
       total_deposited := 1000000000000, total_withdrawn := out\<rparr>],
     pending_withdrawals = ws, registered_rollups = [], next_withdrawal_id = of_nat (length ws)\<rparr>"

lemmas sample_bridge_defs = sample_bridge_def sample_wd_def fresh_vault_def get_vault_def
  get_withdrawal_def upd_vault_def upd_withdrawal_def DISPUTE_BOND_def
  DEFAULT_CHALLENGE_WINDOW_def DEFAULT_WITHDRAWAL_DELAY_def

lemma sample_request:
  "initiate_withdrawal (sample_bridge 1000000000000 0 []) 1 5 1000000000000 10 0
   = Inr (0, sample_bridge 1000000000000 0 [sample_wd 0 WPending])"
  "initiate_withdrawal (sample_bridge 1000000000000 0 [sample_wd 0 WDisputed]) 1 5 1000000000000 10 0
   = Inr (1, sample_bridge 1000000000000 0 [sample_wd 0 WDisputed, sample_wd 1 WPending])"
  by (simp_all add: initiate_withdrawal_def sample_bridge_defs pending_on_def sat_sub_def)

lemma sample_requested:
  assumes "\<And>r amt i blk. ok (Opened r) \<and> ok (Deposited r amt) \<and> ok (Requested i r blk)"
  shows "bridge_run ok (sample_bridge 1000000000000 0 [sample_wd 0 WPending])
    [Opened 1, Deposited 1 1000000000000, Requested 0 1 10]"
proof -
  have o: "register_vault new_bridge 1 = Inr (new_bridge\<lparr>vaults := [fresh_vault 1]\<rparr>)"
    by (simp add: register_vault_def new_bridge_def)
  have d: "deposit (new_bridge\<lparr>vaults := [fresh_vault 1]\<rparr>) 1 1000000000000
      = Inr (sample_bridge 1000000000000 0 [])"
    by (simp add: deposit_def new_bridge_def sample_bridge_defs)
  show ?thesis
    using bridge_run.step [OF bridge_run.step [OF bridge_run.step [OF bridge_run.start
            bridge_step.open_vault [OF o]] bridge_step.deposits [OF d]]
        bridge_step.request [OF sample_request(1)]] assms by simp
qed

text \<open>The withdrawal of the sample vault, requested and paid.\<close>

lemma sample_paid:
  "bridge_run undisputed (sample_bridge 0 1000000000000 [sample_wd 0 WFinalized])
      [Opened 1, Deposited 1 1000000000000, Requested 0 1 10, Paid 0 5 1000000000000 160]"
proof -
  have f: "finalize_withdrawal (sample_bridge 1000000000000 0 [sample_wd 0 WPending]) 0 160
      = (Inr (5, 1000000000000), sample_bridge 0 1000000000000 [sample_wd 0 WFinalized])"
    by (simp add: finalize_withdrawal_def sample_bridge_defs)
  show ?thesis
    using bridge_run.step [OF sample_requested bridge_step.pay [OF f]] by simp
qed

theorem withdrawal_paid_once_after_window_witness:
  "\<exists>b es. bridge_run undisputed b es \<and> Paid 0 5 1000000000000 160 \<in> set es \<and>
     length (filter (pays 0) es) = 1"
  using sample_paid withdrawal_paid_once_after_window [OF sample_paid, of 0 5 1000000000000 160]
  by (intro exI conjI) (assumption, simp_all)

theorem vaults_cover_withdrawals_witness:
  "\<exists>b es v. bridge_run undisputed b es \<and> get_vault b 1 = Some v \<and> Paid 0 5 1000000000000 160 \<in> set es \<and>
     unat (vault_balance v) + paid_sum b es 1 = sum_list (map (deposited 1) es)"
proof -
  let ?b = "sample_bridge 0 1000000000000 [sample_wd 0 WFinalized]"
  let ?es = "[Opened 1, Deposited 1 1000000000000, Requested 0 1 10, Paid 0 5 1000000000000 160]"
  obtain v where v: "get_vault ?b 1 = Some v"
    by (simp add: sample_bridge_defs)
  have "sum_list (map (deposited r) ?es) < 2 ^ 128" for r
    by simp
  then show ?thesis
    using vaults_cover_withdrawals [OF sample_paid _ v] v sample_paid by (intro exI [of _ ?b] exI [of _ ?es] exI [of _ v]) simp
qed

text \<open>A disputed withdrawal is not counted as a claim on the vault.  There is a history in which a
  vault pays out twice what was deposited into it: a withdrawal of the whole balance is disputed, a
  second one of the whole balance is accepted, the dispute is resolved as invalid, and both are
  finalized.  The payments exceed the deposits and the forfeited bond together.\<close>

theorem dispute_overcommits_vault:
  "\<exists>b es. bridge_run (\<lambda>_. True) b es \<and>
     sum_list (map (deposited 1) es) + unat DISPUTE_BOND < sum_list (map paid_from es)"
proof -
  let ?w0 = "sample_wd 0" and ?w1 = "sample_wd 1" and ?d = "1000000000000 :: u128"
  have d: "dispute_withdrawal (sample_bridge ?d 0 [?w0 WPending]) 0 6
      = Inr (DISPUTE_BOND, sample_bridge ?d 0 [?w0 WDisputed])"
    by (simp add: dispute_withdrawal_def sample_bridge_defs)
  have r: "resolve_dispute (sample_bridge ?d 0 [?w0 WDisputed, ?w1 WPending]) 0 False
      = Inr ((None, 0), sample_bridge 1010000000000 0 [?w0 WPending, ?w1 WPending])"
    by (simp add: resolve_dispute_def sample_bridge_defs sat_add_def)
  have p0: "finalize_withdrawal (sample_bridge 1010000000000 0 [?w0 WPending, ?w1 WPending]) 0 160
      = (Inr (5, ?d), sample_bridge 10000000000 ?d [?w0 WFinalized, ?w1 WPending])"
    by (simp add: finalize_withdrawal_def sample_bridge_defs sat_sub_def)
  have p1: "finalize_withdrawal (sample_bridge 10000000000 ?d [?w0 WFinalized, ?w1 WPending]) 1 160
      = (Inr (5, ?d), sample_bridge 0 (2 * ?d) [?w0 WFinalized, ?w1 WFinalized])"
    by (simp add: finalize_withdrawal_def sample_bridge_defs sat_sub_def)
  have "bridge_run (\<lambda>_. True) (sample_bridge 0 (2 * ?d) [?w0 WFinalized, ?w1 WFinalized])
      [Opened 1, Deposited 1 ?d, Requested 0 1 10, DisputedBy 0 6, Requested 1 1 10,
       Resolved 0 False, Paid 0 5 ?d 160, Paid 1 5 ?d 160]"
    using bridge_run.step [OF bridge_run.step [OF bridge_run.step [OF bridge_run.step [OF
            bridge_run.step [OF sample_requested bridge_step.dispute [OF d]]
            bridge_step.request [OF sample_request(2)]] bridge_step.resolve [OF r]]
        bridge_step.pay [OF p0]] bridge_step.pay [OF p1]] by simp
  then show ?thesis by (intro exI conjI) (assumption, simp add: DISPUTE_BOND_def)
qed

end
