(* ===== verification/Vesting.thy ===== *)
theory Vesting
  imports Chain_Types
begin

text \<open>
  The vesting contract, \<open>crates/solen-system-contracts/src/vesting.rs\<close>: schedules
  with a cliff and a linear release, claims by the recipient, and the admin
  operations.  Proved here: the release curve is monotone and bounded by the
  schedule's total, and over any history of calls the amounts claimed from a
  schedule never exceed what has vested.
\<close>

section \<open>Schedules\<close>

definition EPOCHS_PER_YEAR :: u64 where "EPOCHS_PER_YEAR = 52596"
definition EPOCHS_PER_MONTH :: u64 where "EPOCHS_PER_MONTH = EPOCHS_PER_YEAR div 12"

datatype vesting_error = NotFound | CliffNotReached | FullyClaimed | NotAdmin

datatype vesting_type =
    Team
  | Investor
  | Validator
  | Custom (custom_cliff_epochs: u64) (custom_total_epochs: u64)

fun cliff_epochs :: "vesting_type \<Rightarrow> u64" where
  "cliff_epochs Team = EPOCHS_PER_YEAR"
| "cliff_epochs Investor = EPOCHS_PER_MONTH * 6"
| "cliff_epochs Validator = EPOCHS_PER_MONTH * 3"
| "cliff_epochs (Custom c t) = c"

fun total_epochs :: "vesting_type \<Rightarrow> u64" where
  "total_epochs Team = EPOCHS_PER_YEAR * 4"
| "total_epochs Investor = EPOCHS_PER_MONTH * 30"
| "total_epochs Validator = EPOCHS_PER_MONTH * 15"
| "total_epochs (Custom c t) = t"

record vesting_schedule =
  vs_recipient :: account_id
  total_amount :: u128
  claimed :: u128
  vs_type :: vesting_type
  start_epoch :: u64

definition vested_at :: "vesting_schedule \<Rightarrow> u64 \<Rightarrow> u128" where
  "vested_at s current_epoch =
     (let elapsed = sat_sub current_epoch (start_epoch s);
          cliff = cliff_epochs (vs_type s);
          total_duration = total_epochs (vs_type s)
      in if elapsed < cliff then 0
         else if total_duration \<le> elapsed then total_amount s
         else let vesting_period = total_duration - cliff
              in if vesting_period = 0 then total_amount s
                 else sat_mul (total_amount s) (ucast (elapsed - cliff)) div ucast vesting_period)"

definition claimable_at :: "vesting_schedule \<Rightarrow> u64 \<Rightarrow> u128" where
  "claimable_at s current_epoch = sat_sub (vested_at s current_epoch) (claimed s)"

section \<open>The contract\<close>

record vesting_contract =
  schedules :: "vesting_schedule list"
  admin :: "account_id option"

definition new_vesting :: vesting_contract where
  "new_vesting = \<lparr>schedules = [], admin = None\<rparr>"

definition add_schedule ::
  "vesting_contract \<Rightarrow> account_id \<Rightarrow> u128 \<Rightarrow> vesting_type \<Rightarrow> u64 \<Rightarrow> vesting_contract" where
  "add_schedule v recipient amount ty start =
     v\<lparr>schedules := schedules v @
        [\<lparr>vs_recipient = recipient, total_amount = amount, claimed = 0, vs_type = ty,
          start_epoch = start\<rparr>]\<rparr>"

definition claim ::
  "vesting_contract \<Rightarrow> account_id \<Rightarrow> u64 \<Rightarrow> vesting_error + (u128 \<times> vesting_contract)" where
  "claim v recipient current_epoch =
     (case find (\<lambda>s. vs_recipient s = recipient) (schedules v) of
        None \<Rightarrow> Inl NotFound
      | Some schedule \<Rightarrow>
          let claimable = claimable_at schedule current_epoch
          in if claimable = 0
             then (if total_amount schedule \<le> claimed schedule then Inl FullyClaimed
                   else Inl CliffNotReached)
             else Inr (claimable,
                    v\<lparr>schedules := update_first (\<lambda>s. vs_recipient s = recipient)
                        (\<lambda>s. s\<lparr>claimed := claimed s + claimable\<rparr>) (schedules v)\<rparr>))"

definition get_schedule :: "vesting_contract \<Rightarrow> account_id \<Rightarrow> vesting_schedule option" where
  "get_schedule v recipient = find (\<lambda>s. vs_recipient s = recipient) (schedules v)"

definition set_admin ::
  "vesting_contract \<Rightarrow> account_id \<Rightarrow> account_id \<Rightarrow> vesting_error + vesting_contract" where
  "set_admin v caller new_admin =
     (if admin v = Some caller then Inr (v\<lparr>admin := Some new_admin\<rparr>) else Inl NotAdmin)"

definition governance_set_admin :: "vesting_contract \<Rightarrow> account_id \<Rightarrow> vesting_contract" where
  "governance_set_admin v new_admin = v\<lparr>admin := Some new_admin\<rparr>"

definition add_schedule_admin ::
  "vesting_contract \<Rightarrow> account_id \<Rightarrow> account_id \<Rightarrow> u128 \<Rightarrow> vesting_type \<Rightarrow> u64
   \<Rightarrow> vesting_error + vesting_contract" where
  "add_schedule_admin v caller recipient amount ty start =
     (if admin v = Some caller
      then Inr (v\<lparr>schedules := schedules v @
             [\<lparr>vs_recipient = recipient, total_amount = amount, claimed = 0, vs_type = ty,
               start_epoch = start\<rparr>]\<rparr>)
      else Inl NotAdmin)"

definition total_locked :: "vesting_contract \<Rightarrow> u128" where
  "total_locked v = sum_list (map (\<lambda>s. sat_sub (total_amount s) (claimed s)) (schedules v))"

section \<open>The release curve\<close>

text \<open>The linear part on natural numbers.\<close>

lemma unat_vested_at:
  "unat (vested_at s e) =
     (let elapsed = unat e - unat (start_epoch s);
          cliff = unat (cliff_epochs (vs_type s));
          total = unat (total_epochs (vs_type s))
      in if elapsed < cliff then 0
         else if total \<le> elapsed then unat (total_amount s)
         else min (unat (total_amount s) * (elapsed - cliff)) (2 ^ 128 - 1) div (total - cliff))"
proof -
  define el where "el = sat_sub e (start_epoch s)"
  have el: "unat el = unat e - unat (start_epoch s)"
    by (simp add: el_def unat_sat_sub)
  show ?thesis
    unfolding vested_at_def Let_def el_def [symmetric] el [symmetric]
    by (auto simp: word_less_nat_alt word_le_nat_alt unat_simps unat_sub_exact unat_eq_0 not_less)
qed

lemma vested_at_le_total: "vested_at s e \<le> total_amount s"
proof -
  have "min (t * x) m div p \<le> t" if "x \<le> p" for t x m p :: nat
  proof (cases "p = 0")
    case False
    have "min (t * x) m div p \<le> t * x div p" by (simp add: div_le_mono)
    also have "\<dots> \<le> t * p div p" using that by (intro div_le_mono) simp
    finally show ?thesis using False by simp
  qed simp
  then show ?thesis
    by (auto simp: word_le_nat_alt unat_vested_at Let_def)
qed

lemma vested_at_mono: "e \<le> e' \<Longrightarrow> vested_at s e \<le> vested_at s e'"
proof -
  assume le: "e \<le> e'"
  define a where "a = unat e - unat (start_epoch s)"
  define b where "b = unat e' - unat (start_epoch s)"
  have ab: "a \<le> b" using le by (simp add: a_def b_def word_le_nat_alt diff_le_mono)
  have bound: "unat (vested_at s e) \<le> unat (total_amount s)"
    using vested_at_le_total by (simp add: word_le_nat_alt)
  have mid: "min (t * (a - c)) m div p \<le> min (t * (b - c)) m div p" for t c m p :: nat
    using ab by (intro div_le_mono min.mono mult_le_mono diff_le_mono) auto
  show "vested_at s e \<le> vested_at s e'"
    using bound ab mid
    by (auto simp: word_le_nat_alt unat_vested_at Let_def a_def [symmetric] b_def [symmetric]
        split: if_splits)
qed

lemma vested_at_before_cliff:
  "unat e - unat (start_epoch s) < unat (cliff_epochs (vs_type s)) \<Longrightarrow> vested_at s e = 0"
  by (simp add: vested_at_def word_less_nat_alt unat_sat_sub)

lemma vested_at_end:
  "unat (cliff_epochs (vs_type s)) \<le> unat e - unat (start_epoch s) \<Longrightarrow>
   unat (total_epochs (vs_type s)) \<le> unat e - unat (start_epoch s) \<Longrightarrow>
   vested_at s e = total_amount s"
  by (simp add: vested_at_def word_less_nat_alt word_le_nat_alt unat_sat_sub)

section \<open>Payouts along a release curve\<close>

text \<open>
  What a claimant relies on: a curve that only grows.  Claiming the difference
  between the curve and what was paid keeps the amount paid below the curve at
  every later time, and the payments add up to the amount recorded as paid.
\<close>

locale release_curve =
  fixes curve :: "'s \<Rightarrow> 't::linorder \<Rightarrow> nat" and cap :: "'s \<Rightarrow> nat"
  assumes curve_mono: "t \<le> t' \<Longrightarrow> curve s t \<le> curve s t'"
    and curve_cap: "curve s t \<le> cap s"
begin

fun pay_all :: "'s \<Rightarrow> nat \<Rightarrow> 't list \<Rightarrow> nat" where
  "pay_all s paid [] = 0"
| "pay_all s paid (t # ts) = (curve s t - paid) + pay_all s (max paid (curve s t)) ts"

lemma paid_below_curve:
  "paid \<le> curve s t' \<Longrightarrow> t \<le> t' \<Longrightarrow> max paid (curve s t) \<le> curve s t'"
  by (simp add: curve_mono)

lemma pay_all_below_curve:
  "paid \<le> curve s t' \<Longrightarrow> \<forall>t\<in>set ts. t \<le> t' \<Longrightarrow> paid + pay_all s paid ts \<le> curve s t'"
proof (induction ts arbitrary: paid)
  case (Cons t ts)
  then have "max paid (curve s t) + pay_all s (max paid (curve s t)) ts \<le> curve s t'"
    by (intro Cons.IH) (auto intro: curve_mono)
  then show ?case by simp
qed simp

lemma pay_all_below_cap: "paid \<le> cap s \<Longrightarrow> paid + pay_all s paid ts \<le> cap s"
proof (induction ts arbitrary: paid)
  case (Cons t ts)
  then have "max paid (curve s t) + pay_all s (max paid (curve s t)) ts \<le> cap s"
    by (simp add: curve_cap)
  then show ?case by simp
qed simp

end

interpretation vesting_curve: release_curve
  "\<lambda>s e. unat (vested_at s e)" "\<lambda>s. unat (total_amount s)"
  by unfold_locales (use vested_at_mono vested_at_le_total in \<open>auto simp: word_le_nat_alt\<close>)

section \<open>Claims\<close>

lemma claim_Inr:
  assumes "claim v r e = Inr (a, v')"
  obtains s where "get_schedule v r = Some s" "claimed s < vested_at s e"
    "a = vested_at s e - claimed s"
    "schedules v' = update_first (\<lambda>s. vs_recipient s = r) (\<lambda>s. s\<lparr>claimed := claimed s + a\<rparr>) (schedules v)"
    "get_schedule v' r = Some (s\<lparr>claimed := vested_at s e\<rparr>)" "admin v' = admin v"
proof -
  obtain s where s: "find (\<lambda>s. vs_recipient s = r) (schedules v) = Some s"
    and nz: "claimable_at s e \<noteq> 0" and a: "a = claimable_at s e"
    and v': "v' = v\<lparr>schedules := update_first (\<lambda>s. vs_recipient s = r)
        (\<lambda>s. s\<lparr>claimed := claimed s + a\<rparr>) (schedules v)\<rparr>"
    using assms by (auto simp: claim_def Let_def split: option.splits if_splits)
  have lt: "claimed s < vested_at s e"
    using nz by (auto simp: claimable_at_def sat_sub_def split: if_splits)
  then have av: "a = vested_at s e - claimed s"
    by (auto simp: a claimable_at_def sat_sub_def dest: less_imp_le)
  have "get_schedule v' r = Some (s\<lparr>claimed := claimed s + a\<rparr>)"
    using s by (auto simp: get_schedule_def v' intro!: find_update_first_same dest: find_SomeD)
  then show thesis
    using that [of s] s lt av v' by (simp add: get_schedule_def)
qed

lemma get_schedule_claim_other:
  "claim v r e = Inr (a, v') \<Longrightarrow> r' \<noteq> r \<Longrightarrow> get_schedule v' r' = get_schedule v r'"
  by (erule claim_Inr) (auto simp: get_schedule_def intro!: find_update_first_other)

text \<open>
  The histories of the contract up to epoch \<open>E\<close>, with a ghost counter of what each
  recipient has been paid.
\<close>

inductive vesting_reach :: "u64 \<Rightarrow> vesting_contract \<Rightarrow> (account_id \<Rightarrow> nat) \<Rightarrow> bool" for E where
  init: "vesting_reach E new_vesting (\<lambda>_. 0)"
| genesis_schedule: "vesting_reach E v paid \<Longrightarrow> vesting_reach E (add_schedule v r amount ty start) paid"
| claims: "vesting_reach E v paid \<Longrightarrow> e \<le> E \<Longrightarrow> claim v r e = Inr (a, v') \<Longrightarrow>
    vesting_reach E v' (paid(r := paid r + unat a))"
| admin_change: "vesting_reach E v paid \<Longrightarrow> set_admin v c n = Inr v' \<Longrightarrow> vesting_reach E v' paid"
| admin_governance: "vesting_reach E v paid \<Longrightarrow> vesting_reach E (governance_set_admin v n) paid"
| admin_schedule: "vesting_reach E v paid \<Longrightarrow> add_schedule_admin v c r amount ty start = Inr v' \<Longrightarrow>
    vesting_reach E v' paid"

definition paid_recorded :: "u64 \<Rightarrow> vesting_contract \<Rightarrow> (account_id \<Rightarrow> nat) \<Rightarrow> bool" where
  "paid_recorded E v paid \<longleftrightarrow>
     (\<forall>r. case get_schedule v r of
            None \<Rightarrow> paid r = 0
          | Some s \<Rightarrow> paid r = unat (claimed s) \<and> claimed s \<le> vested_at s E)"

lemma paid_recorded_append:
  assumes "paid_recorded E v paid" "claimed s = 0" "schedules v' = schedules v @ [s]"
  shows "paid_recorded E v' paid"
  unfolding paid_recorded_def
proof
  fix r
  show "case get_schedule v' r of None \<Rightarrow> paid r = 0
        | Some s \<Rightarrow> paid r = unat (claimed s) \<and> claimed s \<le> vested_at s E"
    using assms spec [OF assms(1) [unfolded paid_recorded_def], of r]
    by (auto simp: get_schedule_def find_snoc split: option.splits)
qed

lemma vested_at_claimed [simp]: "vested_at (s\<lparr>claimed := c\<rparr>) e = vested_at s e"
  by (simp add: vested_at_def Let_def)

lemma paid_recorded_claim:
  assumes "paid_recorded E v paid" "e \<le> E" "claim v r e = Inr (a, v')"
  shows "paid_recorded E v' (paid(r := paid r + unat a))"
  unfolding paid_recorded_def
proof
  fix r'
  show "case get_schedule v' r' of None \<Rightarrow> (paid(r := paid r + unat a)) r' = 0
        | Some s \<Rightarrow> (paid(r := paid r + unat a)) r' = unat (claimed s) \<and> claimed s \<le> vested_at s E"
  proof (cases "r' = r")
    case True
    from assms(3) show ?thesis
    proof (rule claim_Inr)
      fix s assume s: "get_schedule v r = Some s" "claimed s < vested_at s e"
        "a = vested_at s e - claimed s" "get_schedule v' r = Some (s\<lparr>claimed := vested_at s e\<rparr>)"
      have "paid r = unat (claimed s)"
        using assms(1) s(1) by (auto simp: paid_recorded_def dest: spec [of _ r])
      moreover have "unat (claimed s) \<le> unat (vested_at s e)"
        using s(2) by (simp add: word_less_nat_alt)
      ultimately show ?thesis
        using s True assms(2) by (simp add: vested_at_mono unat_sub_exact)
    qed
  next
    case False
    then show ?thesis
      using assms get_schedule_claim_other [OF assms(3), of r']
      by (auto simp: paid_recorded_def split: option.splits dest: spec [of _ r'])
  qed
qed

lemma vesting_reach_recorded: "vesting_reach E v paid \<Longrightarrow> paid_recorded E v paid"
proof (induction rule: vesting_reach.induct)
  case init
  show ?case by (simp add: paid_recorded_def new_vesting_def get_schedule_def)
next
  case (genesis_schedule v paid r amount ty start)
  show ?case
    by (rule paid_recorded_append [OF genesis_schedule.IH, of
          "\<lparr>vs_recipient = r, total_amount = amount, claimed = 0, vs_type = ty, start_epoch = start\<rparr>"])
       (auto simp: add_schedule_def)
next
  case (claims v paid e r a v')
  then show ?case by (intro paid_recorded_claim)
next
  case (admin_schedule v paid c r amount ty start v')
  show ?case
    using admin_schedule(2)
    by (intro paid_recorded_append [OF admin_schedule.IH, of
          "\<lparr>vs_recipient = r, total_amount = amount, claimed = 0, vs_type = ty, start_epoch = start\<rparr>"])
       (auto simp: add_schedule_admin_def split: if_splits)
qed (auto simp: paid_recorded_def get_schedule_def set_admin_def governance_set_admin_def
      split: if_splits)

section \<open>Properties\<close>

text \<open>The release curve of every schedule, custom ones included, only grows with the epoch,
  never exceeds the schedule's total, is zero before the cliff and reaches the total once both
  the cliff and the full duration have elapsed.\<close>

theorem vesting_curve_correct:
  assumes "e \<le> e'"
  shows "vested_at s e \<le> vested_at s e' \<and> vested_at s e' \<le> total_amount s \<and>
    (unat e - unat (start_epoch s) < unat (cliff_epochs (vs_type s)) \<longrightarrow> vested_at s e = 0) \<and>
    (unat (cliff_epochs (vs_type s)) \<le> unat e - unat (start_epoch s) \<and>
     unat (total_epochs (vs_type s)) \<le> unat e - unat (start_epoch s) \<longrightarrow>
       vested_at s e = total_amount s)"
  using assms by (auto simp: vested_at_mono vested_at_le_total vested_at_before_cliff vested_at_end)

definition sample_schedule :: vesting_schedule where
  "sample_schedule = \<lparr>vs_recipient = 7, total_amount = 1000, claimed = 0, vs_type = Custom 10 20,
     start_epoch = 5\<rparr>"

theorem vesting_curve_correct_witness:
  "(14::u64) \<le> 20 \<and> vested_at sample_schedule 14 = 0 \<and> vested_at sample_schedule 20 = 500 \<and>
   vested_at sample_schedule 14 \<le> vested_at sample_schedule 20"
  using vesting_curve_correct [of 14 20 sample_schedule]
  by (simp add: sample_schedule_def vested_at_def sat_sub_def sat_mul_def)

text \<open>C2: along every history of schedule creation, admin changes and claims at epochs up to \<open>E\<close>,
  what a recipient has been paid is what their schedule records as claimed, and is at most what
  has vested by \<open>E\<close>; a recipient with no schedule has been paid nothing.\<close>

theorem vesting_payouts_bounded:
  assumes "vesting_reach E v paid"
  shows "case get_schedule v r of
           None \<Rightarrow> paid r = 0
         | Some s \<Rightarrow> paid r = unat (claimed s) \<and> paid r \<le> unat (vested_at s E) \<and>
                     paid r \<le> unat (total_amount s)"
proof (cases "get_schedule v r")
  case None
  then show ?thesis
    using vesting_reach_recorded [OF assms] by (auto simp: paid_recorded_def dest: spec [of _ r])
next
  case (Some s)
  then have "paid r = unat (claimed s)" "unat (claimed s) \<le> unat (vested_at s E)"
    using vesting_reach_recorded [OF assms]
    by (auto simp: paid_recorded_def word_le_nat_alt dest: spec [of _ r])
  then show ?thesis
    using Some vesting_curve.curve_cap [of s E] by simp
qed

theorem vesting_payouts_bounded_witness:
  "\<exists>v paid. vesting_reach 20 v paid \<and> paid 7 = 500 \<and>
     (case get_schedule v 7 of None \<Rightarrow> False | Some s \<Rightarrow> paid 7 \<le> unat (vested_at s 20))"
proof -
  let ?v = "add_schedule new_vesting 7 1000 (Custom 10 20) 5"
  have c: "claim ?v 7 20 = Inr (500, ?v\<lparr>schedules := [sample_schedule\<lparr>claimed := 500\<rparr>]\<rparr>)"
    by (simp add: claim_def add_schedule_def new_vesting_def claimable_at_def vested_at_def
        sat_sub_def sat_mul_def sample_schedule_def)
  let ?v' = "?v\<lparr>schedules := [sample_schedule\<lparr>claimed := 500\<rparr>]\<rparr>"
  have r: "vesting_reach 20 ?v' ((\<lambda>_. 0)(7 := 0 + unat (500::u128)))"
    using vesting_reach.claims [OF vesting_reach.genesis_schedule [OF vesting_reach.init] _ c]
    by simp
  show ?thesis
    using vesting_payouts_bounded [OF r, of 7] r
    by (intro exI [of _ ?v'] exI [of _ "(\<lambda>_. 0)(7 := 0 + unat (500::u128))"])
       (simp add: get_schedule_def sample_schedule_def)
qed

text \<open>A claim looks only at the recipient's first schedule.  Once that one is used up, every
  later claim is refused as fully claimed, whatever further schedules the recipient is given and
  however much of them has vested: the tokens of a second schedule can never be released.\<close>

theorem second_schedule_unclaimable:
  assumes "get_schedule v r = Some s" "total_amount s \<le> claimed s"
  shows "claim (add_schedule v r amount ty start) r e = Inl FullyClaimed"
proof -
  have "claimable_at s e = 0"
    using assms(2) vested_at_le_total [of s e]
    by (auto simp: claimable_at_def sat_sub_def)
  then show ?thesis
    using assms by (simp add: claim_def add_schedule_def get_schedule_def find_snoc)
qed

theorem second_schedule_unclaimable_witness:
  "claim (add_schedule \<lparr>schedules = [sample_schedule\<lparr>claimed := 1000\<rparr>], admin = None\<rparr>
            7 5000 (Custom 0 0) 0) 7 100 = Inl FullyClaimed"
  by (rule second_schedule_unclaimable [of _ _ "sample_schedule\<lparr>claimed := 1000\<rparr>"])
     (simp_all add: get_schedule_def sample_schedule_def)

end
