(* ===== verification/Guardian.thy ===== *)
theory Guardian
  imports Chain_Types
begin

text \<open>
  The guardian recovery contract, \<open>crates/solen-system-contracts/src/guardian.rs\<close>.
  Guardians of an account open a recovery, confirm it, and after a timelock the
  account's authentication methods may be replaced; the owner may cancel meanwhile.
  Proved here: in every reachable state a recovery that may execute has been
  confirmed by a majority of the guardians recorded when it was opened, each counted
  once, and the timelock has run; no account has two open recoveries; an executed or
  cancelled recovery never executes again.

  The \<open>String\<close> errors of the code are the constructors of \<open>guardian_error\<close>, in the
  order in which the code raises them.
\<close>

section \<open>State\<close>

definition RECOVERY_TIMELOCK_BLOCKS :: u64 where "RECOVERY_TIMELOCK_BLOCKS = 151200"
definition MIN_CONFIRMATIONS :: nat where "MIN_CONFIRMATIONS = 2"

datatype recovery_status = Pending | Cancelled | Executed

datatype guardian_error =
    NoGuardians
  | NotAGuardian
  | ActiveRecoveryExists
  | EmptyAuthMethods
  | NotFoundOrNotPending
  | AlreadyConfirmed
  | OnlyOwnerCanCancel
  | TimelockNotExpired u64
  | InsufficientConfirmations nat nat

record recovery_request =
  rr_id :: u64
  target_account :: account_id
  new_auth_methods :: "auth_method list"
  initiated_at :: u64
  execute_after :: u64
  confirmations :: "account_id list"
  guardian_ids :: "account_id list"
  rr_threshold :: nat
  rr_status :: recovery_status

record guardian_contract =
  recovery_requests :: "recovery_request list"
  rr_next_id :: u64

definition new_guardian :: guardian_contract where
  "new_guardian = \<lparr>recovery_requests = [], rr_next_id = 0\<rparr>"

section \<open>Operations\<close>

definition recovery_threshold :: "nat \<Rightarrow> nat" where
  "recovery_threshold n = (if n < MIN_CONFIRMATIONS then n else n div 2 + 1)"

definition initiate_recovery ::
  "guardian_contract \<Rightarrow> account_id \<Rightarrow> account_id \<Rightarrow> auth_method list \<Rightarrow> account_id list \<Rightarrow> u64
   \<Rightarrow> guardian_error + (u64 \<times> guardian_contract)" where
  "initiate_recovery g target initiator new_auth guardians current_height =
     (if guardians = [] then Inl NoGuardians
      else if initiator \<notin> set guardians then Inl NotAGuardian
      else if \<exists>r\<in>set (recovery_requests g). target_account r = target \<and> rr_status r = Pending
        then Inl ActiveRecoveryExists
      else if new_auth = [] then Inl EmptyAuthMethods
      else Inr (rr_next_id g,
        g\<lparr>rr_next_id := rr_next_id g + 1,
          recovery_requests := recovery_requests g @
            [\<lparr>rr_id = rr_next_id g, target_account = target, new_auth_methods = new_auth,
              initiated_at = current_height,
              execute_after = sat_add current_height RECOVERY_TIMELOCK_BLOCKS,
              confirmations = [initiator], guardian_ids = guardians,
              rr_threshold = recovery_threshold (length guardians), rr_status = Pending\<rparr>]\<rparr>))"

definition is_pending :: "u64 \<Rightarrow> recovery_request \<Rightarrow> bool" where
  "is_pending i r \<longleftrightarrow> rr_id r = i \<and> rr_status r = Pending"

definition confirm_recovery ::
  "guardian_contract \<Rightarrow> u64 \<Rightarrow> account_id \<Rightarrow> guardian_error + guardian_contract" where
  "confirm_recovery g recovery_id confirmer =
     (case find (is_pending recovery_id) (recovery_requests g) of
        None \<Rightarrow> Inl NotFoundOrNotPending
      | Some req \<Rightarrow>
          if confirmer \<notin> set (guardian_ids req) then Inl NotAGuardian
          else if confirmer \<in> set (confirmations req) then Inl AlreadyConfirmed
          else Inr (g\<lparr>recovery_requests := update_first (is_pending recovery_id)
                 (\<lambda>r. r\<lparr>confirmations := confirmations r @ [confirmer]\<rparr>) (recovery_requests g)\<rparr>))"

definition cancel_recovery ::
  "guardian_contract \<Rightarrow> u64 \<Rightarrow> account_id \<Rightarrow> guardian_error + guardian_contract" where
  "cancel_recovery g recovery_id caller =
     (case find (is_pending recovery_id) (recovery_requests g) of
        None \<Rightarrow> Inl NotFoundOrNotPending
      | Some req \<Rightarrow>
          if target_account req \<noteq> caller then Inl OnlyOwnerCanCancel
          else Inr (g\<lparr>recovery_requests := update_first (is_pending recovery_id)
                 (\<lambda>r. r\<lparr>rr_status := Cancelled\<rparr>) (recovery_requests g)\<rparr>))"

definition can_execute :: "guardian_contract \<Rightarrow> u64 \<Rightarrow> u64 \<Rightarrow> guardian_error + recovery_request" where
  "can_execute g recovery_id current_height =
     (case find (is_pending recovery_id) (recovery_requests g) of
        None \<Rightarrow> Inl NotFoundOrNotPending
      | Some req \<Rightarrow>
          if current_height < execute_after req
            then Inl (TimelockNotExpired (execute_after req - current_height))
          else if length (confirmations req) < rr_threshold req
            then Inl (InsufficientConfirmations (length (confirmations req)) (rr_threshold req))
          else Inr req)"

definition mark_executed ::
  "guardian_contract \<Rightarrow> u64 \<Rightarrow> guardian_error + (recovery_request \<times> guardian_contract)" where
  "mark_executed g recovery_id =
     (case find (is_pending recovery_id) (recovery_requests g) of
        None \<Rightarrow> Inl NotFoundOrNotPending
      | Some req \<Rightarrow>
          Inr (req\<lparr>rr_status := Executed\<rparr>,
               g\<lparr>recovery_requests := update_first (is_pending recovery_id)
                   (\<lambda>r. r\<lparr>rr_status := Executed\<rparr>) (recovery_requests g)\<rparr>))"

definition active_recovery :: "guardian_contract \<Rightarrow> account_id \<Rightarrow> recovery_request option" where
  "active_recovery g account =
     find (\<lambda>r. target_account r = account \<and> rr_status r = Pending) (recovery_requests g)"

section \<open>Histories\<close>

text \<open>
  One step of the contract.  The executor calls \<open>mark_executed\<close> only after
  \<open>can_execute\<close> accepted at the current height.
\<close>

datatype guardian_event =
    Initiated account_id account_id
  | Confirmed u64 account_id
  | CancelledBy u64 account_id
  | ExecutedAt u64 u64

inductive guardian_step :: "guardian_contract \<Rightarrow> guardian_event \<Rightarrow> guardian_contract \<Rightarrow> bool" where
  initiate: "initiate_recovery g t i auth gs h = Inr (rid, g') \<Longrightarrow> guardian_step g (Initiated t i) g'"
| confirm: "confirm_recovery g rid c = Inr g' \<Longrightarrow> guardian_step g (Confirmed rid c) g'"
| cancel: "cancel_recovery g rid c = Inr g' \<Longrightarrow> guardian_step g (CancelledBy rid c) g'"
| execute: "can_execute g rid h = Inr req \<Longrightarrow> mark_executed g rid = Inr (req', g') \<Longrightarrow>
    guardian_step g (ExecutedAt rid h) g'"

inductive guardian_reach :: "guardian_contract \<Rightarrow> guardian_event list \<Rightarrow> bool" where
  start: "guardian_reach new_guardian []"
| step: "guardian_reach g es \<Longrightarrow> guardian_step g e g' \<Longrightarrow> guardian_reach g' (es @ [e])"

inductive_cases guardian_stepE: "guardian_step g e g'"

section \<open>Invariant\<close>

definition wf_request :: "recovery_request \<Rightarrow> bool" where
  "wf_request r \<longleftrightarrow>
     distinct (confirmations r) \<and> set (confirmations r) \<subseteq> set (guardian_ids r) \<and>
     confirmations r \<noteq> [] \<and>
     rr_threshold r = recovery_threshold (length (guardian_ids r)) \<and>
     execute_after r = sat_add (initiated_at r) RECOVERY_TIMELOCK_BLOCKS \<and>
     new_auth_methods r \<noteq> []"

definition pending_targets :: "guardian_contract \<Rightarrow> account_id list" where
  "pending_targets g = map target_account (filter (\<lambda>r. rr_status r = Pending) (recovery_requests g))"

definition guardian_inv :: "guardian_contract \<Rightarrow> bool" where
  "guardian_inv g \<longleftrightarrow>
     list_all wf_request (recovery_requests g) \<and> distinct (pending_targets g)"

lemma guardian_inv_new: "guardian_inv new_guardian"
  by (simp add: guardian_inv_def new_guardian_def pending_targets_def)

lemma guardian_inv_update:
  assumes inv: "guardian_inv g"
    and upd: "recovery_requests g' = update_first Q f (recovery_requests g)"
    and keep: "\<And>r. target_account (f r) = target_account r"
      "\<And>r. rr_status (f r) = Pending \<Longrightarrow> rr_status r = Pending"
    and wf: "\<And>r. find Q (recovery_requests g) = Some r \<Longrightarrow> wf_request r \<Longrightarrow> wf_request (f r)"
  shows "guardian_inv g'"
proof -
  have "list_all wf_request (recovery_requests g')"
    using inv unfolding upd guardian_inv_def by (blast intro: list_all_update_first_find wf)
  moreover have "distinct (pending_targets g')"
    using inv keep unfolding guardian_inv_def pending_targets_def upd
    by (intro distinct_keys_update_first) auto
  ultimately show ?thesis
    by (simp add: guardian_inv_def)
qed

lemma guardian_inv_initiate:
  assumes "guardian_inv g" "initiate_recovery g t i auth gs h = Inr (rid, g')"
  shows "guardian_inv g'"
  using assms
  by (auto simp: guardian_inv_def initiate_recovery_def wf_request_def pending_targets_def
      split: if_splits)

lemma confirm_Inr:
  assumes "confirm_recovery g rid c = Inr g'"
  obtains req where "find (is_pending rid) (recovery_requests g) = Some req"
    "c \<in> set (guardian_ids req)" "c \<notin> set (confirmations req)"
    "recovery_requests g' = update_first (is_pending rid)
       (\<lambda>r. r\<lparr>confirmations := confirmations r @ [c]\<rparr>) (recovery_requests g)"
    "rr_next_id g' = rr_next_id g"
  using assms by (auto simp: confirm_recovery_def split: option.splits if_splits)

lemma cancel_Inr:
  assumes "cancel_recovery g rid c = Inr g'"
  obtains req where "find (is_pending rid) (recovery_requests g) = Some req"
    "target_account req = c"
    "recovery_requests g' = update_first (is_pending rid)
       (\<lambda>r. r\<lparr>rr_status := Cancelled\<rparr>) (recovery_requests g)"
    "rr_next_id g' = rr_next_id g"
  using assms by (auto simp: cancel_recovery_def split: option.splits if_splits)

lemma mark_executed_Inr:
  assumes "mark_executed g rid = Inr (req', g')"
  obtains req where "find (is_pending rid) (recovery_requests g) = Some req"
    "req' = req\<lparr>rr_status := Executed\<rparr>"
    "recovery_requests g' = update_first (is_pending rid)
       (\<lambda>r. r\<lparr>rr_status := Executed\<rparr>) (recovery_requests g)"
    "rr_next_id g' = rr_next_id g"
  using assms by (auto simp: mark_executed_def split: option.splits)

lemma guardian_inv_step:
  assumes "guardian_inv g" "guardian_step g e g'"
  shows "guardian_inv g'"
  using assms(2)
proof cases
  case (initiate t i auth gs h rid)
  with assms(1) show ?thesis by (blast intro: guardian_inv_initiate)
next
  case (confirm rid c)
  from confirm(2) show ?thesis
    by (rule confirm_Inr) (rule guardian_inv_update [OF assms(1)], assumption, auto simp: wf_request_def)
next
  case (cancel rid c)
  from cancel(2) show ?thesis
    by (rule cancel_Inr) (rule guardian_inv_update [OF assms(1)], assumption, auto simp: wf_request_def)
next
  case (execute rid h req req')
  from execute(3) show ?thesis
    by (rule mark_executed_Inr) (rule guardian_inv_update [OF assms(1)], assumption, auto simp: wf_request_def)
qed

lemma guardian_inv_reach: "guardian_reach g es \<Longrightarrow> guardian_inv g"
  by (induction rule: guardian_reach.induct) (auto intro: guardian_inv_new guardian_inv_step)

text \<open>The requests are a table with a counter.\<close>

interpretation requests: counter_table rr_id recovery_requests rr_next_id new_guardian
  "\<lambda>g g'. \<exists>e. guardian_step g e g'"
proof (unfold_locales, goal_cases)
  case (3 g g')
  then obtain e where "guardian_step g e g'" by blast
  then show ?case
    by (cases rule: guardian_step.cases)
       (auto simp: initiate_recovery_def map_update_first split: if_splits
         elim!: confirm_Inr cancel_Inr mark_executed_Inr)
qed (simp_all add: new_guardian_def)

lemma reach_requests: "guardian_reach g es \<Longrightarrow> (\<lambda>g g'. \<exists>e. guardian_step g e g')\<^sup>*\<^sup>* new_guardian g"
  by (induction rule: guardian_reach.induct) (auto intro: rtranclp.rtrancl_into_rtrancl)

lemma guardian_ids_distinct:
  "guardian_reach g es \<Longrightarrow> length (recovery_requests g) \<le> 2 ^ 64 \<Longrightarrow>
   distinct (map rr_id (recovery_requests g))"
  using requests.keys_distinct [OF reach_requests] by simp

lemmas length_step = requests.rows_grow [OF exI]

text \<open>Every recorded confirmation comes from a call of that guardian.\<close>

definition backed :: "guardian_event list \<Rightarrow> recovery_request \<Rightarrow> bool" where
  "backed es r \<longleftrightarrow> (\<forall>c\<in>set (confirmations r).
     Initiated (target_account r) c \<in> set es \<or> Confirmed (rr_id r) c \<in> set es)"

lemma backed_step:
  assumes "list_all (backed es) (recovery_requests g)" "guardian_step g e g'"
  shows "list_all (backed (es @ [e])) (recovery_requests g')"
proof -
  have weaken: "list_all (backed (es @ [e])) (recovery_requests g)"
    using assms(1) by (fastforce simp: list_all_iff backed_def)
  from assms(2) show ?thesis
  proof cases
    case (initiate t i auth gs h rid)
    then show ?thesis using weaken
      by (auto simp: initiate_recovery_def backed_def split: if_splits)
  next
    case (confirm rid c)
    from confirm(2) obtain g': "recovery_requests g' = update_first (is_pending rid)
        (\<lambda>r. r\<lparr>confirmations := confirmations r @ [c]\<rparr>) (recovery_requests g)"
      by (rule confirm_Inr)
    show ?thesis unfolding g'
      by (rule list_all_update_first [OF weaken]) (auto simp: backed_def is_pending_def confirm(1))
  next
    case (cancel rid c)
    from cancel(2) obtain g': "recovery_requests g' = update_first (is_pending rid)
        (\<lambda>r. r\<lparr>rr_status := Cancelled\<rparr>) (recovery_requests g)"
      by (rule cancel_Inr)
    show ?thesis unfolding g'
      by (rule list_all_update_first [OF weaken]) (auto simp: backed_def is_pending_def cancel(1))
  next
    case (execute rid h req req')
    from execute(3) obtain g': "recovery_requests g' = update_first (is_pending rid)
        (\<lambda>r. r\<lparr>rr_status := Executed\<rparr>) (recovery_requests g)"
      by (rule mark_executed_Inr)
    show ?thesis unfolding g'
      by (rule list_all_update_first [OF weaken]) (auto simp: backed_def is_pending_def execute(1))
  qed
qed

lemma backed_reach: "guardian_reach g es \<Longrightarrow> list_all (backed es) (recovery_requests g)"
  by (induction rule: guardian_reach.induct) (auto simp: new_guardian_def intro: backed_step)

lemma can_execute_Inr:
  "can_execute g rid h = Inr req \<longleftrightarrow>
     find (is_pending rid) (recovery_requests g) = Some req \<and> execute_after req \<le> h \<and>
     rr_threshold req \<le> length (confirmations req)"
  by (auto simp: can_execute_def split: option.splits if_splits)

lemma recovery_threshold_majority: "n \<noteq> 0 \<Longrightarrow> n < 2 * recovery_threshold n"
  by (auto simp: recovery_threshold_def MIN_CONFIRMATIONS_def)

text \<open>A recovery that was executed or cancelled is closed for good.\<close>

fun closes :: "guardian_event \<Rightarrow> u64 \<Rightarrow> bool" where
  "closes (ExecutedAt rid h) i \<longleftrightarrow> rid = i"
| "closes (CancelledBy rid c) i \<longleftrightarrow> rid = i"
| "closes _ i \<longleftrightarrow> False"

definition closed_ids :: "guardian_contract \<Rightarrow> guardian_event list \<Rightarrow> bool" where
  "closed_ids g es \<longleftrightarrow>
     (\<forall>e\<in>set es. \<forall>i. closes e i \<longrightarrow>
        i \<in> set (map rr_id (recovery_requests g)) \<and>
        (\<forall>r\<in>set (recovery_requests g). \<not> is_pending i r))"

lemma not_pending_update:
  assumes "distinct (map rr_id xs)" "find (is_pending i) xs = Some r" "rr_status (f r) \<noteq> Pending"
  shows "\<forall>x\<in>set (update_first (is_pending i) f xs). \<not> is_pending i x"
proof -
  obtain ys zs where d: "xs = ys @ r # zs" "is_pending i r"
    "update_first (is_pending i) f xs = ys @ f r # zs"
    using assms(2) by (rule update_first_decomp)
  have "rr_id x \<noteq> i" if "x \<in> set ys \<union> set zs" for x
    using assms(1) that d(1,2) unfolding is_pending_def by (auto simp: image_iff)
  then show ?thesis using d(3) assms(3) by (auto simp: is_pending_def)
qed

lemma closed_update:
  assumes "closed_ids g es" "recovery_requests g' = update_first Q f (recovery_requests g)"
    "\<And>r. rr_id (f r) = rr_id r" "\<And>r. rr_status (f r) = Pending \<Longrightarrow> rr_status r = Pending"
    "\<And>i. closes e i \<Longrightarrow> i \<in> set (map rr_id (recovery_requests g)) \<and>
       (\<forall>r\<in>set (recovery_requests g'). \<not> is_pending i r)"
  shows "closed_ids g' (es @ [e])"
proof -
  have "map rr_id (recovery_requests g') = map rr_id (recovery_requests g)"
    by (simp add: assms(2,3) map_update_first)
  moreover have "\<forall>r\<in>set (recovery_requests g'). \<not> is_pending i r"
    if "\<forall>r\<in>set (recovery_requests g). \<not> is_pending i r" for i
    using that assms(3,4) unfolding assms(2)
    by (metis is_pending_def set_update_first)
  ultimately show ?thesis
    using assms(1,5) unfolding closed_ids_def by (metis Un_iff set_append set_ConsD empty_set empty_iff)
qed

lemma closed_step:
  assumes "closed_ids g es" "guardian_reach g es" "guardian_step g e g'"
    "length (recovery_requests g') \<le> 2 ^ 64"
  shows "closed_ids g' (es @ [e])"
proof -
  have dist: "distinct (map rr_id (recovery_requests g'))"
    using guardian_ids_distinct [OF guardian_reach.step [OF assms(2,3)] assms(4)] .
  have dist0: "distinct (map rr_id (recovery_requests g))"
    using guardian_ids_distinct [OF assms(2)] length_step [OF assms(3)] assms(4) by simp
  from assms(3) show ?thesis
  proof cases
    case (initiate t i auth gs h rid)
    then obtain r where "recovery_requests g' = recovery_requests g @ [r]"
      by (auto simp: initiate_recovery_def split: if_splits)
    then show ?thesis
      using assms(1) dist initiate(1) by (auto simp: closed_ids_def is_pending_def)
  next
    case (confirm rid c)
    from confirm(2) show ?thesis
      by (rule confirm_Inr) (rule closed_update [OF assms(1)], assumption, auto simp: confirm(1))
  next
    case (cancel rid c)
    from cancel(2) obtain req where c: "find (is_pending rid) (recovery_requests g) = Some req"
      "recovery_requests g' = update_first (is_pending rid)
         (\<lambda>r. r\<lparr>rr_status := Cancelled\<rparr>) (recovery_requests g)"
      by (rule cancel_Inr)
    have "rid \<in> set (map rr_id (recovery_requests g))"
      using find_SomeD [OF c(1)] by (auto simp: is_pending_def)
    with c not_pending_update [OF dist0 c(1), of "\<lambda>r. r\<lparr>rr_status := Cancelled\<rparr>"] show ?thesis
      by (intro closed_update [OF assms(1) c(2)]) (auto simp: cancel(1))
  next
    case (execute rid h req req')
    from execute(3) obtain q where c: "find (is_pending rid) (recovery_requests g) = Some q"
      "recovery_requests g' = update_first (is_pending rid)
         (\<lambda>r. r\<lparr>rr_status := Executed\<rparr>) (recovery_requests g)"
      by (rule mark_executed_Inr)
    have "rid \<in> set (map rr_id (recovery_requests g))"
      using find_SomeD [OF c(1)] by (auto simp: is_pending_def)
    with c not_pending_update [OF dist0 c(1), of "\<lambda>r. r\<lparr>rr_status := Executed\<rparr>"] show ?thesis
      by (intro closed_update [OF assms(1) c(2)]) (auto simp: execute(1))
  qed
qed

lemma closed_reach:
  "guardian_reach g es \<Longrightarrow> length (recovery_requests g) \<le> 2 ^ 64 \<Longrightarrow> closed_ids g es"
proof (induction rule: guardian_reach.induct)
  case start
  show ?case by (simp add: closed_ids_def)
next
  case (step g es e g')
  then show ?case
    using length_step [OF step(2)] by (intro closed_step) auto
qed

section \<open>Properties\<close>

text \<open>C1: in every reachable state, a recovery the contract lets execute is pending, was confirmed by
  distinct guardians from the list recorded at its opening, these are a strict majority of that
  list, each of them called the contract, and the timelock of 151200 blocks since the opening has
  run (up to saturation of the block height).\<close>

theorem recovery_execution_authorised:
  assumes "guardian_reach g es" "can_execute g rid h = Inr req"
  shows "rr_status req = Pending \<and> distinct (confirmations req) \<and>
    set (confirmations req) \<subseteq> set (guardian_ids req) \<and>
    length (guardian_ids req) < 2 * card (set (confirmations req)) \<and>
    (\<forall>c\<in>set (confirmations req).
       Initiated (target_account req) c \<in> set es \<or> Confirmed rid c \<in> set es) \<and>
    min (unat (initiated_at req) + 151200) (2 ^ 64 - 1) \<le> unat h"
proof -
  have f: "find (is_pending rid) (recovery_requests g) = Some req" "execute_after req \<le> h"
    "rr_threshold req \<le> length (confirmations req)"
    using assms(2) by (auto simp: can_execute_Inr)
  then have mem: "req \<in> set (recovery_requests g)" "rr_id req = rid" "rr_status req = Pending"
    by (auto simp: is_pending_def dest!: find_SomeD)
  have wf: "wf_request req"
    using guardian_inv_reach [OF assms(1)] mem(1) by (auto simp: guardian_inv_def list_all_iff)
  have "guardian_ids req \<noteq> []"
    using wf by (auto simp: wf_request_def)
  then have "length (guardian_ids req) < 2 * length (confirmations req)"
    using recovery_threshold_majority [of "length (guardian_ids req)"] wf f(3)
    by (auto simp: wf_request_def)
  moreover have "backed es req"
    using backed_reach [OF assms(1)] mem(1) by (auto simp: list_all_iff)
  ultimately show ?thesis
    using wf f(2) mem by (auto simp: wf_request_def backed_def distinct_card word_le_nat_alt
        unat_sat_add RECOVERY_TIMELOCK_BLOCKS_def)
qed

definition sample_request :: "account_id list \<Rightarrow> recovery_request" where
  "sample_request cs = \<lparr>rr_id = 0, target_account = 1, new_auth_methods = [Ed25519 9],
     initiated_at = 1000, execute_after = 152200, confirmations = cs, guardian_ids = [10, 11, 12],
     rr_threshold = 2, rr_status = Pending\<rparr>"

definition sample_guardian :: "account_id list \<Rightarrow> guardian_contract" where
  "sample_guardian cs = \<lparr>recovery_requests = [sample_request cs], rr_next_id = 1\<rparr>"

lemma sample_initiated: "guardian_reach (sample_guardian [10]) [Initiated 1 10]"
proof -
  have "initiate_recovery new_guardian 1 10 [Ed25519 9] [10, 11, 12] 1000
      = Inr (0, sample_guardian [10])"
    by (simp add: initiate_recovery_def new_guardian_def sample_guardian_def sample_request_def
        recovery_threshold_def MIN_CONFIRMATIONS_def RECOVERY_TIMELOCK_BLOCKS_def sat_add_def)
  from guardian_reach.step [OF guardian_reach.start guardian_step.initiate [OF this]]
  show ?thesis by simp
qed

lemma sample_confirmed: "guardian_reach (sample_guardian [10, 11]) [Initiated 1 10, Confirmed 0 11]"
proof -
  have "confirm_recovery (sample_guardian [10]) 0 11 = Inr (sample_guardian [10, 11])"
    by (simp add: confirm_recovery_def sample_guardian_def sample_request_def is_pending_def)
  from guardian_reach.step [OF sample_initiated guardian_step.confirm [OF this]]
  show ?thesis by simp
qed

lemma sample_can_execute: "can_execute (sample_guardian [10, 11]) 0 152200 = Inr (sample_request [10, 11])"
  by (simp add: can_execute_def sample_guardian_def sample_request_def is_pending_def)

theorem recovery_execution_authorised_witness:
  "can_execute (sample_guardian [10, 11]) 0 152200 = Inr (sample_request [10, 11]) \<and>
   length (guardian_ids (sample_request [10, 11])) < 2 * card {10, 11 :: account_id}"
  using recovery_execution_authorised [OF sample_confirmed sample_can_execute] sample_can_execute
  by (simp add: sample_request_def)

text \<open>In every reachable state each request is well formed, no account has two pending
  recoveries, and as long as no more than \<open>2 ^ 64\<close> recoveries were ever opened their identifiers
  are pairwise distinct.\<close>

theorem guardian_requests_well_formed:
  assumes "guardian_reach g es" "length (recovery_requests g) \<le> 2 ^ 64"
  shows "list_all wf_request (recovery_requests g) \<and> distinct (pending_targets g) \<and>
    distinct (map rr_id (recovery_requests g))"
  using guardian_inv_reach [OF assms(1)] guardian_ids_distinct [OF assms]
  by (simp add: guardian_inv_def)

theorem guardian_requests_well_formed_witness:
  "pending_targets (sample_guardian [10]) = [1] \<and> wf_request (sample_request [10])"
  using guardian_requests_well_formed [OF sample_initiated]
  by (simp add: sample_guardian_def pending_targets_def sample_request_def)

text \<open>Once a recovery has been executed or cancelled, no later state lets it execute, be
  confirmed, be cancelled or be marked executed again.\<close>

theorem closed_recovery_never_reopens:
  assumes "guardian_reach g es" "length (recovery_requests g) \<le> 2 ^ 64"
    "ExecutedAt rid h0 \<in> set es \<or> CancelledBy rid c0 \<in> set es"
  shows "can_execute g rid h = Inl NotFoundOrNotPending \<and>
    confirm_recovery g rid c = Inl NotFoundOrNotPending \<and>
    cancel_recovery g rid c = Inl NotFoundOrNotPending \<and>
    mark_executed g rid = Inl NotFoundOrNotPending"
proof -
  have "\<exists>e\<in>set es. closes e rid"
    using assms(3) by (metis closes.simps(1,2))
  then have "\<forall>r\<in>set (recovery_requests g). \<not> is_pending rid r"
    using closed_reach [OF assms(1,2)] by (auto simp: closed_ids_def)
  then have "find (is_pending rid) (recovery_requests g) = None"
    by (simp add: find_None_iff2)
  then show ?thesis
    by (simp add: can_execute_def confirm_recovery_def cancel_recovery_def mark_executed_def)
qed

theorem closed_recovery_never_reopens_witness:
  "\<exists>g es. guardian_reach g es \<and> CancelledBy 0 1 \<in> set es \<and>
     can_execute g 0 152200 = Inl NotFoundOrNotPending"
proof -
  let ?g = "\<lparr>recovery_requests = [sample_request [10, 11]\<lparr>rr_status := Cancelled\<rparr>], rr_next_id = 1\<rparr>"
  have "cancel_recovery (sample_guardian [10, 11]) 0 1 = Inr ?g"
    by (simp add: cancel_recovery_def sample_guardian_def sample_request_def is_pending_def)
  note r = guardian_reach.step [OF sample_confirmed guardian_step.cancel [OF this]]
  show ?thesis
    using r closed_recovery_never_reopens [OF r, of 0 0 1 152200 0]
    by (intro exI [of _ ?g] exI [of _ "[Initiated 1 10, Confirmed 0 11, CancelledBy 0 1]"]) simp
qed

end
