(* ===== verification/Sys_Base.thy ===== *)
theory Sys_Base
  imports Ledger Staking Governance Bridge Vesting Guardian Treasury
begin

text \<open>
  What the system contract calls share, \<open>crates/solen-execution/src/system_calls.rs\<close> and the
  \<open>load\<close> and \<open>save\<close> functions of the contracts: results and events, argument parsing,
  configuration values, and the ways a call debits and credits accounts.

  A contract is stored as one JSON value under its own key.  The JSON codecs are fields of the
  environment; the code relies on them to read back what they wrote (\<open>json_ok\<close>).
  A handler either returns early with an error, leaving its in-memory contract unsaved, or
  runs to the end of the match and saves it: \<open>flow\<close> keeps the two apart.
\<close>

section \<open>Environment\<close>

record 'c json_codec =
  to_vec :: "'c \<Rightarrow> bytes"
  from_slice :: "bytes \<Rightarrow> string + 'c"

definition json_ok :: "'c json_codec \<Rightarrow> bool" where
  "json_ok J \<longleftrightarrow> (\<forall>c. from_slice J (to_vec J c) = Inr c)"

text \<open>
  \<open>serde_json::Value\<close>, as far as the code looks into it: \<open>JNum\<close> is a number that fits an
  unsigned 64-bit integer, \<open>JNumber\<close> any other number in its textual form.
\<close>

datatype json =
    JNull
  | JBool bool
  | JNum u64
  | JNumber string
  | JStr string
  | JArr "json list"
  | JObj "(string \<times> json) list"

record sys_env = ledger_env +
  staking_json :: "staking_contract json_codec"
  governance_json :: "governance_contract json_codec"
  bridge_json :: "bridge_contract json_codec"
  vesting_json :: "vesting_contract json_codec"
  guardian_json :: "guardian_contract json_codec"
  treasury_json :: "treasury_contract json_codec"
  paymasters_json :: "account_id list json_codec"
  auth_json :: "auth_method list json_codec"
  value_json :: "json json_codec"
  ed25519_verify :: "hash \<Rightarrow> bytes \<Rightarrow> bytes \<Rightarrow> bool"
  debug_str :: "string \<Rightarrow> string"

text \<open>
  \<open>ed25519_verify key message signature\<close> is the signature check of the crypto library, and
  \<open>debug_str\<close> the quoted rendering of a string in a debug message.
\<close>

definition json_load ::
    "'a ledger_env_scheme \<Rightarrow> 'c json_codec \<Rightarrow> bytes \<Rightarrow> 'c \<Rightarrow> overlay_store \<Rightarrow> 'c" where
  "json_load E J key dflt s =
     (case sget E s key of
        Some data \<Rightarrow> (case from_slice J data of Inl _ \<Rightarrow> dflt | Inr c \<Rightarrow> c)
      | None \<Rightarrow> dflt)"

definition json_save :: "'c json_codec \<Rightarrow> bytes \<Rightarrow> 'c \<Rightarrow> overlay_store \<Rightarrow> overlay_store" where
  "json_save J key c s = ov_put key (to_vec J c) s"

definition staking_load :: "'a sys_env_scheme \<Rightarrow> overlay_store \<Rightarrow> staking_contract" where
  "staking_load E s = json_load E (staking_json E) (ascii ''__staking_state__'') new_staking s"

definition staking_save ::
    "'a sys_env_scheme \<Rightarrow> staking_contract \<Rightarrow> overlay_store \<Rightarrow> overlay_store" where
  "staking_save E c s = json_save (staking_json E) (ascii ''__staking_state__'') c s"

text \<open>\<open>Default\<close> is derived, so the voting period of a missing contract is 0, not the constant.\<close>

definition governance_load :: "'a sys_env_scheme \<Rightarrow> overlay_store \<Rightarrow> governance_contract" where
  "governance_load E s = json_load E (governance_json E) (ascii ''__governance_state__'')
     (new_governance\<lparr>voting_period := 0\<rparr>) s"

definition governance_save ::
    "'a sys_env_scheme \<Rightarrow> governance_contract \<Rightarrow> overlay_store \<Rightarrow> overlay_store" where
  "governance_save E c s = json_save (governance_json E) (ascii ''__governance_state__'') c s"

definition bridge_load :: "'a sys_env_scheme \<Rightarrow> overlay_store \<Rightarrow> bridge_contract" where
  "bridge_load E s = json_load E (bridge_json E) (ascii ''__bridge_state__'') new_bridge s"

definition bridge_save ::
    "'a sys_env_scheme \<Rightarrow> bridge_contract \<Rightarrow> overlay_store \<Rightarrow> overlay_store" where
  "bridge_save E c s = json_save (bridge_json E) (ascii ''__bridge_state__'') c s"

definition vesting_load :: "'a sys_env_scheme \<Rightarrow> overlay_store \<Rightarrow> vesting_contract" where
  "vesting_load E s = json_load E (vesting_json E) (ascii ''__vesting_state__'') new_vesting s"

definition vesting_save ::
    "'a sys_env_scheme \<Rightarrow> vesting_contract \<Rightarrow> overlay_store \<Rightarrow> overlay_store" where
  "vesting_save E c s = json_save (vesting_json E) (ascii ''__vesting_state__'') c s"

definition guardian_load :: "'a sys_env_scheme \<Rightarrow> overlay_store \<Rightarrow> guardian_contract" where
  "guardian_load E s = json_load E (guardian_json E) (ascii ''__guardian_state__'') new_guardian s"

definition guardian_save ::
    "'a sys_env_scheme \<Rightarrow> guardian_contract \<Rightarrow> overlay_store \<Rightarrow> overlay_store" where
  "guardian_save E c s = json_save (guardian_json E) (ascii ''__guardian_state__'') c s"

definition treasury_load :: "'a sys_env_scheme \<Rightarrow> overlay_store \<Rightarrow> treasury_contract" where
  "treasury_load E s = json_load E (treasury_json E) (ascii ''__treasury_state__'') new_treasury s"

section \<open>Results\<close>

record event =
  emitter :: account_id
  topic :: bytes
  ev_data :: bytes

datatype call_error =
    Msg string
  | StateErr state_error
  | StateMsg string state_error
  | StakingErr staking_error
  | GovernanceErr governance_error
  | BridgeErr bridge_error
  | VestingErr vesting_error
  | GuardianErr guardian_error
  | Panic

record system_call_result =
  sc_gas_used :: u64
  sc_events :: "event list"
  sc_error :: "call_error option"

definition SYSTEM_CALL_GAS :: u64 where "SYSTEM_CALL_GAS = 200"
definition MIN_FEE_RESERVE :: u128 where "MIN_FEE_RESERVE = 10000"

definition err :: "call_error \<Rightarrow> system_call_result" where
  "err e = \<lparr>sc_gas_used = SYSTEM_CALL_GAS, sc_events = [], sc_error = Some e\<rparr>"

text \<open>The UTF-8 bytes of the dash in the messages of the code.\<close>

definition em_dash :: string where
  "em_dash = [CHR 0xE2, CHR 0x80, CHR 0x94]"

datatype 'c flow =
    Return call_error overlay_store
  | Next "call_error option" "event list" 'c overlay_store

definition finish ::
    "('c \<Rightarrow> overlay_store \<Rightarrow> overlay_store) \<Rightarrow> 'c flow \<Rightarrow> system_call_result \<times> overlay_store" where
  "finish save f =
     (case f of
        Return e s \<Rightarrow> (err e, s)
      | Next r evs c s \<Rightarrow>
          (\<lparr>sc_gas_used = SYSTEM_CALL_GAS, sc_events = evs, sc_error = r\<rparr>, save c s))"

section \<open>Arguments and configuration\<close>

definition read_account_id :: "bytes \<Rightarrow> nat \<Rightarrow> account_id option" where
  "read_account_id args offset =
     (if length args < offset + 32 then None
      else Some (id_of_bytes (take 32 (drop offset args))))"

definition read_u128 :: "bytes \<Rightarrow> nat \<Rightarrow> u128 option" where
  "read_u128 args offset =
     (if length args < offset + 16 then None
      else Some (of_le_bytes (take 16 (drop offset args))))"

definition read_u64 :: "bytes \<Rightarrow> nat \<Rightarrow> u64 option" where
  "read_u64 args offset =
     (if length args < offset + 8 then None
      else Some (of_le_bytes (take 8 (drop offset args))))"

text \<open>\<open>u32::from_le_bytes([args[i], \<dots>]) as usize\<close>; the callers check the length first.\<close>

definition u32_at :: "bytes \<Rightarrow> nat \<Rightarrow> nat" where
  "u32_at args i = unat (of_le_bytes (take 4 (drop i args)) :: u32)"

definition chain_height :: "'a ledger_env_scheme \<Rightarrow> overlay_store \<Rightarrow> u64" where
  "chain_height E s =
     (case sget E s (ascii ''__chain_meta__'') of
        Some data \<Rightarrow> if 8 \<le> length data then of_le_bytes (take 8 data) else 0
      | None \<Rightarrow> 0)"

definition read_current_epoch :: "'a ledger_env_scheme \<Rightarrow> overlay_store \<Rightarrow> u64" where
  "read_current_epoch E s =
     (case sget E s (ascii ''__chain_meta__'') of
        Some data \<Rightarrow> if 16 \<le> length data then of_le_bytes (take 8 data) div 100 else 0
      | None \<Rightarrow> 0)"

definition read_config_u128 ::
    "'a ledger_env_scheme \<Rightarrow> overlay_store \<Rightarrow> bytes \<Rightarrow> u128 option" where
  "read_config_u128 E s key =
     (case sget E s key of
        Some data \<Rightarrow> if 16 \<le> length data then Some (of_le_bytes (take 16 data)) else None
      | None \<Rightarrow> None)"

lemma read_args [simp]:
  "read_account_id (id_bytes i @ r) 0 = Some i"
  "read_u128 (le_bytes 16 a @ r) 0 = Some a"
  "read_u64 (le_bytes 8 n @ r) 0 = Some n"
  "read_u128 (id_bytes i @ le_bytes 16 a @ r) 32 = Some a"
  "read_u64 (id_bytes i @ le_bytes 8 n @ r) 32 = Some n"
  by (simp_all add: read_account_id_def read_u128_def read_u64_def of_le_bytes_le_bytes)

lemmas read_args_end [simp] = read_args [where r = "[]", simplified]

section \<open>Debits and credits\<close>

text \<open>
  The balance check with the fee reserve.  The sum of amount and reserve is a plain \<open>+\<close> on
  \<open>u128\<close>, which wraps in the release build.
\<close>

definition deduct ::
    "'a ledger_env_scheme \<Rightarrow> account_id \<Rightarrow> u128 \<Rightarrow> string \<Rightarrow> overlay_store \<Rightarrow> call_error + overlay_store" where
  "deduct E who amount msg s =
     (case require_account E s who of
        Inl e \<Rightarrow> Inl (StateErr e)
      | Inr a \<Rightarrow>
          if balance a < amount + MIN_FEE_RESERVE then Inl (Msg msg)
          else Inr (save_account E (a\<lparr>balance := balance a - amount\<rparr>) s))"

definition credit ::
    "'a ledger_env_scheme \<Rightarrow> account_id \<Rightarrow> u128 \<Rightarrow> overlay_store \<Rightarrow> overlay_store" where
  "credit E who amount s =
     (case require_account E s who of
        Inl _ \<Rightarrow> s
      | Inr a \<Rightarrow> save_account E (a\<lparr>balance := sat_add (balance a) amount\<rparr>) s)"

definition blank_account :: "account_id \<Rightarrow> account" where
  "blank_account i = \<lparr>acct_id = i, code_hash = 0, auth_methods = [], acct_nonce = 0, balance = 0\<rparr>"

definition credit_or_create ::
    "'a ledger_env_scheme \<Rightarrow> account_id \<Rightarrow> u128 \<Rightarrow> overlay_store \<Rightarrow> overlay_store" where
  "credit_or_create E who amount s =
     (let a = (case load_account E s who of Inr (Some a) \<Rightarrow> a | _ \<Rightarrow> blank_account who)
      in save_account E (a\<lparr>balance := sat_add (balance a) amount\<rparr>) s)"

section \<open>Contract keys and accounts\<close>

lemma not_account_keys [ledger_simps]:
  "\<not> is_account_key (ascii ''__staking_state__'')"
  "\<not> is_account_key (ascii ''__governance_state__'')"
  "\<not> is_account_key (ascii ''__bridge_state__'')"
  "\<not> is_account_key (ascii ''__vesting_state__'')"
  "\<not> is_account_key (ascii ''__guardian_state__'')"
  "\<not> is_account_key (ascii ''__treasury_state__'')"
  "\<not> is_account_key (ascii ''__chain_meta__'')"
  "\<not> is_account_key (ascii ''__paymasters__'')"
  by (simp_all add: is_account_key_iff ascii_simps)

text \<open>Saving an account leaves every other key alone, and a contract write leaves accounts alone.\<close>

lemma sget_save_account [ledger_simps]:
  "\<not> is_account_key k \<Longrightarrow> sget E (save_account E' a s) k = sget E s k"
  by (auto simp: save_account_def is_account_key_def)

lemma json_load_save_account [ledger_simps]:
  "\<not> is_account_key k \<Longrightarrow> json_load E J k d (save_account E' a s) = json_load E J k d s"
  by (simp add: json_load_def ledger_simps)

lemma json_load_save [ledger_simps]:
  "json_ok J \<Longrightarrow> json_load E J k d (json_save J k c s) = c"
  "k \<noteq> k' \<Longrightarrow> json_load E J k d (json_save J' k' c' s) = json_load E J k d s"
  by (simp_all add: json_load_def json_save_def json_ok_def)

lemma acct_json_save [ledger_simps]:
  "\<not> is_account_key k \<Longrightarrow> acct E (json_save J k c s) = acct E s"
  "\<not> is_account_key k \<Longrightarrow> accounts_ok E (json_save J k c s) = accounts_ok E s"
  by (simp_all add: json_save_def ledger_simps)

lemma supply_json_save [ledger_simps]:
  "\<not> is_account_key k \<Longrightarrow> total_supply E (json_save J k c s) = total_supply E s"
  by (rule supply_same) (simp add: ledger_simps)

lemmas contract_defs =
  staking_load_def staking_save_def governance_load_def governance_save_def bridge_load_def
  bridge_save_def vesting_load_def vesting_save_def guardian_load_def guardian_save_def
  treasury_load_def

section \<open>What debits and credits do to the supply\<close>

lemma deduct_Inr:
  assumes "account_codec_ok E" "accounts_ok E s" "deduct E who amount msg s = Inr s1"
  obtains a where "acct E s who = Some a" "amount + MIN_FEE_RESERVE \<le> balance a"
    "s1 = save_account E (a\<lparr>balance := balance a - amount\<rparr>) s"
  using assms by (auto simp: deduct_def require_acct not_less split: option.splits if_splits)

lemma deduct_accounts:
  assumes "account_codec_ok E" "accounts_ok E s" "deduct E who amount msg s = Inr s1"
  shows "accounts_ok E s1" "dom (acct E s1) = dom (acct E s)" "who \<in> dom (acct E s1)"
    and "\<not> is_account_key k \<Longrightarrow> sget E s1 k = sget E s k"
proof -
  obtain a where a: "acct E s who = Some a" "s1 = save_account E (a\<lparr>balance := balance a - amount\<rparr>) s"
    by (rule deduct_Inr [OF assms])
  have "acct_id a = who"
    by (rule acct_id_acct [OF assms(2) a(1)])
  then show "accounts_ok E s1" "dom (acct E s1) = dom (acct E s)" "who \<in> dom (acct E s1)"
    "\<not> is_account_key k \<Longrightarrow> sget E s1 k = sget E s k"
    using assms a by (auto simp: ledger_simps)
qed

text \<open>The sum in the reserve check is exact as long as the amount leaves room for the reserve.\<close>

lemma deduct_supply:
  assumes "account_codec_ok E" "accounts_ok E s" "deduct E who amount msg s = Inr s1"
    and "unat amount + 10000 < 2 ^ 128"
  shows "total_supply E s1 + unat amount = total_supply E s"
proof -
  obtain a where a: "acct E s who = Some a" "amount + MIN_FEE_RESERVE \<le> balance a"
    "s1 = save_account E (a\<lparr>balance := balance a - amount\<rparr>) s"
    by (rule deduct_Inr [OF assms(1-3)])
  have who: "acct_id a = who" "balance_of E s who = balance a"
    using acct_id_acct [OF assms(2) a(1)] a(1) by (simp_all add: balance_of_def)
  have "unat (amount + MIN_FEE_RESERVE) = unat amount + 10000"
    using assms(4) by (simp add: MIN_FEE_RESERVE_def unat_add_exact)
  then have "unat amount \<le> unat (balance a)"
    using a(2) by (simp add: word_le_nat_alt)
  then show ?thesis
    using supply_save [OF assms(1), of "a\<lparr>balance := balance a - amount\<rparr>" s] who a(3)
      balance_le_supply [of E s who]
    by (simp add: unat_sub_exact word_le_nat_alt)
qed

lemma credit_missing: "accounts_ok E s \<Longrightarrow> acct E s who = None \<Longrightarrow> credit E who amount s = s"
  by (simp add: credit_def require_acct)

lemma credit_present:
  "accounts_ok E s \<Longrightarrow> acct E s who = Some a \<Longrightarrow>
   credit E who amount s = save_account E (a\<lparr>balance := sat_add (balance a) amount\<rparr>) s"
  by (simp add: credit_def require_acct)

lemma credit_accounts:
  assumes "account_codec_ok E" "accounts_ok E s"
  shows "accounts_ok E (credit E who amount s)" "dom (acct E (credit E who amount s)) = dom (acct E s)"
    and "\<not> is_account_key k \<Longrightarrow> sget E (credit E who amount s) k = sget E s k"
  using assms
  by (cases "acct E s who"; auto simp: credit_missing credit_present ledger_simps
      dest: acct_id_acct split: if_splits)+

lemma supply_add_balance:
  assumes "account_codec_ok E" "balance_of E s (acct_id a) = balance a"
    "total_supply E s + unat amount < 2 ^ 128"
  shows "total_supply E (save_account E (a\<lparr>balance := sat_add (balance a) amount\<rparr>) s) =
           total_supply E s + unat amount"
proof -
  have "unat (balance a) + unat amount < 2 ^ 128"
    using assms(2,3) balance_le_supply [of E s "acct_id a"] by simp
  then show ?thesis
    using supply_save [OF assms(1), of "a\<lparr>balance := sat_add (balance a) amount\<rparr>" s] assms(2)
    by (simp add: unat_sat_add_exact)
qed

lemma credit_supply:
  assumes "account_codec_ok E" "accounts_ok E s" "who \<in> dom (acct E s)"
    "total_supply E s + unat amount < 2 ^ 128"
  shows "total_supply E (credit E who amount s) = total_supply E s + unat amount"
proof -
  obtain a where a: "acct E s who = Some a"
    using assms(3) by auto
  then show ?thesis
    using assms acct_id_acct [OF assms(2) a]
    by (simp add: credit_present supply_add_balance balance_of_def)
qed

lemma credit_or_create_present:
  "accounts_ok E s \<Longrightarrow> credit_or_create E who amount s =
     (let a = case acct E s who of Some a \<Rightarrow> a | None \<Rightarrow> blank_account who
      in save_account E (a\<lparr>balance := sat_add (balance a) amount\<rparr>) s)"
  by (simp add: credit_or_create_def load_acct split: option.split)

lemma credit_or_create_accounts:
  assumes "account_codec_ok E" "accounts_ok E s"
  shows "accounts_ok E (credit_or_create E who amount s)"
    and "dom (acct E (credit_or_create E who amount s)) = insert who (dom (acct E s))"
    and "\<not> is_account_key k \<Longrightarrow> sget E (credit_or_create E who amount s) k = sget E s k"
  using assms
  by (cases "acct E s who"; auto simp: credit_or_create_present Let_def blank_account_def ledger_simps
      dest: acct_id_acct split: if_splits)+

lemma credit_or_create_supply:
  assumes "account_codec_ok E" "accounts_ok E s" "total_supply E s + unat amount < 2 ^ 128"
  shows "total_supply E (credit_or_create E who amount s) = total_supply E s + unat amount"
proof (cases "acct E s who")
  case None
  then show ?thesis
    using assms supply_add_balance [OF assms(1), of s "blank_account who" amount]
    by (simp add: credit_or_create_present Let_def balance_of_def blank_account_def)
next
  case (Some a)
  then show ?thesis
    using assms acct_id_acct [OF assms(2) Some]
    by (simp add: credit_or_create_present Let_def supply_add_balance balance_of_def)
qed

end
