(* ===== verification/Sample_Env.thy ===== *)
theory Sample_Env
  imports Sys_Base
begin

text \<open>
  A concrete environment: an empty base store and, for every stored type, a codec that reads
  back what it writes.  The types of the contracts are countable, so \<open>sample_enc\<close> and
  \<open>sample_dec\<close> serve; the assumptions on codecs made elsewhere are met by \<open>sample_sys\<close>.
\<close>

section \<open>The stored types are countable\<close>

instance delegation_ext :: (countable) countable
  by intro_classes (rule countable_by [of "\<lambda>r. (delegation.delegator r, delegation.del_validator r, 
    delegation.del_amount r, delegation.reward_debt r, 
    delegation.del_eligible_from r, delegation.more r)"], simp)

instance undelegation_ext :: (countable) countable
  by intro_classes (rule countable_by [of "\<lambda>r. (undelegation.und_delegator r, undelegation.und_validator r, 
    undelegation.und_amount r, undelegation.unlock_epoch r, 
    undelegation.more r)"], simp)

instance staking_validator_ext :: (countable) countable
  by intro_classes (rule countable_by [of "\<lambda>r. (staking_validator.sv_id r, staking_validator.self_stake r, 
    staking_validator.total_delegated r, 
    staking_validator.accumulated_reward_per_token r, 
    staking_validator.is_active r, staking_validator.is_genesis r, 
    staking_validator.genesis_lock_until r, 
    staking_validator.commission_rate_bps r, 
    staking_validator.sv_eligible_from r, 
    staking_validator.pending_new_key r, 
    staking_validator.key_rotation_epoch r, staking_validator.more r)"], simp)

instance staking_contract_ext :: (countable) countable
  by intro_classes (rule countable_by [of "\<lambda>r. (staking_contract.validators r, staking_contract.delegations r, 
    staking_contract.undelegations r, 
    staking_contract.min_validator_stake r, 
    staking_contract.unbonding_period r, staking_contract.more r)"], simp)

instance Governance.proposal_action :: countable
  by countable_datatype

instance Governance.proposal_status :: countable
  by countable_datatype

instance gov_vote_ext :: (countable) countable
  by intro_classes (rule countable_by [of "\<lambda>r. (gov_vote.voter r, gov_vote.support r, gov_vote.stake_weight r, 
    gov_vote.more r)"], simp)

instance proposal_ext :: (countable) countable
  by intro_classes (rule countable_by [of "\<lambda>r. (proposal.prop_id r, proposal.proposer r, proposal.prop_action r, 
    proposal.description r, proposal.created_epoch r, 
    proposal.voting_end_epoch r, proposal.execute_after_epoch r, 
    proposal.prop_status r, proposal.votes r, proposal.total_for r, 
    proposal.total_against r, proposal.deposit r, proposal.more r)"], simp)

instance governance_contract_ext :: (countable) countable
  by intro_classes (rule countable_by [of "\<lambda>r. (governance_contract.proposals r, 
    governance_contract.next_proposal_id r, 
    governance_contract.is_paused r, governance_contract.voting_period r, 
    governance_contract.more r)"], simp)

instance Bridge.withdrawal_status :: countable
  by countable_datatype

instance pending_withdrawal_ext :: (countable) countable
  by intro_classes (rule countable_by [of "\<lambda>r. (pending_withdrawal.wd_id r, pending_withdrawal.wd_rollup r, 
    pending_withdrawal.wd_recipient r, pending_withdrawal.wd_amount r, 
    pending_withdrawal.initiated_block r, 
    pending_withdrawal.finalize_after_block r, 
    pending_withdrawal.proof_hash r, pending_withdrawal.wd_status r, 
    pending_withdrawal.disputer r, pending_withdrawal.dispute_bond r, 
    pending_withdrawal.more r)"], simp)

instance bridge_vault_ext :: (countable) countable
  by intro_classes (rule countable_by [of "\<lambda>r. (bridge_vault.vault_rollup r, bridge_vault.vault_balance r, 
    bridge_vault.total_deposited r, bridge_vault.total_withdrawn r, 
    bridge_vault.challenge_window r, bridge_vault.withdrawal_delay r, 
    bridge_vault.more r)"], simp)

instance registered_rollup_ext :: (countable) countable
  by intro_classes (rule countable_by [of "\<lambda>r. (registered_rollup.rollup_id r, registered_rollup.rollup_name r, 
    registered_rollup.proof_type r, registered_rollup.sequencer r, 
    registered_rollup.genesis_state_root r, 
    registered_rollup.registered_at_height r, registered_rollup.more r)"], simp)

instance bridge_contract_ext :: (countable) countable
  by intro_classes (rule countable_by [of "\<lambda>r. (bridge_contract.vaults r, bridge_contract.pending_withdrawals r, 
    bridge_contract.registered_rollups r, 
    bridge_contract.next_withdrawal_id r, bridge_contract.more r)"], simp)

instance Vesting.vesting_type :: countable
  by countable_datatype

instance vesting_schedule_ext :: (countable) countable
  by intro_classes (rule countable_by [of "\<lambda>r. (vesting_schedule.vs_recipient r, vesting_schedule.total_amount r, 
    vesting_schedule.claimed r, vesting_schedule.vs_type r, 
    vesting_schedule.start_epoch r, vesting_schedule.more r)"], simp)

instance vesting_contract_ext :: (countable) countable
  by intro_classes (rule countable_by [of "\<lambda>r. (vesting_contract.schedules r, vesting_contract.admin r, 
    vesting_contract.more r)"], simp)

instance Guardian.recovery_status :: countable
  by countable_datatype

instance recovery_request_ext :: (countable) countable
  by intro_classes (rule countable_by [of "\<lambda>r. (recovery_request.rr_id r, recovery_request.target_account r, 
    recovery_request.new_auth_methods r, recovery_request.initiated_at r, 
    recovery_request.execute_after r, recovery_request.confirmations r, 
    recovery_request.guardian_ids r, recovery_request.rr_threshold r, 
    recovery_request.rr_status r, recovery_request.more r)"], simp)

instance guardian_contract_ext :: (countable) countable
  by intro_classes (rule countable_by [of "\<lambda>r. (guardian_contract.recovery_requests r, guardian_contract.rr_next_id r, 
    guardian_contract.more r)"], simp)

instance grant_ext :: (countable) countable
  by intro_classes (rule countable_by [of "\<lambda>r. (grant.grant_id r, grant.grant_recipient r, grant.grant_amount r, 
    grant.grant_description r, grant.disbursed r, grant.more r)"], simp)

instance treasury_contract_ext :: (countable) countable
  by intro_classes (rule countable_by [of "\<lambda>r. (treasury_contract.treasury_balance r, 
    treasury_contract.total_fees_collected r, 
    treasury_contract.total_burned r, 
    treasury_contract.total_grants_disbursed r, treasury_contract.grants r, 
    treasury_contract.next_grant_id r, treasury_contract.more r)"], simp)

instance json :: countable
  by countable_datatype

section \<open>The environment\<close>

definition sample_json :: "'c::countable json_codec" where
  "sample_json = \<lparr>to_vec = sample_enc, from_slice = (\<lambda>b. Inr (sample_dec b))\<rparr>"

lemma sample_json_ok [simp]: "json_ok sample_json"
  by (simp add: json_ok_def sample_json_def)

definition sample_sys :: sys_env where
  "sample_sys = \<lparr>env_base = mem_new, env_blake3 = sample_hash, enc_account = sample_enc,
     dec_account = (\<lambda>b. Inr (sample_dec b)), enc_keys = sample_enc,
     staking_json = sample_json, governance_json = sample_json, bridge_json = sample_json,
     vesting_json = sample_json, guardian_json = sample_json, treasury_json = sample_json,
     paymasters_json = sample_json, auth_json = sample_json, value_json = sample_json,
     ed25519_verify = (\<lambda>pk msg sig. sig = id_bytes pk @ id_bytes (sample_hash msg)),
     debug_str = (\<lambda>s. CHR 0x22 # s @ [CHR 0x22])\<rparr>"

lemma sample_sys_simps [simp]:
  "account_codec_ok sample_sys" "env_base sample_sys = mem_new" "env_blake3 sample_sys = sample_hash"
  "staking_json sample_sys = sample_json" "governance_json sample_sys = sample_json"
  "bridge_json sample_sys = sample_json" "vesting_json sample_sys = sample_json"
  "guardian_json sample_sys = sample_json" "treasury_json sample_sys = sample_json"
  "paymasters_json sample_sys = sample_json" "auth_json sample_sys = sample_json"
  "value_json sample_sys = sample_json"
  "ed25519_verify sample_sys pk msg sig \<longleftrightarrow> sig = id_bytes pk @ id_bytes (sample_hash msg)"
  by (simp_all add: sample_sys_def account_codec_ok_def)

text \<open>Stores that hold given accounts, with their supply.\<close>

definition with_accounts :: "'a ledger_env_scheme \<Rightarrow> account list \<Rightarrow> overlay_store \<Rightarrow> overlay_store" where
  "with_accounts E as s = fold (save_account E) as s"

definition sample_account :: "account_id \<Rightarrow> u128 \<Rightarrow> account" where
  "sample_account i b = \<lparr>acct_id = i, code_hash = 0, auth_methods = [Ed25519 i], acct_nonce = 0, balance = b\<rparr>"

lemma with_accounts_simps [simp]:
  "with_accounts E [] s = s" "with_accounts E (a # as) s = with_accounts E as (save_account E a s)"
  by (simp_all add: with_accounts_def)

lemma sample_account_simps [simp]:
  "acct_id (sample_account i b) = i" "balance (sample_account i b) = b"
  "code_hash (sample_account i b) = 0" "acct_nonce (sample_account i b) = 0"
  "auth_methods (sample_account i b) = [Ed25519 i]"
  by (simp_all add: sample_account_def)

lemma supply_new_account:
  "account_codec_ok E \<Longrightarrow> acct E s (acct_id a) = None \<Longrightarrow>
   total_supply E (save_account E a s) = total_supply E s + unat (balance a)"
  using supply_save [of E a s] by (simp add: balance_of_def)

lemma sget_empty [simp]: "sget E ov_new k = None" if "env_base E = mem_new"
  using that by (simp add: mem_get_def mem_new_def)

end
