(* ===== verification/Staking_Calls.thy ===== *)
theory Staking_Calls
  imports Sample_Env
begin

text \<open>
  Calls to the staking contract, \<open>execute_staking_call\<close> of
  \<open>crates/solen-execution/src/system_calls.rs\<close>: one definition per method, each working on the
  contract it loads from the store and on the accounts.  Proved here: for arguments that do not
  overflow the reserve check every call keeps the tokens in accounts plus the tokens held by the
  contract; an amount that does overflow it creates tokens.
\<close>

section \<open>Methods\<close>

definition staking_event :: "string \<Rightarrow> bytes \<Rightarrow> event" where
  "staking_event t d = \<lparr>emitter = STAKING_ADDRESS, topic = ascii t, ev_data = d\<rparr>"

definition call_register ::
    "'a sys_env_scheme \<Rightarrow> account_id \<Rightarrow> bytes \<Rightarrow> overlay_store \<Rightarrow> staking_contract flow" where
  "call_register E caller args s =
     (case read_u128 args 0 of
        None \<Rightarrow> Return (Msg ''invalid args: need amount[16]'') s
      | Some amount \<Rightarrow>
          let min_stake = (case read_config_u128 E s (ascii ''__config_min_validator_stake__'') of
                             None \<Rightarrow> MIN_VALIDATOR_STAKE | Some m \<Rightarrow> m)
          in if amount < min_stake
               then Return (Msg (''insufficient stake: need '' @ dec_string (unat min_stake) @
                                 '' but got '' @ dec_string (unat amount))) s
             else case deduct E caller amount
                    ''insufficient balance for registration (need fee reserve)'' s of
               Inl e \<Rightarrow> Return e s
             | Inr s1 \<Rightarrow>
                 let st = staking_load E s1
                 in (case register_validator_at_epoch_with_config st caller amount
                        (read_current_epoch E s1) min_stake of
                       Inr st' \<Rightarrow> Next None
                         [staking_event ''validator_registered'' (id_bytes caller @ le_bytes 16 amount)]
                         st' s1
                     | Inl e \<Rightarrow> Next (Some (StakingErr e)) [] st (credit E caller amount s1)))"

definition call_delegate ::
    "'a sys_env_scheme \<Rightarrow> account_id \<Rightarrow> bytes \<Rightarrow> overlay_store \<Rightarrow> staking_contract flow" where
  "call_delegate E caller args s =
     (case read_account_id args 0 of
        None \<Rightarrow> Return (Msg ''invalid args: need validator[32] + amount[16]'') s
      | Some validator \<Rightarrow>
     (case read_u128 args 32 of
        None \<Rightarrow> Return (Msg ''invalid args: need amount[16]'') s
      | Some amount \<Rightarrow>
     (case deduct E caller amount ''insufficient balance for delegation (need fee reserve)'' s of
        Inl e \<Rightarrow> Return e s
      | Inr s1 \<Rightarrow>
          let st = staking_load E s1
          in (case delegate_at_epoch st caller validator amount (read_current_epoch E s1) of
                Inr st' \<Rightarrow> Next None
                  [staking_event ''delegate'' (id_bytes validator @ le_bytes 16 amount)] st' s1
              | Inl e \<Rightarrow> Next (Some (StakingErr e)) [] st (credit E caller amount s1)))))"

text \<open>
  Matured undelegations are paid out at the start of \<open>undelegate\<close> and by \<open>withdraw\<close>: the
  contract is saved first, then the account is credited, then the contract is read again.
\<close>

definition pay_matured ::
    "'a sys_env_scheme \<Rightarrow> account_id \<Rightarrow> u64 \<Rightarrow> staking_contract \<Rightarrow> overlay_store
     \<Rightarrow> event list \<times> staking_contract \<times> overlay_store" where
  "pay_matured E caller current_epoch st s =
     (let (withdrawn, st1) = withdraw_undelegated st caller current_epoch
      in if 0 < withdrawn
         then let s1 = credit E caller withdrawn (staking_save E st1 s)
              in ([staking_event ''withdraw'' (le_bytes 16 withdrawn)], staking_load E s1, s1)
         else ([], st1, s))"

definition call_undelegate ::
    "'a sys_env_scheme \<Rightarrow> account_id \<Rightarrow> bytes \<Rightarrow> staking_contract \<Rightarrow> overlay_store
     \<Rightarrow> staking_contract flow" where
  "call_undelegate E caller args st s =
     (case read_account_id args 0 of
        None \<Rightarrow> Return (Msg ''invalid args'') s
      | Some validator \<Rightarrow>
     (case read_u128 args 32 of
        None \<Rightarrow> Return (Msg ''invalid args'') s
      | Some amount \<Rightarrow>
          let current_epoch = read_current_epoch E s;
              (evs, st1, s1) = pay_matured E caller current_epoch st s
          in (case undelegate st1 caller validator amount current_epoch of
                Inr st2 \<Rightarrow> Next None
                  (evs @ [staking_event ''undelegate'' (id_bytes validator @ le_bytes 16 amount)]) st2 s1
              | Inl e \<Rightarrow> Next (Some (StakingErr e)) evs st1 s1)))"

definition call_withdraw ::
    "'a sys_env_scheme \<Rightarrow> account_id \<Rightarrow> staking_contract \<Rightarrow> overlay_store \<Rightarrow> staking_contract flow" where
  "call_withdraw E caller st s =
     (let (evs, st1, s1) = pay_matured E caller (read_current_epoch E s) st s
      in Next None evs st1 s1)"

definition MAX_SLASH_BPS :: u64 where "MAX_SLASH_BPS = 1000"

definition slash_evidence :: "'a ledger_env_scheme \<Rightarrow> overlay_store \<Rightarrow> account_id \<Rightarrow> bool" where
  "slash_evidence E s offender \<longleftrightarrow>
     ov_scan_prefix (env_base E) s (ascii (''slash/'' @ hex_encode (id_bytes offender))) \<noteq> [] \<or>
     sget E s (ascii (''downtime/'' @ hex_encode (id_bytes offender))) \<noteq> None"

definition penalty :: "u64 \<Rightarrow> u128 \<Rightarrow> u128" where
  "penalty bps amount = sat_mul amount (ucast bps) div 10000"

definition slash_self :: "u64 \<Rightarrow> u64 \<Rightarrow> staking_validator \<Rightarrow> staking_validator" where
  "slash_self bps current_epoch v =
     v\<lparr>self_stake := sat_sub (self_stake v) (penalty bps (self_stake v)), is_active := False,
       sv_eligible_from := current_epoch + 1\<rparr>"

definition slash_delegation :: "account_id \<Rightarrow> u64 \<Rightarrow> delegation \<Rightarrow> delegation" where
  "slash_delegation offender bps d =
     (if del_validator d = offender
      then d\<lparr>del_amount := sat_sub (del_amount d) (penalty bps (del_amount d))\<rparr> else d)"

definition apply_slash ::
    "account_id \<Rightarrow> u64 \<Rightarrow> u64 \<Rightarrow> staking_contract \<Rightarrow> u128 \<times> staking_contract" where
  "apply_slash offender bps current_epoch st =
     (let self_penalty = (case find (\<lambda>v. sv_id v = offender) (validators st) of
                            None \<Rightarrow> 0 | Some v \<Rightarrow> penalty bps (self_stake v));
          st1 = upd_validator offender (slash_self bps current_epoch) st;
          delegated_penalty = foldl (\<lambda>t d. sat_add t (penalty bps (del_amount d))) 0
                                (filter (\<lambda>d. del_validator d = offender) (delegations st));
          st2 = st1\<lparr>delegations := map (slash_delegation offender bps) (delegations st)\<rparr>
      in if 0 < delegated_penalty
         then (sat_add self_penalty delegated_penalty,
               upd_validator offender (sub_delegated delegated_penalty) st2)
         else (self_penalty, st2))"

definition call_slash ::
    "'a sys_env_scheme \<Rightarrow> bytes \<Rightarrow> staking_contract \<Rightarrow> overlay_store \<Rightarrow> staking_contract flow" where
  "call_slash E args st s =
     (case read_account_id args 0 of
        None \<Rightarrow> Return (Msg ''invalid args: need offender[32] + penalty_bps[8]'') s
      | Some offender \<Rightarrow>
          let bps = (case read_u64 args 32 of None \<Rightarrow> 100 | Some b \<Rightarrow> b)
          in if MAX_SLASH_BPS < bps
               then Return (Msg ''slash penalty exceeds maximum (10%)'') s
             else if \<not> slash_evidence E s offender
               then Return (Msg ''no slashing evidence found for validator'') s
             else (case find (\<lambda>v. sv_id v = offender) (validators st) of
               None \<Rightarrow> Return (Msg ''validator not found'') s
             | Some v \<Rightarrow>
                 if \<not> is_active v then Return (Msg ''validator already inactive'') s
                 else let (total_penalty, st1) = apply_slash offender bps (read_current_epoch E s) st;
                          evs = [staking_event ''slashed'' (id_bytes offender @ le_bytes 16 total_penalty)]
                 in if 0 < total_penalty
                    then let s1 = credit E TREASURY_ADDRESS total_penalty (staking_save E st1 s)
                         in Next None evs (staking_load E s1) s1
                    else Next None evs st1 s))"

definition call_unjail ::
    "'a sys_env_scheme \<Rightarrow> account_id \<Rightarrow> staking_contract \<Rightarrow> overlay_store \<Rightarrow> staking_contract flow" where
  "call_unjail E caller st s =
     (let current_epoch = read_current_epoch E s;
          go = (case unjail st caller of
                  Inr st' \<Rightarrow> Next None [staking_event ''unjailed'' (id_bytes caller)] st' s
                | Inl e \<Rightarrow> Next (Some (StakingErr e)) [] st s)
      in case find (\<lambda>v. sv_id v = caller) (validators st) of
           None \<Rightarrow> go
         | Some v \<Rightarrow>
             if \<not> is_active v \<and> current_epoch < sv_eligible_from v
             then Return (Msg (''unjail cooldown: wait until epoch '' @
                    dec_string (unat (sv_eligible_from v)) @ '' (current: '' @
                    dec_string (unat current_epoch) @ '')'')) s
             else go)"

definition call_rotate_key ::
    "'a sys_env_scheme \<Rightarrow> account_id \<Rightarrow> bytes \<Rightarrow> staking_contract \<Rightarrow> overlay_store
     \<Rightarrow> staking_contract flow" where
  "call_rotate_key E caller args st s =
     (case read_account_id args 0 of
        None \<Rightarrow> Return (Msg ''invalid args: need new_key[32]'') s
      | Some new_key \<Rightarrow>
          (case rotate_key st caller new_key (read_current_epoch E s) of
             Inr st' \<Rightarrow> Next None
               [staking_event ''key_rotation_requested'' (id_bytes caller @ id_bytes new_key)] st' s
           | Inl e \<Rightarrow> Next (Some (StakingErr e)) [] st s))"

definition staking_flow ::
    "'a sys_env_scheme \<Rightarrow> account_id \<Rightarrow> string \<Rightarrow> bytes \<Rightarrow> overlay_store \<Rightarrow> staking_contract flow" where
  "staking_flow E caller meth args s =
     (let st = staking_load E s in
      if meth = ''register'' then call_register E caller args s
      else if meth = ''delegate'' then call_delegate E caller args s
      else if meth = ''undelegate'' then call_undelegate E caller args st s
      else if meth = ''withdraw'' then call_withdraw E caller st s
      else if meth = ''slash'' then call_slash E args st s
      else if meth = ''unjail'' then call_unjail E caller st s
      else if meth = ''rotate_key'' then call_rotate_key E caller args st s
      else Next (Some (Msg (''unknown staking method: '' @ meth))) [] st s)"

definition execute_staking_call ::
    "'a sys_env_scheme \<Rightarrow> account_id \<Rightarrow> string \<Rightarrow> bytes \<Rightarrow> overlay_store
     \<Rightarrow> system_call_result \<times> overlay_store" where
  "execute_staking_call E caller meth args s =
     finish (staking_save E) (staking_flow E caller meth args s)"

section \<open>Conservation\<close>

definition staked_value :: "'a sys_env_scheme \<Rightarrow> overlay_store \<Rightarrow> nat" where
  "staked_value E s = total_supply E s + held (staking_load E s)"

text \<open>The amount argument leaves room for the fee reserve.\<close>

definition amount_fits :: "string \<Rightarrow> bytes \<Rightarrow> bool" where
  "amount_fits meth args \<longleftrightarrow>
     (case read_u128 args (if meth = ''register'' then 0 else 32) of
        Some amount \<Rightarrow> unat amount + 10000 < 2 ^ 128
      | None \<Rightarrow> True)"

text \<open>
  The situation in which a call runs: the codecs are faithful, the accounts are well formed and
  include the caller and the treasury, and all tokens together fit a balance.
\<close>

definition staking_ready :: "'a sys_env_scheme \<Rightarrow> account_id \<Rightarrow> overlay_store \<Rightarrow> bool" where
  "staking_ready E caller s \<longleftrightarrow>
     account_codec_ok E \<and> json_ok (staking_json E) \<and> accounts_ok E s \<and>
     caller \<in> dom (acct E s) \<and> TREASURY_ADDRESS \<in> dom (acct E s) \<and> staked_value E s < 2 ^ 128"

definition flow_value :: "'a sys_env_scheme \<Rightarrow> nat \<Rightarrow> staking_contract flow \<Rightarrow> bool" where
  "flow_value E V f \<longleftrightarrow>
     (case f of
        Return e s \<Rightarrow> accounts_ok E s \<and> staked_value E s = V
      | Next r evs st s \<Rightarrow> accounts_ok E s \<and> total_supply E s + held st = V)"

lemma staking_load_cong:
  "sget E s1 (ascii ''__staking_state__'') = sget E s (ascii ''__staking_state__'') \<Longrightarrow>
   staking_load E s1 = staking_load E s"
  by (simp add: staking_load_def json_load_def)

lemma staking_load_deduct:
  "account_codec_ok E \<Longrightarrow> accounts_ok E s \<Longrightarrow> deduct E who amount msg s = Inr s1 \<Longrightarrow>
   staking_load E s1 = staking_load E s"
  by (rule staking_load_cong) (simp add: deduct_accounts(4) ledger_simps)

lemma staking_save_simps [ledger_simps]:
  "json_ok (staking_json E) \<Longrightarrow> staking_load E (staking_save E st s) = st"
  "acct E (staking_save E' st s) = acct E s"
  "accounts_ok E (staking_save E' st s) = accounts_ok E s"
  "total_supply E (staking_save E' st s) = total_supply E s"
  by (simp_all add: staking_load_def staking_save_def ledger_simps)

lemma staking_load_save_account [ledger_simps]:
  "staking_load E (save_account E' a s) = staking_load E s"
  by (simp add: staking_load_def ledger_simps)

lemma staking_load_credit [ledger_simps]:
  "account_codec_ok E \<Longrightarrow> accounts_ok E s \<Longrightarrow>
   staking_load E (credit E who amount s) = staking_load E s"
  by (rule staking_load_cong) (simp add: credit_accounts(3) ledger_simps)

lemma flow_value_finish:
  assumes "json_ok (staking_json E)" "flow_value E V f" "finish (staking_save E) f = (r, s')"
  shows "accounts_ok E s' \<and> staked_value E s' = V"
  using assms by (auto simp: flow_value_def finish_def staked_value_def ledger_simps split: flow.splits)

text \<open>Paying an amount into the contract: either it is held there, or it comes back.\<close>

lemma pay_in_value:
  assumes ready: "staking_ready E caller s" and d: "deduct E caller amount msg s = Inr s1"
    and fits: "unat amount + 10000 < 2 ^ 128"
  shows "staking_load E s1 = staking_load E s" "accounts_ok E s1"
    and "total_supply E s1 + (held (staking_load E s) + unat amount) = staked_value E s"
    and "total_supply E (credit E caller amount s1) + held (staking_load E s) = staked_value E s"
    and "accounts_ok E (credit E caller amount s1)"
proof -
  have ok: "account_codec_ok E" "accounts_ok E s"
    using ready by (simp_all add: staking_ready_def)
  show "staking_load E s1 = staking_load E s"
    using ok d by (rule staking_load_deduct)
  show acc: "accounts_ok E s1"
    using ok d by (rule deduct_accounts)
  have sup: "total_supply E s1 + unat amount = total_supply E s"
    using ok d fits by (rule deduct_supply)
  then show "total_supply E s1 + (held (staking_load E s) + unat amount) = staked_value E s"
    by (simp add: staked_value_def)
  have "total_supply E (credit E caller amount s1) = total_supply E s1 + unat amount"
    using ok acc deduct_accounts(3) [OF ok d] ready sup
    by (intro credit_supply) (auto simp: staking_ready_def staked_value_def)
  then show "total_supply E (credit E caller amount s1) + held (staking_load E s) = staked_value E s"
    using sup by (simp add: staked_value_def)
  show "accounts_ok E (credit E caller amount s1)"
    using ok acc by (simp add: credit_accounts)
qed

lemma flow_pay_in:
  assumes ready: "staking_ready E caller s" and fits: "unat amount + 10000 < 2 ^ 128"
    and op: "\<And>s1 st'. held (staking_load E s) + unat amount < 2 ^ 128 \<Longrightarrow>
      op (staking_load E s) s1 = Inr st' \<Longrightarrow> held st' = held (staking_load E s) + unat amount"
  shows "flow_value E (staked_value E s)
    (case deduct E caller amount msg s of
       Inl e \<Rightarrow> Return e s
     | Inr s1 \<Rightarrow>
         (case op (staking_load E s1) s1 of
            Inr st' \<Rightarrow> Next None evs st' s1
          | Inl e \<Rightarrow> Next (Some (StakingErr e)) [] (staking_load E s1) (credit E caller amount s1)))"
proof (cases "deduct E caller amount msg s")
  case (Inl e)
  then show ?thesis
    using ready by (simp add: flow_value_def staking_ready_def)
next
  case (Inr s1)
  note p = pay_in_value [OF ready Inr fits]
  have bound: "held (staking_load E s) + unat amount < 2 ^ 128"
    using p(3) ready by (simp add: staking_ready_def)
  show ?thesis
  proof (cases "op (staking_load E s) s1")
    case (Inr st')
    then show ?thesis
      using p op [OF bound Inr] by (simp add: \<open>deduct E caller amount msg s = Inr s1\<close> flow_value_def)
  qed (use p in \<open>simp add: Inr flow_value_def\<close>)
qed

lemma flow_value_Return:
  "staking_ready E caller s \<Longrightarrow> flow_value E (staked_value E s) (Return e s)"
  by (simp add: flow_value_def staking_ready_def)

lemma value_register:
  assumes "staking_ready E caller s" "amount_fits ''register'' args"
  shows "flow_value E (staked_value E s) (call_register E caller args s)"
proof (cases "read_u128 args 0")
  case (Some amount)
  then have fits: "unat amount + 10000 < 2 ^ 128"
    using assms(2) by (simp add: amount_fits_def)
  define m where "m = (case read_config_u128 E s (ascii ''__config_min_validator_stake__'') of
    None \<Rightarrow> MIN_VALIDATOR_STAKE | Some m \<Rightarrow> m)"
  show ?thesis
  proof (cases "amount < m")
    case True
    then show ?thesis
      by (simp add: call_register_def Some m_def [symmetric] flow_value_Return [OF assms(1)])
  next
    case False
    show ?thesis
      unfolding call_register_def Some option.case Let_def m_def [symmetric] if_not_P [OF False]
      by (rule flow_pay_in [OF assms(1) fits, where op = "\<lambda>st s1.
        register_validator_at_epoch_with_config st caller amount (read_current_epoch E s1) m"])
        (rule held_register(2))
  qed
qed (simp add: call_register_def flow_value_Return [OF assms(1)])

lemma value_delegate:
  assumes "staking_ready E caller s" "amount_fits ''delegate'' args"
  shows "flow_value E (staked_value E s) (call_delegate E caller args s)"
proof (cases "read_account_id args 0"; cases "read_u128 args 32")
  fix validator amount
  assume a: "read_account_id args 0 = Some validator" "read_u128 args 32 = Some amount"
  then have fits: "unat amount + 10000 < 2 ^ 128"
    using assms(2) by (simp add: amount_fits_def)
  show ?thesis
    unfolding call_delegate_def a option.case Let_def
    by (rule flow_pay_in [OF assms(1) fits, where op = "\<lambda>st s1.
      delegate_at_epoch st caller validator amount (read_current_epoch E s1)"])
      (rule held_delegate)
qed (simp_all add: call_delegate_def flow_value_Return [OF assms(1)])

lemma value_pay_matured:
  assumes ready: "staking_ready E caller s"
    and p: "pay_matured E caller e (staking_load E s) s = (evs, st1, s1)"
  shows "accounts_ok E s1" "total_supply E s1 + held st1 = staked_value E s"
proof -
  obtain w st where w: "withdraw_undelegated (staking_load E s) caller e = (w, st)"
    by fastforce
  have ok: "account_codec_ok E" "json_ok (staking_json E)" "accounts_ok E s"
    "caller \<in> dom (acct E s)" "staked_value E s < 2 ^ 128"
    using ready by (simp_all add: staking_ready_def)
  then have held: "held st + unat w = held (staking_load E s)"
    using held_withdraw [OF w] by (simp add: staked_value_def)
  show "accounts_ok E s1" "total_supply E s1 + held st1 = staked_value E s"
  proof (atomize (full), cases "0 < w")
    case True
    define s0 where "s0 = staking_save E st s"
    have s0: "accounts_ok E s0" "caller \<in> dom (acct E s0)" "total_supply E s0 = total_supply E s"
      "staking_load E s0 = st"
      using ok by (simp_all add: s0_def ledger_simps)
    have "total_supply E (credit E caller w s0) = total_supply E s + unat w"
      using ok s0 held credit_supply [OF ok(1) s0(1,2), of w] by (simp add: staked_value_def)
    moreover have "s1 = credit E caller w s0" "st1 = st"
      using p w True ok s0(1,4) by (auto simp: pay_matured_def s0_def Let_def ledger_simps)
    ultimately show "accounts_ok E s1 \<and> total_supply E s1 + held st1 = staked_value E s"
      using ok(1) s0(1) held by (simp add: credit_accounts staked_value_def)
  next
    case False
    then show "accounts_ok E s1 \<and> total_supply E s1 + held st1 = staked_value E s"
      using p w ok held by (auto simp: pay_matured_def staked_value_def word_gt_0)
  qed
qed

lemma value_undelegate:
  assumes "staking_ready E caller s"
  shows "flow_value E (staked_value E s) (call_undelegate E caller args (staking_load E s) s)"
proof -
  obtain evs st1 s1 where p:
    "pay_matured E caller (read_current_epoch E s) (staking_load E s) s = (evs, st1, s1)"
    by (rule prod_cases3)
  show ?thesis
    using value_pay_matured [OF assms p] p flow_value_Return [OF assms]
    by (auto simp: call_undelegate_def flow_value_def held_undelegate split: option.splits sum.splits)
qed

lemma value_withdraw:
  assumes "staking_ready E caller s"
  shows "flow_value E (staked_value E s) (call_withdraw E caller (staking_load E s) s)"
proof -
  obtain evs st1 s1 where p:
    "pay_matured E caller (read_current_epoch E s) (staking_load E s) s = (evs, st1, s1)"
    by (rule prod_cases3)
  show ?thesis
    using value_pay_matured [OF assms p] p by (simp add: call_withdraw_def flow_value_def)
qed

lemma penalty_le: "bps \<le> MAX_SLASH_BPS \<Longrightarrow> unat (penalty bps amount) \<le> unat amount"
proof -
  assume "bps \<le> MAX_SLASH_BPS"
  then have "unat bps \<le> 10000"
    by (simp add: MAX_SLASH_BPS_def word_le_nat_alt)
  then have "unat amount * unat bps \<le> unat amount * 10000"
    by (rule mult_le_mono2)
  then have "min (unat amount * unat bps) (2 ^ 128 - 1) div 10000 \<le> unat amount * 10000 div 10000"
    by (intro div_le_mono min.coboundedI1)
  then show ?thesis
    by (simp add: penalty_def unat_simps)
qed

lemma foldl_sat_add:
  "unat a + sum_list (map (unat \<circ> f) xs) < 2 ^ 128 \<Longrightarrow>
   unat (foldl (\<lambda>t x. sat_add t (f x)) a xs) = unat a + sum_list (map (unat \<circ> f) xs)"
  for a :: u128
  by (induction xs arbitrary: a) (simp_all add: unat_sat_add_exact)

lemma del_sum_slash:
  assumes "bps \<le> MAX_SLASH_BPS"
  shows "del_sum (map (slash_delegation i bps) ds) +
    sum_list (map (unat \<circ> (penalty bps \<circ> del_amount)) (filter (\<lambda>d. del_validator d = i) ds)) = del_sum ds"
proof (induction ds)
  case (Cons d ds)
  then show ?case
    using penalty_le [OF assms, of "del_amount d"] by (auto simp: slash_delegation_def unat_simps)
qed simp

lemma held_slash:
  assumes "apply_slash i bps e st = (p, st')" "find (\<lambda>v. sv_id v = i) (validators st) = Some v"
    and "bps \<le> MAX_SLASH_BPS" "held st < 2 ^ 128"
  shows "held st' + unat p = held st"
proof -
  let ?pen = "penalty bps (self_stake v)"
  let ?ds = "filter (\<lambda>d. del_validator d = i) (delegations st)"
  define dp where "dp = foldl (\<lambda>t d. sat_add t (penalty bps (del_amount d))) 0 ?ds"
  define st2 where "st2 = (upd_validator i (slash_self bps e) st)
    \<lparr>delegations := map (slash_delegation i bps) (delegations st)\<rparr>"
  note ds = del_sum_slash [OF assms(3), of i "delegations st"]
  have "unat dp = sum_list (map (unat \<circ> (penalty bps \<circ> del_amount)) ?ds)"
    using foldl_sat_add [of 0 "penalty bps \<circ> del_amount" ?ds] ds assms(4)
    by (simp add: dp_def held_def)
  with ds have dp: "del_sum (delegations st2) + unat dp = del_sum (delegations st)"
    by (simp add: st2_def)
  have self: "sum_list (map (unat \<circ> self_stake) (validators st2)) + unat ?pen =
      sum_list (map (unat \<circ> self_stake) (validators st))"
    using sum_list_update_first [OF assms(2), of "unat \<circ> self_stake" "slash_self bps e"]
      penalty_le [OF assms(3), of "self_stake v"]
    by (simp add: st2_def upd_validator_def slash_self_def unat_simps)
  have *: "held st2 + unat ?pen + unat dp = held st"
    using dp self by (simp add: held_def st2_def)
  have "st' = (if 0 < dp then upd_validator i (sub_delegated dp) st2 else st2)"
    "p = (if 0 < dp then sat_add ?pen dp else ?pen)"
    using assms(1,2) by (auto simp: apply_slash_def Let_def dp_def st2_def split: if_splits)
  then show ?thesis
    using * assms(4) by (auto simp: held_upd_validator unat_sat_add_exact word_gt_0)
qed

lemma value_slash:
  assumes ready: "staking_ready E caller s"
  shows "flow_value E (staked_value E s) (call_slash E args (staking_load E s) s)"
proof -
  have ok: "account_codec_ok E" "json_ok (staking_json E)" "accounts_ok E s"
    "TREASURY_ADDRESS \<in> dom (acct E s)" "staked_value E s < 2 ^ 128"
    using ready by (simp_all add: staking_ready_def)
  have held: "held (staking_load E s) < 2 ^ 128"
    using ok(5) by (simp add: staked_value_def)
  have paid: "flow_value E (staked_value E s) (Next None evs (staking_load E s1) s1)"
    if "held st1 + unat p = held (staking_load E s)"
      "s1 = credit E TREASURY_ADDRESS p (staking_save E st1 s)" for p st1 evs s1
  proof -
    have s0: "accounts_ok E (staking_save E st1 s)" "TREASURY_ADDRESS \<in> dom (acct E (staking_save E st1 s))"
      using ok by (simp_all add: ledger_simps)
    have "total_supply E s1 = total_supply E s + unat p"
      using that ok credit_supply [OF ok(1) s0, of p] by (simp add: staked_value_def ledger_simps)
    then show ?thesis
      using that ok s0 by (simp add: flow_value_def staked_value_def ledger_simps credit_accounts)
  qed
  have unpaid: "flow_value E (staked_value E s) (Next None evs st1 s)"
    if "held st1 + unat (0 :: u128) = held (staking_load E s)" for st1 evs
    using that ok by (simp add: flow_value_def staked_value_def)
  show ?thesis
    using flow_value_Return [OF ready]
    by (auto simp: call_slash_def Let_def not_less word_gt_0 split: option.splits prod.splits
        intro!: paid [OF _ refl] unpaid held_slash [OF _ _ _ held])
qed

lemma value_unjail:
  assumes "staking_ready E caller s"
  shows "flow_value E (staked_value E s) (call_unjail E caller (staking_load E s) s)"
proof -
  have "held st' = held st" if "unjail st caller = Inr st'" for st st'
    using that by (auto simp: unjail_def held_upd_validator Let_def split: option.splits if_splits)
  moreover have "accounts_ok E s"
    using assms by (simp add: staking_ready_def)
  ultimately show ?thesis
    using flow_value_Return [OF assms]
    by (auto simp: call_unjail_def Let_def flow_value_def staked_value_def split: option.splits sum.splits)
qed

lemma value_rotate_key:
  assumes "staking_ready E caller s"
  shows "flow_value E (staked_value E s) (call_rotate_key E caller args (staking_load E s) s)"
proof -
  have "held st' = held st" if "rotate_key st caller k e = Inr st'" for st st' k e
    using that by (auto simp: rotate_key_def held_upd_validator split: option.splits if_splits)
  moreover have "accounts_ok E s"
    using assms by (simp add: staking_ready_def)
  ultimately show ?thesis
    using flow_value_Return [OF assms]
    by (auto simp: call_rotate_key_def flow_value_def staked_value_def split: option.splits sum.splits)
qed

lemma flow_value_if:
  "(c \<Longrightarrow> flow_value E V f) \<Longrightarrow> (\<not> c \<Longrightarrow> flow_value E V g) \<Longrightarrow> flow_value E V (if c then f else g)"
  by simp

lemma value_flow:
  assumes "staking_ready E caller s" "amount_fits meth args"
  shows "flow_value E (staked_value E s) (staking_flow E caller meth args s)"
proof -
  have "flow_value E (staked_value E s) (Next r evs (staking_load E s) s)" for r evs
    using assms(1) by (simp add: flow_value_def staked_value_def staking_ready_def)
  then show ?thesis
    unfolding staking_flow_def Let_def
    by (intro flow_value_if value_register value_delegate value_undelegate value_withdraw value_slash
        value_unjail value_rotate_key assms) (use assms in simp_all)
qed

text \<open>C19: every staking call, whatever its method, arguments and outcome, keeps the number of
  tokens: what the accounts hold together plus what the stored staking contract holds (stakes,
  delegations and unbonding tokens) is the same before and after, refunds, automatic
  withdrawals and slashing into the treasury included.  The accounts stay well formed.\<close>

theorem staking_calls_conserve_tokens:
  assumes "staking_ready E caller s" "amount_fits meth args"
    and "execute_staking_call E caller meth args s = (r, s')"
  shows "staked_value E s' = staked_value E s \<and> accounts_ok E s'"
  using flow_value_finish [OF _ value_flow [OF assms(1,2)]] assms
  by (auto simp: execute_staking_call_def staking_ready_def)

definition sample_staking :: staking_contract where
  "sample_staking = new_staking\<lparr>validators := [fresh_validator 9 100 False 0 0]\<rparr>"

definition sample_staking_store :: overlay_store where
  "sample_staking_store = staking_save sample_sys sample_staking
     (with_accounts sample_sys [sample_account 5 1000000, sample_account TREASURY_ADDRESS 0] ov_new)"

lemma treasury_not_5 [simp]: "TREASURY_ADDRESS \<noteq> 5" "5 \<noteq> TREASURY_ADDRESS"
  by (simp_all add: TREASURY_ADDRESS_def not_sym [OF addr_not_small(5)])

lemma sample_staking_store:
  "acct sample_sys sample_staking_store =
     [5 \<mapsto> sample_account 5 1000000, TREASURY_ADDRESS \<mapsto> sample_account TREASURY_ADDRESS 0]"
  "accounts_ok sample_sys sample_staking_store"
  "staking_load sample_sys sample_staking_store = sample_staking"
  "staked_value sample_sys sample_staking_store = 1000100"
  by (simp_all add: sample_staking_store_def ledger_simps acct_empty accounts_ok_empty staked_value_def
      supply_new_account supply_empty held_def sample_staking_def new_staking_def fresh_validator_def)

theorem staking_calls_conserve_tokens_witness:
  "\<exists>r s'. execute_staking_call sample_sys 5 ''delegate'' (id_bytes 9 @ le_bytes 16 (500 :: u128))
       sample_staking_store = (r, s') \<and> sc_error r = None \<and>
     held (staking_load sample_sys s') = 600 \<and> staked_value sample_sys s' = 1000100"
proof -
  let ?args = "id_bytes 9 @ le_bytes 16 (500 :: u128)"
  have ready: "staking_ready sample_sys 5 sample_staking_store" "amount_fits ''delegate'' ?args"
    by (simp_all add: staking_ready_def sample_staking_store amount_fits_def)
  obtain r s' where c: "execute_staking_call sample_sys 5 ''delegate'' ?args sample_staking_store = (r, s')"
    by fastforce
  have "sc_error r = None \<and> held (staking_load sample_sys s') = 600"
    using c
    by (auto simp: execute_staking_call_def staking_flow_def call_delegate_def Let_def deduct_def
        require_acct sample_staking_store MIN_FEE_RESERVE_def finish_def ledger_simps
        sample_staking_def fresh_validator_def delegate_at_epoch_def new_staking_def
        upd_validator_def add_delegated_def put_delegation_def held_def)
  then show ?thesis
    using c staking_calls_conserve_tokens [OF ready c] by (auto simp: sample_staking_store)
qed

section \<open>The overflow of the reserve check\<close>

text \<open>C20: an amount close to the largest 128-bit value wraps the reserve check around.  The check
  then passes for an account that does not have the amount: the call succeeds, the debit wraps
  as well, so the account ends up with more than it had, and the contract records the
  full amount as a delegation of the caller.\<close>

theorem delegate_overflow_creates_tokens:
  assumes "account_codec_ok E" "json_ok (staking_json E)" "accounts_ok E s"
    and "acct E s caller = Some a" "unat (balance a) < unat amount"
    and "2 ^ 128 \<le> unat amount + 10000" "unat amount + 10000 - 2 ^ 128 \<le> unat (balance a)"
    and "get_validator (staking_load E s) v \<noteq> None"
    and "find (delegates caller v) (delegations (staking_load E s)) = None"
    and "execute_staking_call E caller ''delegate'' (id_bytes v @ le_bytes 16 amount) s = (r, s')"
  shows "sc_error r = None \<and>
    unat (balance_of E s' caller) = unat (balance a) + (2 ^ 128 - unat amount) \<and>
    map_option del_amount (find (delegates caller v) (delegations (staking_load E s'))) = Some amount"
proof -
  have "unat (amount + MIN_FEE_RESERVE) = unat amount + 10000 - 2 ^ 128"
    using assms(6) unat_lt [of amount] by (simp add: MIN_FEE_RESERVE_def unat_word_ariths mod_if)
  then have "\<not> balance a < amount + MIN_FEE_RESERVE"
    using assms(7) by (simp add: word_less_nat_alt)
  then have d: "deduct E caller amount m s = Inr (save_account E (a\<lparr>balance := balance a - amount\<rparr>) s)" for m
    using assms(3,4) by (simp add: deduct_def require_acct)
  have bal: "unat (balance a - amount) = unat (balance a) + (2 ^ 128 - unat amount)"
    using assms(5) unat_lt [of amount] by (simp add: unat_word_ariths unat_sub_if' word_le_nat_alt)
  have who: "acct_id a = caller"
    using assms(3,4) by (rule acct_id_acct)
  obtain vv where vv: "find (\<lambda>x. sv_id x = v) (validators (staking_load E s)) = Some vv"
    using assms(8) by (auto simp: get_validator_def)
  show ?thesis
    using assms(1,2,9,10) d vv who bal
    by (auto simp: execute_staking_call_def staking_flow_def call_delegate_def Let_def finish_def
        delegate_at_epoch_def put_delegation_def ledger_simps balance_of_def find_snoc delegates_def)
qed

theorem delegate_overflow_creates_tokens_witness:
  "\<exists>r s'. execute_staking_call sample_sys 5 ''delegate'' (id_bytes 9 @ le_bytes 16 (- 10000 :: u128))
       sample_staking_store = (r, s') \<and> sc_error r = None \<and>
     unat (balance_of sample_sys s' 5) = 1010000"
proof -
  obtain r s' where c: "execute_staking_call sample_sys 5 ''delegate''
      (id_bytes 9 @ le_bytes 16 (- 10000 :: u128)) sample_staking_store = (r, s')"
    by fastforce
  have "sc_error r = None \<and> unat (balance_of sample_sys s' 5) =
      unat (balance (sample_account 5 1000000)) + (2 ^ 128 - unat (- 10000 :: u128)) \<and>
    map_option del_amount (find (delegates 5 9) (delegations (staking_load sample_sys s'))) = Some (- 10000)"
    by (rule delegate_overflow_creates_tokens [OF _ _ _ _ _ _ _ _ _ c])
      (simp_all add: sample_staking_store sample_staking_def get_validator_def new_staking_def
        fresh_validator_def)
  then show ?thesis
    using c by auto
qed

end
