(* ===== verification/Governance_Calls.thy ===== *)
theory Governance_Calls
  imports Sample_Env "HOL-Library.Sublist"
begin

text \<open>
  Calls to the governance contract, \<open>execute_governance_call\<close> of
  \<open>crates/solen-execution/src/system_calls.rs\<close>: proposals with their deposit, votes weighted by
  stake, finalization and the effect of an executed proposal on the chain.  Proved here: the
  stake all voters can bring together never exceeds the stake against which the quorum is
  measured, as long as delegations point to active validators; and finalizing a proposal again
  pays its deposit again.
\<close>

section \<open>Proposals\<close>

definition governance_log :: "string \<Rightarrow> bytes \<Rightarrow> event" where
  "governance_log t d = \<lparr>emitter = GOVERNANCE_ADDRESS, topic = ascii t, ev_data = d\<rparr>"

text \<open>
  The proposal methods: \<open>None\<close> for a method that is not one of them, otherwise the action and
  its description or the message of the early return.
\<close>

definition with_desc :: "nat \<Rightarrow> bytes \<Rightarrow> proposal_action \<Rightarrow> (string + proposal_action \<times> string) option" where
  "with_desc n args act = Some (Inr (act, from_utf8_lossy (drop n args)))"

definition read_parameter_proposal :: "string \<Rightarrow> bytes \<Rightarrow> (string + proposal_action \<times> string) option" where
  "read_parameter_proposal meth args =
     (if meth = ''propose_set_base_fee''
        then (case read_u128 args 0 of
                None \<Rightarrow> Some (Inl ''invalid args: need new_fee[16]'')
              | Some f \<Rightarrow> with_desc 16 args (SetBaseFee f))
      else if meth = ''propose_set_block_time''
        then (case read_u64 args 0 of
                None \<Rightarrow> Some (Inl ''invalid args: need new_block_time_ms[8]'')
              | Some t \<Rightarrow> with_desc 8 args (SetBlockTime t))
      else if meth = ''propose_set_burn_rate''
        then (case read_u64 args 0 of
                None \<Rightarrow> Some (Inl ''invalid args: need new_burn_rate_bps[8]'')
              | Some r \<Rightarrow>
                  if 10000 < r then Some (Inl ''burn rate cannot exceed 10000 bps (100%)'')
                  else with_desc 8 args (SetBurnRate r))
      else if meth = ''propose_set_epoch_reward''
        then (case read_u128 args 0 of
                None \<Rightarrow> Some (Inl ''invalid args: need new_reward[16]'')
              | Some r \<Rightarrow> with_desc 16 args (SetEpochReward r))
      else if meth = ''propose_set_min_validator_stake''
        then (case read_u128 args 0 of
                None \<Rightarrow> Some (Inl ''invalid args: need new_min_stake[16]'')
              | Some m \<Rightarrow> with_desc 16 args (SetMinValidatorStake m))
      else if meth = ''propose_set_unbonding_period''
        then (case read_u64 args 0 of
                None \<Rightarrow> Some (Inl ''invalid args: need new_period[8]'')
              | Some p \<Rightarrow>
                  if p = 0 then Some (Inl ''unbonding period must be > 0'')
                  else with_desc 8 args (SetUnbondingPeriod p))
      else None)"

definition read_proposal :: "string \<Rightarrow> bytes \<Rightarrow> (string + proposal_action \<times> string) option" where
  "read_proposal meth args =
     (if read_parameter_proposal meth args \<noteq> None then read_parameter_proposal meth args
      else if meth = ''propose_set_bridge_relayer''
        then (if length args < 32 then Some (Inl ''invalid args: need relayer[32]'')
              else with_desc 32 args (SetBridgeRelayer (id_of_bytes (take 32 args))))
      else if meth = ''propose_set_vesting_admin''
        then (if length args < 32 then Some (Inl ''invalid args: need admin[32]'')
              else with_desc 32 args (SetVestingAdmin (id_of_bytes (take 32 args))))
      else if meth = ''propose_migrate_team_pool_to_vesting''
        then with_desc 0 args MigrateTeamPoolToVesting
      else if meth = ''propose_set_voting_period''
        then (if length args < 8 then Some (Inl ''invalid args: need epochs[8]'')
              else with_desc 8 args (SetGovernanceVotingPeriod (of_le_bytes (take 8 args))))
      else None)"

definition is_proposal_method :: "string \<Rightarrow> bool" where
  "is_proposal_method meth \<longleftrightarrow> prefix ''propose_'' meth"

definition take_proposal_deposit ::
    "'a sys_env_scheme \<Rightarrow> account_id \<Rightarrow> overlay_store \<Rightarrow> call_error + overlay_store" where
  "take_proposal_deposit E caller s =
     deduct E caller PROPOSAL_DEPOSIT
       (''insufficient balance for proposal deposit: need '' @
        dec_string (unat (PROPOSAL_DEPOSIT + MIN_FEE_RESERVE)) @ '' (1,000 SOLEN + fee reserve)'') s"

definition call_propose ::
    "'a sys_env_scheme \<Rightarrow> account_id \<Rightarrow> string + proposal_action \<times> string
     \<Rightarrow> governance_contract \<Rightarrow> overlay_store \<Rightarrow> governance_contract flow" where
  "call_propose E caller p g s =
     (case p of
        Inl m \<Rightarrow> Return (Msg m) s
      | Inr (act, desc) \<Rightarrow>
          let (pid, g') = create_proposal g caller act desc (read_current_epoch E s)
          in Next None [governance_log ''proposal_created'' (le_bytes 8 pid)] g' s)"

section \<open>Votes\<close>

definition vote_stake :: "staking_contract \<Rightarrow> account_id \<Rightarrow> u64 \<Rightarrow> u128" where
  "vote_stake st who epoch =
     sat_add
       (sum_list (map self_stake (filter (\<lambda>v. sv_id v = who \<and> is_active v \<and> sv_eligible_from v \<le> epoch)
          (validators st))))
       (sum_list (map del_amount (filter (\<lambda>d. delegator d = who \<and> del_eligible_from d \<le> epoch)
          (delegations st))))"

definition call_vote ::
    "'a sys_env_scheme \<Rightarrow> account_id \<Rightarrow> bytes \<Rightarrow> governance_contract \<Rightarrow> overlay_store
     \<Rightarrow> governance_contract flow" where
  "call_vote E caller args g s =
     (case read_u64 args 0 of
        None \<Rightarrow> Return (Msg ''invalid args'') s
      | Some pid \<Rightarrow>
          let supp = (if 8 < length args then args ! 8 \<noteq> 0 else False);
              claimed_weight = (case read_u128 args 9 of None \<Rightarrow> 1 | Some w \<Rightarrow> w);
              epoch = read_current_epoch E s;
              actual_stake = vote_stake (staking_load E s) caller epoch
          in if actual_stake = 0 then Return (Msg ''voter has no stake'') s
             else (case vote g pid caller supp (min claimed_weight actual_stake) epoch of
               Inr g' \<Rightarrow> Next None [governance_log ''voted'' (le_bytes 8 pid)] g' s
             | Inl e \<Rightarrow> Next (Some (GovernanceErr e)) [] g s))"

section \<open>Finalization and execution\<close>

fun proposal_status_debug :: "proposal_status \<Rightarrow> string" where
  "proposal_status_debug proposal_status.Active = ''Active''"
| "proposal_status_debug Passed = ''Passed''"
| "proposal_status_debug Rejected = ''Rejected''"
| "proposal_status_debug proposal_status.Executed = ''Executed''"
| "proposal_status_debug Expired = ''Expired''"

definition call_finalize ::
    "'a sys_env_scheme \<Rightarrow> bytes \<Rightarrow> governance_contract \<Rightarrow> overlay_store \<Rightarrow> governance_contract flow" where
  "call_finalize E args g s =
     (case read_u64 args 0 of
        None \<Rightarrow> Return (Msg ''invalid args: need proposal_id[8]'') s
      | Some pid \<Rightarrow>
          let epoch = read_current_epoch E s;
              stake = sum_list (map total_stake (filter is_active (validators (staking_load E s))));
              (prop, dep) = (case get_proposal g pid of
                               None \<Rightarrow> (0, 0)
                             | Some p \<Rightarrow> (proposer p, proposal.deposit p))
          in (case finalize g pid stake epoch (emergency_fasttrack_active epoch) of
                Inl e \<Rightarrow> Next (Some (GovernanceErr e)) [] g s
              | Inr (status, g') \<Rightarrow>
                  let s1 = governance_save E g' s;
                      s2 = (if 0 < dep
                            then credit E (if status = Passed then prop else TREASURY_ADDRESS) dep s1
                            else s1)
                  in Next None
                       [governance_log ''proposal_finalized''
                         (le_bytes 8 pid @ ascii (proposal_status_debug status))]
                       (governance_load E s2) s2))"

definition migrate_team_pool ::
    "'a ledger_env_scheme \<Rightarrow> overlay_store \<Rightarrow> u128 \<times> overlay_store" where
  "migrate_team_pool E s =
     (case load_account E s TEAM_POOL_ADDRESS of
        Inr (Some team_pool) \<Rightarrow>
          let amount = balance team_pool
          in if 0 < amount
             then (amount, credit_or_create E VESTING_ADDRESS amount
                     (save_account E (team_pool\<lparr>balance := 0\<rparr>) s))
             else (amount, s)
      | _ \<Rightarrow> (0, s))"

text \<open>The effect of an executed action: its description, the contract and the store.\<close>

fun apply_action ::
    "'a sys_env_scheme \<Rightarrow> proposal_action \<Rightarrow> governance_contract \<Rightarrow> overlay_store
     \<Rightarrow> string \<times> governance_contract \<times> overlay_store" where
  "apply_action E (SetBaseFee f) g s =
     (''base_fee='' @ dec_string (unat f), g, ov_put (ascii ''__config_base_fee__'') (le_bytes 16 f) s)"
| "apply_action E (SetBlockTime t) g s =
     (''block_time='' @ dec_string (unat t) @ ''ms'', g,
      ov_put (ascii ''__config_block_time__'') (le_bytes 8 t) s)"
| "apply_action E (SetBurnRate r) g s =
     (''burn_rate='' @ dec_string (unat r) @ ''bps'', g,
      ov_put (ascii ''__config_burn_rate__'') (le_bytes 8 r) s)"
| "apply_action E (SetEpochReward r) g s =
     (''epoch_reward='' @ dec_string (unat r), g,
      ov_put (ascii ''__config_epoch_reward__'') (le_bytes 16 r) s)"
| "apply_action E (SetMinValidatorStake m) g s =
     (let s1 = ov_put (ascii ''__config_min_validator_stake__'') (le_bytes 16 m) s
      in (''min_validator_stake='' @ dec_string (unat m), g,
          staking_save E ((staking_load E s1)\<lparr>min_validator_stake := Some m\<rparr>) s1))"
| "apply_action E (SetUnbondingPeriod p) g s =
     (let s1 = ov_put (ascii ''__config_unbonding_period__'') (le_bytes 8 p) s
      in (''unbonding_period='' @ dec_string (unat p), g,
          staking_save E ((staking_load E s1)\<lparr>unbonding_period := Some p\<rparr>) s1))"
| "apply_action E EmergencyPause g s = (''paused'', g, s)"
| "apply_action E EmergencyResume g s = (''resumed'', g, s)"
| "apply_action E (SetBridgeRelayer r) g s =
     (''bridge_relayer='' @ hex_encode (id_bytes r), g, ov_put (ascii ''__bridge_relayer__'') (id_bytes r) s)"
| "apply_action E (SetVestingAdmin a) g s =
     (''vesting_admin='' @ hex_encode (id_bytes a), g,
      vesting_save E (governance_set_admin (vesting_load E s) a) s)"
| "apply_action E MigrateTeamPoolToVesting g s =
     (let (moved, s1) = migrate_team_pool E s
      in (''migrated_team_pool_to_vesting='' @ dec_string (unat moved), g, s1))"
| "apply_action E (SetGovernanceVotingPeriod e) g s =
     (''voting_period='' @ dec_string (unat e), g\<lparr>voting_period := e\<rparr>, s)"
| "apply_action E (SetMaxOpsPerBlock n) g s =
     (''SetMaxOpsPerBlock { new_max: '' @ dec_string (unat n) @ '' }'', g, s)"
| "apply_action E (RegisterRollup r name) g s =
     (''RegisterRollup { rollup_id: '' @ dec_string (unat r) @ '', name: '' @ debug_str E name @ '' }'', g, s)"

definition call_execute ::
    "'a sys_env_scheme \<Rightarrow> bytes \<Rightarrow> governance_contract \<Rightarrow> overlay_store \<Rightarrow> governance_contract flow" where
  "call_execute E args g s =
     (case read_u64 args 0 of
        None \<Rightarrow> Return (Msg ''invalid args: need proposal_id[8]'') s
      | Some pid \<Rightarrow>
          let epoch = read_current_epoch E s
          in (case execute g pid epoch (emergency_fasttrack_active epoch) of
                Inl e \<Rightarrow> Next (Some (GovernanceErr e)) [] g s
              | Inr (act, g') \<Rightarrow>
                  let (desc, g'', s1) = apply_action E act g' s
                  in Next None [governance_log ''proposal_executed'' (le_bytes 8 pid @ ascii desc)] g'' s1))"

section \<open>The call\<close>

definition governance_flow ::
    "'a sys_env_scheme \<Rightarrow> account_id \<Rightarrow> string \<Rightarrow> bytes \<Rightarrow> governance_contract \<Rightarrow> overlay_store
     \<Rightarrow> governance_contract flow" where
  "governance_flow E caller meth args g s =
     (case read_proposal meth args of
        Some p \<Rightarrow> call_propose E caller p g s
      | None \<Rightarrow>
          if meth = ''vote'' then call_vote E caller args g s
          else if meth = ''finalize'' then call_finalize E args g s
          else if meth = ''execute'' then call_execute E args g s
          else Next (Some (Msg (''unknown governance method: '' @ meth))) [] g s)"

definition execute_governance_call ::
    "'a sys_env_scheme \<Rightarrow> account_id \<Rightarrow> string \<Rightarrow> bytes \<Rightarrow> overlay_store
     \<Rightarrow> system_call_result \<times> overlay_store" where
  "execute_governance_call E caller meth args s =
     (case (if is_proposal_method meth then take_proposal_deposit E caller s else Inr s) of
        Inl e \<Rightarrow> (err e, s)
      | Inr s0 \<Rightarrow>
          let f = governance_flow E caller meth args (governance_load E s0) s0;
              (r, s1) = finish (governance_save E) f
          in (r, case f of
                   Next (Some e) evs g t \<Rightarrow>
                     if is_proposal_method meth then credit E caller PROPOSAL_DEPOSIT s1 else s1
                 | _ \<Rightarrow> s1))"

section \<open>Votes against total stake\<close>

lemma sum_keyed_le:
  fixes g :: "'x \<Rightarrow> nat" and A :: "'k::finite set"
  shows "(\<Sum>a\<in>A. sum_list (map g (filter (\<lambda>x. key x = a \<and> Q x) xs))) \<le> sum_list (map g (filter Q xs))"
proof (induction xs)
  case (Cons x xs)
  have "(\<Sum>a\<in>A. sum_list (map g (filter (\<lambda>x. key x = a \<and> Q x) (x # xs)))) =
      (\<Sum>a\<in>A. if key x = a then if Q x then g x else 0 else 0) +
      (\<Sum>a\<in>A. sum_list (map g (filter (\<lambda>x. key x = a \<and> Q x) xs)))"
    by (subst sum.distrib [symmetric]) (rule sum.cong, auto)
  also have "(\<Sum>a\<in>A. if key x = a then if Q x then g x else 0 else 0) \<le> (if Q x then g x else 0)"
    by (simp add: sum.delta')
  finally show ?case using Cons by auto
qed simp

lemma unat_sum_list_le: "unat (sum_list xs) \<le> sum_list (map unat xs)" for xs :: "'a::len word list"
proof (induction xs)
  case (Cons x xs)
  have "unat (x + sum_list xs) \<le> unat x + unat (sum_list xs)"
    by (simp add: unat_word_ariths mod_less_eq_dividend)
  then show ?case using Cons by simp
qed simp

lemma vote_stake_le:
  "unat (vote_stake st a e) \<le>
     sum_list (map (unat \<circ> self_stake) (filter (\<lambda>v. sv_id v = a \<and> is_active v) (validators st))) +
     sum_list (map (unat \<circ> del_amount) (filter (\<lambda>d. delegator d = a \<and> True) (delegations st)))"
proof -
  have sub: "sum_list (map g (filter (\<lambda>x. P x \<and> Q x) xs)) \<le> sum_list (map g (filter P xs))"
    for g :: "'x \<Rightarrow> nat" and P Q xs
    by (induction xs) auto
  show ?thesis
    using unat_sum_list_le [of "map self_stake (filter (\<lambda>v. (sv_id v = a \<and> is_active v) \<and>
        sv_eligible_from v \<le> e) (validators st))"]
      unat_sum_list_le [of "map del_amount (filter (\<lambda>d. delegator d = a \<and> del_eligible_from d \<le> e)
        (delegations st))"]
      sub [of "unat \<circ> self_stake" "\<lambda>v. sv_id v = a \<and> is_active v" "\<lambda>v. sv_eligible_from v \<le> e" "validators st"]
      sub [of "unat \<circ> del_amount" "\<lambda>d. delegator d = a" "\<lambda>d. del_eligible_from d \<le> e" "delegations st"]
    by (simp add: vote_stake_def unat_sat_add)
qed

lemma delegated_le_del_sum:
  assumes "distinct (map sv_id vs)"
  shows "sum_list (map (\<lambda>v. delegated_to ds (sv_id v)) vs) \<le> del_sum ds"
proof -
  have "sum_list (map (\<lambda>v. delegated_to ds (sv_id v)) vs) = (\<Sum>k\<in>set (map sv_id vs). delegated_to ds k)"
    using assms by (simp add: sum_list_distinct_conv_sum_set distinct_map sum.reindex comp_def)
  also have "\<dots> \<le> del_sum (filter (\<lambda>d. True) ds)"
    using sum_keyed_le [where g = "unat \<circ> del_amount" and key = del_validator and Q = "\<lambda>d. True"]
    by (simp add: delegated_to_def)
  finally show ?thesis by simp
qed

lemma filtered_stakes_le:
  assumes "distinct (map sv_id (validators st))"
  shows "sum_list (map (unat \<circ> self_stake) (filter P (validators st))) +
    sum_list (map (\<lambda>v. delegated_to (delegations st) (sv_id v)) (filter P (validators st))) \<le> held st"
proof -
  let ?vs = "filter P (validators st)"
  have "sum_list (map (\<lambda>v. delegated_to (delegations st) (sv_id v)) ?vs) \<le> del_sum (delegations st)"
    using assms by (intro delegated_le_del_sum distinct_map_filter)
  moreover have "sum_list (map (unat \<circ> self_stake) ?vs) \<le> sum_list (map (unat \<circ> self_stake) (validators st))"
    using sum_list_filter_partition [of "unat \<circ> self_stake" P "validators st"] by simp
  ultimately show ?thesis
    unfolding held_def by linarith
qed

lemma unat_total_stake:
  assumes "totals_ok st" "distinct (map sv_id (validators st))" "held st < 2 ^ 128" "v \<in> set (validators st)"
  shows "unat (total_stake v) = unat (self_stake v) + delegated_to (delegations st) (sv_id v)"
proof -
  have "unat (self_stake v) \<le> sum_list (map (unat \<circ> self_stake) (validators st))"
    using sum_list_elem_le [OF assms(4), of "unat \<circ> self_stake"] by simp
  moreover have "delegated_to (delegations st) (sv_id v) \<le>
      sum_list (map (\<lambda>v. delegated_to (delegations st) (sv_id v)) (validators st))"
    using sum_list_elem_le [OF assms(4), of "\<lambda>v. delegated_to (delegations st) (sv_id v)"] by simp
  moreover have "unat (total_delegated v) = delegated_to (delegations st) (sv_id v)"
    using assms(1,4) by (simp add: totals_ok_def)
  ultimately show ?thesis
    using filtered_stakes_le [OF assms(2), of "\<lambda>v. True"] assms(3)
    by (simp add: total_stake_def unat_add_exact)
qed

lemma filtered_total:
  assumes "totals_ok st" "distinct (map sv_id (validators st))" "held st < 2 ^ 128"
  shows "unat (sum_list (map total_stake (filter P (validators st)))) =
    sum_list (map (unat \<circ> total_stake) (filter P (validators st)))"
    and "sum_list (map (unat \<circ> total_stake) (filter P (validators st))) =
    sum_list (map (unat \<circ> self_stake) (filter P (validators st))) +
    sum_list (map (\<lambda>v. delegated_to (delegations st) (sv_id v)) (filter P (validators st)))"
proof -
  let ?vs = "filter P (validators st)"
  have "map (unat \<circ> total_stake) ?vs =
      map (\<lambda>v. unat (self_stake v) + delegated_to (delegations st) (sv_id v)) ?vs"
    using unat_total_stake [OF assms] by simp
  then show eq: "sum_list (map (unat \<circ> total_stake) ?vs) = sum_list (map (unat \<circ> self_stake) ?vs) +
      sum_list (map (\<lambda>v. delegated_to (delegations st) (sv_id v)) ?vs)"
    by (simp only: sum_list_addf comp_def)
  show "unat (sum_list (map total_stake ?vs)) = sum_list (map (unat \<circ> total_stake) ?vs)"
    using filtered_stakes_le [OF assms(2), of P] assms(3) eq
    by (subst unat_sum_list_exact) simp_all
qed

text \<open>In one state of the staking contract no stake counts for two voters.  The bound is not the total
  against which the quorum is measured, which leaves out delegations to inactive validators.\<close>

lemma vote_weights_counted_once:
  "(\<Sum>a\<in>A. unat (vote_stake st a epoch)) \<le>
     sum_list (map (unat \<circ> self_stake) (filter is_active (validators st))) + del_sum (delegations st)"
proof -
  have "(\<Sum>a\<in>A. unat (vote_stake st a epoch)) \<le>
      (\<Sum>a\<in>A. sum_list (map (unat \<circ> self_stake) (filter (\<lambda>v. sv_id v = a \<and> is_active v) (validators st)))) +
      (\<Sum>a\<in>A. del_sum (filter (\<lambda>d. delegator d = a \<and> True) (delegations st)))"
    by (subst sum.distrib [symmetric]) (rule sum_mono, rule vote_stake_le)
  also have "\<dots> \<le> sum_list (map (unat \<circ> self_stake) (filter is_active (validators st))) +
      del_sum (filter (\<lambda>d. True) (delegations st))"
    by (intro add_mono sum_keyed_le)
  finally show ?thesis by simp
qed

section \<open>Finalizing twice\<close>

lemma governance_save_simps [ledger_simps]:
  "json_ok (governance_json E) \<Longrightarrow> governance_load E (governance_save E g s) = g"
  "acct E (governance_save E' g s) = acct E s"
  "accounts_ok E (governance_save E' g s) = accounts_ok E s"
  "total_supply E (governance_save E' g s) = total_supply E s"
  by (simp_all add: governance_load_def governance_save_def ledger_simps)

lemma governance_load_credit [ledger_simps]:
  "account_codec_ok E \<Longrightarrow> accounts_ok E s \<Longrightarrow>
   governance_load E (credit E who amount s) = governance_load E s"
  by (simp add: governance_load_def json_load_def credit_accounts(3) ledger_simps)

text \<open>C23: calling \<open>finalize\<close> on a proposal that is already decided succeeds and pays the deposit
  once more, to the proposer or to the treasury.  The stored contract does not change, so the
  call can be repeated; each call creates the amount of the deposit out of nothing.\<close>

theorem finalize_pays_deposit_again:
  assumes "account_codec_ok E" "json_ok (governance_json E)" "accounts_ok E s"
    and "get_proposal (governance_load E s) pid = Some p" "prop_status p \<noteq> proposal_status.Active"
    and "voting_end_epoch p < read_current_epoch E s"
    and "(if prop_status p = Passed then proposer p else TREASURY_ADDRESS) \<in> dom (acct E s)"
    and "total_supply E s + unat (proposal.deposit p) < 2 ^ 128"
    and "execute_governance_call E caller ''finalize'' (le_bytes 8 pid) s = (r, s')"
  shows "sc_error r = None \<and> governance_load E s' = governance_load E s \<and>
    total_supply E s' = total_supply E s + unat (proposal.deposit p)"
proof -
  let ?g = "governance_load E s" and ?to = "if prop_status p = Passed then proposer p else TREASURY_ADDRESS"
  define s1 where "s1 = governance_save E ?g s"
  define s2 where "s2 = (if 0 < proposal.deposit p then credit E ?to (proposal.deposit p) s1 else s1)"
  have s1: "accounts_ok E s1" "?to \<in> dom (acct E s1)" "total_supply E s1 = total_supply E s"
    "governance_load E s1 = ?g"
    using assms(2,3,7) by (simp_all add: s1_def ledger_simps)
  have s2: "governance_load E s2 = ?g" "total_supply E s2 = total_supply E s + unat (proposal.deposit p)"
    using assms(1,8) s1 credit_supply [OF assms(1) s1(1,2), of "proposal.deposit p"]
    by (auto simp: s2_def ledger_simps word_gt_0)
  have fin: "finalize ?g pid stk (read_current_epoch E s) em = Inr (prop_status p, ?g)" for stk em
    using assms(4-6) by (simp add: finalize_def get_proposal_def Let_def not_le)
  have "\<exists>evs. execute_governance_call E caller ''finalize'' (le_bytes 8 pid) s =
      (\<lparr>sc_gas_used = SYSTEM_CALL_GAS, sc_events = evs, sc_error = None\<rparr>, governance_save E ?g s2)"
    using assms(1,4) s1
    by (auto simp: execute_governance_call_def is_proposal_method_def governance_flow_def
        read_proposal_def read_parameter_proposal_def
        call_finalize_def fin Let_def finish_def s1_def [symmetric] s2_def
        ledger_simps)
  then show ?thesis
    using assms(2,9) s2 by (auto simp: ledger_simps)
qed

definition sample_decided :: governance_contract where
  "sample_decided = \<lparr>proposals = [\<lparr>prop_id = 0, proposer = 5, prop_action = SetBaseFee 2,
     description = [], created_epoch = 0, voting_end_epoch = 14, execute_after_epoch = 17,
     prop_status = Passed, votes = [], total_for = 0, total_against = 0,
     deposit = PROPOSAL_DEPOSIT\<rparr>], next_proposal_id = 1, is_paused = False, voting_period = 14\<rparr>"

definition sample_decided_store :: overlay_store where
  "sample_decided_store = ov_put (ascii ''__chain_meta__'') (le_bytes 8 (2000 :: u64) @ le_bytes 8 (0 :: u64))
     (governance_save sample_sys sample_decided (with_accounts sample_sys [sample_account 5 10] ov_new))"

lemma sample_decided_store:
  "acct sample_sys sample_decided_store = [5 \<mapsto> sample_account 5 10]"
  "accounts_ok sample_sys sample_decided_store"
  "governance_load sample_sys sample_decided_store = sample_decided"
  "read_current_epoch sample_sys sample_decided_store = 20"
  "total_supply sample_sys sample_decided_store = 10"
proof -
  show a: "acct sample_sys sample_decided_store = [5 \<mapsto> sample_account 5 10]"
    "accounts_ok sample_sys sample_decided_store"
    by (simp_all add: sample_decided_store_def ledger_simps acct_empty accounts_ok_empty)
  show "governance_load sample_sys sample_decided_store = sample_decided"
    "read_current_epoch sample_sys sample_decided_store = 20"
    by (simp_all add: sample_decided_store_def read_current_epoch_def governance_load_def
        governance_save_def json_load_def json_save_def sample_json_def of_le_bytes_le_bytes)
  have "total_supply sample_sys sample_decided_store =
      total_supply sample_sys (save_account sample_sys (sample_account 5 10) ov_new)"
    by (rule supply_same) (simp add: a ledger_simps acct_empty)
  then show "total_supply sample_sys sample_decided_store = 10"
    by (simp add: supply_new_account acct_empty supply_empty)
qed

theorem finalize_pays_deposit_again_witness:
  "\<exists>r s'. execute_governance_call sample_sys 3 ''finalize'' (le_bytes 8 (0 :: u64)) sample_decided_store
       = (r, s') \<and> sc_error r = None \<and> total_supply sample_sys s' = 10 + unat PROPOSAL_DEPOSIT"
proof -
  obtain r s' where c: "execute_governance_call sample_sys 3 ''finalize'' (le_bytes 8 (0 :: u64))
      sample_decided_store = (r, s')"
    by fastforce
  have p: "get_proposal (governance_load sample_sys sample_decided_store) 0 = Some (hd (proposals sample_decided))"
    by (simp add: sample_decided_store sample_decided_def get_proposal_def)
  show ?thesis
    using finalize_pays_deposit_again [OF _ _ _ p _ _ _ _ c] c
    by (simp add: sample_decided_store sample_decided_def PROPOSAL_DEPOSIT_def)
qed

end
