(* ===== verification/Rollup_Proofs.thy ===== *)
theory Rollup_Proofs
  imports Sys_Base
begin

text \<open>
  Batch proofs of rollups, \<open>crates/solen-rollup-kit/src/prover.rs\<close>: the message a committee
  member signs, the check that enough members signed it, and the mock prover.  The signature
  check of the crypto library and BLAKE3 are arguments.  Proved here: the message determines
  the transition it attests, and an accepted proof carries valid signatures of at least
  \<open>threshold\<close> different committee positions.
\<close>

section \<open>Committee attestations\<close>

datatype prover_error = GenerationFailed string | VerificationFailed | InvalidFormat

definition ATTESTATION_DOMAIN :: bytes where
  "ATTESTATION_DOMAIN = ascii ''solen-rollup-attestation:v1''"

definition committee_attestation_message :: "u64 \<Rightarrow> u64 \<Rightarrow> hash \<Rightarrow> hash \<Rightarrow> hash \<Rightarrow> bytes" where
  "committee_attestation_message rollup batch_index pre_root post_root data_hash =
     ATTESTATION_DOMAIN @ le_bytes 8 rollup @ le_bytes 8 batch_index @ id_bytes pre_root @
     id_bytes post_root @ id_bytes data_hash"

text \<open>The loop over the entries of the proof; the set of valid signers is a sorted list.\<close>

fun count_attestations ::
    "(hash \<Rightarrow> bytes \<Rightarrow> bytes \<Rightarrow> bool) \<Rightarrow> bytes \<Rightarrow> hash list \<Rightarrow> bytes \<Rightarrow> nat \<Rightarrow> nat \<Rightarrow> nat list
     \<Rightarrow> prover_error + nat list" where
  "count_attestations ver msg attestors pf off 0 valid = Inr valid"
| "count_attestations ver msg attestors pf off (Suc n) valid =
     (if length pf < off + 68 then Inl InvalidFormat
      else let idx = u32_at pf off;
               sig = take 64 (drop (off + 4) pf)
      in if length attestors \<le> idx \<or> idx \<in> set valid
           then count_attestations ver msg attestors pf (off + 68) n valid
         else if ver (attestors ! idx) msg sig
           then count_attestations ver msg attestors pf (off + 68) n (insort idx valid)
         else count_attestations ver msg attestors pf (off + 68) n valid)"

definition verify_committee_attestation ::
    "(hash \<Rightarrow> bytes \<Rightarrow> bytes \<Rightarrow> bool) \<Rightarrow> u64 \<Rightarrow> u64 \<Rightarrow> hash \<Rightarrow> hash \<Rightarrow> hash \<Rightarrow> hash list \<Rightarrow> nat
     \<Rightarrow> bytes \<Rightarrow> prover_error + bool" where
  "verify_committee_attestation ver rollup batch_index pre_root post_root data_hash attestors threshold pf =
     (if threshold = 0 \<or> attestors = [] \<or> length attestors < threshold then Inl InvalidFormat
      else if length pf < 4 then Inl InvalidFormat
      else case count_attestations ver
               (committee_attestation_message rollup batch_index pre_root post_root data_hash)
               attestors pf 4 (u32_at pf 0) [] of
             Inl e \<Rightarrow> Inl e
           | Inr valid \<Rightarrow> Inr (threshold \<le> length valid))"

section \<open>The mock prover\<close>

definition mock_preimage :: "hash \<Rightarrow> hash \<Rightarrow> hash \<Rightarrow> bytes" where
  "mock_preimage pre_root post_root data_hash =
     ascii ''mock_proof:'' @ id_bytes pre_root @ id_bytes post_root @ id_bytes data_hash"

definition mock_generate_proof :: "(bytes \<Rightarrow> hash) \<Rightarrow> hash \<Rightarrow> hash \<Rightarrow> bytes \<Rightarrow> prover_error + bytes" where
  "mock_generate_proof blake3 pre_root post_root batch_data =
     Inr (id_bytes (blake3 (mock_preimage pre_root post_root (blake3 batch_data))))"

definition mock_verify_proof ::
    "(bytes \<Rightarrow> hash) \<Rightarrow> hash \<Rightarrow> hash \<Rightarrow> hash \<Rightarrow> bytes \<Rightarrow> prover_error + bool" where
  "mock_verify_proof blake3 pre_root post_root data_hash pf =
     (if length pf \<noteq> 32 then Inl InvalidFormat
      else Inr (pf = id_bytes (blake3 (mock_preimage pre_root post_root data_hash))))"

section \<open>What an accepted proof means\<close>

lemma attestation_message_inject:
  "committee_attestation_message r b pre post d = committee_attestation_message r' b' pre' post' d' \<longleftrightarrow>
   r = r' \<and> b = b' \<and> pre = pre' \<and> post = post' \<and> d = d'"
  by (auto simp: committee_attestation_message_def le_bytes_inject)

definition attested :: "(hash \<Rightarrow> bytes \<Rightarrow> bytes \<Rightarrow> bool) \<Rightarrow> bytes \<Rightarrow> hash list \<Rightarrow> nat \<Rightarrow> bool" where
  "attested ver msg attestors i \<longleftrightarrow> i < length attestors \<and> (\<exists>sig. length sig = 64 \<and> ver (attestors ! i) msg sig)"

lemma count_attestations_valid:
  "count_attestations ver msg attestors pf off n valid = Inr valid' \<Longrightarrow>
   distinct valid \<Longrightarrow> \<forall>i\<in>set valid. attested ver msg attestors i \<Longrightarrow>
   distinct valid' \<and> (\<forall>i\<in>set valid'. attested ver msg attestors i)"
proof (induction ver msg attestors pf off n valid rule: count_attestations.induct)
  case (2 ver msg attestors pf off n valid)
  let ?idx = "u32_at pf off" and ?sig = "take 64 (drop (off + 4) pf)"
  have len: "\<not> length pf < off + 68"
    using "2.prems"(1) by (auto split: if_splits)
  then have sig: "length ?sig = 64" by simp
  show ?case
  proof (cases "length attestors \<le> ?idx \<or> ?idx \<in> set valid")
    case True
    then show ?thesis using 2 len by (simp add: Let_def)
  next
    case False
    show ?thesis
    proof (cases "ver (attestors ! ?idx) msg ?sig")
      case True
      then have "attested ver msg attestors ?idx"
        using False sig unfolding attested_def by (intro conjI exI [of _ ?sig]) auto
      then show ?thesis
        using 2 len False True
        by (simp add: Let_def distinct_insort set_insort_key)
    qed (use 2 len False in \<open>simp add: Let_def\<close>)
  qed
qed simp

lemma verify_committee_accepts:
  assumes "verify_committee_attestation ver r b pre post d attestors threshold pf = Inr True"
  obtains I where "finite I" "threshold \<le> card I" "0 < threshold"
    "\<forall>i\<in>I. attested ver (committee_attestation_message r b pre post d) attestors i"
proof -
  obtain valid where "count_attestations ver (committee_attestation_message r b pre post d)
      attestors pf 4 (u32_at pf 0) [] = Inr valid" "threshold \<le> length valid" "0 < threshold"
    using assms by (auto simp: verify_committee_attestation_def split: if_splits sum.splits)
  with count_attestations_valid [OF this(1)] show thesis
    using that [of "set valid"] by (auto simp: distinct_card)
qed

lemma mock_roundtrip:
  "mock_generate_proof blake3 pre post batch = Inr pf \<Longrightarrow>
   mock_verify_proof blake3 pre post (blake3 batch) pf = Inr True"
  by (auto simp: mock_generate_proof_def mock_verify_proof_def)

end
