(* ===== verification/Bridge_Calls.thy ===== *)
theory Bridge_Calls
  imports Sample_Env Rollup_Proofs "HOL-Library.List_Lexorder" "HOL-Library.Char_ord"
begin

text \<open>
  Calls to the bridge contract, \<open>execute_bridge_call\<close> of
  \<open>crates/solen-execution/src/system_calls.rs\<close>: deposits, the lock and release of tokens for
  the Base chain, rollup registration and batch submission.  Proved here: a release is made by
  the configured relayer only, moves exactly its amount out of the vault and never happens twice
  for one Base transaction; a batch of a committee rollup is accepted only from the sequencer,
  at the next index, with valid signatures of at least the registered threshold of members.
\<close>

section \<open>JSON values\<close>

text \<open>An object is a sorted map; inserting replaces or adds an entry.\<close>

fun obj_insert :: "string \<Rightarrow> json \<Rightarrow> (string \<times> json) list \<Rightarrow> (string \<times> json) list" where
  "obj_insert k v [] = [(k, v)]"
| "obj_insert k v ((k', v') # m) =
     (if k < k' then (k, v) # (k', v') # m
      else if k = k' then (k, v) # m
      else (k', v') # obj_insert k v m)"

definition json_object :: "(string \<times> json) list \<Rightarrow> json" where
  "json_object kvs = JObj (fold (\<lambda>(k, v) m. obj_insert k v m) kvs [])"

fun json_get :: "string \<Rightarrow> json \<Rightarrow> json option" where
  "json_get k (JObj m) = map_of m k"
| "json_get k _ = None"

text \<open>\<open>value[key] = x\<close>: \<open>null\<close> becomes an object, any other non-object panics.\<close>

fun json_set :: "string \<Rightarrow> json \<Rightarrow> json \<Rightarrow> json option" where
  "json_set k x (JObj m) = Some (JObj (obj_insert k x m))"
| "json_set k x JNull = Some (JObj [(k, x)])"
| "json_set k x _ = None"

fun as_u64 :: "json \<Rightarrow> u64 option" where
  "as_u64 (JNum n) = Some n"
| "as_u64 _ = None"

fun as_str :: "json \<Rightarrow> string option" where
  "as_str (JStr s) = Some s"
| "as_str _ = None"

fun as_array :: "json \<Rightarrow> json list option" where
  "as_array (JArr xs) = Some xs"
| "as_array _ = None"

text \<open>\<open>decode_hex32\<close>: the outer \<open>None\<close> is the panic of a slice inside a character.\<close>

definition decode_hex32 :: "string \<Rightarrow> hash option option" where
  "decode_hex32 s =
     (if length s \<noteq> 64 then Some None
      else case hex_pairs s 0 of
             Inr bs \<Rightarrow> Some (Some (id_of_bytes bs))
           | Inl (SlicePanic _) \<Rightarrow> None
           | Inl _ \<Rightarrow> Some None)"

definition hex32_field :: "string \<Rightarrow> json \<Rightarrow> hash option option" where
  "hex32_field k v =
     (case Option.bind (json_get k v) as_str of
        None \<Rightarrow> Some None
      | Some s \<Rightarrow> decode_hex32 s)"

fun hex32_list :: "json list \<Rightarrow> hash list option" where
  "hex32_list [] = Some []"
| "hex32_list (x # xs) =
     (case (case as_str x of None \<Rightarrow> Some None | Some s \<Rightarrow> decode_hex32 s) of
        None \<Rightarrow> None
      | Some h \<Rightarrow> map_option (\<lambda>hs. (case h of None \<Rightarrow> hs | Some a \<Rightarrow> a # hs)) (hex32_list xs))"

section \<open>Deposits and the Base bridge\<close>

definition bridge_log :: "string \<Rightarrow> bytes \<Rightarrow> event" where
  "bridge_log t d = \<lparr>emitter = BRIDGE_ADDRESS, topic = ascii t, ev_data = d\<rparr>"

definition call_deposit ::
    "'a sys_env_scheme \<Rightarrow> account_id \<Rightarrow> bytes \<Rightarrow> bridge_contract \<Rightarrow> overlay_store \<Rightarrow> bridge_contract flow" where
  "call_deposit E caller args b s =
     (case read_u64 args 0 of
        None \<Rightarrow> Return (Msg ''invalid args: need rollup_id[8] + amount[16]'') s
      | Some r \<Rightarrow>
     (case read_u128 args 8 of
        None \<Rightarrow> Return (Msg ''invalid args'') s
      | Some amount \<Rightarrow>
          let go = (\<lambda>s1. let b1 = bridge_load E s1
                in (case Bridge.deposit b1 r amount of
                      Inr b2 \<Rightarrow> Next None [bridge_log ''deposit'' (le_bytes 16 amount)] b2 s1
                    | Inl e \<Rightarrow> Next (Some (BridgeErr e)) [] b1 (credit E caller amount s1)))
          in (case require_account E s caller of
                Inl _ \<Rightarrow> go s
              | Inr a \<Rightarrow>
                  if balance a < amount + MIN_FEE_RESERVE
                  then Return (Msg ''insufficient balance for deposit (need fee reserve)'') s
                  else go (save_account E (a\<lparr>balance := balance a - amount\<rparr>) s))))"

definition call_bridge_to_base ::
    "'a sys_env_scheme \<Rightarrow> account_id \<Rightarrow> bytes \<Rightarrow> bridge_contract \<Rightarrow> overlay_store \<Rightarrow> bridge_contract flow" where
  "call_bridge_to_base E caller args b s =
     (if length args < 36
      then Return (Msg ''invalid args: need base_recipient[20] + amount[16]'') s
      else case read_u128 args 20 of
        None \<Rightarrow> Return (Msg ''invalid args: bad amount'') s
      | Some amount \<Rightarrow>
          if amount = 0 then Return (Msg ''amount must be > 0'') s
          else (case deduct E caller amount ''insufficient balance for bridge (need fee reserve)'' s of
            Inl e \<Rightarrow> Return e s
          | Inr s1 \<Rightarrow>
              Next None
                [bridge_log ''bridge_deposit'' (id_bytes caller @ take 20 args @ le_bytes 16 amount)]
                b (credit_or_create E BRIDGE_ADDRESS amount s1)))"

definition processed_key :: "hash \<Rightarrow> bytes" where
  "processed_key tx = ascii ''bridge_processed/'' @ id_bytes tx"

definition is_relayer :: "'a ledger_env_scheme \<Rightarrow> overlay_store \<Rightarrow> account_id \<Rightarrow> bool" where
  "is_relayer E s who \<longleftrightarrow> sget E s (ascii ''__bridge_relayer__'') = Some (id_bytes who)"

definition call_bridge_from_base ::
    "'a sys_env_scheme \<Rightarrow> account_id \<Rightarrow> bytes \<Rightarrow> bridge_contract \<Rightarrow> overlay_store \<Rightarrow> bridge_contract flow" where
  "call_bridge_from_base E caller args b s =
     (let disabled = Return (Msg (''bridge_from_base: no bridge relayer configured '' @ em_dash @
            '' releases disabled'')) s
      in case sget E s (ascii ''__bridge_relayer__'') of
           None \<Rightarrow> disabled
         | Some relayer \<Rightarrow>
             if length relayer \<noteq> 32 then disabled
             else if relayer \<noteq> id_bytes caller
               then Return (Msg ''bridge_from_base: caller is not the authorized relayer'') s
             else if length args < 80
               then Return (Msg ''invalid args: need recipient[32] + amount[16] + base_tx_hash[32]'') s
             else (case read_account_id args 0 of
               None \<Rightarrow> Return (Msg ''invalid args: bad recipient'') s
             | Some recipient \<Rightarrow>
             (case read_u128 args 32 of
               None \<Rightarrow> Return (Msg ''invalid args: bad amount'') s
             | Some amount \<Rightarrow>
                 let tx = id_of_bytes (take 32 (drop 48 args))
                 in if sget E s (processed_key tx) \<noteq> None
                      then Return (Msg ''bridge release already processed'') s
                    else (case load_account E s BRIDGE_ADDRESS of
                      Inr (Some vault) \<Rightarrow>
                        if balance vault < amount
                        then Return (Msg ''bridge vault insufficient balance'') s
                        else let s1 = save_account E (vault\<lparr>balance := balance vault - amount\<rparr>) s;
                                 s2 = credit_or_create E recipient amount s1
                        in Next None
                             [bridge_log ''bridge_release''
                               (id_bytes recipient @ le_bytes 16 amount @ id_bytes tx)]
                             b (ov_put (processed_key tx) [1] s2)
                    | _ \<Rightarrow> Return (Msg ''bridge account not found'') s))))"

definition call_register_vault ::
    "bytes \<Rightarrow> bridge_contract \<Rightarrow> overlay_store \<Rightarrow> bridge_contract flow" where
  "call_register_vault args b s =
     (case read_u64 args 0 of
        None \<Rightarrow> Return (Msg ''invalid args'') s
      | Some r \<Rightarrow>
          (case register_vault b r of
             Inr b' \<Rightarrow> Next None [bridge_log ''vault_registered'' (le_bytes 8 r)] b' s
           | Inl e \<Rightarrow> Next (Some (BridgeErr e)) [] b s))"

section \<open>Rollup registration\<close>

definition chain_id_of :: "'a ledger_env_scheme \<Rightarrow> overlay_store \<Rightarrow> u64" where
  "chain_id_of E s =
     (case sget E s (ascii ''__chain_id__'') of
        Some data \<Rightarrow> if 8 \<le> length data then of_le_bytes (take 8 data) else 0
      | None \<Rightarrow> 0)"

text \<open>The committee that follows the genesis root in the arguments.\<close>

definition read_committee :: "bytes \<Rightarrow> nat \<Rightarrow> string + (u32 \<times> hash list)" where
  "read_committee args coff =
     (if length args < coff + 8
      then Inl ''invalid args: committee needs threshold[4] + num_attestors[4]''
      else let threshold = of_le_bytes (take 4 (drop coff args)) :: u32;
               num = u32_at args (coff + 4);
               aoff = coff + 8
      in if num = 0 \<or> 100 < num then Inl ''invalid committee: num_attestors must be 1..=100''
         else if threshold = 0 \<or> num < unat threshold
           then Inl ''invalid committee: threshold must be 1..=num_attestors''
         else if length args < aoff + num * 32
           then Inl ''invalid args: committee attestor list truncated''
         else Inr (threshold,
                map (\<lambda>i. id_of_bytes (take 32 (drop (aoff + i * 32) args))) [0..<num]))"

definition ROLLUP_DEPOSIT :: u128 where "ROLLUP_DEPOSIT = 10000 * 100000000"

definition reg_key :: "u64 \<Rightarrow> bytes" where
  "reg_key r = ascii (''__rollup_'' @ dec_string (unat r) @ ''__'')"

definition batch_key :: "u64 \<Rightarrow> u64 \<Rightarrow> bytes" where
  "batch_key r batch_index =
     ascii (''__rollup_'' @ dec_string (unat r) @ ''_batch_'' @ dec_string (unat batch_index) @ ''__'')"

definition batch_count_key :: "u64 \<Rightarrow> bytes" where
  "batch_count_key r = ascii (''__rollup_'' @ dec_string (unat r) @ ''_batch_count__'')"

definition reg_json :: "u64 \<Rightarrow> string \<Rightarrow> hash \<Rightarrow> account_id \<Rightarrow> u32 \<Rightarrow> hash list \<Rightarrow> json" where
  "reg_json r ptype root seq threshold attestors =
     json_object
       [(''rollup_id'', JNum r), (''proof_type'', JStr ptype),
        (''genesis_state_root'', JStr (hex_encode (id_bytes root))),
        (''sequencer'', JStr (hex_encode (id_bytes seq))),
        (''committee_threshold'', JNum (ucast threshold)),
        (''committee_attestors'', JArr (map (\<lambda>a. JStr (hex_encode (id_bytes a))) attestors))]"

definition take_rollup_deposit ::
    "'a ledger_env_scheme \<Rightarrow> account_id \<Rightarrow> overlay_store \<Rightarrow> string + overlay_store" where
  "take_rollup_deposit E caller s =
     (case require_account E s caller of
        Inl _ \<Rightarrow> Inl ''sender account not found''
      | Inr a \<Rightarrow>
          if balance a < ROLLUP_DEPOSIT + MIN_FEE_RESERVE
          then Inl ''insufficient balance for rollup registration deposit''
          else Inr (credit E BRIDGE_ADDRESS ROLLUP_DEPOSIT
                 (save_account E (a\<lparr>balance := balance a - ROLLUP_DEPOSIT\<rparr>) s)))"

definition debit_saturating ::
    "'a ledger_env_scheme \<Rightarrow> account_id \<Rightarrow> u128 \<Rightarrow> overlay_store \<Rightarrow> overlay_store" where
  "debit_saturating E who amount s =
     (case require_account E s who of
        Inl _ \<Rightarrow> s
      | Inr a \<Rightarrow> save_account E (a\<lparr>balance := sat_sub (balance a) amount\<rparr>) s)"

definition register_parsed ::
    "'a sys_env_scheme \<Rightarrow> account_id \<Rightarrow> u64 \<Rightarrow> string \<Rightarrow> string \<Rightarrow> account_id \<Rightarrow> hash
     \<Rightarrow> u32 \<Rightarrow> hash list \<Rightarrow> overlay_store \<Rightarrow> bridge_contract flow" where
  "register_parsed E caller r name ptype seq root threshold attestors s =
     (case take_rollup_deposit E caller s of
        Inl m \<Rightarrow> Return (Msg m) s
      | Inr s1 \<Rightarrow>
          let b = bridge_load E s1
          in (case register_rollup b r name ptype seq root (chain_height E s1) of
                Inr b' \<Rightarrow>
                  let stored_type = (case get_rollup b' r of None \<Rightarrow> [] | Some x \<Rightarrow> proof_type x)
                  in Next None [bridge_log ''rollup_registered'' (le_bytes 8 r)] b'
                       (ov_put (reg_key r)
                         (to_vec (value_json E) (reg_json r stored_type root seq threshold attestors)) s1)
              | Inl e \<Rightarrow> Next (Some (BridgeErr e)) [] b
                  (debit_saturating E BRIDGE_ADDRESS ROLLUP_DEPOSIT
                    (credit E caller ROLLUP_DEPOSIT s1))))"

definition call_register_rollup ::
    "'a sys_env_scheme \<Rightarrow> account_id \<Rightarrow> bytes \<Rightarrow> overlay_store \<Rightarrow> bridge_contract flow" where
  "call_register_rollup E caller args s =
     (case read_u64 args 0 of
        None \<Rightarrow> Return (Msg ''invalid args: need rollup_id[8]'') s
      | Some r \<Rightarrow>
          if length args < 12 then Return (Msg ''invalid args: too short'') s
          else let name_end = 12 + u32_at args 8
          in if length args < name_end + 4 then Return (Msg ''invalid args: name too long'') s
          else let name = from_utf8_lossy (take (name_end - 12) (drop 12 args));
                   pt_end = name_end + 4 + u32_at args name_end
          in if length args < pt_end + 64
               then Return (Msg ''invalid args: need sequencer[32] + genesis_state_root[32]'') s
          else let ptype = from_utf8_lossy (take (pt_end - (name_end + 4)) (drop (name_end + 4) args))
          in if chain_id_of E s = 1 \<and> ptype \<noteq> ''committee''
               then Return (Msg (''mainnet rollups must use a verifiable proof type ('' @
                 [CHR 0x27] @ ''committee'' @ [CHR 0x27] @ '')'')) s
          else (case read_account_id args pt_end of
            None \<Rightarrow> Return (Msg ''invalid args: bad sequencer'') s
          | Some seq \<Rightarrow>
              let root = id_of_bytes (take 32 (drop (pt_end + 32) args))
              in (case (if ptype = ''committee'' then read_committee args (pt_end + 64) else Inr (0, [])) of
                    Inl m \<Rightarrow> Return (Msg m) s
                  | Inr (threshold, attestors) \<Rightarrow>
                      register_parsed E caller r name ptype seq root threshold attestors s)))"

section \<open>Batches\<close>

definition load_registration :: "'a sys_env_scheme \<Rightarrow> u64 \<Rightarrow> overlay_store \<Rightarrow> json" where
  "load_registration E r s =
     (case sget E s (reg_key r) of
        None \<Rightarrow> JObj []
      | Some d \<Rightarrow> (case from_slice (value_json E) d of Inl _ \<Rightarrow> JObj [] | Inr v \<Rightarrow> v))"

definition expected_index :: "json \<Rightarrow> u64" where
  "expected_index reg = (case Option.bind (json_get ''latest_batch'' reg) as_u64 of
     None \<Rightarrow> 0 | Some n \<Rightarrow> n + 1)"

definition pre_state_root :: "json \<Rightarrow> u64 \<Rightarrow> hash option" where
  "pre_state_root reg batch_index =
     map_option (\<lambda>h. case h of None \<Rightarrow> 0 | Some x \<Rightarrow> x)
       (hex32_field (if batch_index = 0 then ''genesis_state_root'' else ''latest_state_root'') reg)"

definition committee_of :: "json \<Rightarrow> (nat \<times> hash list) option" where
  "committee_of reg =
     map_option (Pair (case Option.bind (json_get ''committee_threshold'' reg) as_u64 of
                         None \<Rightarrow> 0 | Some t \<Rightarrow> unat t))
       (case Option.bind (json_get ''committee_attestors'' reg) as_array of
          None \<Rightarrow> Some []
        | Some xs \<Rightarrow> hex32_list xs)"

text \<open>\<open>proof_verified\<close>, or the error of the early return.\<close>

definition check_batch_proof ::
    "'a sys_env_scheme \<Rightarrow> string \<Rightarrow> json \<Rightarrow> u64 \<Rightarrow> u64 \<Rightarrow> hash \<Rightarrow> hash \<Rightarrow> hash \<Rightarrow> bytes
     \<Rightarrow> call_error + bool" where
  "check_batch_proof E ptype reg r batch_index pre post data_hash pf =
     (if ptype = ''committee''
      then (case committee_of reg of
              None \<Rightarrow> Inl Panic
            | Some (threshold, attestors) \<Rightarrow>
                (case verify_committee_attestation (ed25519_verify E) r batch_index pre post data_hash
                        attestors threshold pf of
                   Inr True \<Rightarrow> Inr True
                 | Inr False \<Rightarrow> Inl (Msg ''batch proof: insufficient valid committee attestations'')
                 | Inl _ \<Rightarrow> Inl (Msg ''batch proof: malformed committee attestation data'')))
      else if ptype = ''mock''
      then (if pf = [] then Inl (Msg ''batch submission requires a proof'') else Inr False)
      else Inl (Msg (''no verifier for proof type '' @ [CHR 0x27] @ ptype @ [CHR 0x27])))"

definition batch_proof :: "bytes \<Rightarrow> bytes" where
  "batch_proof args =
     (if 84 < length args
      then let proof_len = u32_at args 80
           in if 84 + proof_len \<le> length args then take proof_len (drop 84 args) else []
      else [])"

definition batch_json ::
    "u64 \<Rightarrow> u64 \<Rightarrow> hash \<Rightarrow> hash \<Rightarrow> account_id \<Rightarrow> nat \<Rightarrow> bool \<Rightarrow> json" where
  "batch_json r batch_index root data_hash submitter proof_len verified =
     json_object
       [(''rollup_id'', JNum r), (''batch_index'', JNum batch_index),
        (''state_root'', JStr (hex_encode (id_bytes root))),
        (''data_hash'', JStr (hex_encode (id_bytes data_hash))),
        (''submitter'', JStr (hex_encode (id_bytes submitter))),
        (''proof_len'', JNum (of_nat proof_len)), (''verified'', JBool verified)]"

text \<open>The new tip of the batch chain in the registration; \<open>None\<close> is a panic.\<close>

definition update_registration ::
    "'a sys_env_scheme \<Rightarrow> u64 \<Rightarrow> hash \<Rightarrow> u64 \<Rightarrow> overlay_store \<Rightarrow> overlay_store option" where
  "update_registration E r root batch_index s =
     (case sget E s (reg_key r) of
        None \<Rightarrow> Some s
      | Some existing \<Rightarrow>
          (case from_slice (value_json E) existing of
             Inl _ \<Rightarrow> Some s
           | Inr reg \<Rightarrow>
               map_option (\<lambda>v. ov_put (reg_key r) (to_vec (value_json E) v) s)
                 (Option.bind (json_set ''latest_state_root'' (JStr (hex_encode (id_bytes root))) reg)
                   (json_set ''latest_batch'' (JNum batch_index)))))"

definition store_batch ::
    "'a sys_env_scheme \<Rightarrow> account_id \<Rightarrow> u64 \<Rightarrow> u64 \<Rightarrow> hash \<Rightarrow> hash \<Rightarrow> nat \<Rightarrow> bool
     \<Rightarrow> bridge_contract \<Rightarrow> overlay_store \<Rightarrow> bridge_contract flow" where
  "store_batch E caller r batch_index root data_hash proof_len verified b s =
     (let s1 = ov_put (batch_key r batch_index)
                (to_vec (value_json E) (batch_json r batch_index root data_hash caller proof_len verified)) s
      in case update_registration E r root batch_index s1 of
           None \<Rightarrow> Return Panic s1
         | Some s2 \<Rightarrow>
             Next None
               [bridge_log ''batch_submitted''
                  (le_bytes 8 r @ le_bytes 8 batch_index @ id_bytes root @ id_bytes data_hash)] b
               (ov_put (batch_count_key r)
                  (le_bytes 8 batch_index) s2))"

definition call_submit_batch ::
    "'a sys_env_scheme \<Rightarrow> account_id \<Rightarrow> bytes \<Rightarrow> bridge_contract \<Rightarrow> overlay_store \<Rightarrow> bridge_contract flow" where
  "call_submit_batch E caller args b s =
     (case read_u64 args 0 of
        None \<Rightarrow> Return (Msg ''invalid args: need rollup_id[8]'') s
      | Some r \<Rightarrow>
     (case read_u64 args 8 of
        None \<Rightarrow> Return (Msg ''invalid args: need batch_index[8]'') s
      | Some batch_index \<Rightarrow>
          if length args < 80
            then Return (Msg (''invalid args: need rollup_id[8] + batch_index[8] + state_root[32]'' @
              '' + data_hash[32]'')) s
          else let root = id_of_bytes (take 32 (drop 16 args));
                   data_hash = id_of_bytes (take 32 (drop 48 args));
                   pf = batch_proof args
          in (case get_rollup b r of
                None \<Rightarrow> Return (Msg ''rollup not registered'') s
              | Some rollup \<Rightarrow>
                  if sequencer rollup \<noteq> caller
                    then Return (Msg ''only the registered sequencer can submit batches'') s
                  else let reg = load_registration E r s
                  in if batch_index \<noteq> expected_index reg
                       then Return (Msg (''batch index out of sequence: expected '' @
                         dec_string (unat (expected_index reg)) @ '' got '' @
                         dec_string (unat batch_index))) s
                     else (case pre_state_root reg batch_index of
                       None \<Rightarrow> Return Panic s
                     | Some pre \<Rightarrow>
                         (case check_batch_proof E (proof_type rollup) reg r batch_index pre root
                                  data_hash pf of
                            Inl e \<Rightarrow> Return e s
                          | Inr verified \<Rightarrow>
                              store_batch E caller r batch_index root data_hash (length pf) verified b s)))))"

section \<open>The call\<close>

definition bridge_flow ::
    "'a sys_env_scheme \<Rightarrow> account_id \<Rightarrow> string \<Rightarrow> bytes \<Rightarrow> overlay_store \<Rightarrow> bridge_contract flow" where
  "bridge_flow E caller meth args s =
     (let b = bridge_load E s in
      if meth = ''deposit'' then call_deposit E caller args b s
      else if meth = ''bridge_to_base'' then call_bridge_to_base E caller args b s
      else if meth = ''bridge_from_base'' then call_bridge_from_base E caller args b s
      else if meth = ''register_vault'' then call_register_vault args b s
      else if meth = ''register_rollup'' then call_register_rollup E caller args s
      else if meth = ''submit_batch'' then call_submit_batch E caller args b s
      else Next (Some (Msg (''unknown bridge method: '' @ meth))) [] b s)"

definition execute_bridge_call ::
    "'a sys_env_scheme \<Rightarrow> account_id \<Rightarrow> string \<Rightarrow> bytes \<Rightarrow> overlay_store
     \<Rightarrow> system_call_result \<times> overlay_store" where
  "execute_bridge_call E caller meth args s =
     finish (bridge_save E) (bridge_flow E caller meth args s)"

section \<open>Releases\<close>

lemma bridge_save_simps [ledger_simps]:
  "json_ok (bridge_json E) \<Longrightarrow> bridge_load E (bridge_save E b s) = b"
  "acct E (bridge_save E' b s) = acct E s"
  "accounts_ok E (bridge_save E' b s) = accounts_ok E s"
  "total_supply E (bridge_save E' b s) = total_supply E s"
  by (simp_all add: bridge_load_def bridge_save_def ledger_simps)

lemma processed_key_simps [ledger_simps]:
  "\<not> is_account_key (processed_key tx)" "processed_key tx \<noteq> ascii ''__bridge_state__''"
  by (simp_all add: is_account_key_iff processed_key_def ascii_simps)

lemma bridge_save_sget [ledger_simps]:
  "k \<noteq> ascii ''__bridge_state__'' \<Longrightarrow> sget E (bridge_save E' b s) k = sget E s k"
  by (simp add: bridge_save_def json_save_def)

lemma supply_put [ledger_simps]:
  "\<not> is_account_key k \<Longrightarrow> total_supply E (ov_put k v s) = total_supply E s"
  by (rule supply_same) (simp add: ledger_simps)

lemma flow_error_None:
  "finish save f = (r, s') \<Longrightarrow> sc_error r = None \<longleftrightarrow> (\<exists>evs c t. f = Next None evs c t)"
  "finish save (Next None evs c t) = (r, s') \<Longrightarrow> s' = save c t"
  by (auto simp: finish_def err_def split: flow.splits)

lemma release_flow:
  assumes "accounts_ok E s" "call_bridge_from_base E caller args b s = Next None evs b' t"
  obtains recipient amount vault where
    "is_relayer E s caller" "read_account_id args 0 = Some recipient" "read_u128 args 32 = Some amount"
    "sget E s (processed_key (id_of_bytes (take 32 (drop 48 args)))) = None"
    "acct E s BRIDGE_ADDRESS = Some vault" "amount \<le> balance vault"
    "t = ov_put (processed_key (id_of_bytes (take 32 (drop 48 args)))) [1]
       (credit_or_create E recipient amount
         (save_account E (vault\<lparr>balance := balance vault - amount\<rparr>) s))"
  using assms
  by (auto simp: call_bridge_from_base_def Let_def load_acct is_relayer_def not_less
      split: option.splits if_splits)

lemma release_again:
  "sget E s (processed_key (id_of_bytes (take 32 (drop 48 args)))) \<noteq> None \<Longrightarrow>
   \<nexists>evs b' t. call_bridge_from_base E caller args b s = Next None evs b' t"
  by (auto simp: call_bridge_from_base_def Let_def split: option.splits if_splits sum.splits)

lemma debit_supply:
  assumes "account_codec_ok E" "accounts_ok E s" "acct E s i = Some a" "amount \<le> balance a"
  shows "total_supply E (save_account E (a\<lparr>balance := balance a - amount\<rparr>) s) + unat amount = total_supply E s"
    and "accounts_ok E (save_account E (a\<lparr>balance := balance a - amount\<rparr>) s)"
    and "balance_of E (save_account E (a\<lparr>balance := balance a - amount\<rparr>) s) =
           (balance_of E s)(i := balance a - amount)"
proof -
  have i: "acct_id a = i" "balance_of E s i = balance a"
    using acct_id_acct [OF assms(2,3)] assms(3) by (simp_all add: balance_of_def)
  then show "total_supply E (save_account E (a\<lparr>balance := balance a - amount\<rparr>) s) + unat amount = total_supply E s"
    using supply_save [OF assms(1), of "a\<lparr>balance := balance a - amount\<rparr>" s] assms(4)
      balance_le_supply [of E s i]
    by (simp add: unat_sub_exact word_le_nat_alt)
  show "accounts_ok E (save_account E (a\<lparr>balance := balance a - amount\<rparr>) s)"
    using assms by (simp add: ledger_simps)
  show "balance_of E (save_account E (a\<lparr>balance := balance a - amount\<rparr>) s) =
      (balance_of E s)(i := balance a - amount)"
    using assms(1) i by (auto simp: balance_of_def ledger_simps fun_eq_iff)
qed

lemma credit_or_create_balance:
  assumes "account_codec_ok E" "accounts_ok E s"
  shows "balance_of E (credit_or_create E who amount s) =
    (balance_of E s)(who := sat_add (balance_of E s who) amount)"
  using assms
  by (cases "acct E s who")
    (auto simp: credit_or_create_present Let_def balance_of_def ledger_simps blank_account_def
      fun_eq_iff dest: acct_id_acct)

text \<open>C24: the Base bridge pays out only through its relayer and only once per Base transaction.
  A successful \<open>bridge_from_base\<close> call was made by the account configured as relayer; the
  transaction had not been processed before; the vault account pays exactly the amount and the
  recipient receives exactly the amount; the total supply stays the same; and in the
  resulting state every further release for that transaction is refused, whoever asks.\<close>

theorem bridge_release_authorised_once:
  assumes "account_codec_ok E" "accounts_ok E s" "total_supply E s < 2 ^ 128"
    and "execute_bridge_call E caller ''bridge_from_base'' args s = (r, s')" "sc_error r = None"
  shows "\<exists>recipient amount. is_relayer E s caller \<and>
    read_account_id args 0 = Some recipient \<and> read_u128 args 32 = Some amount \<and>
    sget E s (processed_key (id_of_bytes (take 32 (drop 48 args)))) = None \<and>
    total_supply E s' = total_supply E s \<and> accounts_ok E s' \<and>
    (\<forall>i. unat (balance_of E s' i) + (if i = BRIDGE_ADDRESS then unat amount else 0) =
         unat (balance_of E s i) + (if i = recipient then unat amount else 0)) \<and>
    (\<forall>caller' args' r' s''.
       take 32 (drop 48 args') = take 32 (drop 48 args) \<longrightarrow>
       execute_bridge_call E caller' ''bridge_from_base'' args' s' = (r', s'') \<longrightarrow>
       sc_error r' \<noteq> None)"
proof -
  let ?tx = "id_of_bytes (take 32 (drop 48 args))"
  obtain evs b' t where f: "call_bridge_from_base E caller args (bridge_load E s) s = Next None evs b' t"
    "s' = bridge_save E b' t"
    using assms(4,5) flow_error_None [of "bridge_save E"]
    by (fastforce simp: execute_bridge_call_def bridge_flow_def)
  obtain recipient amount vault where rel: "is_relayer E s caller"
    "read_account_id args 0 = Some recipient" "read_u128 args 32 = Some amount"
    "sget E s (processed_key ?tx) = None"
    "acct E s BRIDGE_ADDRESS = Some vault" "amount \<le> balance vault"
    "t = ov_put (processed_key ?tx) [1] (credit_or_create E recipient amount
         (save_account E (vault\<lparr>balance := balance vault - amount\<rparr>) s))"
    by (rule release_flow [OF assms(2) f(1)])
  define s1 where "s1 = save_account E (vault\<lparr>balance := balance vault - amount\<rparr>) s"
  note d = debit_supply [OF assms(1,2) rel(5,6), folded s1_def]
  have sup1: "total_supply E s1 + unat amount < 2 ^ 128"
    using d(1) assms(3) by simp
  note c = credit_or_create_supply [OF assms(1) d(2) sup1] credit_or_create_accounts [OF assms(1) d(2)]
    credit_or_create_balance [OF assms(1) d(2)]
  have bal: "balance_of E s' = balance_of E (credit_or_create E recipient amount s1)"
    using f(2) rel(7) by (simp add: balance_of_def fun_eq_iff ledger_simps s1_def)
  have "unat (balance_of E s1 recipient) + unat amount < 2 ^ 128"
    using balance_le_supply [of E s1 recipient] sup1 by simp
  then have sat: "unat (sat_add (balance_of E s1 recipient) amount) =
      unat (balance_of E s1 recipient) + unat amount"
    by (simp add: unat_sat_add)
  have vb: "balance_of E s BRIDGE_ADDRESS = balance vault" "unat amount \<le> unat (balance vault)"
    "unat (balance vault - amount) = unat (balance vault) - unat amount"
    using rel(5,6) by (simp_all add: balance_of_def word_le_nat_alt unat_sub_exact)
  have moved: "unat (balance_of E s' i) + (if i = BRIDGE_ADDRESS then unat amount else 0) =
      unat (balance_of E s i) + (if i = recipient then unat amount else 0)" for i
    using sat vb by (auto simp: bal c d(3))
  have refused: "sc_error r' \<noteq> None" if "take 32 (drop 48 args') = take 32 (drop 48 args)"
    "execute_bridge_call E caller' ''bridge_from_base'' args' s' = (r', s'')" for caller' args' r' s''
  proof -
    have "sget E s' (processed_key (id_of_bytes (take 32 (drop 48 args')))) \<noteq> None"
      using f(2) rel(7) that(1) by (simp add: ledger_simps)
    from release_again [OF this] show ?thesis
      using that(2) flow_error_None(1) [of "bridge_save E"]
      by (fastforce simp: execute_bridge_call_def bridge_flow_def)
  qed
  have "total_supply E s' = total_supply E s" "accounts_ok E s'"
    using f(2) rel(7) c(1,2) d(1) by (simp_all add: ledger_simps s1_def)
  then show ?thesis
    using rel(1-4) moved refused by blast
qed

definition sample_release_store :: overlay_store where
  "sample_release_store = ov_put (ascii ''__bridge_relayer__'') (id_bytes 3)
     (with_accounts sample_sys [sample_account BRIDGE_ADDRESS 100] ov_new)"

lemma not_relayer_key [ledger_simps]: "\<not> is_account_key (ascii ''__bridge_relayer__'')"
  by (simp add: is_account_key_iff ascii_simps)

lemma sample_release_store:
  "acct sample_sys sample_release_store = [BRIDGE_ADDRESS \<mapsto> sample_account BRIDGE_ADDRESS 100]"
  "accounts_ok sample_sys sample_release_store"
  "total_supply sample_sys sample_release_store = 100"
  "ov_get mem_new sample_release_store (ascii ''__bridge_relayer__'') = Some (id_bytes 3)"
  "ov_get mem_new sample_release_store (processed_key tx) = None"
proof -
  show "acct sample_sys sample_release_store = [BRIDGE_ADDRESS \<mapsto> sample_account BRIDGE_ADDRESS 100]"
    "accounts_ok sample_sys sample_release_store" "total_supply sample_sys sample_release_store = 100"
    by (simp_all add: sample_release_store_def ledger_simps acct_empty accounts_ok_empty supply_empty
        supply_new_account)
  have "processed_key tx \<noteq> ascii ''__bridge_relayer__''" "processed_key tx \<noteq> account_key i" for i
    by (simp_all add: processed_key_def account_key_def ascii_simps)
  then show "ov_get mem_new sample_release_store (ascii ''__bridge_relayer__'') = Some (id_bytes 3)"
    "ov_get mem_new sample_release_store (processed_key tx) = None"
    using sget_empty [of sample_sys] by (simp_all add: sample_release_store_def save_account_def)
qed

theorem bridge_release_authorised_once_witness:
  "\<exists>r s'. execute_bridge_call sample_sys 3 ''bridge_from_base''
       (id_bytes 5 @ le_bytes 16 (40 :: u128) @ id_bytes 77) sample_release_store = (r, s') \<and>
     sc_error r = None \<and> unat (balance_of sample_sys s' 5) = 40 \<and>
     unat (balance_of sample_sys s' BRIDGE_ADDRESS) = 60"
proof -
  let ?args = "id_bytes 5 @ le_bytes 16 (40 :: u128) @ id_bytes 77"
  obtain r s' where c: "execute_bridge_call sample_sys 3 ''bridge_from_base'' ?args
      sample_release_store = (r, s')"
    by fastforce
  have e: "sc_error r = None"
    using c
    by (auto simp: execute_bridge_call_def bridge_flow_def call_bridge_from_base_def Let_def
        sample_release_store load_acct finish_def)
  have ne: "BRIDGE_ADDRESS \<noteq> 5"
    by (simp add: BRIDGE_ADDRESS_def)
  have old: "balance_of sample_sys sample_release_store 5 = 0"
    "balance_of sample_sys sample_release_store BRIDGE_ADDRESS = 100"
    using ne by (simp_all add: balance_of_def sample_release_store)
  obtain recipient amount where m: "read_account_id ?args 0 = Some recipient"
    "read_u128 ?args 32 = Some amount"
    "\<forall>i. unat (balance_of sample_sys s' i) + (if i = BRIDGE_ADDRESS then unat amount else 0) =
         unat (balance_of sample_sys sample_release_store i) + (if i = recipient then unat amount else 0)"
    using bridge_release_authorised_once [OF sample_sys_simps(1) sample_release_store(2) _ c e]
    unfolding sample_release_store(3) by auto
  then have "recipient = 5" "amount = 40"
    by simp_all
  with m(3) [THEN spec, of 5] m(3) [THEN spec, of BRIDGE_ADDRESS] show ?thesis
    using c e ne old by simp
qed

section \<open>Batches\<close>

lemma map_of_obj_insert [simp]: "map_of (obj_insert k v m) = (map_of m)(k \<mapsto> v)"
  by (induction k v m rule: obj_insert.induct) auto

lemma decode_hex32_encode: "decode_hex32 (hex_encode (id_bytes h)) = Some (Some h)"
  using hex_pairs_encode [of "[]" "id_bytes h"] by (simp add: decode_hex32_def)

lemma dec_string_digits: "list_all (\<lambda>c. c \<noteq> CHR ''b'') (dec_string n)"
proof (induction n rule: dec_string.induct)
  case (1 n)
  have "digit_char k \<noteq> CHR ''b''" if "k < 10" for k
    using that by (auto simp: digit_char_def less_Suc_eq numeral_eq_Suc nth_Cons')
  then show ?case
    using 1 by (subst dec_string.simps) simp
qed

lemma reg_key_other:
  assumes "CHR ''b'' \<in> set k"
  shows "reg_key r \<noteq> ascii k"
proof
  assume "reg_key r = ascii k"
  then have k: "k = ''__rollup_'' @ dec_string (unat r) @ ''__''"
    by (simp only: reg_key_def ascii_inject)
  have "list_all (\<lambda>c. c \<noteq> CHR ''b'') k"
    unfolding k using dec_string_digits by simp
  then show False
    using assms unfolding list_all_iff by blast
qed

lemma batch_keys [ledger_simps]:
  "reg_key r \<noteq> batch_key r' i" "reg_key r \<noteq> batch_count_key r'" "reg_key r \<noteq> ascii ''__bridge_state__''"
  unfolding batch_key_def batch_count_key_def by (rule reg_key_other; simp)+

text \<open>The next batch, as the stored registration determines it.\<close>

lemma batch_flow:
  assumes "call_submit_batch E caller args b s = Next None evs b' t"
  obtains rid idx rollup pre verified where
    "read_u64 args 0 = Some rid" "read_u64 args 8 = Some idx" "get_rollup b rid = Some rollup"
    "sequencer rollup = caller" "idx = expected_index (load_registration E rid s)"
    "pre_state_root (load_registration E rid s) idx = Some pre"
    "check_batch_proof E (proof_type rollup) (load_registration E rid s) rid idx pre
       (id_of_bytes (take 32 (drop 16 args))) (id_of_bytes (take 32 (drop 48 args)))
       (batch_proof args) = Inr verified"
    "store_batch E caller rid idx (id_of_bytes (take 32 (drop 16 args)))
       (id_of_bytes (take 32 (drop 48 args))) (length (batch_proof args)) verified b s = Next None evs b' t"
  using assms
  by (auto simp: call_submit_batch_def Let_def split: option.splits if_splits sum.splits)

lemma committee_proof:
  assumes "check_batch_proof E ''committee'' reg r idx pre root d pf = Inr verified"
  obtains threshold attestors where "committee_of reg = Some (threshold, attestors)"
    "verify_committee_attestation (ed25519_verify E) r idx pre root d attestors threshold pf = Inr True"
  using assms by (auto simp: check_batch_proof_def split: option.splits sum.splits bool.splits)

lemma store_batch_tip:
  assumes "json_ok (value_json E)" "store_batch E caller r idx root d n verified b s = Next None evs b' t"
    and "sget E s (reg_key r) = Some data" "from_slice (value_json E) data = Inr (JObj m)"
  shows "load_registration E r (bridge_save E b' t) =
    JObj (obj_insert ''latest_batch'' (JNum idx)
      (obj_insert ''latest_state_root'' (JStr (hex_encode (id_bytes root))) m))"
  using assms
  by (auto simp: store_batch_def update_registration_def Let_def load_registration_def json_ok_def
      ledger_simps)

text \<open>C25: a batch of a committee rollup enters the chain only with the committee's consent.  A
  successful \<open>submit_batch\<close> call comes from the registered sequencer and carries the index
  after the last accepted batch; valid signatures of at least \<open>threshold\<close> different positions
  of the registered committee exist over the transition from the previous root to the posted
  root.  Afterwards the posted root is the previous root of the next batch, and the committee
  is unchanged.\<close>

theorem committee_batch_attested_in_sequence:
  assumes "json_ok (value_json E)"
    and "execute_bridge_call E caller ''submit_batch'' args s = (r, s')" "sc_error r = None"
    and "read_u64 args 0 = Some rid" "get_rollup (bridge_load E s) rid = Some rollup"
    and "proof_type rollup = ''committee''"
    and "sget E s (reg_key rid) = Some data" "from_slice (value_json E) data = Inr (JObj m)"
  shows "\<exists>idx pre threshold attestors I.
    sequencer rollup = caller \<and> read_u64 args 8 = Some idx \<and>
    idx = expected_index (JObj m) \<and> pre_state_root (JObj m) idx = Some pre \<and>
    committee_of (JObj m) = Some (threshold, attestors) \<and> 0 < threshold \<and> threshold \<le> card I \<and>
    (\<forall>i\<in>I. attested (ed25519_verify E)
       (committee_attestation_message rid idx pre (id_of_bytes (take 32 (drop 16 args)))
         (id_of_bytes (take 32 (drop 48 args)))) attestors i) \<and>
    expected_index (load_registration E rid s') = idx + 1 \<and>
    (idx + 1 \<noteq> 0 \<longrightarrow> pre_state_root (load_registration E rid s') (idx + 1) =
       Some (id_of_bytes (take 32 (drop 16 args)))) \<and>
    committee_of (load_registration E rid s') = committee_of (JObj m)"
proof -
  obtain evs b' t where f: "call_submit_batch E caller args (bridge_load E s) s = Next None evs b' t"
    "s' = bridge_save E b' t"
    using assms(2,3) flow_error_None [of "bridge_save E"]
    by (fastforce simp: execute_bridge_call_def bridge_flow_def)
  have reg: "load_registration E rid s = JObj m"
    using assms(7,8) by (simp add: load_registration_def)
  obtain rid' idx rollup' pre verified where b': "read_u64 args 0 = Some rid'" "read_u64 args 8 = Some idx"
    "get_rollup (bridge_load E s) rid' = Some rollup'" "sequencer rollup' = caller"
    "idx = expected_index (load_registration E rid' s)"
    "pre_state_root (load_registration E rid' s) idx = Some pre"
    "check_batch_proof E (proof_type rollup') (load_registration E rid' s) rid' idx pre
       (id_of_bytes (take 32 (drop 16 args))) (id_of_bytes (take 32 (drop 48 args)))
       (batch_proof args) = Inr verified"
    "store_batch E caller rid' idx (id_of_bytes (take 32 (drop 16 args)))
       (id_of_bytes (take 32 (drop 48 args))) (length (batch_proof args)) verified (bridge_load E s) s
       = Next None evs b' t"
    by (rule batch_flow [OF f(1)])
  have [simp]: "rid' = rid" "rollup' = rollup"
    using b'(1,3) assms(4,5) by auto
  note b = b'(2,4-8) [unfolded reg assms(6) \<open>rid' = rid\<close> \<open>rollup' = rollup\<close>]
  obtain threshold attestors where c: "committee_of (JObj m) = Some (threshold, attestors)"
    "verify_committee_attestation (ed25519_verify E) rid idx pre (id_of_bytes (take 32 (drop 16 args)))
       (id_of_bytes (take 32 (drop 48 args))) attestors threshold (batch_proof args) = Inr True"
    by (rule committee_proof [OF b(5)])
  obtain I where I: "finite I" "threshold \<le> card I" "0 < threshold"
    "\<forall>i\<in>I. attested (ed25519_verify E) (committee_attestation_message rid idx pre
       (id_of_bytes (take 32 (drop 16 args))) (id_of_bytes (take 32 (drop 48 args)))) attestors i"
    by (rule verify_committee_accepts [OF c(2)])
  note tip = store_batch_tip [OF assms(1) b(6) assms(7,8), folded f(2)]
  have "expected_index (load_registration E rid s') = idx + 1"
    "idx + 1 \<noteq> 0 \<Longrightarrow> pre_state_root (load_registration E rid s') (idx + 1) =
       Some (id_of_bytes (take 32 (drop 16 args)))"
    "committee_of (load_registration E rid s') = committee_of (JObj m)"
    unfolding tip
    by (simp_all add: expected_index_def pre_state_root_def hex32_field_def decode_hex32_encode
        committee_of_def)
  then show ?thesis
    using b(1-4) c(1) I(2-4)
    by (intro exI [of _ idx] exI [of _ pre] exI [of _ threshold] exI [of _ attestors] exI [of _ I]) simp
qed

definition sample_rollup :: bridge_contract where
  "sample_rollup = \<lparr>vaults = [], pending_withdrawals = [], registered_rollups =
     [\<lparr>rollup_id = 1, rollup_name = ''r'', proof_type = ''committee'', sequencer = 3,
       genesis_state_root = 7, registered_at_height = 0\<rparr>], next_withdrawal_id = 0\<rparr>"

definition sample_registration :: json where
  "sample_registration = reg_json 1 ''committee'' 7 3 1 [11]"

definition sample_batch_store :: overlay_store where
  "sample_batch_store = ov_put (reg_key 1) (to_vec sample_json sample_registration)
     (bridge_save sample_sys sample_rollup ov_new)"

definition sample_attestation :: bytes where
  "sample_attestation = le_bytes 4 (1 :: u32) @ le_bytes 4 (0 :: u32) @ id_bytes 11 @
     id_bytes (sample_hash (committee_attestation_message 1 0 7 42 43))"

definition sample_batch :: bytes where
  "sample_batch = le_bytes 8 (1 :: u64) @ le_bytes 8 (0 :: u64) @ id_bytes 42 @ id_bytes 43 @
     le_bytes 4 (72 :: u32) @ sample_attestation"

lemma sample_batch_parts:
  "read_u64 sample_batch 0 = Some 1" "read_u64 sample_batch 8 = Some 0" "length sample_batch = 156"
  "take 32 (drop 16 sample_batch) = id_bytes 42" "take 32 (drop 48 sample_batch) = id_bytes 43"
  "batch_proof sample_batch = sample_attestation"
  by (simp_all add: sample_batch_def sample_attestation_def read_u64_def of_le_bytes_le_bytes
      batch_proof_def u32_at_def)

lemma sample_registration_parts:
  "expected_index sample_registration = 0" "pre_state_root sample_registration 0 = Some 7"
  "committee_of sample_registration = Some (1, [11])"
  by (simp_all add: sample_registration_def reg_json_def json_object_def expected_index_def
      pre_state_root_def hex32_field_def committee_of_def decode_hex32_encode)

lemma sample_attestation_valid:
  "verify_committee_attestation (ed25519_verify sample_sys) 1 0 7 42 43 [11] 1 sample_attestation = Inr True"
proof -
  have "u32_at sample_attestation 0 = 1" "u32_at sample_attestation 4 = 0" "length sample_attestation = 72"
    "take 64 (drop 8 sample_attestation) =
       id_bytes 11 @ id_bytes (sample_hash (committee_attestation_message 1 0 7 42 43))"
    by (simp_all add: sample_attestation_def u32_at_def of_le_bytes_le_bytes)
  then show ?thesis
    by (simp add: verify_committee_attestation_def Let_def)
qed

lemma sample_batch_store:
  "ov_get mem_new sample_batch_store (reg_key 1) = Some (to_vec sample_json sample_registration)"
  "bridge_load sample_sys sample_batch_store = sample_rollup"
  "load_registration sample_sys 1 sample_batch_store = sample_registration"
proof -
  have "reg_key 1 \<noteq> ascii ''__bridge_state__''"
    by (rule batch_keys)
  then show "ov_get mem_new sample_batch_store (reg_key 1) = Some (to_vec sample_json sample_registration)"
    "bridge_load sample_sys sample_batch_store = sample_rollup"
    "load_registration sample_sys 1 sample_batch_store = sample_registration"
    by (simp_all add: sample_batch_store_def bridge_load_def bridge_save_def json_load_def json_save_def
        load_registration_def sample_json_def)
qed

theorem committee_batch_attested_in_sequence_witness:
  "\<exists>r s'. execute_bridge_call sample_sys 3 ''submit_batch'' sample_batch sample_batch_store = (r, s') \<and>
     sc_error r = None \<and> expected_index (load_registration sample_sys 1 s') = 1 \<and>
     pre_state_root (load_registration sample_sys 1 s') 1 = Some 42"
proof -
  obtain m where m: "sample_registration = JObj m"
    by (simp add: sample_registration_def reg_json_def json_object_def)
  obtain r s' where c: "execute_bridge_call sample_sys 3 ''submit_batch'' sample_batch sample_batch_store
      = (r, s')"
    by fastforce
  have get: "get_rollup sample_rollup 1 = Some (hd (registered_rollups sample_rollup))"
    "proof_type (hd (registered_rollups sample_rollup)) = ''committee''"
    by (simp_all add: sample_rollup_def get_rollup_def)
  have e: "sc_error r = None"
    using c
    by (auto simp: execute_bridge_call_def bridge_flow_def call_submit_batch_def Let_def
        sample_batch_parts sample_batch_store get sample_registration_parts [unfolded m]
        check_batch_proof_def sample_attestation_valid [simplified] store_batch_def update_registration_def m
        finish_def sample_rollup_def get_rollup_def sample_json_def ledger_simps)
  have "sget sample_sys sample_batch_store (reg_key 1) = Some (to_vec sample_json sample_registration)"
    "from_slice (value_json sample_sys) (to_vec sample_json sample_registration) = Inr (JObj m)"
    by (simp_all add: sample_batch_store, simp add: sample_json_def m)
  from committee_batch_attested_in_sequence [OF _ c e sample_batch_parts(1) _ get(2) this]
  have "expected_index (load_registration sample_sys 1 s') = 1 \<and>
     pre_state_root (load_registration sample_sys 1 s') 1 = Some 42"
    using get(1) sample_batch_parts(2,4) by (auto simp: sample_batch_store)
  then show ?thesis using c e by blast
qed

end
