(* ===== verification/Vesting_Calls.thy ===== *)
theory Vesting_Calls
  imports Sample_Env
begin

text \<open>
  Calls to the vesting and treasury contracts, \<open>execute_vesting_call\<close> and
  \<open>execute_treasury_call\<close> of \<open>crates/solen-execution/src/system_calls.rs\<close>.  Proved here: the
  vesting calls only move tokens between accounts; and a successful claim leaves the stored
  schedule as it was, so the same tokens can be claimed again until the vault is empty.
\<close>

section \<open>Methods\<close>

definition vesting_event :: "string \<Rightarrow> bytes \<Rightarrow> event" where
  "vesting_event t d = \<lparr>emitter = VESTING_ADDRESS, topic = ascii t, ev_data = d\<rparr>"

definition call_claim ::
    "'a sys_env_scheme \<Rightarrow> account_id \<Rightarrow> vesting_contract \<Rightarrow> overlay_store \<Rightarrow> vesting_contract flow" where
  "call_claim E caller vc s =
     (case claim vc caller (read_current_epoch E s) of
        Inl e \<Rightarrow> Next (Some (VestingErr e)) [] vc s
      | Inr (amount, vc1) \<Rightarrow>
          let underfunded = Return (Msg (''vesting vault underfunded '' @ em_dash @
                '' claim unavailable until the vault is funded'')) s
          in (case load_account E s VESTING_ADDRESS of
                Inr (Some vault) \<Rightarrow>
                  if amount \<le> balance vault
                  then let s1 = save_account E (vault\<lparr>balance := balance vault - amount\<rparr>) s;
                           s2 = credit E caller amount s1
                       in Next None
                            [vesting_event ''vesting_claim'' (id_bytes caller @ le_bytes 16 amount)]
                            (vesting_load E s2) s2
                  else underfunded
              | _ \<Rightarrow> underfunded))"

fun vesting_type_debug :: "vesting_type \<Rightarrow> string" where
  "vesting_type_debug Team = ''Team''"
| "vesting_type_debug Investor = ''Investor''"
| "vesting_type_debug Validator = ''Validator''"
| "vesting_type_debug (Custom c t) =
     ''Custom { cliff_epochs: '' @ dec_string (unat c) @ '', total_epochs: '' @ dec_string (unat t) @ '' }''"

definition call_status ::
    "'a sys_env_scheme \<Rightarrow> account_id \<Rightarrow> vesting_contract \<Rightarrow> overlay_store \<Rightarrow> vesting_contract flow" where
  "call_status E caller vc s =
     (case get_schedule vc caller of
        None \<Rightarrow> Next (Some (Msg ''no vesting schedule for this account'')) [] vc s
      | Some schedule \<Rightarrow>
          let current_epoch = read_current_epoch E s
          in Next None
               [vesting_event ''vesting_status'' (ascii
                 (''total='' @ dec_string (unat (total_amount schedule)) @
                  '',vested='' @ dec_string (unat (vested_at schedule current_epoch)) @
                  '',claimed='' @ dec_string (unat (claimed schedule)) @
                  '',claimable='' @ dec_string (unat (claimable_at schedule current_epoch)) @
                  '',type='' @ vesting_type_debug (vs_type schedule)))] vc s)"

definition read_vesting_type :: "bytes \<Rightarrow> string + vesting_type" where
  "read_vesting_type args =
     (let tag = args ! 48 in
      if tag = 0 then Inr Team
      else if tag = 1 then Inr Investor
      else if tag = 2 then Inr Validator
      else if tag = 3
        then (if length args < 65
              then Inl ''add_vesting: Custom type needs cliff_epochs[8] + total_epochs[8]''
              else Inr (Custom (of_le_bytes (take 8 (drop 49 args))) (of_le_bytes (take 8 (drop 57 args)))))
      else Inl ''add_vesting: invalid vesting type'')"

definition call_add_vesting ::
    "'a sys_env_scheme \<Rightarrow> account_id \<Rightarrow> bytes \<Rightarrow> overlay_store \<Rightarrow> vesting_contract flow" where
  "call_add_vesting E caller args s =
     (if length args < 49
      then Return (Msg ''add_vesting: invalid args (need recipient[32] + amount[16] + type[1])'') s
      else let recipient = id_of_bytes (take 32 args);
               amount = of_le_bytes (take 16 (drop 32 args)) :: u128
      in case read_vesting_type args of
           Inl m \<Rightarrow> Return (Msg m) s
         | Inr vtype \<Rightarrow>
             (case load_account E s TREASURY_ADDRESS of
                Inr (Some treasury) \<Rightarrow>
                  if balance treasury < amount
                  then Return (Msg ''add_vesting: insufficient Treasury balance'') s
                  else let s1 = save_account E (treasury\<lparr>balance := balance treasury - amount\<rparr>) s;
                           s2 = credit_or_create E VESTING_ADDRESS amount s1;
                           vc = vesting_load E s2
                  in (case add_schedule_admin vc caller recipient amount vtype (read_current_epoch E s2) of
                        Inr vc' \<Rightarrow> Next None
                          [vesting_event ''vesting_added'' (id_bytes recipient @ le_bytes 16 amount)] vc' s2
                      | Inl e \<Rightarrow> Next (Some (VestingErr e)) [] vc s2)
              | _ \<Rightarrow> Return (Msg ''add_vesting: Treasury account not found'') s))"

definition call_set_vesting_admin ::
    "account_id \<Rightarrow> bytes \<Rightarrow> vesting_contract \<Rightarrow> overlay_store \<Rightarrow> vesting_contract flow" where
  "call_set_vesting_admin caller args vc s =
     (if length args < 32 then Return (Msg ''set_vesting_admin: need new_admin[32]'') s
      else let new_admin = id_of_bytes (take 32 args)
      in case set_admin vc caller new_admin of
           Inr vc' \<Rightarrow> Next None [vesting_event ''vesting_admin_set'' (id_bytes new_admin)] vc' s
         | Inl e \<Rightarrow> Next (Some (VestingErr e)) [] vc s)"

definition vesting_flow ::
    "'a sys_env_scheme \<Rightarrow> account_id \<Rightarrow> string \<Rightarrow> bytes \<Rightarrow> overlay_store \<Rightarrow> vesting_contract flow" where
  "vesting_flow E caller meth args s =
     (let vc = vesting_load E s in
      if meth = ''claim'' then call_claim E caller vc s
      else if meth = ''status'' then call_status E caller vc s
      else if meth = ''add_vesting'' then call_add_vesting E caller args s
      else if meth = ''set_vesting_admin'' then call_set_vesting_admin caller args vc s
      else Next (Some (Msg (''unknown vesting method: '' @ meth))) [] vc s)"

definition execute_vesting_call ::
    "'a sys_env_scheme \<Rightarrow> account_id \<Rightarrow> string \<Rightarrow> bytes \<Rightarrow> overlay_store
     \<Rightarrow> system_call_result \<times> overlay_store" where
  "execute_vesting_call E caller meth args s =
     finish (vesting_save E) (vesting_flow E caller meth args s)"

definition execute_treasury_call ::
    "'a sys_env_scheme \<Rightarrow> string \<Rightarrow> overlay_store \<Rightarrow> system_call_result \<times> overlay_store" where
  "execute_treasury_call E meth s =
     (let t = treasury_load E s in
      if meth = ''status''
      then (\<lparr>sc_gas_used = SYSTEM_CALL_GAS,
             sc_events = [\<lparr>emitter = TREASURY_ADDRESS, topic = ascii ''treasury_status'',
               ev_data = ascii (''balance='' @ dec_string (unat (treasury_balance t)) @
                 '',collected='' @ dec_string (unat (total_fees_collected t)) @
                 '',burned='' @ dec_string (unat (total_burned t)))\<rparr>],
             sc_error = None\<rparr>, s)
      else (err (Msg (''unknown treasury method: '' @ meth)), s))"

section \<open>Claims\<close>

lemma vesting_save_simps [ledger_simps]:
  "json_ok (vesting_json E) \<Longrightarrow> vesting_load E (vesting_save E vc s) = vc"
  "acct E (vesting_save E' vc s) = acct E s"
  "accounts_ok E (vesting_save E' vc s) = accounts_ok E s"
  "total_supply E (vesting_save E' vc s) = total_supply E s"
  "vesting_load E (save_account E' a s) = vesting_load E s"
  by (simp_all add: vesting_load_def vesting_save_def ledger_simps)

lemma vesting_save_epoch [ledger_simps]:
  "read_current_epoch E (vesting_save E' vc s) = read_current_epoch E s"
  "read_current_epoch E (save_account E' a s) = read_current_epoch E s"
  by (simp_all add: read_current_epoch_def vesting_save_def json_save_def ledger_simps)

text \<open>What a claim that goes through leaves behind.\<close>

lemma claim_call:
  assumes "account_codec_ok E" "json_ok (vesting_json E)" "accounts_ok E s"
    and "claim (vesting_load E s) caller (read_current_epoch E s) = Inr (amount, vc1)"
    and "acct E s VESTING_ADDRESS = Some vault" "amount \<le> balance vault"
    and "acct E s caller = Some a" "caller \<noteq> VESTING_ADDRESS"
    and "execute_vesting_call E caller ''claim'' args s = (r, s')"
  shows "sc_error r = None" "accounts_ok E s'" "vesting_load E s' = vesting_load E s"
    and "read_current_epoch E s' = read_current_epoch E s"
    and "acct E s' = (acct E s)(VESTING_ADDRESS \<mapsto> vault\<lparr>balance := balance vault - amount\<rparr>,
           caller \<mapsto> a\<lparr>balance := sat_add (balance a) amount\<rparr>)"
proof -
  have ids: "acct_id vault = VESTING_ADDRESS" "acct_id a = caller"
    using assms by (auto dest: acct_id_acct)
  define s1 where "s1 = save_account E (vault\<lparr>balance := balance vault - amount\<rparr>) s"
  have s1: "accounts_ok E s1" "acct E s1 caller = Some a"
    using assms ids by (simp_all add: s1_def ledger_simps)
  have "s' = vesting_save E (vesting_load E s)
      (save_account E (a\<lparr>balance := sat_add (balance a) amount\<rparr>) s1) \<and> sc_error r = None"
    using assms(3-6,9)
    by (auto simp: execute_vesting_call_def vesting_flow_def call_claim_def load_acct Let_def
        finish_def s1_def [symmetric] credit_present [OF s1] ledger_simps) (auto simp: s1_def ledger_simps)
  then show "sc_error r = None" "accounts_ok E s'" "vesting_load E s' = vesting_load E s"
    "read_current_epoch E s' = read_current_epoch E s"
    "acct E s' = (acct E s)(VESTING_ADDRESS \<mapsto> vault\<lparr>balance := balance vault - amount\<rparr>,
           caller \<mapsto> a\<lparr>balance := sat_add (balance a) amount\<rparr>)"
    using assms(1,2) s1 ids by (auto simp: ledger_simps s1_def)
qed

definition claim_times ::
    "'a sys_env_scheme \<Rightarrow> account_id \<Rightarrow> nat \<Rightarrow> overlay_store \<Rightarrow> overlay_store" where
  "claim_times E caller n s = ((\<lambda>s. snd (execute_vesting_call E caller ''claim'' [] s)) ^^ n) s"

lemma claims_repeat:
  assumes ok: "account_codec_ok E" "json_ok (vesting_json E)" "accounts_ok E s"
    and cl: "claim (vesting_load E s) caller (read_current_epoch E s) = Inr (amount, vc1)"
    and ac: "acct E s VESTING_ADDRESS = Some vault" "acct E s caller = Some a" "caller \<noteq> VESTING_ADDRESS"
    and sup: "total_supply E s < 2 ^ 128" and n: "n * unat amount \<le> unat (balance vault)"
  shows "accounts_ok E (claim_times E caller n s) \<and>
    vesting_load E (claim_times E caller n s) = vesting_load E s \<and>
    read_current_epoch E (claim_times E caller n s) = read_current_epoch E s \<and>
    (\<exists>v' a'. acct E (claim_times E caller n s) VESTING_ADDRESS = Some v' \<and>
       acct E (claim_times E caller n s) caller = Some a' \<and>
       unat (balance v') + n * unat amount = unat (balance vault) \<and>
       unat (balance a') = unat (balance a) + n * unat amount)"
  using n
proof (induction n)
  case 0
  then show ?case using ok ac by (simp add: claim_times_def)
next
  case (Suc n)
  define t where "t = claim_times E caller n s"
  obtain v' a' where t: "accounts_ok E t" "vesting_load E t = vesting_load E s"
    "read_current_epoch E t = read_current_epoch E s"
    "acct E t VESTING_ADDRESS = Some v'" "acct E t caller = Some a'"
    "unat (balance v') + n * unat amount = unat (balance vault)"
    "unat (balance a') = unat (balance a) + n * unat amount"
    using Suc t_def by auto
  obtain r t' where c: "execute_vesting_call E caller ''claim'' [] t = (r, t')"
    by fastforce
  have le: "amount \<le> balance v'"
    using t(6) Suc.prems by (simp add: word_le_nat_alt)
  have "unat (balance a) + unat (balance vault) < 2 ^ 128"
    using two_balances_le_supply [of caller VESTING_ADDRESS E s] ac sup by (simp add: balance_of_def)
  then have "unat (sat_add (balance a') amount) = unat (balance a) + Suc n * unat amount"
    using t(7) Suc.prems by (simp add: unat_sat_add)
  moreover have "claim_times E caller (Suc n) s = t'"
    using c by (simp add: claim_times_def t_def)
  moreover have "unat (balance v' - amount) + Suc n * unat amount = unat (balance vault)"
    using le t(6) by (simp add: unat_sub_exact word_le_nat_alt)
  ultimately show ?case
    using claim_call [OF ok(1,2) t(1) _ t(4) le t(5) ac(3) c] cl t(2,3) ac(3) by simp
qed

text \<open>C21: a claim through the system call is not recorded.  The handler reads the contract again
  after crediting the account and saves that copy, in which the claimed counter has not
  moved.  Whatever a recipient may claim at some epoch, they may claim any number of times, as
  long as the vesting vault holds the tokens of the other recipients.\<close>

theorem vesting_claim_repeatable:
  assumes "account_codec_ok E" "json_ok (vesting_json E)" "accounts_ok E s" "total_supply E s < 2 ^ 128"
    and "claim (vesting_load E s) caller (read_current_epoch E s) = Inr (amount, vc1)"
    and "acct E s VESTING_ADDRESS = Some vault" "acct E s caller = Some a" "caller \<noteq> VESTING_ADDRESS"
    and "n * unat amount \<le> unat (balance vault)"
  shows "unat (balance_of E (claim_times E caller n s) caller) = unat (balance a) + n * unat amount \<and>
    vesting_load E (claim_times E caller n s) = vesting_load E s"
  using claims_repeat [OF assms(1-3,5-8,4,9)] by (auto simp: balance_of_def)

definition sample_vesting :: vesting_contract where
  "sample_vesting = \<lparr>schedules = [\<lparr>vs_recipient = 7, total_amount = 1000, claimed = 0,
     vs_type = Custom 0 0, start_epoch = 0\<rparr>], admin = None\<rparr>"

definition sample_vesting_store :: overlay_store where
  "sample_vesting_store = vesting_save sample_sys sample_vesting
     (with_accounts sample_sys [sample_account 7 5, sample_account VESTING_ADDRESS 4000] ov_new)"

lemma vesting_not_7 [simp]: "VESTING_ADDRESS \<noteq> 7" "7 \<noteq> VESTING_ADDRESS"
  by (simp_all add: VESTING_ADDRESS_def not_sym [OF addr_not_small(6)])

lemma sample_vesting_store:
  "acct sample_sys sample_vesting_store =
     [7 \<mapsto> sample_account 7 5, VESTING_ADDRESS \<mapsto> sample_account VESTING_ADDRESS 4000]"
  "accounts_ok sample_sys sample_vesting_store"
  "vesting_load sample_sys sample_vesting_store = sample_vesting"
  "total_supply sample_sys sample_vesting_store = 4005"
  by (simp_all add: sample_vesting_store_def ledger_simps acct_empty accounts_ok_empty
      supply_new_account supply_empty)

theorem vesting_claim_repeatable_witness:
  "unat (balance_of sample_sys (claim_times sample_sys 7 4 sample_vesting_store) 7) = 4005"
proof -
  have "\<exists>vc. claim (vesting_load sample_sys sample_vesting_store) 7
      (read_current_epoch sample_sys sample_vesting_store) = Inr (1000, vc)"
    by (simp add: sample_vesting_store sample_vesting_def claim_def claimable_at_def vested_at_def
        Let_def sat_sub_def)
  then obtain vc where "claim (vesting_load sample_sys sample_vesting_store) 7
      (read_current_epoch sample_sys sample_vesting_store) = Inr (1000, vc)" ..
  from vesting_claim_repeatable [OF _ _ _ _ this, of "sample_account VESTING_ADDRESS 4000"
      "sample_account 7 5" 4]
  show ?thesis by (simp add: sample_vesting_store)
qed

end
