(* ===== verification/Guardian_Calls.thy ===== *)
theory Guardian_Calls
  imports Sample_Env
begin

text \<open>
  Calls to the guardian recovery contract and the paymaster registry,
  \<open>execute_guardian_call\<close> and \<open>execute_paymaster_call\<close> of
  \<open>crates/solen-execution/src/system_calls.rs\<close>.  Proved here: a guardian call changes an
  account only by executing a recovery request that may be executed at that height, and then
  replaces nothing but the account's authentication methods.
\<close>

section \<open>Guardian recovery\<close>

definition guardian_log :: "string \<Rightarrow> bytes \<Rightarrow> event" where
  "guardian_log t d = \<lparr>emitter = GUARDIAN_ADDRESS, topic = ascii t, ev_data = d\<rparr>"

fun guardian_of :: "auth_method \<Rightarrow> account_id option" where
  "guardian_of (Guardian g) = Some g"
| "guardian_of _ = None"

definition call_initiate_recovery ::
    "'a sys_env_scheme \<Rightarrow> account_id \<Rightarrow> bytes \<Rightarrow> guardian_contract \<Rightarrow> overlay_store
     \<Rightarrow> guardian_contract flow" where
  "call_initiate_recovery E caller args g s =
     (case read_account_id args 0 of
        None \<Rightarrow> Return (Msg ''invalid args: need target_account[32] + new_auth_methods_json'') s
      | Some target \<Rightarrow>
     (case from_slice (auth_json E) (drop 32 args) of
        Inl e \<Rightarrow> Return (Msg (''invalid new_auth_methods JSON: '' @ e)) s
      | Inr new_auth \<Rightarrow>
     (case load_account E s target of
        Inr (Some target_acct) \<Rightarrow>
          let gids = List.map_filter guardian_of (auth_methods target_acct)
          in if gids = [] then Return (Msg ''target account has no guardians configured'') s
             else (case initiate_recovery g target caller new_auth gids (chain_height E s) of
               Inr (rid, g') \<Rightarrow> Next None
                 [guardian_log ''recovery_initiated'' (id_bytes target @ le_bytes 8 rid)] g' s
             | Inl e \<Rightarrow> Next (Some (GuardianErr e)) [] g s)
      | _ \<Rightarrow> Return (Msg ''target account not found'') s)))"

definition call_confirm_recovery ::
    "account_id \<Rightarrow> bytes \<Rightarrow> guardian_contract \<Rightarrow> overlay_store \<Rightarrow> guardian_contract flow" where
  "call_confirm_recovery caller args g s =
     (case read_u64 args 0 of
        None \<Rightarrow> Return (Msg ''invalid args: need recovery_id[8]'') s
      | Some rid \<Rightarrow>
          (case confirm_recovery g rid caller of
             Inr g' \<Rightarrow> Next None
               [guardian_log ''recovery_confirmed'' (id_bytes caller @ le_bytes 8 rid)] g' s
           | Inl e \<Rightarrow> Next (Some (GuardianErr e)) [] g s))"

definition call_cancel_recovery ::
    "account_id \<Rightarrow> bytes \<Rightarrow> guardian_contract \<Rightarrow> overlay_store \<Rightarrow> guardian_contract flow" where
  "call_cancel_recovery caller args g s =
     (case read_u64 args 0 of
        None \<Rightarrow> Return (Msg ''invalid args: need recovery_id[8]'') s
      | Some rid \<Rightarrow>
          (case cancel_recovery g rid caller of
             Inr g' \<Rightarrow> Next None [guardian_log ''recovery_cancelled'' (le_bytes 8 rid)] g' s
           | Inl e \<Rightarrow> Next (Some (GuardianErr e)) [] g s))"

text \<open>
  \<open>execute_recovery\<close> saves the contract itself and returns from the function, so it yields the
  final result, not a \<open>flow\<close>.
\<close>

definition call_execute_recovery ::
    "'a sys_env_scheme \<Rightarrow> bytes \<Rightarrow> guardian_contract \<Rightarrow> overlay_store
     \<Rightarrow> system_call_result \<times> overlay_store" where
  "call_execute_recovery E args g s =
     (case read_u64 args 0 of
        None \<Rightarrow> (err (Msg ''invalid args: need recovery_id[8]''), s)
      | Some rid \<Rightarrow>
     (case can_execute g rid (chain_height E s) of
        Inl e \<Rightarrow> (err (GuardianErr e), s)
      | Inr _ \<Rightarrow>
     (case mark_executed g rid of
        Inl e \<Rightarrow> (err (GuardianErr e), s)
      | Inr (req, g') \<Rightarrow>
          let s1 = guardian_save E g' s
          in (case load_account E s1 (target_account req) of
                Inr (Some a) \<Rightarrow>
                  (\<lparr>sc_gas_used = SYSTEM_CALL_GAS,
                    sc_events = [guardian_log ''recovery_executed''
                                   (id_bytes (target_account req) @ le_bytes 8 rid)],
                    sc_error = None\<rparr>,
                   save_account E (a\<lparr>auth_methods := new_auth_methods req\<rparr>) s1)
              | _ \<Rightarrow> (err (Msg ''target account not found''), s1)))))"

definition execute_guardian_call ::
    "'a sys_env_scheme \<Rightarrow> account_id \<Rightarrow> string \<Rightarrow> bytes \<Rightarrow> overlay_store
     \<Rightarrow> system_call_result \<times> overlay_store" where
  "execute_guardian_call E caller meth args s =
     (let g = guardian_load E s in
      if meth = ''initiate_recovery''
        then finish (guardian_save E) (call_initiate_recovery E caller args g s)
      else if meth = ''confirm_recovery''
        then finish (guardian_save E) (call_confirm_recovery caller args g s)
      else if meth = ''cancel_recovery''
        then finish (guardian_save E) (call_cancel_recovery caller args g s)
      else if meth = ''execute_recovery'' then call_execute_recovery E args g s
      else finish (guardian_save E)
             (Next (Some (Msg (''unknown guardian method: '' @ meth))) [] g s))"

section \<open>Paymaster registry\<close>

definition load_paymasters :: "'a sys_env_scheme \<Rightarrow> overlay_store \<Rightarrow> account_id list" where
  "load_paymasters E s = json_load E (paymasters_json E) (ascii ''__paymasters__'') [] s"

definition paymaster_result ::
    "string \<Rightarrow> bytes \<Rightarrow> system_call_result" where
  "paymaster_result t d = \<lparr>sc_gas_used = SYSTEM_CALL_GAS,
     sc_events = [\<lparr>emitter = PAYMASTER_REGISTRY_ADDRESS, topic = ascii t, ev_data = d\<rparr>], sc_error = None\<rparr>"

definition execute_paymaster_call ::
    "'a sys_env_scheme \<Rightarrow> account_id \<Rightarrow> string \<Rightarrow> overlay_store
     \<Rightarrow> system_call_result \<times> overlay_store" where
  "execute_paymaster_call E caller meth s =
     (if meth = ''register''
      then (case load_account E s caller of
              Inr (Some a) \<Rightarrow>
                if code_hash a \<noteq> 0
                then let ps = load_paymasters E s
                     in if caller \<in> set ps
                        then (err (Msg ''already registered as paymaster''), s)
                        else (paymaster_result ''paymaster_registered'' (id_bytes caller),
                              json_save (paymasters_json E) (ascii ''__paymasters__'') (ps @ [caller]) s)
                else (err (Msg ''only contracts can register as paymasters''), s)
            | _ \<Rightarrow> (err (Msg ''only contracts can register as paymasters''), s))
      else if meth = ''unregister''
      then (paymaster_result ''paymaster_unregistered'' (id_bytes caller),
            json_save (paymasters_json E) (ascii ''__paymasters__'')
              (filter (\<lambda>p. p \<noteq> caller) (load_paymasters E s)) s)
      else if meth = ''list''
      then (paymaster_result ''paymaster_list'' (ascii (dec_string (length (load_paymasters E s)))), s)
      else (err (Msg (''unknown paymaster method: '' @ meth)), s))"

section \<open>Recovery changes accounts only when it may\<close>

lemma guardian_save_simps [ledger_simps]:
  "json_ok (guardian_json E) \<Longrightarrow> guardian_load E (guardian_save E g s) = g"
  "acct E (guardian_save E' g s) = acct E s"
  "accounts_ok E (guardian_save E' g s) = accounts_ok E s"
  "guardian_load E (save_account E' a s) = guardian_load E s"
  by (simp_all add: guardian_load_def guardian_save_def ledger_simps)

lemma can_execute_mark_executed:
  "can_execute g rid h = Inr req \<Longrightarrow> mark_executed g rid = Inr (req', g') \<Longrightarrow>
   target_account req' = target_account req \<and> new_auth_methods req' = new_auth_methods req"
  by (auto simp: can_execute_def mark_executed_def split: option.splits if_splits)

lemma find_executed_None:
  "distinct (map rr_id rs) \<Longrightarrow>
   find (is_pending rid) (update_first (is_pending rid) (\<lambda>r. r\<lparr>rr_status := recovery_status.Executed\<rparr>) rs) = None"
proof (induction rs)
  case (Cons r rs)
  show ?case
  proof (cases "is_pending rid r")
    case True
    then have "\<forall>x\<in>set rs. rr_id x \<noteq> rid"
      using Cons.prems by (force simp: is_pending_def)
    then show ?thesis using True by (auto simp: is_pending_def find_None_iff2)
  qed (use Cons in simp)
qed simp

lemma mark_executed_closes:
  "mark_executed g rid = Inr (req, g') \<Longrightarrow> distinct (map rr_id (recovery_requests g)) \<Longrightarrow>
   find (is_pending rid) (recovery_requests g') = None"
  by (auto simp: mark_executed_def find_executed_None split: option.splits)

lemma finish_guardian_acct:
  assumes "finish (guardian_save E) f = (r, s')" "case f of Return e t \<Rightarrow> t = s | Next e evs g t \<Rightarrow> t = s"
  shows "acct E s' = acct E s"
  using assms by (auto simp: finish_def ledger_simps split: flow.splits)

text \<open>C22: a guardian call that changes any account is an \<open>execute_recovery\<close> of a pending request
  whose timelock and confirmations allow it at the current height.  The only account it
  changes is the request's target, and all it changes there are the authentication methods,
  to those of the request.  Afterwards the stored request can no longer be executed.\<close>

theorem guardian_calls_change_only_recovered_account:
  assumes "account_codec_ok E" "json_ok (guardian_json E)" "accounts_ok E s"
    and "distinct (map rr_id (recovery_requests (guardian_load E s)))"
    and "execute_guardian_call E caller meth args s = (r, s')" "acct E s' i \<noteq> acct E s i"
  shows "\<exists>rid req a. meth = ''execute_recovery'' \<and> read_u64 args 0 = Some rid \<and>
    can_execute (guardian_load E s) rid (chain_height E s) = Inr req \<and> target_account req = i \<and>
    acct E s i = Some a \<and>
    acct E s' = (acct E s)(i \<mapsto> a\<lparr>auth_methods := new_auth_methods req\<rparr>) \<and>
    can_execute (guardian_load E s') rid (chain_height E s') = Inl NotFoundOrNotPending"
proof -
  let ?g = "guardian_load E s"
  have same: "acct E s' = acct E s" if "finish (guardian_save E) f = (r, s')"
    "case f of Return e t \<Rightarrow> t = s | Next e evs g t \<Rightarrow> t = s" for f
    using that by (rule finish_guardian_acct)
  have exec: "meth = ''execute_recovery'' \<and> call_execute_recovery E args ?g s = (r, s')"
    using assms(5,6) same
    by (auto simp: execute_guardian_call_def Let_def call_initiate_recovery_def
        call_confirm_recovery_def call_cancel_recovery_def
        split: if_splits option.splits sum.splits)
  have acc1: "accounts_ok E (guardian_save E g' s)" "acct E (guardian_save E g' s) = acct E s" for g'
    using assms(3) by (simp_all add: ledger_simps)
  obtain rid req req' g' where c: "read_u64 args 0 = Some rid"
    "can_execute ?g rid (chain_height E s) = Inr req" "mark_executed ?g rid = Inr (req', g')"
    using exec assms(6)
    by (auto simp: call_execute_recovery_def split: option.splits sum.splits)
  have req: "target_account req' = target_account req" "new_auth_methods req' = new_auth_methods req"
    using can_execute_mark_executed [OF c(2,3)] by simp_all
  have "acct E s (target_account req) \<noteq> None"
    using exec assms(6) c req
    by (auto simp: call_execute_recovery_def load_acct [OF acc1(1)] acc1(2) Let_def split: option.splits)
  then obtain a where a: "acct E s (target_account req) = Some a" by auto
  have s': "s' = save_account E (a\<lparr>auth_methods := new_auth_methods req\<rparr>) (guardian_save E g' s)"
    using exec c req a by (auto simp: call_execute_recovery_def load_acct [OF acc1(1)] acc1(2) Let_def)
  have "acct_id a = target_account req"
    using acct_id_acct [OF assms(3) a] .
  then have upd: "acct E s' = (acct E s)(target_account req \<mapsto> a\<lparr>auth_methods := new_auth_methods req\<rparr>)"
    using s' assms(1) by (simp add: ledger_simps)
  have closed: "can_execute (guardian_load E s') rid h = Inl NotFoundOrNotPending" for h
  proof -
    have "guardian_load E s' = g'"
      using s' assms(2) by (simp add: ledger_simps)
    moreover have "find (is_pending rid) (recovery_requests g') = None"
      using mark_executed_closes [OF c(3) assms(4)] .
    ultimately show ?thesis by (simp add: can_execute_def)
  qed
  show ?thesis
    using exec c a upd closed assms(6) by (auto split: if_splits)
qed

definition sample_guardian_store :: overlay_store where
  "sample_guardian_store = ov_put (ascii ''__chain_meta__'') (le_bytes 8 (152200 :: u64))
     (guardian_save sample_sys (sample_guardian [10, 11])
       (with_accounts sample_sys [sample_account 1 5] ov_new))"

lemma sample_guardian_store:
  "acct sample_sys sample_guardian_store = [1 \<mapsto> sample_account 1 5]"
  "accounts_ok sample_sys sample_guardian_store"
  "guardian_load sample_sys sample_guardian_store = sample_guardian [10, 11]"
  "chain_height sample_sys sample_guardian_store = 152200"
  by (simp_all add: sample_guardian_store_def ledger_simps acct_empty accounts_ok_empty chain_height_def
      guardian_load_def guardian_save_def json_load_def json_save_def sample_json_def
      of_le_bytes_le_bytes)

theorem guardian_calls_change_only_recovered_account_witness:
  "\<exists>r s'. execute_guardian_call sample_sys 77 ''execute_recovery'' (le_bytes 8 (0 :: u64))
       sample_guardian_store = (r, s') \<and>
     acct sample_sys s' = [1 \<mapsto> (sample_account 1 5)\<lparr>auth_methods := [Ed25519 9]\<rparr>]"
proof -
  obtain r s' where c: "execute_guardian_call sample_sys 77 ''execute_recovery'' (le_bytes 8 (0 :: u64))
      sample_guardian_store = (r, s')"
    by fastforce
  have "acct sample_sys s' 1 \<noteq> acct sample_sys sample_guardian_store 1"
    using c sample_can_execute
    by (auto simp: execute_guardian_call_def call_execute_recovery_def sample_guardian_store Let_def
        mark_executed_def sample_guardian_def sample_request_def is_pending_def load_acct ledger_simps
        sample_account_def)
  from guardian_calls_change_only_recovered_account [OF _ _ _ _ c this]
  show ?thesis
    using c sample_can_execute
    by (auto simp: sample_guardian_store sample_guardian_def sample_request_def)
qed

end
