(* ===== verification/System_Calls.thy ===== *)
theory System_Calls
  imports Staking_Calls Governance_Calls Bridge_Calls Vesting_Calls Guardian_Calls
begin

text \<open>
  Intent settlement and the routing of system calls, \<open>execute_intent_call\<close> and
  \<open>execute_system_call\<close> of \<open>crates/solen-execution/src/system_calls.rs\<close>.  Proved here: a
  settlement that succeeds, or that touches any key of the store, has an authorization record of
  its owner; and no system call can touch an account other than through the accounts' keys, so
  the accounts stay well formed.
\<close>

section \<open>Intents\<close>

definition intent_log :: "account_id \<Rightarrow> string \<Rightarrow> bytes \<Rightarrow> event" where
  "intent_log who t d = \<lparr>emitter = who, topic = ascii t, ev_data = d\<rparr>"

definition intent_result :: "event list \<Rightarrow> call_error option \<Rightarrow> system_call_result" where
  "intent_result evs e = \<lparr>sc_gas_used = SYSTEM_CALL_GAS, sc_events = evs, sc_error = e\<rparr>"

definition intent_authorized :: "'a ledger_env_scheme \<Rightarrow> overlay_store \<Rightarrow> u64 \<Rightarrow> account_id \<Rightarrow> bool" where
  "intent_authorized E s intent who \<longleftrightarrow>
     (case sget E s (ascii (''intent/'' @ dec_string (unat intent))) of
        Some data \<Rightarrow> 32 \<le> length data \<and> take 32 data = id_bytes who
      | None \<Rightarrow> False)"

fun parse_transfers :: "bytes \<Rightarrow> nat \<Rightarrow> nat \<Rightarrow> string + (account_id \<times> u128) list" where
  "parse_transfers args off 0 = Inr []"
| "parse_transfers args off (Suc n) =
     (if length args < off + 48 then Inl ''invalid args: transfer data truncated''
      else case read_account_id args off of
             None \<Rightarrow> Inl ''invalid args: bad transfer recipient''
           | Some to \<Rightarrow>
               let amount = (case read_u128 args (off + 32) of None \<Rightarrow> 0 | Some a \<Rightarrow> a)
               in (case parse_transfers args (off + 48) n of
                     Inl e \<Rightarrow> Inl e
                   | Inr ts \<Rightarrow> Inr ((to, amount) # ts)))"

definition total_needed :: "(account_id \<times> u128) list \<Rightarrow> u128 \<Rightarrow> u128" where
  "total_needed transfers tip = sat_add (foldl (\<lambda>t (_, a). sat_add t a) 0 transfers) tip"

text \<open>One transfer of the settlement: a plain debit and a credit that creates the recipient.\<close>

definition settle ::
    "'a ledger_env_scheme \<Rightarrow> account_id \<Rightarrow> account_id \<Rightarrow> u128 \<Rightarrow> account \<Rightarrow> overlay_store \<Rightarrow> overlay_store" where
  "settle E who to amount a s =
     credit_or_create E to amount (save_account E (a\<lparr>balance := balance a - amount\<rparr>) s)"

fun exec_transfers ::
    "'a ledger_env_scheme \<Rightarrow> account_id \<Rightarrow> (account_id \<times> u128) list \<Rightarrow> event list \<Rightarrow> overlay_store
     \<Rightarrow> call_error option \<times> event list \<times> overlay_store" where
  "exec_transfers E who [] evs s = (None, evs, s)"
| "exec_transfers E who ((to, amount) # ts) evs s =
     (case require_account E s who of
        Inl e \<Rightarrow> (Some (StateErr e), evs, s)
      | Inr a \<Rightarrow>
          exec_transfers E who ts
            (evs @ [intent_log who ''transfer'' (id_bytes to @ le_bytes 16 amount)])
            (settle E who to amount a s))"

definition pay_tip ::
    "'a ledger_env_scheme \<Rightarrow> account_id \<Rightarrow> account_id \<Rightarrow> u128 \<Rightarrow> event list \<Rightarrow> overlay_store
     \<Rightarrow> call_error option \<times> event list \<times> overlay_store" where
  "pay_tip E who solver tip evs s =
     (if 0 < tip
      then (case require_account E s who of
              Inl e \<Rightarrow> (Some (StateMsg ''solver tip payment failed: '' e), evs, s)
            | Inr a \<Rightarrow>
                if balance a < tip
                then (Some (Msg ''insufficient balance for solver tip (unexpected)''), evs, s)
                else (None, evs @ [intent_log who ''solver_tip'' (id_bytes solver @ le_bytes 16 tip)],
                      settle E who solver tip a s))
      else (None, evs, s))"

section \<open>Constraints\<close>

definition violated :: "string \<Rightarrow> string \<Rightarrow> u128 \<Rightarrow> string \<Rightarrow> u128 \<Rightarrow> call_error option" where
  "violated name verb have link need =
     Some (Msg (''constraint violated: '' @ name @ '' '' @ em_dash @ verb @ dec_string (unat have) @
       link @ dec_string (unat need)))"

definition transferred_to :: "(account_id \<times> u128) list \<Rightarrow> account_id \<Rightarrow> u128" where
  "transferred_to transfers to = sum_list (map snd (filter (\<lambda>(t, _). t = to) transfers))"

definition id_or_zero :: "bytes \<Rightarrow> nat \<Rightarrow> account_id" where
  "id_or_zero args off = (case read_account_id args off of None \<Rightarrow> 0 | Some i \<Rightarrow> i)"

definition u128_or_zero :: "bytes \<Rightarrow> nat \<Rightarrow> u128" where
  "u128_or_zero args off = (case read_u128 args off of None \<Rightarrow> 0 | Some a \<Rightarrow> a)"

fun check_constraints ::
    "'a ledger_env_scheme \<Rightarrow> account_id \<Rightarrow> (account_id \<times> u128) list \<Rightarrow> u128 \<Rightarrow> bytes \<Rightarrow> overlay_store
     \<Rightarrow> nat \<Rightarrow> nat \<Rightarrow> call_error option" where
  "check_constraints E who transfers tot args s off 0 = None"
| "check_constraints E who transfers tot args s off (Suc n) =
     (if length args \<le> off then None
      else let ctype = args ! off; c = off + 1
      in if ctype = 0
         then (if length args < c + 48 then None
               else let min_amount = u128_or_zero args (c + 32);
                        bal = (case load_account E s (id_or_zero args c) of
                                 Inr (Some a) \<Rightarrow> balance a | _ \<Rightarrow> 0)
               in if bal < min_amount
                    then violated ''MinBalance'' '' account has '' bal '' but needs '' min_amount
                  else check_constraints E who transfers tot args s (c + 48) n)
         else if ctype = 1
         then (if length args < c + 48 then None
               else let max_amount = u128_or_zero args (c + 32)
               in if id_or_zero args c = who \<and> max_amount < tot
                    then violated ''MaxSpend'' '' spent '' tot '' but max is '' max_amount
                  else check_constraints E who transfers tot args s (c + 48) n)
         else if ctype = 2
         then (if length args < c + 80 then None
               else let req_min = u128_or_zero args (c + 64);
                        transferred = transferred_to transfers (id_or_zero args (c + 32))
               in if transferred < req_min
                    then violated ''RequireTransfer'' '' transferred '' transferred '' but needs '' req_min
                  else check_constraints E who transfers tot args s (c + 80) n)
         else if ctype = 3
         then (if length args < c + 36 then None
               else check_constraints E who transfers tot args s (c + 36 + u32_at args (c + 32)) n)
         else if ctype = 4
         then (if length args < c + 104 then None
               else let input_amount = u128_or_zero args c;
                        bridged = transferred_to transfers BRIDGE_ADDRESS
               in if bridged < input_amount
                    then violated ''CrossChainSwap'' '' bridged '' bridged '' but needs '' input_amount
                  else check_constraints E who transfers tot args s (c + 104) n)
         else None)"

definition verify_constraints ::
    "'a ledger_env_scheme \<Rightarrow> account_id \<Rightarrow> (account_id \<times> u128) list \<Rightarrow> u128 \<Rightarrow> bytes \<Rightarrow> nat
     \<Rightarrow> overlay_store \<Rightarrow> call_error option" where
  "verify_constraints E who transfers tot args off s =
     (if off + 4 \<le> length args
      then check_constraints E who transfers tot args s (off + 4) (u32_at args off)
      else None)"

section \<open>Settlement\<close>

definition settle_intent ::
    "'a ledger_env_scheme \<Rightarrow> account_id \<Rightarrow> u64 \<Rightarrow> account_id \<Rightarrow> u128 \<Rightarrow> nat \<Rightarrow> (account_id \<times> u128) list
     \<Rightarrow> bytes \<Rightarrow> overlay_store \<Rightarrow> system_call_result \<times> overlay_store" where
  "settle_intent E caller intent solver tip n transfers args s =
     (case exec_transfers E caller transfers [] s of
        (Some e, evs, s1) \<Rightarrow> (intent_result evs (Some e), s1)
      | (None, evs, s1) \<Rightarrow>
     (case pay_tip E caller solver tip evs s1 of
        (Some e, evs2, s2) \<Rightarrow> (intent_result evs2 (Some e), s2)
      | (None, evs2, s2) \<Rightarrow>
     (case verify_constraints E caller transfers (total_needed transfers tip) args (60 + n * 48) s2 of
        Some e \<Rightarrow> (intent_result evs2 (Some e), s2)
      | None \<Rightarrow>
          (intent_result (evs2 @ [intent_log caller ''intent_fulfilled'' (le_bytes 8 intent)]) None, s2))))"

definition call_fulfill ::
    "'a ledger_env_scheme \<Rightarrow> account_id \<Rightarrow> bytes \<Rightarrow> overlay_store \<Rightarrow> system_call_result \<times> overlay_store" where
  "call_fulfill E caller args s =
     (if length args < 60 then (err (Msg ''invalid args: too short''), s)
      else let intent = (case read_u64 args 0 of None \<Rightarrow> 0 | Some i \<Rightarrow> i)
      in case read_account_id args 8 of
           None \<Rightarrow> (err (Msg ''invalid args: bad solver''), s)
         | Some solver \<Rightarrow>
             let tip = u128_or_zero args 40; n = u32_at args 56
             in if \<not> intent_authorized E s intent caller
                  then (err (Msg (''fulfill: no owner-authorized on-chain intent for this id '' @ em_dash @
                    '' intent settlement is disabled pending signed-intent support'')), s)
                else (case parse_transfers args 60 n of
                  Inl m \<Rightarrow> (err (Msg m), s)
                | Inr transfers \<Rightarrow>
                    (case load_account E s caller of
                       Inr (Some a) \<Rightarrow>
                         if balance a < total_needed transfers tip
                         then (intent_result [] (Some (Msg (''insufficient balance for intent: need '' @
                                 dec_string (unat (total_needed transfers tip)) @ '' but have '' @
                                 dec_string (unat (balance a))))), s)
                         else settle_intent E caller intent solver tip n transfers args s
                     | _ \<Rightarrow> (err (Msg ''sender account not found''), s))))"

definition execute_intent_call ::
    "'a ledger_env_scheme \<Rightarrow> account_id \<Rightarrow> string \<Rightarrow> bytes \<Rightarrow> overlay_store
     \<Rightarrow> system_call_result \<times> overlay_store" where
  "execute_intent_call E caller meth args s =
     (if meth = ''fulfill'' then call_fulfill E caller args s
      else (err (Msg (''unknown intent method: '' @ meth)), s))"

section \<open>Routing\<close>

definition execute_system_call ::
    "'a sys_env_scheme \<Rightarrow> account_id \<Rightarrow> account_id \<Rightarrow> string \<Rightarrow> bytes \<Rightarrow> overlay_store
     \<Rightarrow> system_call_result \<times> overlay_store" where
  "execute_system_call E caller target meth args s =
     (if target = STAKING_ADDRESS then execute_staking_call E caller meth args s
      else if target = GOVERNANCE_ADDRESS then execute_governance_call E caller meth args s
      else if target = BRIDGE_ADDRESS then execute_bridge_call E caller meth args s
      else if target = TREASURY_ADDRESS then execute_treasury_call E meth s
      else if target = VESTING_ADDRESS then execute_vesting_call E caller meth args s
      else if target = INTENT_ADDRESS then execute_intent_call E caller meth args s
      else if target = PAYMASTER_REGISTRY_ADDRESS then execute_paymaster_call E caller meth s
      else if target = GUARDIAN_ADDRESS then execute_guardian_call E caller meth args s
      else (\<lparr>sc_gas_used = 0, sc_events = [], sc_error = Some (Msg ''unknown system contract'')\<rparr>, s))"

section \<open>Settlement needs the owner's record\<close>

lemma fulfill_needs_record:
  assumes "execute_intent_call E caller meth args s = (r, s')" "sc_error r = None \<or> s' \<noteq> s"
  shows "\<exists>intent. intent_authorized E s intent caller"
  using assms
  by (auto simp: execute_intent_call_def call_fulfill_def Let_def err_def intent_result_def
      split: if_splits option.splits sum.splits prod.splits)

section \<open>What system calls do to accounts\<close>

text \<open>
  Every write of a system call is a write outside the accounts, a change of an existing account's
  balance, or a new account; only guardian recovery replaces authentication methods.  The relation
  \<open>keeps E au s0 s\<close> says so of the stores before and after: all accounts are still well formed,
  none has disappeared, none has another nonce or other code, and, if \<open>au\<close>, none has other
  authentication methods.
\<close>

named_theorems acc_intros \<open>writes that keep the accounts\<close>

definition keeps :: "'a ledger_env_scheme \<Rightarrow> bool \<Rightarrow> overlay_store \<Rightarrow> overlay_store \<Rightarrow> bool" where
  "keeps E au s0 s \<longleftrightarrow> accounts_ok E s \<and>
     (\<forall>i a. acct E s0 i = Some a \<longrightarrow>
        (\<exists>a'. acct E s i = Some a' \<and> acct_nonce a' = acct_nonce a \<and> code_hash a' = code_hash a \<and>
           (au \<longrightarrow> auth_methods a' = auth_methods a)))"

lemma keeps_refl: "accounts_ok E s \<Longrightarrow> keeps E au s s"
  by (simp add: keeps_def)

lemma keeps_ok: "keeps E au s0 s \<Longrightarrow> accounts_ok E s"
  by (simp add: keeps_def)

lemma keeps_trans: "keeps E au s0 s1 \<Longrightarrow> keeps E au s1 s2 \<Longrightarrow> keeps E au s0 s2"
  unfolding keeps_def by (metis (no_types, lifting))

lemma keeps_acct:
  assumes "keeps E au s0 s" "accounts_ok E s'" "acct E s' = (acct E s)(i \<mapsto> b)"
    and "\<And>a. acct E s i = Some a \<Longrightarrow> acct_nonce b = acct_nonce a \<and> code_hash b = code_hash a \<and>
           (au \<longrightarrow> auth_methods b = auth_methods a)"
  shows "keeps E au s0 s'"
proof (rule keeps_trans [OF assms(1)])
  show "keeps E au s s'"
    using assms(2-4) by (auto simp: keeps_def)
qed

lemma keeps_save:
  assumes "account_codec_ok E" "keeps E au s0 s" "require_account E s i = Inr a"
  shows "keeps E au s0 (save_account E (a\<lparr>balance := v\<rparr>) s)"
proof (rule keeps_acct [OF assms(2)])
  have a: "acct E s i = Some a"
    using assms(3) keeps_ok [OF assms(2)] by (simp add: require_acct split: option.splits)
  have "acct_id a = i"
    by (rule acct_id_acct [OF keeps_ok [OF assms(2)] a])
  then show "acct E (save_account E (a\<lparr>balance := v\<rparr>) s) = (acct E s)(i \<mapsto> a\<lparr>balance := v\<rparr>)"
    using assms(1) by (simp add: acct_save)
qed (use assms keeps_ok [OF assms(2)] in \<open>auto simp: accounts_ok_save require_acct split: option.splits\<close>)

lemma keeps_save_loaded:
  "account_codec_ok E \<Longrightarrow> keeps E au s0 s \<Longrightarrow> load_account E s i = Inr (Some a) \<Longrightarrow>
   keeps E au s0 (save_account E (a\<lparr>balance := v\<rparr>) s)"
  by (rule keeps_save [where i = i]) (simp_all add: require_account_def)

lemma keeps_set_auth:
  assumes "account_codec_ok E" "keeps E False s0 s" "load_account E s i = Inr (Some a)"
  shows "keeps E False s0 (save_account E (a\<lparr>auth_methods := ms\<rparr>) s)"
proof (rule keeps_acct [OF assms(2)])
  have a: "acct E s i = Some a"
    using assms(3) by (simp add: acct_def)
  have "acct_id a = i"
    by (rule acct_id_acct [OF keeps_ok [OF assms(2)] a])
  then show "acct E (save_account E (a\<lparr>auth_methods := ms\<rparr>) s) = (acct E s)(i \<mapsto> a\<lparr>auth_methods := ms\<rparr>)"
    using assms(1) by (simp add: acct_save)
qed (use assms keeps_ok [OF assms(2)] in \<open>auto simp: accounts_ok_save acct_def\<close>)

lemmas keeps_saves = keeps_save keeps_save_loaded

lemma keeps_put [acc_intros]:
  "\<not> is_account_key k \<Longrightarrow> keeps E au s0 s \<Longrightarrow> keeps E au s0 (ov_put k v s)"
  by (simp add: keeps_def accounts_ok_put acct_put)

lemma keeps_credit [acc_intros]:
  assumes "account_codec_ok E" "keeps E au s0 s"
  shows "keeps E au s0 (credit E who amount s)"
  using keeps_save [OF assms] assms(2) by (simp add: credit_def split: sum.split)

lemma keeps_credit_or_create [acc_intros]:
  assumes "account_codec_ok E" "keeps E au s0 s"
  shows "keeps E au s0 (credit_or_create E who amount s)"
proof (cases "acct E s who")
  case None
  then show ?thesis
    using assms keeps_ok [OF assms(2)]
    by (intro keeps_acct [OF assms(2), of _ who])
      (simp_all add: credit_or_create_present Let_def accounts_ok_save acct_save blank_account_def)
next
  case (Some a)
  then show ?thesis
    using assms keeps_ok [OF assms(2)] keeps_save [OF assms, of who a]
    by (simp add: credit_or_create_present Let_def require_acct)
qed

lemma keeps_deduct:
  assumes "deduct E who amount m s = Inr s1" "account_codec_ok E" "keeps E au s0 s"
  shows "keeps E au s0 s1"
  using assms keeps_save [OF assms(2,3)] by (auto simp: deduct_def split: sum.splits if_splits)

lemma keeps_debit_saturating [acc_intros]:
  "account_codec_ok E \<Longrightarrow> keeps E au s0 s \<Longrightarrow> keeps E au s0 (debit_saturating E who amount s)"
  by (auto simp: debit_saturating_def intro: keeps_save split: sum.splits)

lemma keeps_contracts [acc_intros]:
  "keeps E au s0 s \<Longrightarrow> keeps E au s0 (staking_save E' st s)"
  "keeps E au s0 s \<Longrightarrow> keeps E au s0 (governance_save E' g s)"
  "keeps E au s0 s \<Longrightarrow> keeps E au s0 (bridge_save E' b s)"
  "keeps E au s0 s \<Longrightarrow> keeps E au s0 (vesting_save E' vc s)"
  "keeps E au s0 s \<Longrightarrow> keeps E au s0 (guardian_save E' gc s)"
  for E :: "'a sys_env_scheme" and E' :: "'a sys_env_scheme"
  by (simp_all add: contract_defs json_save_def keeps_put not_account_keys)

definition keeps_flow :: "'a ledger_env_scheme \<Rightarrow> bool \<Rightarrow> overlay_store \<Rightarrow> 'c flow \<Rightarrow> bool" where
  "keeps_flow E au s0 f \<longleftrightarrow>
     (case f of Return e s \<Rightarrow> keeps E au s0 s | Next r evs c s \<Rightarrow> keeps E au s0 s)"

lemma keeps_flow_simps [simp]:
  "keeps_flow E au s0 (Return e s) = keeps E au s0 s"
  "keeps_flow E au s0 (Next r evs c s) = keeps E au s0 s"
  by (simp_all add: keeps_flow_def)

lemma key_not_account [acc_intros]:
  "\<not> prefix ''acc/'' k \<Longrightarrow> \<not> is_account_key (ascii k)"
proof (rule notI)
  assume k: "\<not> prefix ''acc/'' k" "is_account_key (ascii k)"
  then have "take 4 (ascii k) = ascii ''acc/''"
    by (auto simp: is_account_key_iff prefix_def) (simp add: ascii_simps)
  then have "ascii (take 4 k) = ascii ''acc/''"
    by (simp add: ascii_def take_map)
  then have "take 4 k = ''acc/''"
    by (simp only: ascii_inject)
  then show False
    using k(1) take_is_prefix [of 4 k] by simp
qed

lemma finish_accounts:
  assumes "keeps_flow E au s0 f" "\<And>c s. keeps E au s0 s \<Longrightarrow> keeps E au s0 (save c s)"
  shows "keeps E au s0 (snd (finish save f))"
  using assms by (auto simp: finish_def split: flow.split)

lemma key_accounts [acc_intros]:
  "\<not> is_account_key (reg_key r)" "\<not> is_account_key (batch_key r i)"
  "\<not> is_account_key (batch_count_key r)" "\<not> is_account_key (processed_key tx)"
  by (simp_all add: reg_key_def batch_key_def batch_count_key_def key_not_account ledger_simps)

lemma keeps_flow_cases:
  "(c \<Longrightarrow> keeps_flow E au s0 f) \<Longrightarrow> (\<not> c \<Longrightarrow> keeps_flow E au s0 g) \<Longrightarrow> keeps_flow E au s0 (if c then f else g)"
  "(x = None \<Longrightarrow> keeps_flow E au s0 f) \<Longrightarrow> (\<And>a. x = Some a \<Longrightarrow> keeps_flow E au s0 (h a)) \<Longrightarrow>
   keeps_flow E au s0 (case x of None \<Rightarrow> f | Some a \<Rightarrow> h a)"
  "(\<And>e. y = Inl e \<Longrightarrow> keeps_flow E au s0 (k e)) \<Longrightarrow> (\<And>a. y = Inr a \<Longrightarrow> keeps_flow E au s0 (h a)) \<Longrightarrow>
   keeps_flow E au s0 (case y of Inl e \<Rightarrow> k e | Inr a \<Rightarrow> h a)"
  "(\<And>a b. p = (a, b) \<Longrightarrow> keeps_flow E au s0 (l a b)) \<Longrightarrow> keeps_flow E au s0 (case p of (a, b) \<Rightarrow> l a b)"
  by (auto split: option.split sum.split prod.split)

lemma staking_accounts:
  fixes E :: "'a sys_env_scheme"
  assumes ok: "account_codec_ok E" "keeps E au s0 s"
  shows "keeps E au s0 (snd (execute_staking_call E caller meth args s))"
proof -
  have pay: "keeps E au s0 s1" if "pay_matured E caller e st s = (evs, st1, s1)" for e st evs st1 s1
    using that ok by (auto simp: pay_matured_def Let_def intro: acc_intros keeps_saves keeps_set_auth split: if_splits prod.splits)
  have "keeps_flow E au s0 (staking_flow E caller meth args s)"
    unfolding staking_flow_def Let_def call_register_def call_delegate_def call_undelegate_def
        call_withdraw_def call_slash_def call_unjail_def call_rotate_key_def
    by (intro keeps_flow_cases; simp) (use ok pay in \<open>auto intro: acc_intros keeps_saves dest: keeps_deduct\<close>)
  then show ?thesis
    unfolding execute_staking_call_def by (rule finish_accounts) (rule keeps_contracts)
qed

lemma vesting_accounts:
  fixes E :: "'a sys_env_scheme"
  assumes ok: "account_codec_ok E" "keeps E au s0 s"
  shows "keeps E au s0 (snd (execute_vesting_call E caller meth args s))"
proof -
  have "keeps_flow E au s0 (vesting_flow E caller meth args s)"
    unfolding vesting_flow_def Let_def call_claim_def call_status_def call_add_vesting_def
      call_set_vesting_admin_def
    by (intro keeps_flow_cases; simp) (use ok in \<open>auto intro: acc_intros keeps_saves\<close>)
  then show ?thesis
    unfolding execute_vesting_call_def by (rule finish_accounts) (rule keeps_contracts)
qed

lemma guardian_accounts:
  fixes E :: "'a sys_env_scheme"
  assumes ok: "account_codec_ok E" "keeps E False s0 s"
  shows "keeps E False s0 (snd (execute_guardian_call E caller meth args s))"
proof -
  have fin: "keeps E False s0 (snd (finish (guardian_save E) f))" if "keeps_flow E False s0 f" for f
    using that by (rule finish_accounts) (rule keeps_contracts)
  have "keeps_flow E False s0 (call_initiate_recovery E caller args g s)"
    "keeps_flow E False s0 (call_confirm_recovery caller args g s)"
    "keeps_flow E False s0 (call_cancel_recovery caller args g s)" for g
    unfolding Let_def call_initiate_recovery_def call_confirm_recovery_def call_cancel_recovery_def
    by (intro keeps_flow_cases; simp add: ok)+
  moreover have "keeps E False s0 (snd (call_execute_recovery E args g s))" for g
    using ok
    by (auto simp: call_execute_recovery_def Let_def intro: acc_intros keeps_saves keeps_set_auth split: option.split sum.split prod.split)
  ultimately show ?thesis
    using ok by (simp add: execute_guardian_call_def Let_def fin)
qed

lemma bridge_accounts:
  fixes E :: "'a sys_env_scheme"
  assumes ok: "account_codec_ok E" "keeps E au s0 s"
  shows "keeps E au s0 (snd (execute_bridge_call E caller meth args s))"
proof -
  have dep: "keeps E au s0 s1" if "take_rollup_deposit E caller s = Inr s1" for s1
    using that ok by (auto simp: take_rollup_deposit_def intro: acc_intros keeps_saves keeps_set_auth split: sum.splits if_splits)
  have upd: "keeps E au s0 s2"
    if "update_registration E r root i (ov_put (batch_key r j) x s) = Some s2" for r root i j x s2
    using that ok(2)
    by (auto simp: update_registration_def key_accounts intro!: keeps_put split: option.splits sum.splits)
  have "keeps_flow E au s0 (bridge_flow E caller meth args s)"
    unfolding bridge_flow_def Let_def call_deposit_def call_bridge_to_base_def call_bridge_from_base_def
      call_register_vault_def call_register_rollup_def register_parsed_def call_submit_batch_def
      store_batch_def
    by (intro keeps_flow_cases; simp) (use ok dep upd in \<open>auto simp: key_accounts intro!: keeps_put intro: acc_intros keeps_saves dest: keeps_deduct\<close>)
  then show ?thesis
    unfolding execute_bridge_call_def by (rule finish_accounts) (rule keeps_contracts)
qed

lemma action_accounts:
  fixes E :: "'a sys_env_scheme"
  assumes "account_codec_ok E" "keeps E au s0 s"
  shows "keeps E au s0 (snd (snd (apply_action E act g s)))"
proof -
  have "keeps E au s0 (snd (migrate_team_pool E s))"
    using assms by (auto simp: migrate_team_pool_def Let_def intro: acc_intros keeps_saves keeps_set_auth split: sum.split option.split)
  then show ?thesis
    using assms
    by (cases act) (auto simp: Let_def keeps_put key_not_account keeps_contracts split: prod.split)
qed

lemma governance_accounts:
  fixes E :: "'a sys_env_scheme"
  assumes ok: "account_codec_ok E" "keeps E au s0 s"
  shows "keeps E au s0 (snd (execute_governance_call E caller meth args s))"
proof -
  have act: "keeps E au s0 s'" if "apply_action E act g t = (d, g', s')" "keeps E au s0 t" for act g t d g' s'
    using action_accounts [OF ok(1) that(2), of act g] that(1) by simp
  have flow: "keeps_flow E au s0 (governance_flow E caller meth args g t)" if "keeps E au s0 t" for g t
    unfolding governance_flow_def Let_def call_propose_def call_vote_def call_finalize_def call_execute_def
    by (intro keeps_flow_cases; simp) (use that ok act in \<open>auto intro: acc_intros keeps_saves\<close>)
  have fin: "keeps E au s0 (snd (finish (governance_save E) (governance_flow E caller meth args g t)))"
    if "keeps E au s0 t" for g t
    using flow [OF that] by (rule finish_accounts) (rule keeps_contracts)
  have run: "keeps E au s0 (snd (let f = governance_flow E caller meth args (governance_load E t) t;
        (r, s1) = finish (governance_save E) f
      in (r, case f of Next (Some e) evs g t' \<Rightarrow>
               if is_proposal_method meth then credit E caller PROPOSAL_DEPOSIT s1 else s1 | _ \<Rightarrow> s1)))"
    if "keeps E au s0 t" for t
    using fin [OF that, of "governance_load E t"] ok(1)
    by (auto simp: Let_def intro: acc_intros keeps_saves split: prod.split flow.split option.split)
  show ?thesis
  proof (cases "if is_proposal_method meth then take_proposal_deposit E caller s else Inr s")
    case (Inr t)
    then have "keeps E au s0 t"
      using ok by (auto simp: take_proposal_deposit_def dest: keeps_deduct split: if_splits)
    from run [OF this] show ?thesis
      by (simp add: execute_governance_call_def Inr)
  qed (simp add: execute_governance_call_def ok)
qed

lemma exec_transfers_accounts:
  "account_codec_ok E \<Longrightarrow> keeps E au s0 s \<Longrightarrow> exec_transfers E who ts evs s = (e, evs', s') \<Longrightarrow> keeps E au s0 s'"
proof (induction E who ts evs s rule: exec_transfers.induct)
  case (2 E who to amount ts evs s)
  then show ?case
    by (auto simp: settle_def keeps_save keeps_credit_or_create split: sum.splits)
qed simp

lemma intent_accounts:
  assumes ok: "account_codec_ok E" "keeps E au s0 s"
  shows "keeps E au s0 (snd (execute_intent_call E caller meth args s))"
proof -
  have tip: "keeps E au s0 s2" if "pay_tip E caller solver t evs s1 = (e, evs2, s2)" "keeps E au s0 s1"
    for solver t evs s1 e evs2 s2
    using that ok(1)
    by (auto simp: pay_tip_def settle_def keeps_save keeps_credit_or_create split: if_splits sum.splits)
  have settle: "keeps E au s0 (snd (settle_intent E caller i solver t n ts args s))" for i solver t n ts
    using exec_transfers_accounts [OF ok] tip
    by (auto simp: settle_intent_def split: prod.split option.split)
  show ?thesis
    using ok settle
    by (simp add: execute_intent_call_def call_fulfill_def Let_def split: option.split sum.split)
qed

lemma system_call_keeps:
  assumes "account_codec_ok E" "accounts_ok E s"
    and "execute_system_call E caller target meth args s = (r, s')"
  shows "keeps E (target \<noteq> GUARDIAN_ADDRESS) s s'"
proof -
  have k: "keeps E au s s" for au
    by (rule keeps_refl [OF assms(2)])
  have "keeps E au s (snd (execute_paymaster_call E caller meth s))"
    "keeps E au s (snd (execute_treasury_call E meth s))" for au
    using k
    by (simp_all add: execute_paymaster_call_def execute_treasury_call_def Let_def json_save_def
        keeps_put not_account_keys split: sum.split option.split)
  then have "keeps E (target \<noteq> GUARDIAN_ADDRESS) s (snd (execute_system_call E caller target meth args s))"
    using assms(1) k
    by (simp add: execute_system_call_def staking_accounts governance_accounts bridge_accounts
        vesting_accounts intent_accounts guardian_accounts)
  then show ?thesis using assms(3) by simp
qed

text \<open>C26: system calls are type safe with respect to the account table.  If every stored account
  decodes and sits under its own identifier, this still holds after any system call: any
  target, any method, any argument bytes, success or failure.  No account disappears, none gets
  another nonce or other code, and only a call of the guardian contract can change an account's
  authentication methods.  Only the round trip of the account encoding is assumed.\<close>

theorem system_calls_keep_accounts:
  assumes "account_codec_ok E" "accounts_ok E s"
    and "execute_system_call E caller target meth args s = (r, s')"
  shows "accounts_ok E s' \<and>
    (\<forall>i a. acct E s i = Some a \<longrightarrow>
       (\<exists>a'. acct E s' i = Some a' \<and> acct_nonce a' = acct_nonce a \<and> code_hash a' = code_hash a \<and>
          (target \<noteq> GUARDIAN_ADDRESS \<longrightarrow> auth_methods a' = auth_methods a)))"
  using system_call_keeps [OF assms] by (simp add: keeps_def)

theorem system_calls_keep_accounts_witness:
  "\<exists>r s'. execute_system_call sample_sys 5 STAKING_ADDRESS ''delegate'' [1, 2, 3]
       sample_staking_store = (r, s') \<and> sc_error r \<noteq> None \<and> accounts_ok sample_sys s'"
proof -
  obtain r s' where c: "execute_system_call sample_sys 5 STAKING_ADDRESS ''delegate'' [1, 2, 3]
      sample_staking_store = (r, s')"
    by fastforce
  moreover have "sc_error r \<noteq> None"
    using c by (auto simp: execute_system_call_def execute_staking_call_def staking_flow_def
        call_delegate_def read_account_id_def finish_def err_def)
  ultimately show ?thesis
    using system_calls_keep_accounts [OF _ sample_staking_store(2) c] by simp
qed

end
