(* ===== verification/Vm.thy ===== *)
theory Vm
  imports Chain_Types "HOL-Library.AList" "HOL-Library.Monad_Syntax"
begin

text \<open>
  The contract runtime, crate \<open>solen-vm\<close>: the context a contract runs in (\<open>host.rs\<close>), the fuel
  prices (\<open>metering.rs\<close>), the host functions and the way a contract is validated and executed
  (\<open>runtime.rs\<close>).

  wasmtime is a parameter, \<open>wasm_engine\<close>.  What a compiled contract does between two calls of host
  functions is opaque: a run is the tree \<open>guest\<close>, whose inner nodes are host calls with the memory
  and the fuel at that moment and whose branches continue with what the host returned.  The tree is
  finite because every guest instruction burns fuel.  The one law the code relies on is that the
  guest never gains fuel (\<open>metered\<close>).  The compilation caches are not modelled: they are keyed by
  the hash of the code and only save recompilation.
\<close>

section \<open>Context and results\<close>

record native_transfer =
  nt_to :: account_id
  nt_amount :: u128

record pending_call =
  pc_target :: account_id
  pc_method :: bytes
  pc_args :: bytes

record host_event =
  he_topic :: bytes
  he_data :: bytes

record host_context =
  hc_caller :: account_id
  hc_contract_id :: account_id
  hc_block_height :: u64
  hc_storage :: "(bytes \<times> bytes) list"
  hc_events :: "host_event list"
  hc_return_data :: bytes
  hc_native_transfers :: "native_transfer list"
  hc_pending_calls :: "pending_call list"
  hc_msg_value :: u128
  hc_self_balance :: u128

definition new_host_context :: "account_id \<Rightarrow> u64 \<Rightarrow> host_context" where
  "new_host_context caller block_height =
     \<lparr>hc_caller = caller, hc_contract_id = 0, hc_block_height = block_height, hc_storage = [],
      hc_events = [], hc_return_data = [], hc_native_transfers = [], hc_pending_calls = [],
      hc_msg_value = 0, hc_self_balance = 0\<rparr>"

datatype vm_error =
    OutOfGas
  | InvalidBytecode string
  | VmTrap string
  | HostError string
  | MissingExport string

record vm_result =
  vr_gas_used :: u64
  vr_return_data :: bytes
  vr_events :: "host_event list"
  vr_storage :: "(bytes \<times> bytes) list"
  vr_native_transfers :: "native_transfer list"
  vr_pending_calls :: "pending_call list"

section \<open>Fuel prices\<close>

definition DEFAULT_FUEL_LIMIT :: u64 where "DEFAULT_FUEL_LIMIT = 1000000"
definition STORAGE_WRITE_BASE_FUEL :: u64 where "STORAGE_WRITE_BASE_FUEL = 2000"
definition STORAGE_WRITE_PER_BYTE_FUEL :: u64 where "STORAGE_WRITE_PER_BYTE_FUEL = 10"
definition STORAGE_READ_BASE_FUEL :: u64 where "STORAGE_READ_BASE_FUEL = 500"

definition fuel_to_gas :: "u64 \<Rightarrow> u64" where
  "fuel_to_gas fuel_consumed = fuel_consumed"

definition storage_write_fuel :: "nat \<Rightarrow> nat \<Rightarrow> u64" where
  "storage_write_fuel key_len val_len =
     STORAGE_WRITE_BASE_FUEL + of_nat (key_len + val_len) * STORAGE_WRITE_PER_BYTE_FUEL"

definition storage_read_fuel :: "nat \<Rightarrow> u64" where
  "storage_read_fuel key_len =
     STORAGE_READ_BASE_FUEL + of_nat key_len * STORAGE_WRITE_PER_BYTE_FUEL"

section \<open>Memory access of the host functions\<close>

text \<open>
  The host sees the guest through its context, its exported memory and its remaining fuel.
  A pointer is an \<open>i32\<close> cast to \<open>usize\<close>, which sign-extends: a negative one is far out of
  bounds.
\<close>

record machine =
  m_memory :: "bytes option"
  m_fuel :: u64

definition MAX_HOST_ALLOC :: nat where "MAX_HOST_ALLOC = 1024 * 1024"

definition checked_len :: "u32 \<Rightarrow> nat option" where
  "checked_len len =
     (if len <s 0 then None
      else if MAX_HOST_ALLOC < unat len then None
      else Some (unat len))"

definition as_usize :: "u32 \<Rightarrow> nat" where
  "as_usize ptr = unat (scast ptr :: u64)"

definition safe_read :: "bytes \<Rightarrow> u32 \<Rightarrow> nat \<Rightarrow> bytes option" where
  "safe_read memory ptr n =
     (if as_usize ptr + n \<le> length memory then Some (take n (drop (as_usize ptr) memory)) else None)"

definition safe_write :: "bytes \<Rightarrow> u32 \<Rightarrow> bytes \<Rightarrow> bytes option" where
  "safe_write memory ptr data =
     (if as_usize ptr + length data \<le> length memory
      then Some (take (as_usize ptr) memory @ data @ drop (as_usize ptr + length data) memory)
      else None)"

definition charge :: "u64 \<Rightarrow> machine \<Rightarrow> machine option" where
  "charge cost m = (if m_fuel m < cost then None else Some (m\<lparr>m_fuel := m_fuel m - cost\<rparr>))"

text \<open>Writing a constant of the context to the guest's memory; a failed write is ignored.\<close>

definition put_out :: "u32 \<Rightarrow> bytes \<Rightarrow> machine \<Rightarrow> machine" where
  "put_out out_ptr data m =
     (case m_memory m of
        None \<Rightarrow> m
      | Some memory \<Rightarrow>
          (case safe_write memory out_ptr data of
             None \<Rightarrow> m
           | Some memory' \<Rightarrow> m\<lparr>m_memory := Some memory'\<rparr>))"

section \<open>Host functions\<close>

definition storage_read ::
    "u32 \<Rightarrow> u32 \<Rightarrow> u32 \<Rightarrow> host_context \<Rightarrow> machine \<Rightarrow> u32 \<times> machine" where
  "storage_read key_ptr key_len val_ptr ctx m =
     (case do {
        klen \<leftarrow> checked_len key_len;
        memory \<leftarrow> m_memory m;
        key \<leftarrow> safe_read memory key_ptr klen;
        m1 \<leftarrow> charge (storage_read_fuel (length key)) m;
        Some (memory, key, m1)
      } of
        None \<Rightarrow> (- 1, m)
      | Some (memory, key, m1) \<Rightarrow>
          (case map_of (hc_storage ctx) key of
             None \<Rightarrow> (- 1, m1)
           | Some val \<Rightarrow>
               (case safe_write memory val_ptr val of
                  None \<Rightarrow> (- 1, m1)
                | Some memory' \<Rightarrow> (of_nat (length val), m1\<lparr>m_memory := Some memory'\<rparr>))))"

definition storage_write ::
    "u32 \<Rightarrow> u32 \<Rightarrow> u32 \<Rightarrow> u32 \<Rightarrow> host_context \<Rightarrow> machine \<Rightarrow> host_context \<times> machine" where
  "storage_write key_ptr key_len val_ptr val_len ctx m =
     (case do {
        klen \<leftarrow> checked_len key_len;
        vlen \<leftarrow> checked_len val_len;
        memory \<leftarrow> m_memory m;
        key \<leftarrow> safe_read memory key_ptr klen;
        val \<leftarrow> safe_read memory val_ptr vlen;
        m1 \<leftarrow> charge (storage_write_fuel (length key) (length val)) m;
        Some (key, val, m1)
      } of
        None \<Rightarrow> (ctx, m)
      | Some (key, val, m1) \<Rightarrow> (ctx\<lparr>hc_storage := AList.update key val (hc_storage ctx)\<rparr>, m1))"

definition emit_event ::
    "u32 \<Rightarrow> u32 \<Rightarrow> u32 \<Rightarrow> u32 \<Rightarrow> host_context \<Rightarrow> machine \<Rightarrow> host_context \<times> machine" where
  "emit_event topic_ptr topic_len data_ptr data_len ctx m =
     (case do {
        tlen \<leftarrow> checked_len topic_len;
        dlen \<leftarrow> checked_len data_len;
        memory \<leftarrow> m_memory m;
        topic \<leftarrow> safe_read memory topic_ptr tlen;
        data \<leftarrow> safe_read memory data_ptr dlen;
        m1 \<leftarrow> charge (STORAGE_WRITE_BASE_FUEL +
                of_nat (length topic + length data) * STORAGE_WRITE_PER_BYTE_FUEL) m;
        Some (topic, data, m1)
      } of
        None \<Rightarrow> (ctx, m)
      | Some (topic, data, m1) \<Rightarrow>
          (ctx\<lparr>hc_events := hc_events ctx @ [\<lparr>he_topic = topic, he_data = data\<rparr>]\<rparr>, m1))"

text \<open>The queue is capped after the fuel is charged.\<close>

definition transfer_native ::
    "u32 \<Rightarrow> u32 \<Rightarrow> host_context \<Rightarrow> machine \<Rightarrow> u32 \<times> host_context \<times> machine" where
  "transfer_native to_ptr amount_ptr ctx m =
     (case do {
        memory \<leftarrow> m_memory m;
        to \<leftarrow> safe_read memory to_ptr 32;
        amount_buf \<leftarrow> safe_read memory amount_ptr 16;
        let amount = of_le_bytes amount_buf;
        m1 \<leftarrow> (if amount = 0 then None else charge 5000 m);
        Some (id_of_bytes to, amount, m1)
      } of
        None \<Rightarrow> (- 1, ctx, m)
      | Some (to, amount, m1) \<Rightarrow>
          if 50 \<le> length (hc_native_transfers ctx) then (- 1, ctx, m1)
          else (0, ctx\<lparr>hc_native_transfers := hc_native_transfers ctx @
                        [\<lparr>nt_to = to, nt_amount = amount\<rparr>]\<rparr>, m1))"

definition MAX_PENDING_CALLS :: nat where "MAX_PENDING_CALLS = 16"
definition MAX_METHOD_LEN :: nat where "MAX_METHOD_LEN = 64"
definition MAX_ARGS_LEN :: nat where "MAX_ARGS_LEN = 16 * 1024"

definition queue_contract_call ::
    "u32 \<Rightarrow> u32 \<Rightarrow> u32 \<Rightarrow> u32 \<Rightarrow> u32 \<Rightarrow> host_context \<Rightarrow> machine
     \<Rightarrow> u32 \<times> host_context \<times> machine" where
  "queue_contract_call target_ptr method_ptr method_len args_ptr args_len ctx m =
     (case do {
        mlen \<leftarrow> checked_len method_len;
        alen \<leftarrow> checked_len args_len;
        (if mlen = 0 \<or> MAX_METHOD_LEN < mlen \<or> MAX_ARGS_LEN < alen then None else Some ());
        memory \<leftarrow> m_memory m;
        target \<leftarrow> safe_read memory target_ptr 32;
        meth \<leftarrow> safe_read memory method_ptr mlen;
        args \<leftarrow> (if 0 < alen then safe_read memory args_ptr alen else Some []);
        m1 \<leftarrow> charge (5000 + (of_nat mlen + of_nat alen) * 10) m;
        Some (id_of_bytes target, meth, args, m1)
      } of
        None \<Rightarrow> (- 1, ctx, m)
      | Some (target, meth, args, m1) \<Rightarrow>
          if MAX_PENDING_CALLS \<le> length (hc_pending_calls ctx) then (- 1, ctx, m1)
          else (0, ctx\<lparr>hc_pending_calls := hc_pending_calls ctx @
                        [\<lparr>pc_target = target, pc_method = meth, pc_args = args\<rparr>]\<rparr>, m1))"

definition set_return_data :: "u32 \<Rightarrow> u32 \<Rightarrow> host_context \<Rightarrow> machine \<Rightarrow> host_context \<times> machine" where
  "set_return_data ptr len ctx m =
     (case do {
        dlen \<leftarrow> checked_len len;
        memory \<leftarrow> m_memory m;
        data \<leftarrow> safe_read memory ptr dlen;
        m1 \<leftarrow> charge (STORAGE_READ_BASE_FUEL +
                of_nat (length data) * STORAGE_WRITE_PER_BYTE_FUEL) m;
        Some (data, m1)
      } of
        None \<Rightarrow> (ctx, m)
      | Some (data, m1) \<Rightarrow> (ctx\<lparr>hc_return_data := data\<rparr>, m1))"

datatype host_call =
    StorageRead u32 u32 u32
  | StorageWrite u32 u32 u32 u32
  | EmitEvent u32 u32 u32 u32
  | GetCaller u32
  | GetBlockHeight
  | TransferNative u32 u32
  | GetMsgValue u32
  | GetSelfId u32
  | GetSelfBalance u32
  | QueueContractCall u32 u32 u32 u32 u32
  | SetReturnData u32 u32

datatype host_ret = RUnit | RI32 u32 | RI64 u64

fun do_host_call ::
    "host_call \<Rightarrow> host_context \<Rightarrow> machine \<Rightarrow> host_ret \<times> host_context \<times> machine" where
  "do_host_call (StorageRead kp kl vp) ctx m =
     (let (r, m') = storage_read kp kl vp ctx m in (RI32 r, ctx, m'))"
| "do_host_call (StorageWrite kp kl vp vl) ctx m = (RUnit, storage_write kp kl vp vl ctx m)"
| "do_host_call (EmitEvent tp tn dp dn) ctx m = (RUnit, emit_event tp tn dp dn ctx m)"
| "do_host_call (GetCaller p) ctx m = (RUnit, ctx, put_out p (id_bytes (hc_caller ctx)) m)"
| "do_host_call GetBlockHeight ctx m = (RI64 (hc_block_height ctx), ctx, m)"
| "do_host_call (TransferNative tp ap) ctx m =
     (let (r, ctx', m') = transfer_native tp ap ctx m in (RI32 r, ctx', m'))"
| "do_host_call (GetMsgValue p) ctx m = (RUnit, ctx, put_out p (le_bytes 16 (hc_msg_value ctx)) m)"
| "do_host_call (GetSelfId p) ctx m = (RUnit, ctx, put_out p (id_bytes (hc_contract_id ctx)) m)"
| "do_host_call (GetSelfBalance p) ctx m =
     (RUnit, ctx, put_out p (le_bytes 16 (hc_self_balance ctx)) m)"
| "do_host_call (QueueContractCall tp mp ml ap al) ctx m =
     (let (r, ctx', m') = queue_contract_call tp mp ml ap al ctx m in (RI32 r, ctx', m'))"
| "do_host_call (SetReturnData p l) ctx m = (RUnit, set_return_data p l ctx m)"

section \<open>Running a contract\<close>

datatype 'r guest =
    Trapped string u64
  | Exited 'r machine
  | Calls host_call machine "host_ret \<times> machine \<Rightarrow> 'r guest"

primrec run_guest ::
    "'r guest \<Rightarrow> host_context \<Rightarrow> (string \<times> u64 + 'r \<times> machine) \<times> host_context" where
  "run_guest (Trapped e f) ctx = (Inl (e, f), ctx)"
| "run_guest (Exited r m) ctx = (Inr (r, m), ctx)"
| "run_guest (Calls c m k) ctx =
     (let (r, ctx', m') = do_host_call c ctx m in run_guest (k (r, m')) ctx')"

text \<open>The guest never gains fuel between two host calls.\<close>

primrec metered :: "'r guest \<Rightarrow> u64 \<Rightarrow> bool" where
  "metered (Trapped e f) fuel = (f \<le> fuel)"
| "metered (Exited r m) fuel = (m_fuel m \<le> fuel)"
| "metered (Calls c m k) fuel = (m_fuel m \<le> fuel \<and> (\<forall>rm. metered (k rm) (m_fuel (snd rm))))"

text \<open>
  wasmtime: compiling a module (its exported names), linking it, instantiating it (which runs its
  start function) and calling the exported \<open>call\<close>.  The first argument selects the strict engine.
\<close>

record wasm_instance =
  inst_typed_call :: "string option"
  inst_call :: "machine \<Rightarrow> u32 \<Rightarrow> u32 \<Rightarrow> u32 guest"

record wasm_engine =
  wasm_module :: "bool \<Rightarrow> bytes \<Rightarrow> string + string list"
  wasm_link :: "bool \<Rightarrow> bytes \<Rightarrow> string option"
  wasm_start :: "bool \<Rightarrow> bytes \<Rightarrow> u64 \<Rightarrow> wasm_instance guest"

definition engine_metered :: "wasm_engine \<Rightarrow> bool" where
  "engine_metered W \<longleftrightarrow>
     (\<forall>strict code fuel. metered (wasm_start W strict code fuel) fuel \<and>
        (\<forall>inst \<in> set_guest (wasm_start W strict code fuel). \<forall>m p l.
           metered (inst_call inst m p l) (m_fuel m)))"

definition validate_bytecode :: "wasm_engine \<Rightarrow> bytes \<Rightarrow> vm_error + unit" where
  "validate_bytecode W bytecode =
     (case wasm_module W False bytecode of
        Inl e \<Rightarrow> Inl (InvalidBytecode e)
      | Inr exports \<Rightarrow>
          if ''memory'' \<notin> set exports then Inl (MissingExport ''memory'')
          else if ''call'' \<notin> set exports then Inl (MissingExport ''call'')
          else Inr ())"

definition INPUT_OFFSET :: u32 where "INPUT_OFFSET = 1024"

definition run_instance ::
    "wasm_instance \<Rightarrow> machine \<Rightarrow> bytes \<Rightarrow> u64 \<Rightarrow> host_context \<Rightarrow> vm_error + vm_result" where
  "run_instance inst m input fuel ctx =
     (case m_memory m of
        None \<Rightarrow> Inl (MissingExport ''memory'')
      | Some memory \<Rightarrow>
          (case safe_write memory INPUT_OFFSET input of
             None \<Rightarrow> Inl (VmTrap ''memory write failed: out of bounds memory access'')
           | Some memory' \<Rightarrow>
               (case inst_typed_call inst of
                  Some e \<Rightarrow> Inl (MissingExport (''call: '' @ e))
                | None \<Rightarrow>
                    (case run_guest (inst_call inst (m\<lparr>m_memory := Some memory'\<rparr>)
                            INPUT_OFFSET (of_nat (length input))) ctx of
                       (Inl (e, f), _) \<Rightarrow> Inl (if f = 0 then OutOfGas else VmTrap e)
                     | (Inr (_, m'), data) \<Rightarrow>
                         Inr \<lparr>vr_gas_used = fuel_to_gas (fuel - m_fuel m'),
                              vr_return_data = hc_return_data data, vr_events = hc_events data,
                              vr_storage = hc_storage data,
                              vr_native_transfers = hc_native_transfers data,
                              vr_pending_calls = hc_pending_calls data\<rparr>))))"

definition get_or_prelink :: "wasm_engine \<Rightarrow> bool \<Rightarrow> bytes \<Rightarrow> vm_error + (u64 \<Rightarrow> wasm_instance guest)" where
  "get_or_prelink W strict bytecode =
     (case wasm_module W strict bytecode of
        Inl e \<Rightarrow> Inl (InvalidBytecode e)
      | Inr _ \<Rightarrow>
          (case wasm_link W strict bytecode of
             Some e \<Rightarrow> Inl (VmTrap e)
           | None \<Rightarrow> Inr (wasm_start W strict bytecode)))"

definition execute_pre ::
    "(u64 \<Rightarrow> wasm_instance guest) \<Rightarrow> bytes \<Rightarrow> host_context \<Rightarrow> u64 option \<Rightarrow> vm_error + vm_result" where
  "execute_pre pre input ctx fuel_limit =
     (let fuel = (case fuel_limit of Some f \<Rightarrow> f | None \<Rightarrow> DEFAULT_FUEL_LIMIT) in
      case run_guest (pre fuel) ctx of
        (Inl (e, _), _) \<Rightarrow> Inl (VmTrap e)
      | (Inr (inst, m), ctx') \<Rightarrow> run_instance inst m input fuel ctx')"

text \<open>\<open>VmRuntime::execute\<close>; \<open>dh\<close> is the height from which the strict engine applies.\<close>

definition vm_execute ::
    "wasm_engine \<Rightarrow> u64 \<Rightarrow> bytes \<Rightarrow> bytes \<Rightarrow> host_context \<Rightarrow> u64 option \<Rightarrow> vm_error + vm_result" where
  "vm_execute W dh bytecode input ctx fuel_limit =
     (case get_or_prelink W (dh \<le> hc_block_height ctx) bytecode of
        Inl e \<Rightarrow> Inl e
      | Inr pre \<Rightarrow> execute_pre pre input ctx fuel_limit)"

section \<open>Host functions are paid for\<close>

text \<open>
  What a run has queued, emitted and stored beyond the \<open>n0\<close> entries it started with, at the price
  the host functions charge for it.
\<close>

definition work :: "nat \<Rightarrow> host_context \<Rightarrow> nat" where
  "work n0 ctx =
     5000 * (length (hc_native_transfers ctx) + length (hc_pending_calls ctx)) +
     2000 * (length (hc_events ctx) + (length (hc_storage ctx) - n0))"

definition transfers_ok :: "native_transfer list \<Rightarrow> bool" where
  "transfers_ok ts \<longleftrightarrow> length ts \<le> 50 \<and> (\<forall>t \<in> set ts. nt_amount t \<noteq> 0)"

definition calls_ok :: "pending_call list \<Rightarrow> bool" where
  "calls_ok cs \<longleftrightarrow> length cs \<le> 16 \<and>
     (\<forall>c \<in> set cs. pc_method c \<noteq> [] \<and> length (pc_method c) \<le> 64 \<and> length (pc_args c) \<le> 16384)"

definition queues_ok :: "host_context \<Rightarrow> bool" where
  "queues_ok ctx \<longleftrightarrow> transfers_ok (hc_native_transfers ctx) \<and> calls_ok (hc_pending_calls ctx)"

lemma charge_Some:
  "charge cost m = Some m1 \<Longrightarrow> unat (m_fuel m1) + unat cost = unat (m_fuel m)"
  by (auto simp: charge_def word_less_nat_alt word_le_nat_alt unat_sub_exact split: if_splits)

lemma checked_len_Some: "checked_len l = Some n \<Longrightarrow> n \<le> 1048576"
  by (auto simp: checked_len_def MAX_HOST_ALLOC_def split: if_splits)

lemma safe_read_Some: "safe_read memory ptr n = Some bs \<Longrightarrow> length bs = n"
  by (auto simp: safe_read_def split: if_splits)

lemma unat_price:
  "b + n * 10 < 2 ^ 64 \<Longrightarrow> unat (of_nat b + of_nat n * 10 :: u64) = b + n * 10"
  using unat_of_nat_exact [where 'a = 64, of "b + n * 10"] by simp

lemma write_price:
  "n \<le> 2097152 \<Longrightarrow>
   2000 \<le> unat (STORAGE_WRITE_BASE_FUEL + of_nat n * STORAGE_WRITE_PER_BYTE_FUEL)"
  using unat_price [of 2000 n]
  by (simp add: STORAGE_WRITE_BASE_FUEL_def STORAGE_WRITE_PER_BYTE_FUEL_def)

lemma call_price:
  assumes "ml \<le> 1048576" "al \<le> 1048576"
  shows "5000 \<le> unat (5000 + (of_nat ml + of_nat al) * 10 :: u64)"
  using unat_price [of 5000 "ml + al"] assms by simp

lemmas host_dests = charge_Some checked_len_Some safe_read_Some

lemma m_fuel_put_out [simp]: "m_fuel (put_out p data m) = m_fuel m"
  by (simp add: put_out_def split: option.split)

lemma storage_read_fuel_le:
  "storage_read kp kl vp ctx m = (r, m') \<Longrightarrow> unat (m_fuel m') \<le> unat (m_fuel m)"
  by (auto simp: storage_read_def dest!: charge_Some split: option.splits bind_splits)

lemma length_alist_update: "length (AList.update k v xs) \<le> Suc (length xs)"
  by (induction xs) auto

lemma storage_write_cases:
  assumes "storage_write kp kl vp vl ctx m = (ctx', m')"
  obtains "ctx' = ctx" "m' = m"
  | key val where "ctx' = ctx\<lparr>hc_storage := AList.update key val (hc_storage ctx)\<rparr>"
      "unat (m_fuel m') + 2000 \<le> unat (m_fuel m)"
proof (cases "(ctx', m') = (ctx, m)")
  case False
  then obtain key val where *: "ctx' = ctx\<lparr>hc_storage := AList.update key val (hc_storage ctx)\<rparr>"
    "length key \<le> 1048576" "length val \<le> 1048576"
    "unat (m_fuel m') + unat (storage_write_fuel (length key) (length val)) = unat (m_fuel m)"
    using assms
    by (auto simp: storage_write_def dest!: host_dests split: option.splits bind_splits)
  then show thesis
    using that(2) write_price [of "length key + length val"] by (simp add: storage_write_fuel_def)
qed (use that(1) in simp)

lemma emit_event_cases:
  assumes "emit_event tp tn dp dn ctx m = (ctx', m')"
  obtains "ctx' = ctx" "m' = m"
  | e where "ctx' = ctx\<lparr>hc_events := hc_events ctx @ [e]\<rparr>"
      "unat (m_fuel m') + 2000 \<le> unat (m_fuel m)"
proof (cases "(ctx', m') = (ctx, m)")
  case False
  then obtain topic data where *: "ctx' = ctx\<lparr>hc_events := hc_events ctx @
      [\<lparr>he_topic = topic, he_data = data\<rparr>]\<rparr>"
    "length topic \<le> 1048576" "length data \<le> 1048576"
    "unat (m_fuel m') + unat (STORAGE_WRITE_BASE_FUEL +
       of_nat (length topic + length data) * STORAGE_WRITE_PER_BYTE_FUEL) = unat (m_fuel m)"
    using assms
    by (auto simp: emit_event_def dest!: host_dests split: option.splits bind_splits)
  then show thesis
    using that(2) write_price [of "length topic + length data"] by simp
qed (use that(1) in simp)

lemma transfer_native_cases:
  assumes "transfer_native tp ap ctx m = (r, ctx', m')"
  obtains "ctx' = ctx" "m_fuel m' \<le> m_fuel m"
  | t where "ctx' = ctx\<lparr>hc_native_transfers := hc_native_transfers ctx @ [t]\<rparr>" "nt_amount t \<noteq> 0"
      "length (hc_native_transfers ctx) < 50" "unat (m_fuel m') + 5000 \<le> unat (m_fuel m)"
  using assms
  by (auto simp: transfer_native_def word_le_nat_alt Let_def dest!: charge_Some
      split: option.splits bind_splits if_splits)

lemma queue_contract_call_cases:
  assumes "queue_contract_call tp mp ml ap al ctx m = (r, ctx', m')"
  obtains "ctx' = ctx" "m_fuel m' \<le> m_fuel m"
  | c where "ctx' = ctx\<lparr>hc_pending_calls := hc_pending_calls ctx @ [c]\<rparr>"
      "pc_method c \<noteq> []" "length (pc_method c) \<le> 64" "length (pc_args c) \<le> 16384"
      "length (hc_pending_calls ctx) < 16" "unat (m_fuel m') + 5000 \<le> unat (m_fuel m)"
proof (cases "ctx' = ctx \<and> m_fuel m' \<le> m_fuel m")
  case False
  then obtain mlen alen c where *: "ctx' = ctx\<lparr>hc_pending_calls := hc_pending_calls ctx @ [c]\<rparr>"
    "length (pc_method c) = mlen" "length (pc_args c) = alen" "0 < mlen" "mlen \<le> 64" "alen \<le> 16384"
    "length (hc_pending_calls ctx) < 16"
    "unat (m_fuel m') + unat (5000 + (of_nat mlen + of_nat alen) * 10 :: u64) = unat (m_fuel m)"
    using assms
    by (auto simp: queue_contract_call_def word_le_nat_alt MAX_PENDING_CALLS_def MAX_METHOD_LEN_def
        MAX_ARGS_LEN_def dest!: charge_Some safe_read_Some split: option.splits bind_splits if_splits)
  then show thesis
    using that(2) [of c] call_price [of mlen alen] by fastforce
qed (use that(1) in simp)

lemma set_return_data_cases:
  assumes "set_return_data p l ctx m = (ctx', m')"
  obtains "ctx' = ctx" "m' = m"
  | data where "ctx' = ctx\<lparr>hc_return_data := data\<rparr>" "unat (m_fuel m') \<le> unat (m_fuel m)"
  using assms
  by (auto simp: set_return_data_def dest!: charge_Some split: option.splits bind_splits)

lemma queues_ok_push:
  "transfers_ok ts \<Longrightarrow> length ts < 50 \<Longrightarrow> nt_amount t \<noteq> 0 \<Longrightarrow> transfers_ok (ts @ [t])"
  "calls_ok cs \<Longrightarrow> length cs < 16 \<Longrightarrow> pc_method c \<noteq> [] \<Longrightarrow> length (pc_method c) \<le> 64 \<Longrightarrow>
     length (pc_args c) \<le> 16384 \<Longrightarrow> calls_ok (cs @ [c])"
  by (auto simp: transfers_ok_def calls_ok_def)

lemma host_call_paid:
  assumes "do_host_call c ctx m = (r, ctx', m')" "queues_ok ctx"
  shows "queues_ok ctx' \<and> work n0 ctx' + unat (m_fuel m') \<le> work n0 ctx + unat (m_fuel m)"
proof (cases c)
  case (StorageRead x y z)
  then show ?thesis
    using assms storage_read_fuel_le [of x y z ctx m]
    by (auto simp: Let_def split: prod.splits)
next
  case (StorageWrite x y z w)
  then have "storage_write x y z w ctx m = (ctx', m')"
    using assms by simp
  then show ?thesis
  proof (cases rule: storage_write_cases)
    case (2 key val)
    then show ?thesis
      using assms(2) length_alist_update [of key val "hc_storage ctx"]
      by (simp add: queues_ok_def work_def)
  qed (use assms in simp)
next
  case (EmitEvent x y z w)
  then have "emit_event x y z w ctx m = (ctx', m')"
    using assms by simp
  then show ?thesis
    using assms(2) by (cases rule: emit_event_cases) (simp_all add: queues_ok_def work_def)
next
  case (TransferNative x y)
  then obtain q where "transfer_native x y ctx m = (q, ctx', m')"
    using assms by (auto split: prod.splits)
  then show ?thesis
    using assms(2)
    by (cases rule: transfer_native_cases) (simp_all add: queues_ok_def queues_ok_push work_def word_le_nat_alt)
next
  case (QueueContractCall x y z v w)
  then obtain q where "queue_contract_call x y z v w ctx m = (q, ctx', m')"
    using assms by (auto split: prod.splits)
  then show ?thesis
    using assms(2)
    by (cases rule: queue_contract_call_cases) (simp_all add: queues_ok_def queues_ok_push work_def word_le_nat_alt)
next
  case (SetReturnData x y)
  then have "set_return_data x y ctx m = (ctx', m')"
    using assms by simp
  then show ?thesis
    using assms(2) by (cases rule: set_return_data_cases) (simp_all add: queues_ok_def work_def)
qed (use assms in auto)

lemma run_guest_paid:
  assumes "run_guest g ctx = (Inr (v, m'), ctx')" "metered g fuel" "queues_ok ctx"
  shows "queues_ok ctx' \<and> work n0 ctx' + unat (m_fuel m') \<le> work n0 ctx + unat fuel \<and> v \<in> set_guest g"
  using assms
proof (induction g arbitrary: ctx fuel)
  case (Calls c m k)
  obtain r ctx1 m1 where c: "do_host_call c ctx m = (r, ctx1, m1)"
    by (metis prod_cases3)
  have "queues_ok ctx1 \<and> work n0 ctx1 + unat (m_fuel m1) \<le> work n0 ctx + unat (m_fuel m)"
    using c Calls.prems(3) by (rule host_call_paid)
  moreover have "queues_ok ctx' \<and> work n0 ctx' + unat (m_fuel m') \<le> work n0 ctx1 + unat (m_fuel m1) \<and>
      v \<in> set_guest (k (r, m1))"
    using Calls.prems c calculation by (intro Calls.IH) auto
  ultimately show ?case
    using Calls.prems(2) by (auto simp: word_le_nat_alt)
qed (auto simp: word_le_nat_alt)

lemma execute_pre_paid:
  assumes "execute_pre pre input ctx (Some fuel) = Inr r" "queues_ok ctx" "work n0 ctx = 0"
    and "metered (pre fuel) fuel"
    and "\<And>inst m p l. inst \<in> set_guest (pre fuel) \<Longrightarrow> metered (inst_call inst m p l) (m_fuel m)"
  shows "transfers_ok (vr_native_transfers r) \<and> calls_ok (vr_pending_calls r) \<and>
    vr_gas_used r \<le> fuel \<and>
    5000 * (length (vr_native_transfers r) + length (vr_pending_calls r)) +
    2000 * (length (vr_events r) + (length (vr_storage r) - n0)) \<le> unat (vr_gas_used r)"
proof -
  obtain inst m ctx1 memory c v m2 ctx2 where
    1: "run_guest (pre fuel) ctx = (Inr (inst, m), ctx1)" and
    2: "run_guest (inst_call inst (m\<lparr>m_memory := Some memory\<rparr>) INPUT_OFFSET c) ctx1 =
          (Inr (v, m2), ctx2)" and
    r: "r = \<lparr>vr_gas_used = fuel - m_fuel m2, vr_return_data = hc_return_data ctx2,
          vr_events = hc_events ctx2, vr_storage = hc_storage ctx2,
          vr_native_transfers = hc_native_transfers ctx2, vr_pending_calls = hc_pending_calls ctx2\<rparr>"
    using assms(1)
    by (auto simp: execute_pre_def run_instance_def fuel_to_gas_def
        split: prod.splits sum.splits option.splits)
  have a: "queues_ok ctx1 \<and> work n0 ctx1 + unat (m_fuel m) \<le> work n0 ctx + unat fuel \<and>
      inst \<in> set_guest (pre fuel)"
    using 1 assms(4,2) by (rule run_guest_paid)
  have "metered (inst_call inst (m\<lparr>m_memory := Some memory\<rparr>) INPUT_OFFSET c) (m_fuel m)"
    using assms(5) [of inst "m\<lparr>m_memory := Some memory\<rparr>"] a by simp
  then have b: "queues_ok ctx2 \<and> work n0 ctx2 + unat (m_fuel m2) \<le> work n0 ctx1 + unat (m_fuel m)"
    using run_guest_paid [OF 2] a by blast
  have "m_fuel m2 \<le> fuel" "work n0 ctx2 + unat (m_fuel m2) \<le> unat fuel"
    using a b assms(3) by (simp_all add: word_le_nat_alt)
  moreover from this have "unat (fuel - m_fuel m2) = unat fuel - unat (m_fuel m2)"
    by (intro unat_sub_exact)
  ultimately show ?thesis
    using b unfolding r queues_ok_def work_def by (simp add: word_le_nat_alt)
qed

lemma vm_execute_paid:
  assumes "engine_metered W" "vm_execute W dh bytecode input ctx (Some fuel) = Inr r"
    and "hc_native_transfers ctx = []" "hc_pending_calls ctx = []" "hc_events ctx = []"
  shows "transfers_ok (vr_native_transfers r) \<and> calls_ok (vr_pending_calls r) \<and>
    vr_gas_used r \<le> fuel \<and>
    5000 * (length (vr_native_transfers r) + length (vr_pending_calls r)) +
    2000 * (length (vr_events r) + (length (vr_storage r) - length (hc_storage ctx)))
      \<le> unat (vr_gas_used r)"
proof -
  have "execute_pre (wasm_start W (dh \<le> hc_block_height ctx) bytecode) input ctx (Some fuel) = Inr r"
    using assms(2) by (auto simp: vm_execute_def get_or_prelink_def split: sum.splits option.splits)
  then show ?thesis
    by (rule execute_pre_paid)
      (use assms in \<open>auto simp: engine_metered_def queues_ok_def transfers_ok_def calls_ok_def work_def\<close>)
qed

section \<open>A contract cannot exceed its budget\<close>

text \<open>C33: a contract run that succeeds stays within its limits: it used no more gas than its fuel
  limit, queued at most 50 transfers (none of them of nothing) and at most 16 calls (with a method
  of 1 to 64 bytes and at most 16384 bytes of arguments), and it paid for what it produced: 5000 gas
  for every queued transfer and call, 2000 for every event and for every new storage entry.  The
  assumption on wasmtime is that the guest does not gain fuel.\<close>

theorem contract_run_within_limits:
  assumes "engine_metered W"
    and "ctx = (new_host_context caller height)\<lparr>hc_contract_id := target, hc_storage := storage,
           hc_msg_value := value, hc_self_balance := own\<rparr>"
    and "vm_execute W dh bytecode input ctx (Some fuel) = Inr r"
  shows "vr_gas_used r \<le> fuel \<and>
    length (vr_native_transfers r) \<le> 50 \<and> (\<forall>t \<in> set (vr_native_transfers r). nt_amount t \<noteq> 0) \<and>
    length (vr_pending_calls r) \<le> 16 \<and>
    (\<forall>c \<in> set (vr_pending_calls r). 1 \<le> length (pc_method c) \<and> length (pc_method c) \<le> 64 \<and>
       length (pc_args c) \<le> 16384) \<and>
    5000 * (length (vr_native_transfers r) + length (vr_pending_calls r)) +
    2000 * (length (vr_events r) + (length (vr_storage r) - length storage)) \<le> unat (vr_gas_used r)"
  using vm_execute_paid [OF assms(1,3)] assms(2)
  by (auto simp: new_host_context_def transfers_ok_def calls_ok_def Suc_le_eq)

text \<open>
  An engine for the witnesses.  Its only guest has 2048 bytes of memory; called with a three-letter
  method it queues the transfer described by its arguments, recipient and amount, and returns.
\<close>

definition sample_instance :: wasm_instance where
  "sample_instance =
     \<lparr>inst_typed_call = None,
      inst_call = (\<lambda>m p l. Calls (TransferNative (p + 4) (p + 36)) (m\<lparr>m_fuel := sat_sub (m_fuel m) 1\<rparr>)
        (\<lambda>(_, m'). Exited 0 m'))\<rparr>"

definition sample_wasm :: wasm_engine where
  "sample_wasm =
     \<lparr>wasm_module = (\<lambda>_ _. Inr [''memory'', ''call'']), wasm_link = (\<lambda>_ _. None),
      wasm_start = (\<lambda>_ _ fuel. Exited sample_instance
        \<lparr>m_memory = Some (replicate 2048 0), m_fuel = fuel\<rparr>)\<rparr>"

lemma sat_sub_le: "sat_sub a b \<le> a"
  by (simp add: word_le_nat_alt unat_sat_sub)

lemma sample_wasm_metered [simp]: "engine_metered sample_wasm"
  by (simp add: engine_metered_def sample_wasm_def sample_instance_def split_def sat_sub_le)

lemma sample_wasm_run:
  assumes "length meth = 3" "amount \<noteq> 0" "hc_native_transfers ctx = []" "5001 \<le> fuel"
  shows "vm_execute sample_wasm dh code (meth @ 0 # id_bytes to @ le_bytes 16 amount) ctx (Some fuel) =
    Inr \<lparr>vr_gas_used = 5001, vr_return_data = hc_return_data ctx, vr_events = hc_events ctx,
         vr_storage = hc_storage ctx, vr_native_transfers = [\<lparr>nt_to = to, nt_amount = amount\<rparr>],
         vr_pending_calls = hc_pending_calls ctx\<rparr>"
proof -
  have fuel: "sat_sub fuel 1 = fuel - 1" "\<not> fuel - 1 < 5000"
    using assms(4) by (auto simp: sat_sub_def word_le_nat_alt word_less_nat_alt unat_sub_exact)
  show ?thesis
    using assms fuel
    by (simp add: vm_execute_def get_or_prelink_def sample_wasm_def execute_pre_def
        run_instance_def sample_instance_def INPUT_OFFSET_def safe_write_def safe_read_def as_usize_def
        transfer_native_def charge_def of_le_bytes_le_bytes fuel_to_gas_def)
qed

theorem contract_run_within_limits_witness:
  "\<exists>r. vm_execute sample_wasm 0 [] (ascii ''pay'' @ 0 # id_bytes 7 @ le_bytes 16 (5 :: u128))
         (new_host_context 1 0) (Some 1000000) = Inr r \<and>
     vr_native_transfers r = [\<lparr>nt_to = 7, nt_amount = 5\<rparr>] \<and> 5000 \<le> unat (vr_gas_used r)"
proof -
  have ctx: "new_host_context 1 0 = (new_host_context 1 0)\<lparr>hc_contract_id := 0, hc_storage := [],
      hc_msg_value := 0, hc_self_balance := 0\<rparr>"
    by (simp add: new_host_context_def)
  let ?run = "vm_execute sample_wasm 0 [] (ascii ''pay'' @ 0 # id_bytes 7 @ le_bytes 16 (5 :: u128))
      (new_host_context 1 0) (Some 1000000)"
  have "?run = Inr \<lparr>vr_gas_used = 5001, vr_return_data = [], vr_events = [], vr_storage = [],
      vr_native_transfers = [\<lparr>nt_to = 7, nt_amount = 5\<rparr>], vr_pending_calls = []\<rparr>"
    by (subst sample_wasm_run) (simp_all add: new_host_context_def ascii_def)
  then obtain r where r: "?run = Inr r" "vr_native_transfers r = [\<lparr>nt_to = 7, nt_amount = 5\<rparr>]"
    by simp
  then show ?thesis
    using contract_run_within_limits [OF sample_wasm_metered ctx r(1)] by auto
qed

end
