(* ===== verification/Auth.thy ===== *)
theory Auth
  imports Sys_Base Vm
begin

text \<open>
  Who may act for an account: signature verification of
  \<open>crates/solen-execution/src/executor.rs\<close> (\<open>verify_auth\<close>, \<open>verify_passkey\<close> and their helpers)
  and of \<open>crates/solen-crypto/src/pq.rs\<close>.  The signature schemes themselves (ed25519, P-256,
  ML-DSA) and SHA-256 are fields of the environment.  Proved here: the encoding of the challenge is
  injective, and a method accepts a signature only on the grounds its kind promises.
\<close>

section \<open>Environment\<close>

record exec_env = sys_env +
  sha256 :: "bytes \<Rightarrow> bytes"
  p256_verify :: "hash \<Rightarrow> hash \<Rightarrow> bytes \<Rightarrow> bytes \<Rightarrow> bytes \<Rightarrow> bool"
  ml_dsa_check :: "bytes \<Rightarrow> bytes \<Rightarrow> bytes \<Rightarrow> bool"
  actions_json :: "action list \<Rightarrow> bytes"
  wasm :: wasm_engine
  enc_revert :: "change_set \<Rightarrow> bytes"
  dec_revert :: "bytes \<Rightarrow> change_set option"

text \<open>
  \<open>p256_verify x y data r s\<close> is the P-256 check: the point decodes, the scalars are valid and the
  signature over the data verifies.  \<open>ml_dsa_check\<close> is the check of the ML-DSA-65 library on inputs
  of the right lengths.
\<close>

section \<open>Lists\<close>

function chunks :: "nat \<Rightarrow> 'a list \<Rightarrow> 'a list list" where
  "chunks n xs = (if n = 0 \<or> xs = [] then [] else take n xs # chunks n (drop n xs))"
  by pat_completeness auto
termination
  by (relation "measure (\<lambda>(_, xs). length xs)") auto

declare chunks.simps [simp del]

fun str_find :: "string \<Rightarrow> string \<Rightarrow> nat option" where
  "str_find pat [] = (if pat = [] then Some 0 else None)"
| "str_find pat (c # cs) =
     (if prefix pat (c # cs) then Some 0 else map_option Suc (str_find pat cs))"

section \<open>Base64\<close>

definition CHARSET :: string where
  "CHARSET = ''ABCDEFGHIJKLMNOPQRSTUVWXYZabcdefghijklmnopqrstuvwxyz0123456789-_''"

definition base64_char :: "u32 \<Rightarrow> nat \<Rightarrow> char" where
  "base64_char n sh = CHARSET ! unat (drop_bit sh n AND 0x3F)"

definition base64_chunk :: "bytes \<Rightarrow> string" where
  "base64_chunk chunk =
     (let b0 = ucast (chunk ! 0) :: u32;
          b1 = (if 1 < length chunk then ucast (chunk ! 1) else 0);
          b2 = (if 2 < length chunk then ucast (chunk ! 2) else 0);
          n = push_bit 16 b0 OR push_bit 8 b1 OR b2
      in [base64_char n 18, base64_char n 12]
         @ (if 1 < length chunk then [base64_char n 6] else [])
         @ (if 2 < length chunk then [base64_char n 0] else []))"

definition base64url_encode :: "bytes \<Rightarrow> string" where
  "base64url_encode data = concat (map base64_chunk (chunks 3 data))"

section \<open>The client data of a passkey\<close>

text \<open>The loop that looks for the closing quote: \<open>prev\<close> is the byte before, if any.\<close>

fun closing_quote :: "char option \<Rightarrow> string \<Rightarrow> nat option" where
  "closing_quote prev [] = None"
| "closing_quote prev (c # cs) =
     (if c = CHR 0x22 \<and> prev \<noteq> Some (CHR 0x5C) then Some 0
      else map_option Suc (closing_quote (Some c) cs))"

definition strip_char :: "char \<Rightarrow> string \<Rightarrow> string option" where
  "strip_char c s = (case s of d # t \<Rightarrow> if c = d then Some t else None | [] \<Rightarrow> None)"

definition extract_json_string :: "string \<Rightarrow> string \<Rightarrow> string option" where
  "extract_json_string json key =
     (let pattern = CHR 0x22 # key @ [CHR 0x22] in
      case str_find pattern json of
        None \<Rightarrow> None
      | Some key_pos \<Rightarrow>
          let after_key = drop (key_pos + length pattern) json in
          if str_find pattern after_key \<noteq> None then None
          else do {
            after_colon \<leftarrow> strip_char (CHR '':'') (trim_start after_key);
            after_quote \<leftarrow> strip_char (CHR 0x22) (trim_start after_colon);
            n \<leftarrow> closing_quote None after_quote;
            let val = take n after_quote;
            if CHR 0x5C \<in> set val then None else Some val
          })"

definition u16_at :: "bytes \<Rightarrow> nat \<Rightarrow> nat" where
  "u16_at bs i = unat (of_le_bytes (take 2 (drop i bs)) :: u16)"

text \<open>The parts of a passkey signature: authenticator data, client data and the two scalars.\<close>

definition passkey_parts :: "bytes \<Rightarrow> (bytes \<times> bytes \<times> bytes \<times> bytes) option" where
  "passkey_parts sg =
     (if length sg < 68 then None
      else let auth_data_len = u16_at sg 0 in
      if length sg < 2 + auth_data_len + 2 + 64 then None
      else let cd_offset = 2 + auth_data_len;
               client_data_len = u16_at sg cd_offset;
               sig_start = cd_offset + 2 + client_data_len in
      if length sg < sig_start + 64 then None
      else Some (take auth_data_len (drop 2 sg),
                 take client_data_len (drop (cd_offset + 2) sg),
                 take 32 (drop sig_start sg),
                 take 32 (drop (sig_start + 32) sg)))"

definition verify_passkey ::
    "'a exec_env_scheme \<Rightarrow> hash \<Rightarrow> hash \<Rightarrow> string \<Rightarrow> string list \<Rightarrow> bytes \<Rightarrow> bytes \<Rightarrow> bool" where
  "verify_passkey E pk_x pk_y rp origs msg sg =
     (case passkey_parts sg of
        None \<Rightarrow> False
      | Some (auth_data, client_data_json, r_bytes, s_bytes) \<Rightarrow>
          (case from_utf8 client_data_json of
             None \<Rightarrow> False
           | Some client_data_str \<Rightarrow>
               extract_json_string client_data_str ''challenge'' = Some (base64url_encode msg) \<and>
               extract_json_string client_data_str ''type'' = Some ''webauthn.get'' \<and>
               (origs \<noteq> [] \<longrightarrow>
                  (case extract_json_string client_data_str ''origin'' of
                     None \<Rightarrow> False
                   | Some o' \<Rightarrow> o' \<in> set origs)) \<and>
               37 \<le> length auth_data \<and>
               (rp \<noteq> [] \<longrightarrow> take 32 auth_data = sha256 E (as_bytes rp)) \<and>
               (auth_data ! 32) AND 1 \<noteq> 0 \<and>
               p256_verify E pk_x pk_y (auth_data @ sha256 E client_data_json) r_bytes s_bytes))"

section \<open>Signature verification\<close>

definition ML_DSA_PK_LEN :: nat where "ML_DSA_PK_LEN = 1952"
definition ML_DSA_SIG_LEN :: nat where "ML_DSA_SIG_LEN = 3309"

definition verify_ml_dsa :: "'a exec_env_scheme \<Rightarrow> bytes \<Rightarrow> bytes \<Rightarrow> bytes \<Rightarrow> bool" where
  "verify_ml_dsa E pk msg sg \<longleftrightarrow>
     length pk = ML_DSA_PK_LEN \<and> length sg = ML_DSA_SIG_LEN \<and>
     ml_dsa_check E pk msg sg"

text \<open>The loop over the sub-signatures; a key counts only the first time it appears.\<close>

fun count_signers ::
    "'a exec_env_scheme \<Rightarrow> hash list \<Rightarrow> bytes \<Rightarrow> bytes list \<Rightarrow> hash list \<Rightarrow> u16 \<Rightarrow> u16" where
  "count_signers E keys msg [] counted valid_count = valid_count"
| "count_signers E keys msg (chunk # rest) counted valid_count =
     (let pubkey = id_of_bytes (take 32 chunk);
          sig = drop 32 chunk in
      if pubkey \<in> set counted then count_signers E keys msg rest counted valid_count
      else if pubkey \<in> set keys \<and> ed25519_verify E pubkey msg sig
        then count_signers E keys msg rest (pubkey # counted) (valid_count + 1)
      else count_signers E keys msg rest (pubkey # counted) valid_count)"

fun verify_auth ::
    "'a exec_env_scheme \<Rightarrow> auth_method \<Rightarrow> bytes \<Rightarrow> bytes \<Rightarrow> bool \<Rightarrow> string option" where
  "verify_auth E (Ed25519 pk) msg sg pq_enabled =
     (if length sg \<noteq> 64 then None
      else if ed25519_verify E pk msg sg then Some ''ed25519'' else None)"
| "verify_auth E (Threshold keys thr) msg sg pq_enabled =
     (if thr = 0 \<or> keys = [] then None
      else if length sg mod 96 \<noteq> 0 \<or> sg = [] then None
      else if thr \<le> count_signers E keys msg (chunks 96 sg) [] 0 then Some ''threshold''
      else None)"
| "verify_auth E (Passkey cred x y rp origs) msg sg pq_enabled =
     (if verify_passkey E x y rp origs msg sg then Some ''passkey'' else None)"
| "verify_auth E (Session key exp lim bud tgts mets restr) msg sg pq_enabled =
     (if length sg \<noteq> 64 then None
      else if ed25519_verify E key msg sg then Some ''session'' else None)"
| "verify_auth E (Guardian g) msg sg pq_enabled = None"
| "verify_auth E (MlDsa pk) msg sg pq_enabled =
     (if \<not> pq_enabled then None
      else if verify_ml_dsa E pk msg sg then Some ''ml-dsa'' else None)"
| "verify_auth E (Hybrid edpk mlpk) msg sg pq_enabled =
     (if \<not> pq_enabled then None
      else if length sg \<noteq> 64 + ML_DSA_SIG_LEN then None
      else if \<not> ed25519_verify E edpk msg (take 64 sg) then None
      else if \<not> verify_ml_dsa E mlpk msg (drop 64 sg) then None
      else Some ''hybrid'')"

text \<open>Operations injected by the proposer carry the signature \<open>[0xFF]\<close>.\<close>

definition is_system_authorized :: "user_operation \<Rightarrow> bool" where
  "is_system_authorized op \<longleftrightarrow>
     signature op = [0xFF] \<and>
     (case actions op of
        [Call target meth args] \<Rightarrow>
          is_system_contract target \<and> (meth = ''fulfill'' \<or> meth = ''slash'')
      | _ \<Rightarrow> False)"

definition session_spent_key :: "account_id \<Rightarrow> hash \<Rightarrow> bytes" where
  "session_spent_key owner key =
     ascii (''session_spent/'' @ hex_encode (id_bytes owner) @ ''/'' @ hex_encode (id_bytes key))"

section \<open>The challenge encodes the message\<close>

lemma length_base64_chunk:
  "chunk \<noteq> [] \<Longrightarrow> length chunk \<le> 3 \<Longrightarrow> length (base64_chunk chunk) = length chunk + 1"
  by (auto simp: base64_chunk_def Let_def neq_Nil_conv length_Suc_conv le_Suc_eq numeral_3_eq_3)

lemma length_base64url:
  "length (base64url_encode data) = length data + (length data + 2) div 3"
proof (induction "3 :: nat" data rule: chunks.induct)
  case (1 data)
  show ?case
  proof (cases "data = []")
    case False
    then have "length (base64url_encode data) = length (take 3 data) + 1 + length (base64url_encode (drop 3 data))"
      using length_base64_chunk [of "take 3 data"]
      by (simp add: base64url_encode_def chunks.simps [of 3 data])
    moreover have "0 < length data"
      using False by simp
    ultimately show ?thesis
      using 1 [OF _] False by (cases "length data < 3") (auto simp: div_if)
  qed (simp add: base64url_encode_def chunks.simps)
qed

lemma same_length_base64: "base64url_encode a = base64url_encode b \<Longrightarrow> length a = length b"
  using length_base64url [of a] length_base64url [of b] by simp

lemma CHARSET_inject: "i < 64 \<Longrightarrow> j < 64 \<Longrightarrow> CHARSET ! i = CHARSET ! j \<Longrightarrow> i = j"
  by (rule nth_eq_iff_index_eq [THEN iffD1, of CHARSET]) (simp_all add: CHARSET_def)

lemma base64_char_bit:
  assumes "base64_char n sh = base64_char n' sh" "sh \<le> i" "i < sh + 6"
  shows "bit n i = bit n' i"
proof -
  have six: "m AND 0x3F = take_bit 6 m" for m :: u32
    by (simp add: take_bit_eq_mask mask_eq_exp_minus_1)
  have lt: "unat (take_bit 6 m) < 64" for m :: u32
    using take_bit_nat_less_exp [of 6 "unat m"] by (simp add: unsigned_take_bit_eq)
  have "take_bit 6 (drop_bit sh n) = take_bit 6 (drop_bit sh n')"
    using assms(1) CHARSET_inject [OF lt lt] by (simp add: base64_char_def six word_unat_eq_iff)
  then have "bit (take_bit 6 (drop_bit sh n)) (i - sh) = bit (take_bit 6 (drop_bit sh n')) (i - sh)"
    by simp
  moreover have "i - sh < 6"
    using assms(2,3) by simp
  ultimately show ?thesis
    using assms(2) by (simp add: bit_take_bit_iff bit_drop_bit_eq)
qed

definition chunk_bits :: "bytes \<Rightarrow> u32" where
  "chunk_bits chunk =
     push_bit 16 (ucast (chunk ! 0)) OR
     push_bit 8 (if 1 < length chunk then ucast (chunk ! 1) else 0) OR
     (if 2 < length chunk then ucast (chunk ! 2) else 0)"

lemma chunk_bits_bit:
  "j < 8 \<Longrightarrow> bit (chunk_bits c) (16 + j) = bit (c ! 0) j"
  "j < 8 \<Longrightarrow> 1 < length c \<Longrightarrow> bit (chunk_bits c) (8 + j) = bit (c ! 1) j"
  "j < 8 \<Longrightarrow> 2 < length c \<Longrightarrow> bit (chunk_bits c) j = bit (c ! 2) j"
  by (auto simp: chunk_bits_def bit_or_iff bit_push_bit_iff bit_ucast_iff dest: bit_imp_le_length)

lemma base64_chunk_bits:
  "base64_chunk c = [base64_char (chunk_bits c) 18, base64_char (chunk_bits c) 12]
     @ (if 1 < length c then [base64_char (chunk_bits c) 6] else [])
     @ (if 2 < length c then [base64_char (chunk_bits c) 0] else [])"
  by (simp add: base64_chunk_def chunk_bits_def Let_def)

lemma byte_eqI: "(\<And>j. j < 8 \<Longrightarrow> bit a j = bit b j) \<Longrightarrow> a = (b :: u8)"
  by (rule bit_word_eqI) simp

lemma base64_chunk_inject:
  assumes "base64_chunk c = base64_chunk d" "length c = length d" "c \<noteq> []" "length c \<le> 3"
  shows "c = d"
proof -
  have hi: "bit (chunk_bits c) i = bit (chunk_bits d) i" if "12 \<le> i" "i < 24" for i
    using assms(1) that base64_char_bit [of "chunk_bits c" 12 "chunk_bits d" i]
      base64_char_bit [of "chunk_bits c" 18 "chunk_bits d" i]
    by (cases "i < 18") (auto simp: base64_chunk_bits)
  have mid: "bit (chunk_bits c) i = bit (chunk_bits d) i" if "6 \<le> i" "i < 24" "1 < length c" for i
    using assms(1,2) that hi base64_char_bit [of "chunk_bits c" 6 "chunk_bits d" i]
    by (cases "i < 12") (auto simp: base64_chunk_bits)
  have lo: "bit (chunk_bits c) i = bit (chunk_bits d) i" if "i < 24" "2 < length c" for i
    using assms(1,2) that mid base64_char_bit [of "chunk_bits c" 0 "chunk_bits d" i]
    by (cases "i < 6") (auto simp: base64_chunk_bits)
  have 0: "c ! 0 = d ! 0"
    by (rule byte_eqI) (use hi [of "16 + _"] in \<open>simp add: chunk_bits_bit(1)\<close>)
  have 1: "c ! 1 = d ! 1" if "1 < length c"
    by (rule byte_eqI) (use mid [of "8 + _"] assms(2) that in \<open>simp add: chunk_bits_bit(2) [simplified, symmetric]\<close>)
  have 2: "c ! 2 = d ! 2" if "2 < length c"
    by (rule byte_eqI) (use lo assms(2) that in \<open>simp add: chunk_bits_bit(3) [symmetric]\<close>)
  show ?thesis
  proof (rule nth_equalityI)
    fix i assume i: "i < length c"
    then have "i = 0 \<or> i = 1 \<or> i = 2"
      using assms(4) by auto
    then show "c ! i = d ! i"
      using 0 1 2 i by auto
  qed (fact assms(2))
qed

lemma base64url_inject:
  "base64url_encode a = base64url_encode b \<Longrightarrow> a = b"
proof (induction "3 :: nat" a arbitrary: b rule: chunks.induct)
  case (1 a)
  have len: "length a = length b"
    by (rule same_length_base64 [OF 1(2)])
  show ?case
  proof (cases "a = []")
    case False
    then have b: "b \<noteq> []"
      using len by auto
    have split: "base64url_encode x = base64_chunk (take 3 x) @ base64url_encode (drop 3 x)"
      if "x \<noteq> []" for x
      using that by (simp add: base64url_encode_def chunks.simps [of 3 x])
    have "length (base64_chunk (take 3 a)) = length (base64_chunk (take 3 b))"
      using False b len by (simp add: length_base64_chunk)
    then have eq: "base64_chunk (take 3 a) = base64_chunk (take 3 b)"
      "base64url_encode (drop 3 a) = base64url_encode (drop 3 b)"
      using 1(2) by (simp_all add: split [OF False] split [OF b])
    have "take 3 a = take 3 b"
      using base64_chunk_inject [OF eq(1)] False len by simp
    moreover have "drop 3 a = drop 3 b"
      using 1(1) [OF _ eq(2)] False by simp
    ultimately show ?thesis
      by (metis append_take_drop_id)
  qed (use len in simp)
qed

section \<open>Thresholds count distinct signers\<close>

lemma count_signers_le:
  "unat (count_signers E keys msg parts counted n) \<le> unat n +
     card {k \<in> set keys. k \<notin> set counted \<and>
       (\<exists>part \<in> set parts. id_of_bytes (take 32 part) = k \<and> ed25519_verify E k msg (drop 32 part))}"
  (is "_ \<le> _ + card (?S parts counted)")
proof (induction E keys msg parts counted n rule: count_signers.induct)
  case (2 E keys msg part rest counted n)
  let ?k = "id_of_bytes (take 32 part)"
  let ?T = "\<lambda>parts counted. {k \<in> set keys. k \<notin> set counted \<and>
       (\<exists>part \<in> set parts. id_of_bytes (take 32 part) = k \<and> ed25519_verify E k msg (drop 32 part))}"
  have fin: "finite (?T (part # rest) counted)"
    by simp
  have mono: "card (?T rest counted) \<le> card (?T (part # rest) counted)"
    "card (?T rest (?k # counted)) \<le> card (?T (part # rest) counted)"
    by (intro card_mono fin; auto)+
  show ?case
  proof (cases "?k \<notin> set counted \<and> ?k \<in> set keys \<and> ed25519_verify E ?k msg (drop 32 part)")
    case True
    then have "insert ?k (?T rest (?k # counted)) \<subseteq> ?T (part # rest) counted"
      by auto
    then have "card (insert ?k (?T rest (?k # counted))) \<le> card (?T (part # rest) counted)"
      by (rule card_mono [OF fin])
    then have "Suc (card (?T rest (?k # counted))) \<le> card (?T (part # rest) counted)"
      by simp
    moreover have "unat (n + 1) \<le> unat n + 1"
      by (simp add: unat_word_ariths)
    ultimately show ?thesis
      using True 2(2) by (fastforce simp: Let_def)
  next
    case False
    then show ?thesis
      using 2(1,3) mono by (fastforce simp: Let_def split: if_splits)
  qed
qed simp

section \<open>Grounds of an acceptance\<close>

text \<open>
  What each kind of method promises of a signature it accepts for a message.  A passkey signs
  client data whose challenge is the encoding of the message, and of no other message.
\<close>

fun auth_grounds :: "'a exec_env_scheme \<Rightarrow> auth_method \<Rightarrow> bytes \<Rightarrow> bytes \<Rightarrow> bool \<Rightarrow> bool" where
  "auth_grounds E (Ed25519 pk) msg sg pq \<longleftrightarrow> length sg = 64 \<and> ed25519_verify E pk msg sg"
| "auth_grounds E (Session key exp lim bud tgts mets restr) msg sg pq \<longleftrightarrow>
     length sg = 64 \<and> ed25519_verify E key msg sg"
| "auth_grounds E (Threshold keys thr) msg sg pq \<longleftrightarrow>
     (\<exists>K \<subseteq> set keys. 0 < unat thr \<and> unat thr \<le> card K \<and>
        (\<forall>k \<in> K. \<exists>part \<in> set (chunks 96 sg).
           id_of_bytes (take 32 part) = k \<and> ed25519_verify E k msg (drop 32 part)))"
| "auth_grounds E (Passkey cred x y rp origs) msg sg pq \<longleftrightarrow>
     (\<exists>auth_data client_data client r s c.
        passkey_parts sg = Some (auth_data, client_data, r, s) \<and>
        p256_verify E x y (auth_data @ sha256 E client_data) r s \<and>
        from_utf8 client_data = Some client \<and>
        extract_json_string client ''challenge'' = Some c \<and>
        (\<forall>m. base64url_encode m = c \<longleftrightarrow> m = msg) \<and>
        extract_json_string client ''type'' = Some ''webauthn.get'' \<and>
        (origs \<noteq> [] \<longrightarrow> (\<exists>org \<in> set origs. extract_json_string client ''origin'' = Some org)) \<and>
        (rp \<noteq> [] \<longrightarrow> take 32 auth_data = sha256 E (as_bytes rp)))"
| "auth_grounds E (Guardian g) msg sg pq \<longleftrightarrow> False"
| "auth_grounds E (MlDsa pk) msg sg pq \<longleftrightarrow> pq \<and> verify_ml_dsa E pk msg sg"
| "auth_grounds E (Hybrid edpk mlpk) msg sg pq \<longleftrightarrow>
     pq \<and> ed25519_verify E edpk msg (take 64 sg) \<and> verify_ml_dsa E mlpk msg (drop 64 sg)"

lemma verify_passkey_grounds:
  "verify_passkey E x y rp origs msg sg \<Longrightarrow> auth_grounds E (Passkey cred x y rp origs) msg sg pq"
  by (fastforce simp: verify_passkey_def dest: base64url_inject split: option.splits)

lemma threshold_grounds:
  assumes "thr \<noteq> 0" "thr \<le> count_signers E keys msg (chunks 96 sg) [] 0"
  shows "auth_grounds E (Threshold keys thr) msg sg pq"
proof -
  let ?K = "{k \<in> set keys. \<exists>part \<in> set (chunks 96 sg).
      id_of_bytes (take 32 part) = k \<and> ed25519_verify E k msg (drop 32 part)}"
  have "unat thr \<le> card ?K"
    using assms(2) count_signers_le [of E keys msg "chunks 96 sg" "[]" 0]
    by (simp add: word_le_nat_alt)
  moreover have "0 < unat thr"
    using assms(1) by (simp add: unat_gt_0)
  ultimately show ?thesis
    by (auto intro!: exI [of _ ?K])
qed

lemma verify_auth_grounds:
  "verify_auth E a msg sg pq = Some name \<Longrightarrow> auth_grounds E a msg sg pq"
proof (cases a)
  case (Passkey cred x y rp origs)
  moreover assume "verify_auth E a msg sg pq = Some name"
  ultimately show ?thesis
    using verify_passkey_grounds by (auto simp del: auth_grounds.simps split: if_splits)
next
  case (Threshold keys thr)
  moreover assume "verify_auth E a msg sg pq = Some name"
  ultimately show ?thesis
    using threshold_grounds by (auto simp del: auth_grounds.simps split: if_splits)
qed (auto split: if_splits)

end
