(* ===== verification/Executor.thy ===== *)
theory Executor
  imports System_Calls Auth
begin

text \<open>
  The execution of user operations, \<open>crates/solen-execution/src/executor.rs\<close>: authorization and
  session restrictions (\<open>validate_and_prepare\<close>), the four actions, contract calls with their queued
  sub-calls (\<open>dispatch_contract_call\<close>), the operation as a whole with fee reserve, savepoint and fee
  settlement (\<open>execute_operation\<close>), and a block's operations in sequence or after parallel
  signature checks.

  A function that can fail after writing returns its result together with the store.  Errors are
  values; where the code renders an error into a message the model keeps the error itself.
\<close>

section \<open>Executor and results\<close>

record block_executor =
  be_fee_config :: fee_config
  be_chain_id :: u64
  be_fee_fix_height :: u64
  be_pq_auth_height :: u64
  be_epoch_randomness_height :: u64
  be_determinism_fix_height :: u64

definition new_block_executor :: block_executor where
  "new_block_executor =
     \<lparr>be_fee_config = default_fee_config, be_chain_id = 0, be_fee_fix_height = - 1,
      be_pq_auth_height = - 1, be_epoch_randomness_height = - 1, be_determinism_fix_height = - 1\<rparr>"

definition TRANSFER_GAS :: u64 where "TRANSFER_GAS = 100"
definition ACCOUNT_CREATION_GAS :: u64 where "ACCOUNT_CREATION_GAS = 25000"
definition CALL_BASE_GAS :: u64 where "CALL_BASE_GAS = 500"
definition DEPLOY_BASE_GAS :: u64 where "DEPLOY_BASE_GAS = 1000"
definition SET_AUTH_GAS :: u64 where "SET_AUTH_GAS = 200"
definition MAX_ACTIONS_PER_OP :: nat where "MAX_ACTIONS_PER_OP = 16"
definition MAX_CODE_SIZE :: nat where "MAX_CODE_SIZE = 4 * 1024 * 1024"

text \<open>\<open>ExSystemCall\<close> is the error of a queued system call, wrapped in a message by the code.\<close>

datatype exec_error =
    ExState state_error
  | InvalidSignature
  | ExAccountNotFound string
  | InsufficientFee u128 u128
  | ExVm vm_error
  | ExSystemCall call_error

datatype op_error = OpMsg string | OpExec exec_error | OpCall call_error | OpVm vm_error

record execution_receipt =
  rc_sender :: account_id
  rc_nonce :: u64
  rc_success :: bool
  rc_gas_used :: u64
  rc_error :: "op_error option"
  rc_events :: "event list"
  rc_auth_method :: string

record block_result =
  br_state_root :: hash
  br_receipts :: "execution_receipt list"
  br_gas_used :: u64

record subcall_policy =
  sp_targets :: "account_id list"
  sp_methods :: "string list"

record prepared_op =
  session_charge :: "(bytes \<times> u128) option"
  op_policy :: "subcall_policy option"

abbreviation not_found :: "string \<Rightarrow> exec_error" where
  "not_found msg \<equiv> ExState (AccountNotFound msg)"

definition operation_signing_message :: "'a exec_env_scheme \<Rightarrow> block_executor \<Rightarrow> user_operation \<Rightarrow> bytes" where
  "operation_signing_message E X op =
     signing_message (env_blake3 E) (actions_json E) op (be_chain_id X)"

section \<open>Session keys\<close>

text \<open>What an action spends, as far as the code counts it; the sum over the actions wraps.\<close>

fun action_spend :: "action \<Rightarrow> u128" where
  "action_spend (Transfer to amount) = amount"
| "action_spend (Call target meth args) =
     (if is_system_contract target \<and> 48 \<le> length args
      then let amount_offset = (if target = BRIDGE_ADDRESS then 8 else 32)
           in if amount_offset + 16 \<le> length args
              then of_le_bytes (take 16 (drop amount_offset args)) else 0
      else 0)"
| "action_spend (Deploy code salt) = 0"
| "action_spend (SetAuth ms) = 0"

definition session_spend :: "action list \<Rightarrow> u128" where
  "session_spend as = sum_list (map action_spend as)"

fun first_some :: "('a \<Rightarrow> 'b option) \<Rightarrow> 'a list \<Rightarrow> 'b option" where
  "first_some f [] = None"
| "first_some f (x # xs) = (case f x of Some e \<Rightarrow> Some e | None \<Rightarrow> first_some f xs)"

fun action_target :: "action \<Rightarrow> account_id option" where
  "action_target (Call target meth args) = Some target"
| "action_target (Transfer to amount) = Some to"
| "action_target _ = None"

definition target_error :: "account_id list \<Rightarrow> action \<Rightarrow> string option" where
  "target_error targets a =
     (case action_target a of
        Some t \<Rightarrow> if t \<in> set targets then None else Some ''session key not authorized for this target''
      | None \<Rightarrow> None)"

fun privileged_error :: "action \<Rightarrow> string option" where
  "privileged_error (SetAuth ms) = Some ''session keys cannot modify account auth methods''"
| "privileged_error (Deploy code salt) = Some ''session keys cannot deploy contracts''"
| "privileged_error (Call target meth args) =
     (if target = GUARDIAN_ADDRESS then Some ''session keys cannot call guardian recovery''
      else if target = GOVERNANCE_ADDRESS \<and>
          (prefix ''propose'' meth \<or> meth = ''finalize'' \<or> meth = ''execute'')
        then Some ''session keys cannot create or execute governance proposals''
      else None)"
| "privileged_error (Transfer to amount) = None"

fun method_error :: "string list \<Rightarrow> action \<Rightarrow> string option" where
  "method_error meths (Call target meth args) =
     (if meth \<in> set meths then None
      else Some (''session key not authorized for method: '' @ meth))"
| "method_error meths _ = None"

definition session_spent :: "'a ledger_env_scheme \<Rightarrow> overlay_store \<Rightarrow> bytes \<Rightarrow> u128" where
  "session_spent E s key =
     (case sget E s key of
        Some v \<Rightarrow> if 16 \<le> length v then of_le_bytes (take 16 v) else 0
      | None \<Rightarrow> 0)"

definition session_policy :: "account_id list \<Rightarrow> string list \<Rightarrow> bool \<Rightarrow> subcall_policy option" where
  "session_policy targets meths restr =
     (if restr \<and> (targets \<noteq> [] \<or> meths \<noteq> [])
      then Some \<lparr>sp_targets = targets, sp_methods = meths\<rparr> else None)"

text \<open>The budget check: an error, or the charge to commit if the operation succeeds.\<close>

definition session_budget ::
    "'a ledger_env_scheme \<Rightarrow> user_operation \<Rightarrow> hash \<Rightarrow> u128 \<Rightarrow> u128 \<Rightarrow> overlay_store
     \<Rightarrow> string + (bytes \<times> u128) option" where
  "session_budget E op key budget this_spend s =
     (if 0 < budget
      then let k = session_spent_key (sender op) key;
               prior = session_spent E s k;
               new_total = sat_add prior this_spend
           in if budget < new_total
              then Inl (''session budget exhausted: '' @ dec_string (unat prior) @ '' + '' @
                        dec_string (unat this_spend) @ '' > '' @ dec_string (unat budget))
              else Inr (if 0 < this_spend then Some (k, new_total) else None)
      else Inr None)"

definition check_session ::
    "'a ledger_env_scheme \<Rightarrow> user_operation \<Rightarrow> auth_method \<Rightarrow> overlay_store \<Rightarrow> string + prepared_op" where
  "check_session E op m s =
     (case m of
        Session key expiry limit budget targets meths restr \<Rightarrow>
          let policy = session_policy targets meths restr;
              now = (case current_height E s of Some h \<Rightarrow> h | None \<Rightarrow> 0);
              this_spend = session_spend (actions op) in
          if expiry < now then Inl ''session key expired''
          else if 0 < limit \<and> limit < this_spend
            then Inl (''session spending limit exceeded: '' @ dec_string (unat this_spend) @
                      '' > '' @ dec_string (unat limit))
          else (case session_budget E op key budget this_spend s of
                  Inl e \<Rightarrow> Inl e
                | Inr due \<Rightarrow>
                    (case if targets = [] then None
                          else first_some (target_error targets) (actions op) of
                       Some e \<Rightarrow> Inl e
                     | None \<Rightarrow>
                         (case first_some privileged_error (actions op) of
                            Some e \<Rightarrow> Inl e
                          | None \<Rightarrow>
                              (case if meths = [] then None
                                    else first_some (method_error meths) (actions op) of
                                 Some e \<Rightarrow> Inl e
                               | None \<Rightarrow> Inr \<lparr>session_charge = due, op_policy = policy\<rparr>))))
      | _ \<Rightarrow> Inr \<lparr>session_charge = None, op_policy = None\<rparr>)"

section \<open>Validation\<close>

definition debug_bytes :: "bytes \<Rightarrow> string" where
  "debug_bytes bs =
     ''['' @ concat (map (\<lambda>i. (if i = 0 then '''' else '', '') @ dec_string (unat (bs ! i)))
                     [0..<length bs]) @ '']''"

definition signed_by_session :: "'a sys_env_scheme \<Rightarrow> bytes \<Rightarrow> bytes \<Rightarrow> auth_method \<Rightarrow> bool" where
  "signed_by_session E msg sg m =
     (case m of
        Session key expiry limit budget targets meths restr \<Rightarrow>
          length sg = 64 \<and> ed25519_verify E key msg sg
      | _ \<Rightarrow> False)"

text \<open>The signature check: the matching session method, if the signature is one of a session key.\<close>

definition check_signature ::
    "'a exec_env_scheme \<Rightarrow> block_executor \<Rightarrow> user_operation \<Rightarrow> u64 \<Rightarrow> account
     \<Rightarrow> exec_error + auth_method option" where
  "check_signature E X op height a =
     (let msg = operation_signing_message E X op;
          pq_enabled = (be_pq_auth_height X \<le> height) in
      if \<not> (\<exists>m \<in> set (auth_methods a). verify_auth E m msg (signature op) pq_enabled \<noteq> None)
      then Inl InvalidSignature
      else Inr (find (signed_by_session E msg (signature op)) (auth_methods a)))"

definition validate_and_prepare ::
    "'a exec_env_scheme \<Rightarrow> block_executor \<Rightarrow> user_operation \<Rightarrow> u64 \<Rightarrow> overlay_store
     \<Rightarrow> (exec_error + prepared_op) \<times> overlay_store" where
  "validate_and_prepare E X op height s =
     (case load_account E s (sender op) of
        Inl e \<Rightarrow> (Inl (ExState e), s)
      | Inr None \<Rightarrow> (Inl (ExAccountNotFound (debug_bytes (take 4 (id_bytes (sender op))))), s)
      | Inr (Some a) \<Rightarrow>
          if is_system_authorized op then (Inr \<lparr>session_charge = None, op_policy = None\<rparr>, s)
          else
            (case check_signature E X op height a of
               Inl e \<Rightarrow> (Inl e, s)
             | Inr matched \<Rightarrow>
                 (case (case matched of
                          Some m \<Rightarrow> check_session E op m s
                        | None \<Rightarrow> Inr \<lparr>session_charge = None, op_policy = None\<rparr>) of
                    Inl e \<Rightarrow> (Inl (not_found e), s)
                  | Inr p \<Rightarrow>
                      (case consume_nonce E (sender op) (nonce op) s of
                         (Inl e, s1) \<Rightarrow> (Inl (ExState e), s1)
                       | (Inr _, s1) \<Rightarrow> (Inr p, s1)))))"

section \<open>Contract calls\<close>

type_synonym call_state = "event list \<times> u64 \<times> overlay_store"

text \<open>The transfers a contract queued: one debit and one credit each, in order.\<close>

fun native_transfers ::
    "'a ledger_env_scheme \<Rightarrow> account_id \<Rightarrow> native_transfer list \<Rightarrow> event list \<Rightarrow> overlay_store
     \<Rightarrow> (exec_error + unit) \<times> event list \<times> overlay_store" where
  "native_transfers E target [] evs s = (Inr (), evs, s)"
| "native_transfers E target (t # ts) evs s =
     (case require_account E s target of
        Inl e \<Rightarrow> (Inl (ExState e), evs, s)
      | Inr contract_acct \<Rightarrow>
          if balance contract_acct < nt_amount t
            then (Inl (not_found ''contract insufficient balance for transfer''), evs, s)
          else let s1 = save_account E
                     (contract_acct\<lparr>balance := balance contract_acct - nt_amount t\<rparr>) s;
                   s2 = (case require_account E s1 (nt_to t) of
                           Inr recipient \<Rightarrow>
                             save_account E (recipient\<lparr>balance := sat_add (balance recipient) (nt_amount t)\<rparr>) s1
                         | Inl _ \<Rightarrow>
                             save_account E ((blank_account (nt_to t))\<lparr>balance := nt_amount t\<rparr>) s1)
               in native_transfers E target ts
                    (evs @ [\<lparr>emitter = target, topic = ascii ''native_transfer'',
                             ev_data = id_bytes (nt_to t) @ le_bytes 16 (nt_amount t)\<rparr>]) s2)"

definition MAX_CALL_DEPTH :: nat where "MAX_CALL_DEPTH = 8"
definition MAX_CALL_TREE_FUEL :: u64 where "MAX_CALL_TREE_FUEL = 64000000"
definition MAX_FUEL_PER_CALL :: u64 where "MAX_FUEL_PER_CALL = 1000000"

definition call_guard ::
    "nat \<Rightarrow> subcall_policy option \<Rightarrow> account_id \<Rightarrow> bytes \<Rightarrow> exec_error option" where
  "call_guard depth policy target meth =
     (if MAX_CALL_DEPTH < depth
      then Some (not_found (''call depth exceeded: '' @ dec_string depth @ '' > '' @
                            dec_string MAX_CALL_DEPTH))
      else if depth = 0 then None
      else (case policy of
              None \<Rightarrow> None
            | Some p \<Rightarrow>
                if sp_targets p \<noteq> [] \<and> target \<notin> set (sp_targets p)
                  then Some (not_found ''session key not authorized for sub-call target'')
                else if sp_methods p \<noteq> [] \<and> meth \<notin> set (map as_bytes (sp_methods p))
                  then Some (not_found ''session key not authorized for sub-call method'')
                else None))"

text \<open>A queued or direct call to a system contract.\<close>

definition system_frame ::
    "'a sys_env_scheme \<Rightarrow> account_id \<Rightarrow> account_id \<Rightarrow> bytes \<Rightarrow> bytes \<Rightarrow> call_state
     \<Rightarrow> (exec_error + u64 \<times> pending_call list) \<times> call_state" where
  "system_frame E caller target meth args st =
     (case st of (evs, fuel, s) \<Rightarrow>
        (case from_utf8 meth of
           None \<Rightarrow> (Inl (not_found ''system call method not utf-8''), st)
         | Some method_str \<Rightarrow>
             (case execute_system_call E caller target method_str args s of
                (r, s1) \<Rightarrow>
                  (case sc_error r of
                     Some e \<Rightarrow> (Inl (ExSystemCall e), evs @ sc_events r, fuel, s1)
                   | None \<Rightarrow>
                       (Inr (CALL_BASE_GAS + sc_gas_used r, []), evs @ sc_events r, fuel, s1)))))"

definition call_context ::
    "account_id \<Rightarrow> u64 \<Rightarrow> account_id \<Rightarrow> contract_storage \<Rightarrow> u128 \<Rightarrow> u128 \<Rightarrow> host_context" where
  "call_context caller height target storage msg_value self_balance =
     (new_host_context caller height)\<lparr>hc_contract_id := target, hc_storage := storage,
        hc_msg_value := msg_value, hc_self_balance := self_balance\<rparr>"

text \<open>
  Running a contract: its storage is written back, its transfers are made and its events are
  recorded.  The result is the gas used and the calls it queued.
\<close>

definition contract_frame ::
    "'a exec_env_scheme \<Rightarrow> block_executor \<Rightarrow> account_id \<Rightarrow> account_id \<Rightarrow> account \<Rightarrow> bytes \<Rightarrow> bytes
     \<Rightarrow> u128 \<Rightarrow> u64 \<Rightarrow> call_state \<Rightarrow> (exec_error + u64 \<times> pending_call list) \<times> call_state" where
  "contract_frame E X caller target tacct meth args msg_value height st =
     (case st of (evs, fuel, s) \<Rightarrow>
        (case load_bytecode E s (code_hash tacct) of
           None \<Rightarrow> (Inl (not_found ''bytecode not found''), st)
         | Some bytecode \<Rightarrow>
             if fuel = 0 then (Inl (not_found ''operation fuel budget exhausted''), st)
             else
               (case vm_execute (wasm E) (be_determinism_fix_height X) bytecode (meth @ 0 # args)
                       (call_context caller height target (load_contract_storage E s target)
                          msg_value (balance tacct))
                       (Some (min fuel MAX_FUEL_PER_CALL)) of
                  Inl OutOfGas \<Rightarrow> (Inl (not_found ''out of gas''), st)
                | Inl e \<Rightarrow> (Inl (ExVm e), st)
                | Inr r \<Rightarrow>
                    let fuel1 = sat_sub fuel (vr_gas_used r);
                        s1 = save_contract_storage E target (vr_storage r) s in
                    (case native_transfers E target (vr_native_transfers r) evs s1 of
                       (Inl e, evs2, s2) \<Rightarrow> (Inl e, evs2, fuel1, s2)
                     | (Inr _, evs2, s2) \<Rightarrow>
                         (Inr (CALL_BASE_GAS + vr_gas_used r, vr_pending_calls r),
                          evs2 @ map (\<lambda>e. \<lparr>emitter = target, topic = he_topic e, ev_data = he_data e\<rparr>)
                                   (vr_events r),
                          fuel1, s2)))))"

definition call_frame ::
    "'a exec_env_scheme \<Rightarrow> block_executor \<Rightarrow> account_id \<Rightarrow> account_id \<Rightarrow> bytes \<Rightarrow> bytes \<Rightarrow> u128
     \<Rightarrow> u64 \<Rightarrow> call_state \<Rightarrow> (exec_error + u64 \<times> pending_call list) \<times> call_state" where
  "call_frame E X caller target meth args msg_value height st =
     (if is_system_contract target then system_frame E caller target meth args st
      else case st of (evs, fuel, s) \<Rightarrow>
        (case require_account E s target of
           Inl e \<Rightarrow> (Inl (ExState e), st)
         | Inr tacct \<Rightarrow>
             if code_hash tacct = 0
             then (Inr (CALL_BASE_GAS, []),
                   evs @ [\<lparr>emitter = target, topic = ascii (''call:'' @ from_utf8_lossy meth),
                           ev_data = args\<rparr>], fuel, s)
             else contract_frame E X caller target tacct meth args msg_value height st))"

text \<open>
  The call tree.  Queued calls run after the contract that queued them, with it as the caller,
  and share the fuel of the operation.
\<close>

function dispatch_contract_call ::
    "'a exec_env_scheme \<Rightarrow> block_executor \<Rightarrow> u64 \<Rightarrow> subcall_policy option \<Rightarrow> nat \<Rightarrow> account_id
     \<Rightarrow> account_id \<Rightarrow> bytes \<Rightarrow> bytes \<Rightarrow> u128 \<Rightarrow> call_state \<Rightarrow> (exec_error + u64) \<times> call_state"
  and dispatch_pending ::
    "'a exec_env_scheme \<Rightarrow> block_executor \<Rightarrow> u64 \<Rightarrow> subcall_policy option \<Rightarrow> nat \<Rightarrow> account_id
     \<Rightarrow> pending_call list \<Rightarrow> u64 \<Rightarrow> call_state \<Rightarrow> (exec_error + u64) \<times> call_state" where
  "dispatch_contract_call E X height policy depth caller target meth args msg_value st =
     (case call_guard depth policy target meth of
        Some e \<Rightarrow> (Inl e, st)
      | None \<Rightarrow>
          (case call_frame E X caller target meth args msg_value height st of
             (Inl e, st1) \<Rightarrow> (Inl e, st1)
           | (Inr (total_gas, pending), st1) \<Rightarrow>
               dispatch_pending E X height policy depth target pending total_gas st1))"
| "dispatch_pending E X height policy depth caller [] total_gas st = (Inr total_gas, st)"
| "dispatch_pending E X height policy depth caller (p # ps) total_gas st =
     (case dispatch_contract_call E X height policy (depth + 1) caller (pc_target p) (pc_method p)
             (pc_args p) 0 st of
        (Inl e, st1) \<Rightarrow> (Inl e, st1)
      | (Inr sub_gas, st1) \<Rightarrow>
          dispatch_pending E X height policy depth caller ps (sat_add total_gas sub_gas) st1)"
  by pat_completeness auto
termination
proof (relation "inv_image (less_than <*lex*> less_than)
    (case_sum (\<lambda>(E, X, height, policy, depth, _). (if 8 < depth then 0 else 2 * (10 - depth), 0))
       (\<lambda>(E, X, height, policy, depth, caller, ps, _).
          (if 8 < depth then 1 else 2 * (10 - depth) - 1, length ps)))", goal_cases)
  case 2
  then show ?case
    by (auto simp: call_guard_def MAX_CALL_DEPTH_def split: if_splits)
qed auto

declare dispatch_contract_call.simps [simp del]

section \<open>Actions\<close>

definition exec_transfer ::
    "'a ledger_env_scheme \<Rightarrow> account_id \<Rightarrow> account_id \<Rightarrow> u128 \<Rightarrow> event list \<Rightarrow> overlay_store
     \<Rightarrow> (exec_error + u64) \<times> event list \<times> overlay_store" where
  "exec_transfer E who to amount evs s =
     (case load_account E s to of
        Inl e \<Rightarrow> (Inl (ExState e), evs, s)
      | Inr existing \<Rightarrow>
          (case transfer E who to amount s of
             (Inl e, s1) \<Rightarrow> (Inl (ExState e), evs, s1)
           | (Inr _, s1) \<Rightarrow>
               (Inr (if existing = None then TRANSFER_GAS + ACCOUNT_CREATION_GAS else TRANSFER_GAS),
                evs @ [\<lparr>emitter = who, topic = ascii ''transfer'',
                        ev_data = id_bytes to @ le_bytes 16 amount\<rparr>], s1)))"

definition auth_method_error ::
    "'a ledger_env_scheme \<Rightarrow> overlay_store \<Rightarrow> auth_method \<Rightarrow> exec_error option" where
  "auth_method_error E s m =
     (case m of
        Threshold keys thr \<Rightarrow>
          if thr = 0 \<or> length keys < unat thr
          then Some (not_found (''invalid threshold: '' @ dec_string (unat thr) @ '' of '' @
                                dec_string (length keys) @ '' signers''))
          else None
      | Guardian g \<Rightarrow>
          (case load_account E s g of
             Inl e \<Rightarrow> Some (ExState e)
           | Inr None \<Rightarrow>
               Some (not_found (''guardian account does not exist: '' @ debug_bytes (take 4 (id_bytes g))))
           | Inr (Some _) \<Rightarrow> None)
      | _ \<Rightarrow> None)"

definition exec_set_auth ::
    "'a ledger_env_scheme \<Rightarrow> account_id \<Rightarrow> auth_method list \<Rightarrow> event list \<Rightarrow> overlay_store
     \<Rightarrow> (exec_error + u64) \<times> event list \<times> overlay_store" where
  "exec_set_auth E who ms evs s =
     (if ms = [] then (Inl (not_found ''auth_methods cannot be empty''), evs, s)
      else case first_some (auth_method_error E s) ms of
        Some e \<Rightarrow> (Inl e, evs, s)
      | None \<Rightarrow>
          (case require_account E s who of
             Inl e \<Rightarrow> (Inl (ExState e), evs, s)
           | Inr a \<Rightarrow>
               (Inr SET_AUTH_GAS,
                evs @ [\<lparr>emitter = who, topic = ascii ''set_auth'', ev_data = [of_nat (length ms)]\<rparr>],
                save_account E (a\<lparr>auth_methods := ms\<rparr>) s)))"

definition deployed ::
    "'a ledger_env_scheme \<Rightarrow> account_id \<Rightarrow> hash \<Rightarrow> account_id \<Rightarrow> event list \<Rightarrow> overlay_store
     \<Rightarrow> (exec_error + u64) \<times> event list \<times> overlay_store" where
  "deployed E who h new_id evs s =
     (let a = \<lparr>acct_id = new_id, code_hash = h,
               auth_methods = (case load_account E s who of Inr (Some own) \<Rightarrow> auth_methods own | _ \<Rightarrow> []),
               acct_nonce = 0, balance = 0\<rparr>
      in (Inr DEPLOY_BASE_GAS,
          evs @ [\<lparr>emitter = who, topic = ascii ''deploy'', ev_data = id_bytes new_id\<rparr>],
          save_account E a s))"

definition exec_deploy ::
    "'a ledger_env_scheme \<Rightarrow> account_id \<Rightarrow> bytes \<Rightarrow> hash \<Rightarrow> event list \<Rightarrow> overlay_store
     \<Rightarrow> (exec_error + u64) \<times> event list \<times> overlay_store" where
  "exec_deploy E who code salt evs s =
     (if MAX_CODE_SIZE < length code
      then (Inl (not_found (''contract too large: '' @ dec_string (length code) @ '' bytes (max '' @
                            dec_string MAX_CODE_SIZE @ '')'')), evs, s)
      else let (h, s1) = store_bytecode E code s;
               new_id = env_blake3 E (id_bytes who @ id_bytes salt @ id_bytes h) in
      (case load_account E s1 new_id of
         Inr (Some existing) \<Rightarrow>
           if code_hash existing \<noteq> 0
           then (Inl (not_found ''contract address already exists''), evs, s1)
           else deployed E who h new_id evs s1
       | _ \<Rightarrow> deployed E who h new_id evs s1))"

fun execute_action ::
    "'a exec_env_scheme \<Rightarrow> block_executor \<Rightarrow> account_id \<Rightarrow> u128 \<Rightarrow> u64 \<Rightarrow> subcall_policy option
     \<Rightarrow> action \<Rightarrow> event list \<Rightarrow> overlay_store \<Rightarrow> (exec_error + u64) \<times> event list \<times> overlay_store" where
  "execute_action E X who msg_value height policy (Transfer to amount) evs s =
     exec_transfer E who to amount evs s"
| "execute_action E X who msg_value height policy (Call target meth args) evs s =
     (case dispatch_contract_call E X height policy 0 who target (as_bytes meth) args msg_value
             (evs, MAX_CALL_TREE_FUEL, s) of
        (r, evs1, fuel1, s1) \<Rightarrow> (r, evs1, s1))"
| "execute_action E X who msg_value height policy (SetAuth ms) evs s = exec_set_auth E who ms evs s"
| "execute_action E X who msg_value height policy (Deploy code salt) evs s =
     exec_deploy E who code salt evs s"

section \<open>Operations\<close>

definition receipt ::
    "user_operation \<Rightarrow> u64 \<Rightarrow> op_error option \<Rightarrow> event list \<Rightarrow> execution_receipt" where
  "receipt op gas e evs =
     \<lparr>rc_sender = sender op, rc_nonce = nonce op, rc_success = (e = None), rc_gas_used = gas,
      rc_error = e, rc_events = evs, rc_auth_method = ''ed25519''\<rparr>"

definition deploy_error :: "wasm_engine \<Rightarrow> action \<Rightarrow> op_error option" where
  "deploy_error W a =
     (case a of
        Deploy code salt \<Rightarrow>
          if MAX_CODE_SIZE < length code
          then Some (OpMsg (''contract too large: '' @ dec_string (length code) @ '' bytes (max '' @
                            dec_string MAX_CODE_SIZE @ '')''))
          else (case validate_bytecode W code of Inl e \<Rightarrow> Some (OpVm e) | Inr _ \<Rightarrow> None)
      | _ \<Rightarrow> None)"

definition precheck :: "wasm_engine \<Rightarrow> user_operation \<Rightarrow> op_error option" where
  "precheck W op =
     (if MAX_ACTIONS_PER_OP < length (actions op)
      then Some (OpMsg (''too many actions: '' @ dec_string (length (actions op)) @ '' (max '' @
                        dec_string MAX_ACTIONS_PER_OP @ '')''))
      else first_some (deploy_error W) (actions op))"

definition reserve_fee ::
    "'a ledger_env_scheme \<Rightarrow> user_operation \<Rightarrow> overlay_store \<Rightarrow> u128 \<times> overlay_store" where
  "reserve_fee E op s =
     (case load_account E s (sender op) of
        Inr (Some a) \<Rightarrow>
          let reserve = min (max_fee op) (balance a)
          in (reserve, save_account E (a\<lparr>balance := balance a - reserve\<rparr>) s)
      | _ \<Rightarrow> (0, s))"

text \<open>The amounts transferred to each target since its last call, for \<open>msg_value\<close>.\<close>

fun note_transfer ::
    "action \<Rightarrow> (account_id \<rightharpoonup> u128) \<Rightarrow> u128 \<times> (account_id \<rightharpoonup> u128)" where
  "note_transfer (Transfer to amount) pend =
     (0, pend(to \<mapsto> sat_add (case pend to of Some v \<Rightarrow> v | None \<Rightarrow> 0) amount))"
| "note_transfer (Call target meth args) pend =
     (case pend target of Some v \<Rightarrow> v | None \<Rightarrow> 0, pend(target := None))"
| "note_transfer _ pend = (0, pend)"

fun is_system_call :: "action \<Rightarrow> bool" where
  "is_system_call (Call target meth args) = is_system_contract target"
| "is_system_call _ = False"

fun run_actions ::
    "'a exec_env_scheme \<Rightarrow> block_executor \<Rightarrow> account_id \<Rightarrow> u64 \<Rightarrow> subcall_policy option \<Rightarrow> action list
     \<Rightarrow> (account_id \<rightharpoonup> u128) \<Rightarrow> u64 \<Rightarrow> event list \<Rightarrow> overlay_store
     \<Rightarrow> op_error option \<times> u64 \<times> event list \<times> overlay_store" where
  "run_actions E X who height policy [] pend gas evs s = (None, gas, evs, s)"
| "run_actions E X who height policy (a # as) pend gas evs s =
     (case note_transfer a pend of
        (msg_value, pend1) \<Rightarrow>
          if is_system_call a
          then (case execute_system_call E who (call_target a) (call_method a) (call_args a) s of
                  (r, s1) \<Rightarrow>
                    (case sc_error r of
                       Some e \<Rightarrow> (Some (OpCall e), gas + sc_gas_used r, evs @ sc_events r, s1)
                     | None \<Rightarrow>
                         run_actions E X who height policy as pend1 (gas + sc_gas_used r)
                           (evs @ sc_events r) s1))
          else (case execute_action E X who msg_value height policy a evs s of
                  (Inl e, evs1, s1) \<Rightarrow> (Some (OpExec e), gas, evs1, s1)
                | (Inr g, evs1, s1) \<Rightarrow>
                    run_actions E X who height policy as pend1 (gas + g) evs1 s1))"

definition settle_failure ::
    "'a ledger_env_scheme \<Rightarrow> block_executor \<Rightarrow> user_operation \<Rightarrow> u64 \<Rightarrow> u64 \<Rightarrow> overlay_store
     \<Rightarrow> overlay_store" where
  "settle_failure E X op height gas s =
     (let s1 = snd (consume_nonce E (sender op) (nonce op) s);
          f = calculate_fee (be_fee_config X) gas;
          actual_fee = (if be_fee_fix_height X \<le> height then min f (max_fee op) else f) in
      if 0 < actual_fee
      then (case require_account E s1 (sender op) of
              Inl _ \<Rightarrow> s1
            | Inr a \<Rightarrow> save_account E (a\<lparr>balance := sat_sub (balance a) actual_fee\<rparr>) s1)
      else s1)"

definition effective_fee_config ::
    "'a ledger_env_scheme \<Rightarrow> block_executor \<Rightarrow> overlay_store \<Rightarrow> fee_config" where
  "effective_fee_config E X s =
     (case sget E s (ascii ''__config_burn_rate__'') of
        Some data \<Rightarrow>
          if 8 \<le> length data then (be_fee_config X)\<lparr>burn_rate_bps := of_le_bytes (take 8 data)\<rparr>
          else be_fee_config X
      | None \<Rightarrow> be_fee_config X)"

definition credit_treasury ::
    "'a ledger_env_scheme \<Rightarrow> fee_config \<Rightarrow> u128 \<Rightarrow> overlay_store \<Rightarrow> overlay_store" where
  "credit_treasury E fc fee_paid s =
     (let treasury_share = treasury_amount fc fee_paid in
      if 0 < treasury_share
      then (case load_account E s (treasury_account fc) of
              Inr (Some t) \<Rightarrow> save_account E (t\<lparr>balance := sat_add (balance t) treasury_share\<rparr>) s
            | _ \<Rightarrow> s)
      else s)"

definition settle_success ::
    "'a ledger_env_scheme \<Rightarrow> block_executor \<Rightarrow> user_operation \<Rightarrow> u64 \<Rightarrow> u64 \<Rightarrow> u128 \<Rightarrow> event list
     \<Rightarrow> overlay_store \<Rightarrow> event list \<times> overlay_store" where
  "settle_success E X op height gas reserved evs s =
     (let fc = effective_fee_config E X s;
          fix_active = (be_fee_fix_height X \<le> height);
          f = calculate_fee fc gas;
          total_fee = (if fix_active then min f (max_fee op) else f) in
      if 0 < reserved \<or> 0 < total_fee
      then (case load_account E s (sender op) of
              Inr (Some a) \<Rightarrow>
                let available = sat_add (balance a) reserved;
                    fee_paid = (if fix_active then min total_fee available else total_fee)
                in (evs @ [\<lparr>emitter = sender op, topic = ascii ''fee'', ev_data = le_bytes 16 fee_paid\<rparr>],
                    credit_treasury E fc fee_paid
                      (save_account E (a\<lparr>balance := sat_sub available fee_paid\<rparr>) s))
            | _ \<Rightarrow> (evs, s))
      else (evs, s))"

definition commit_charge :: "(bytes \<times> u128) option \<Rightarrow> overlay_store \<Rightarrow> overlay_store" where
  "commit_charge c s = (case c of Some (key, new_total) \<Rightarrow> ov_put key (le_bytes 16 new_total) s | None \<Rightarrow> s)"

definition execute_operation ::
    "'a exec_env_scheme \<Rightarrow> block_executor \<Rightarrow> user_operation \<Rightarrow> u64 \<Rightarrow> overlay_store
     \<Rightarrow> execution_receipt \<times> overlay_store" where
  "execute_operation E X op height s =
     (case precheck (wasm E) op of
        Some e \<Rightarrow> (receipt op 0 (Some e) [], s)
      | None \<Rightarrow>
          (case validate_and_prepare E X op height s of
             (Inl e, s1) \<Rightarrow> (receipt op 0 (Some (OpExec e)) [], s1)
           | (Inr p, s1) \<Rightarrow>
               let saved = ov_savepoint s1;
                   (reserved, s2) = reserve_fee E op s1 in
               (case run_actions E X (sender op) height (op_policy p) (actions op) Map.empty 0 [] s2 of
                  (Some e, gas, evs, s3) \<Rightarrow>
                    (receipt op gas (Some e) [],
                     settle_failure E X op height gas (ov_restore_savepoint saved s3))
                | (None, gas, evs, s3) \<Rightarrow>
                    (case settle_success E X op height gas reserved evs s3 of
                       (evs1, s4) \<Rightarrow>
                         (receipt op gas None evs1, commit_charge (session_charge p) s4)))))"

definition simulate ::
    "'a exec_env_scheme \<Rightarrow> block_executor \<Rightarrow> user_operation \<Rightarrow> u64 \<Rightarrow> execution_receipt" where
  "simulate E X op height = fst (execute_operation E X op height ov_new)"

section \<open>The operations of a block\<close>

text \<open>The overlay's \<open>commit_root\<close> does nothing, and its root is the root of the base.\<close>

fun run_operations ::
    "'a exec_env_scheme \<Rightarrow> block_executor \<Rightarrow> u64 \<Rightarrow> user_operation list \<Rightarrow> u64 \<Rightarrow> overlay_store
     \<Rightarrow> execution_receipt list \<times> u64 \<times> overlay_store" where
  "run_operations E X height [] total_gas s = ([], total_gas, s)"
| "run_operations E X height (op # ops) total_gas s =
     (let (r, s1) = execute_operation E X op height s;
          (rs, g, s2) = run_operations E X height ops (total_gas + rc_gas_used r) s1
      in (r # rs, g, s2))"

definition execute_block_sequential ::
    "'a exec_env_scheme \<Rightarrow> block_executor \<Rightarrow> user_operation list \<Rightarrow> u64 \<Rightarrow> overlay_store
     \<Rightarrow> block_result \<times> overlay_store" where
  "execute_block_sequential E X ops height s =
     (let (rs, g, s1) = run_operations E X height ops 0 s
      in (\<lparr>br_state_root = ov_state_root (env_blake3 E) (env_base E) s1, br_receipts = rs,
           br_gas_used = g\<rparr>, s1))"

text \<open>Signatures checked ahead, against the accounts as they are before the block.\<close>

definition prevalidate ::
    "'a exec_env_scheme \<Rightarrow> block_executor \<Rightarrow> u64 \<Rightarrow> overlay_store \<Rightarrow> user_operation \<Rightarrow> string option" where
  "prevalidate E X height s op =
     (if is_system_authorized op then Some ''system''
      else case sget E s (account_key (sender op)) of
        None \<Rightarrow> None
      | Some data \<Rightarrow>
          (case dec_account E data of
             Inl _ \<Rightarrow> None
           | Inr a \<Rightarrow>
               if auth_methods a = [] then None
               else first_some (\<lambda>m. verify_auth E m (operation_signing_message E X op) (signature op)
                      (be_pq_auth_height X \<le> height)) (auth_methods a)))"

definition rejected :: "user_operation \<Rightarrow> execution_receipt" where
  "rejected op =
     (receipt op 0 (Some (OpMsg ''signature verification failed'')) [])\<lparr>rc_auth_method := ''none''\<rparr>"

fun run_validated ::
    "'a exec_env_scheme \<Rightarrow> block_executor \<Rightarrow> u64 \<Rightarrow> (user_operation \<times> string option) list \<Rightarrow> u64
     \<Rightarrow> overlay_store \<Rightarrow> execution_receipt list \<times> u64 \<times> overlay_store" where
  "run_validated E X height [] total_gas s = ([], total_gas, s)"
| "run_validated E X height ((op, None) # ops) total_gas s =
     (let (rs, g, s1) = run_validated E X height ops total_gas s in (rejected op # rs, g, s1))"
| "run_validated E X height ((op, Some name) # ops) total_gas s =
     (let (r, s1) = execute_operation E X op height s;
          (rs, g, s2) = run_validated E X height ops (total_gas + rc_gas_used r) s1
      in (r\<lparr>rc_auth_method := name\<rparr> # rs, g, s2))"

definition execute_block_parallel ::
    "'a exec_env_scheme \<Rightarrow> block_executor \<Rightarrow> user_operation list \<Rightarrow> u64 \<Rightarrow> overlay_store
     \<Rightarrow> block_result \<times> overlay_store" where
  "execute_block_parallel E X ops height s =
     (let validations = map (prevalidate E X height s) ops;
          (rs, g, s1) = run_validated E X height (zip ops validations) 0 s
      in (\<lparr>br_state_root = ov_state_root (env_blake3 E) (env_base E) s1, br_receipts = rs,
           br_gas_used = g\<rparr>, s1))"

end
