(* ===== verification/Operations.thy ===== *)
theory Operations
  imports Executor Sample_Env
begin

text \<open>
  What an operation does: lemmas and properties of \<open>Executor\<close>.  An operation that fails changes
  nothing but its sender's nonce and fee; an operation is accepted only with a signature its
  account's methods accept for exactly this chain, sender, nonce, fee bound and list of actions;
  a session key stays within its restrictions; an operation of transfers moves exactly what it says
  and loses only the burnt part of its fee; and a block gives the same state whether its
  signatures are checked one by one or ahead.
\<close>

section \<open>Validation\<close>

lemma require_account_cong: "sget E s = sget E s' \<Longrightarrow> require_account E s = require_account E s'"
  by (simp add: require_account_def load_account_def fun_eq_iff)

lemma acct_cong: "sget E s = sget E s' \<Longrightarrow> acct E s = acct E s'"
  by (simp add: acct_def load_account_def fun_eq_iff)

lemma accounts_ok_cong: "sget E s = sget E s' \<Longrightarrow> accounts_ok E s = accounts_ok E s'"
  by (simp add: accounts_ok_def)

lemma sget_save_other:
  "k \<noteq> account_key (acct_id a) \<Longrightarrow> sget E (save_account E' a s) k = sget E s k"
  by (simp add: save_account_def)

lemma ov_get_save_account: "\<not> is_account_key k \<Longrightarrow> ov_get base (save_account E a s) k = ov_get base s k"
  by (auto simp: save_account_def is_account_key_def)

lemma acct_frame:
  assumes "\<And>k. k \<noteq> account_key i \<Longrightarrow> sget E s' k = sget E s k"
  shows "acct E s' = (acct E s)(i := acct E s' i)"
  using assms by (auto simp: fun_eq_iff acct_def load_account_def)

lemma checked_add_1: "checked_add n 1 = (if n = - 1 then None else Some (n + 1))" for n :: u64
proof -
  have "unat n + 1 < 2 ^ 64 \<longleftrightarrow> n \<noteq> - 1"
    using unat_lt [of n] by (auto simp: unat_max word_unat_eq_iff)
  then show ?thesis
    by (auto simp: checked_add_def)
qed

lemma consume_nonce_Inr:
  assumes "accounts_ok E s" "consume_nonce E i n s = (Inr (), s1)"
  obtains a where "acct E s i = Some a" "n = acct_nonce a" "n \<noteq> - 1"
    "s1 = save_account E (a\<lparr>acct_nonce := acct_nonce a + 1\<rparr>) s"
  using assms
  by (auto simp: consume_nonce_def require_acct checked_add_1 split: option.splits if_splits)

lemma consume_nonce_Inl: "consume_nonce E i n s = (Inl e, s1) \<Longrightarrow> s1 = s"
  by (auto simp: consume_nonce_def split: sum.splits option.splits if_splits)

lemma validate_Inl: "validate_and_prepare E X op height s = (Inl e, s1) \<Longrightarrow> s1 = s"
  by (auto simp: validate_and_prepare_def dest: consume_nonce_Inl
      split: sum.splits option.splits if_splits prod.splits)

text \<open>What an accepted operation that is not a system operation has shown.\<close>

lemma validate_Inr:
  assumes "accounts_ok E s" "validate_and_prepare E X op height s = (Inr p, s1)"
    "\<not> is_system_authorized op"
  obtains a matched where "acct E s (sender op) = Some a" "nonce op = acct_nonce a" "acct_nonce a \<noteq> - 1"
    "s1 = save_account E (a\<lparr>acct_nonce := acct_nonce a + 1\<rparr>) s"
    "check_signature E X op height a = Inr matched"
    "(case matched of Some m \<Rightarrow> check_session E op m s
      | None \<Rightarrow> Inr \<lparr>session_charge = None, op_policy = None\<rparr>) = Inr p"
proof -
  obtain a matched where a: "acct E s (sender op) = Some a" "check_signature E X op height a = Inr matched"
    "(case matched of Some m \<Rightarrow> check_session E op m s
      | None \<Rightarrow> Inr \<lparr>session_charge = None, op_policy = None\<rparr>) = Inr p"
    "consume_nonce E (sender op) (nonce op) s = (Inr (), s1)"
    using assms
    by (simp add: validate_and_prepare_def load_acct split: option.splits sum.splits prod.splits)
  show thesis
    by (rule consume_nonce_Inr [OF assms(1) a(4)]) (use a that in auto)
qed

lemma validate_system:
  assumes "accounts_ok E s" "validate_and_prepare E X op height s = (Inr p, s1)" "is_system_authorized op"
  shows "s1 = s" "sender op \<in> dom (acct E s)" "p = \<lparr>session_charge = None, op_policy = None\<rparr>"
  using assms by (auto simp: validate_and_prepare_def load_acct split: option.splits)

section \<open>A failed operation is undone\<close>

text \<open>The fee of a failed operation.\<close>

definition failure_fee :: "block_executor \<Rightarrow> user_operation \<Rightarrow> u64 \<Rightarrow> u64 \<Rightarrow> u128" where
  "failure_fee X op height gas =
     (let f = calculate_fee (be_fee_config X) gas
      in if be_fee_fix_height X \<le> height then min f (max_fee op) else f)"

text \<open>The nonce after a failure: consumed when the operation carries the account's nonce.\<close>

definition failure_nonce :: "user_operation \<Rightarrow> account \<Rightarrow> u64" where
  "failure_nonce op a =
     (if nonce op = acct_nonce a \<and> acct_nonce a \<noteq> - 1 then acct_nonce a + 1 else acct_nonce a)"

lemma settle_failure_effect:
  assumes "account_codec_ok E" "accounts_ok E s" "acct E s (sender op) = Some a"
    and s'_def: "s' = settle_failure E X op height gas s"
  shows "acct E s' (sender op) =
           Some (a\<lparr>acct_nonce := failure_nonce op a,
                   balance := sat_sub (balance a) (failure_fee X op height gas)\<rparr>)"
    and "k \<noteq> account_key (sender op) \<Longrightarrow> sget E s' k = sget E s k"
    and "accounts_ok E s'"
proof -
  have id: "acct_id a = sender op"
    by (rule acct_id_acct [OF assms(2,3)])
  define b where "b = a\<lparr>acct_nonce := failure_nonce op a\<rparr>"
  define s1 where "s1 = snd (consume_nonce E (sender op) (nonce op) s)"
  have s1: "s1 = s \<and> b = a \<or> s1 = save_account E b s"
    using assms(2,3)
    by (auto simp: s1_def b_def consume_nonce_def require_acct failure_nonce_def checked_add_1
        split: option.splits)
  then have acct1: "acct E s1 (sender op) = Some b" "accounts_ok E s1"
    and get1: "k \<noteq> account_key (sender op) \<Longrightarrow> sget E s1 k = sget E s k"
    using assms(1-3) id by (auto simp: ledger_simps b_def sget_save_other)
  have s': "s' = (if 0 < failure_fee X op height gas
      then save_account E (b\<lparr>balance := sat_sub (balance b) (failure_fee X op height gas)\<rparr>) s1 else s1)"
    unfolding s'_def settle_failure_def s1_def [symmetric] failure_fee_def [symmetric] Let_def
    by (simp add: require_acct [OF acct1(2)] acct1(1) failure_fee_def Let_def)
  show "acct E s' (sender op) =
      Some (a\<lparr>acct_nonce := failure_nonce op a,
              balance := sat_sub (balance a) (failure_fee X op height gas)\<rparr>)"
    using assms(1) id acct1 by (auto simp: s' ledger_simps b_def word_gt_0)
  show "k \<noteq> account_key (sender op) \<Longrightarrow> sget E s' k = sget E s k"
    using get1 id by (auto simp: s' b_def sget_save_other)
  show "accounts_ok E s'"
    using assms(1) acct1(2) by (simp add: s' ledger_simps)
qed

lemma failed_cases:
  assumes "execute_operation E X op height s = (r, s')" "\<not> rc_success r"
  obtains (rejected) "s' = s" "rc_gas_used r = 0" "rc_events r = []"
  | (reverted) p s1 s3 where "validate_and_prepare E X op height s = (Inr p, s1)"
      "s' = settle_failure E X op height (rc_gas_used r) (ov_restore_savepoint (ov_savepoint s1) s3)"
      "rc_events r = []"
  using assms
  by (auto simp: execute_operation_def receipt_def Let_def dest: validate_Inl
      split: option.splits prod.splits sum.splits)

lemma failed_operation_effect:
  assumes "account_codec_ok E" "accounts_ok E s"
    and "execute_operation E X op height s = (r, s')" "\<not> rc_success r"
  shows "rc_events r = [] \<and> accounts_ok E s' \<and>
    (\<forall>k. k \<noteq> account_key (sender op) \<longrightarrow> sget E s' k = sget E s k) \<and>
    (s' = s \<and> rc_gas_used r = 0 \<or>
     (\<exists>a. acct E s (sender op) = Some a \<and>
        (\<not> is_system_authorized op \<longrightarrow> nonce op = acct_nonce a) \<and>
        acct E s' = (acct E s)(sender op \<mapsto>
          a\<lparr>acct_nonce := failure_nonce op a,
            balance := sat_sub (balance a) (failure_fee X op height (rc_gas_used r))\<rparr>)))"
  using assms(3,4)
proof (cases rule: failed_cases)
  case rejected
  then show ?thesis
    using assms(2) by simp
next
  case (reverted p s1 s3)
  define t where "t = ov_restore_savepoint (ov_savepoint s1) s3"
  have t: "sget E t = sget E s1"
    unfolding t_def by (rule ov_get_restore)
  obtain a where a: "acct E s (sender op) = Some a" "\<not> is_system_authorized op \<longrightarrow> nonce op = acct_nonce a"
    and s1: "s1 = s \<and> is_system_authorized op \<or>
             s1 = save_account E (a\<lparr>acct_nonce := acct_nonce a + 1\<rparr>) s \<and> nonce op = acct_nonce a \<and>
             acct_nonce a \<noteq> - 1"
    using validate_system [OF assms(2) reverted(1)] validate_Inr [OF assms(2) reverted(1)] by blast
  have id: "acct_id a = sender op"
    by (rule acct_id_acct [OF assms(2) a(1)])
  obtain b where b: "acct E t (sender op) = Some b" "accounts_ok E t"
    and fin: "b\<lparr>acct_nonce := failure_nonce op b\<rparr> = a\<lparr>acct_nonce := failure_nonce op a\<rparr>"
      "balance b = balance a"
    using s1 assms(1,2) a id acct_cong [OF t] accounts_ok_cong [OF t]
    by (auto simp: ledger_simps failure_nonce_def)
  note eff = settle_failure_effect [OF assms(1) b(2,1) reverted(2) [folded t_def]]
  have frame: "sget E s' k = sget E s k" if "k \<noteq> account_key (sender op)" for k
    using that eff(2) [OF that] t s1 id by (auto simp: sget_save_other)
  have "b\<lparr>acct_nonce := failure_nonce op b, balance := v\<rparr> =
      a\<lparr>acct_nonce := failure_nonce op a, balance := v\<rparr>" for v
    using arg_cong [OF fin(1), of "balance_update (\<lambda>_. v)"] by simp
  then have "acct E s' (sender op) = Some (a\<lparr>acct_nonce := failure_nonce op a,
      balance := sat_sub (balance a) (failure_fee X op height (rc_gas_used r))\<rparr>)"
    using eff(1) fin(2) by simp
  moreover have "acct E s' = (acct E s)(sender op := acct E s' (sender op))"
    by (rule acct_frame) (rule frame)
  ultimately have "acct E s' = (acct E s)(sender op \<mapsto> a\<lparr>acct_nonce := failure_nonce op a,
      balance := sat_sub (balance a) (failure_fee X op height (rc_gas_used r))\<rparr>)"
    by (simp only:)
  then show ?thesis
    using reverted(3) eff(3) frame a by blast
qed

section \<open>Nonces only grow\<close>

text \<open>
  Between two stores of an execution every account outside \<open>D\<close> still exists and its nonce has not
  decreased.  \<open>D\<close> holds the identifiers given to deployed contracts: deployment writes a fresh
  account there.
\<close>

definition grows :: "'a ledger_env_scheme \<Rightarrow> account_id set \<Rightarrow> overlay_store \<Rightarrow> overlay_store \<Rightarrow> bool" where
  "grows E D s0 s \<longleftrightarrow> accounts_ok E s \<and>
     (\<forall>i a. i \<notin> D \<longrightarrow> acct E s0 i = Some a \<longrightarrow>
        (\<exists>a'. acct E s i = Some a' \<and> acct_nonce a \<le> acct_nonce a'))"

lemma grows_refl: "accounts_ok E s \<Longrightarrow> grows E D s s"
  by (simp add: grows_def)

lemma grows_ok: "grows E D s0 s \<Longrightarrow> accounts_ok E s"
  by (simp add: grows_def)

lemma growsD:
  "grows E D s0 s \<Longrightarrow> i \<notin> D \<Longrightarrow> acct E s0 i = Some a \<Longrightarrow>
   \<exists>a'. acct E s i = Some a' \<and> acct_nonce a \<le> acct_nonce a'"
  by (simp add: grows_def)

lemma grows_trans: "grows E D s0 s1 \<Longrightarrow> grows E D s1 s2 \<Longrightarrow> grows E D s0 s2"
  unfolding grows_def by (meson order_trans)

lemma grows_mono: "grows E D s0 s \<Longrightarrow> D \<subseteq> D' \<Longrightarrow> grows E D' s0 s"
  by (auto simp: grows_def)

lemma keeps_grows: "keeps E au s0 s \<Longrightarrow> grows E D s0 s"
  unfolding keeps_def grows_def by (metis order_refl)

lemma grows_save:
  assumes "account_codec_ok E" "accounts_ok E s" "acct_id a \<notin> D \<Longrightarrow> acct E s (acct_id a) = Some b \<Longrightarrow> acct_nonce b \<le> acct_nonce a"
    "acct_id a \<in> D \<or> acct E s (acct_id a) = Some b \<or> acct E s (acct_id a) = None"
  shows "grows E D s (save_account E a s)"
  using assms by (auto simp: grows_def ledger_simps)

lemma grows_save_same:
  assumes "account_codec_ok E" "accounts_ok E s" "acct E s i = Some a"
  shows "grows E D s (save_account E (a\<lparr>balance := v\<rparr>) s)" "grows E D s (save_account E (a\<lparr>auth_methods := ms\<rparr>) s)"
  by (rule grows_save [where b = a]; use assms acct_id_acct [OF assms(2,3)] in simp)+

lemma grows_save_in:
  "account_codec_ok E \<Longrightarrow> accounts_ok E s \<Longrightarrow> acct_id a \<in> D \<Longrightarrow> grows E D s (save_account E a s)"
  by (auto simp: grows_def ledger_simps)

lemma grows_put: "accounts_ok E s \<Longrightarrow> \<not> is_account_key k \<Longrightarrow> grows E D s (ov_put k v s)"
  by (simp add: grows_def ledger_simps)

lemma keeps_new_account:
  assumes "account_codec_ok E" "keeps E au s0 s" "acct E s (acct_id a) = None"
  shows "keeps E au s0 (save_account E a s)"
  by (rule keeps_acct [OF assms(2), of _ "acct_id a" a])
    (use assms keeps_ok [OF assms(2)] in \<open>simp_all add: ledger_simps\<close>)

lemma keeps_transfer:
  assumes "account_codec_ok E" "keeps E au s0 s"
  shows "keeps E au s0 (snd (transfer E who to amount s))"
proof (cases "require_account E s who")
  case (Inr a)
  define s1 where "s1 = save_account E (a\<lparr>balance := balance a - amount\<rparr>) s"
  have s1: "keeps E au s0 s1"
    unfolding s1_def by (rule keeps_save [OF assms Inr])
  have ok1: "accounts_ok E s1"
    by (rule keeps_ok [OF s1])
  define new where "new = snd (create_account E to [Ed25519 to] 0 s1)"
  have new: "keeps E au s0 new" if "acct E s1 to = None"
    unfolding new_def create_account_def Let_def
    by (simp add: keeps_new_account [OF assms(1) s1] that)
  show ?thesis
    using assms s1 new keeps_save [OF assms(1)] keeps_save_loaded [OF assms(1) s1]
    by (auto simp: transfer_def Inr Let_def s1_def [symmetric] new_def [symmetric] load_acct [OF ok1]
        split: option.split sum.split)
qed (simp add: transfer_def assms)

lemma keeps_native_transfers:
  "account_codec_ok E \<Longrightarrow> keeps E au s0 s \<Longrightarrow>
   keeps E au s0 (snd (snd (native_transfers E target ts evs s)))"
proof (induction E target ts evs s rule: native_transfers.induct)
  case (2 E target t ts evs s)
  show ?case
  proof (cases "require_account E s target")
    case (Inr a)
    define s1 where "s1 = save_account E (a\<lparr>balance := balance a - nt_amount t\<rparr>) s"
    have s1: "keeps E au s0 s1"
      unfolding s1_def by (rule keeps_save [OF 2(2,3) Inr])
    have "acct E s1 (nt_to t) = None" if "require_account E s1 (nt_to t) = Inl e" for e
      using that keeps_ok [OF s1] by (auto simp: require_acct split: option.splits)
    then have "keeps E au s0 (case require_account E s1 (nt_to t) of
        Inr recipient \<Rightarrow> save_account E (recipient\<lparr>balance := sat_add (balance recipient) (nt_amount t)\<rparr>) s1
      | Inl _ \<Rightarrow> save_account E ((blank_account (nt_to t))\<lparr>balance := nt_amount t\<rparr>) s1)"
      using keeps_save [OF 2(2) s1] keeps_new_account [OF 2(2) s1]
      by (auto simp: blank_account_def split: sum.split)
    then show ?thesis
      using 2(1) [OF Inr _ s1_def refl 2(2)] 2(3) by (simp add: Inr Let_def s1_def [symmetric])
  qed (simp add: 2)
qed simp

lemma keeps_contract_storage:
  "keeps E au s0 s \<Longrightarrow> keeps E au s0 (save_contract_storage E i storage s)"
proof -
  have "keeps E au s0 (fold (\<lambda>(key, val) s. ov_put (contract_storage_key i key) val s) xs s)"
    if "keeps E au s0 s" for xs
    using that by (induction xs arbitrary: s) (auto simp: keeps_put not_is_account_key)
  then show "keeps E au s0 s \<Longrightarrow> ?thesis"
    by (simp add: save_contract_storage_def Let_def keeps_put not_is_account_key)
qed

lemma keeps_weaken: "keeps E au s0 s \<Longrightarrow> keeps E False s0 s"
  by (auto simp: keeps_def)

lemma keeps_call_frame:
  assumes "account_codec_ok E" "keeps E False s0 s"
    and "call_frame E X caller target meth args msg_value height (evs, fuel, s) = (r, evs', fuel', s')"
  shows "keeps E False s0 s'"
proof (cases "is_system_contract target")
  case True
  have "keeps E False s t" if "execute_system_call E caller target m args s = (q, t)" for m q t
    by (rule keeps_weaken [OF system_call_keeps [OF assms(1) keeps_ok [OF assms(2)] that]])
  then show ?thesis
    using assms True
    by (auto simp: call_frame_def system_frame_def intro: keeps_trans split: option.splits prod.splits)
next
  case False
  have nt: "keeps E False s0 t"
    if "native_transfers E target ts evs (save_contract_storage E target st s) = (q, evs2, t)" for ts st q evs2 t
    using keeps_native_transfers [OF assms(1) keeps_contract_storage [OF assms(2)], of target ts evs target st]
      that by simp
  show ?thesis
    using assms False
    by (auto simp: call_frame_def contract_frame_def Let_def dest: nt
        split: sum.splits if_splits option.splits vm_error.splits prod.splits)
qed

lemma keeps_dispatch:
  fixes E :: "'a exec_env_scheme"
  assumes "account_codec_ok E"
  shows "keeps E False s0 (snd (snd st)) \<Longrightarrow>
      keeps E False s0 (snd (snd (snd (dispatch_contract_call E X height policy depth caller target meth args v st))))"
    and "keeps E False s0 (snd (snd st)) \<Longrightarrow>
      keeps E False s0 (snd (snd (snd (dispatch_pending E X height policy depth caller ps gas st))))"
  using assms
proof (induction E X height policy depth caller target meth args v st
    and E X height policy depth caller ps gas st rule: dispatch_contract_call_dispatch_pending.induct)
  case (1 E X height policy depth caller target meth args v st)
  obtain evs fuel s where st: "st = (evs, fuel, s)"
    by (cases st)
  obtain r evs' fuel' s' where f: "call_frame E X caller target meth args v height (evs, fuel, s) = (r, evs', fuel', s')"
    by (metis prod_cases4)
  have "keeps E False s0 s'"
    using keeps_call_frame [OF 1(3) _ f] 1(2) st by simp
  then show ?case
    using 1 st f by (auto simp: dispatch_contract_call.simps split: option.splits sum.splits prod.splits)
next
  case (3 E X height policy depth caller p ps gas st)
  then show ?case
    by (auto split: sum.splits prod.splits)
qed auto

definition deploy_id :: "'a ledger_env_scheme \<Rightarrow> account_id \<Rightarrow> bytes \<Rightarrow> hash \<Rightarrow> account_id" where
  "deploy_id E who code salt =
     env_blake3 E (id_bytes who @ id_bytes salt @ id_bytes (env_blake3 E code))"

definition deploy_ids :: "'a ledger_env_scheme \<Rightarrow> account_id \<Rightarrow> action list \<Rightarrow> account_id set" where
  "deploy_ids E who as = {deploy_id E who code salt | code salt. Deploy code salt \<in> set as}"

lemma grows_deploy:
  assumes "account_codec_ok E" "accounts_ok E s" "deploy_id E who code salt \<in> D"
  shows "grows E D s (snd (snd (exec_deploy E who code salt evs s)))"
proof -
  let ?id = "deploy_id E who code salt"
  have s1: "grows E D s (snd (store_bytecode E code s))"
    using assms(2) by (simp add: store_bytecode_def Let_def grows_put not_is_account_key)
  have "grows E D s (snd (snd (deployed E who h ?id evs (snd (store_bytecode E code s)))))" for h
    by (rule grows_trans [OF s1])
      (simp add: deployed_def Let_def grows_save_in assms grows_ok [OF s1])
  then show ?thesis
    using s1 grows_refl [OF assms(2), of D]
    by (auto simp: exec_deploy_def deploy_id_def Let_def split_def store_bytecode_def
        split: sum.split option.split)
qed

lemma grows_action:
  assumes "account_codec_ok E" "accounts_ok E s" "deploy_ids E who [a] \<subseteq> D"
    and "execute_action E X who v height policy a evs s = (r, evs', s')"
  shows "grows E D s s'"
proof (cases a)
  case (Transfer to amount)
  have "grows E D s (snd (transfer E who to amount s))"
    by (rule keeps_grows [OF keeps_transfer [OF assms(1) keeps_refl [OF assms(2)]]])
  then show ?thesis
    using assms(4) grows_refl [OF assms(2), of D]
    by (cases "transfer E who to amount s") (auto simp: Transfer exec_transfer_def split: sum.splits)
next
  case (Call target meth args)
  obtain fuel where d: "dispatch_contract_call E X height policy 0 who target (as_bytes meth) args v
      (evs, MAX_CALL_TREE_FUEL, s) = (r, evs', fuel, s')"
    using assms(4) by (auto simp: Call split: prod.splits)
  have "keeps E False s s'"
    using keeps_dispatch(1) [OF assms(1), of s "(evs, MAX_CALL_TREE_FUEL, s)" X height policy 0 who
        target "as_bytes meth" args v] keeps_refl [OF assms(2)] d
    by simp
  then show ?thesis
    by (rule keeps_grows)
next
  case (Deploy code salt)
  then have "deploy_id E who code salt \<in> D"
    using assms(3) by (auto simp: deploy_ids_def)
  from grows_deploy [OF assms(1,2) this, of evs] show ?thesis
    using assms(4) by (simp add: Deploy)
next
  case (SetAuth ms)
  show ?thesis
  proof (cases "s' = s")
    case False
    then obtain b where "acct E s who = Some b" "s' = save_account E (b\<lparr>auth_methods := ms\<rparr>) s"
      using assms(2,4) by (auto simp: SetAuth exec_set_auth_def require_acct split: if_splits option.splits)
    then show ?thesis
      using grows_save_same(2) [OF assms(1,2)] by simp
  qed (simp add: grows_refl assms(2))
qed

lemma grows_run_actions:
  assumes "account_codec_ok E"
  shows "accounts_ok E s \<Longrightarrow> deploy_ids E who as \<subseteq> D \<Longrightarrow>
    run_actions E X who height policy as pend gas evs s = (e, gas', evs', s') \<Longrightarrow> grows E D s s'"
  using assms
proof (induction E X who height policy as pend gas evs s
    arbitrary: e gas' evs' s' rule: run_actions.induct)
  case (2 E X who height policy a as pend gas evs s)
  have ids: "deploy_ids E who [a] \<subseteq> D" "deploy_ids E who as \<subseteq> D"
    using 2(4) by (auto simp: deploy_ids_def)
  have sys: "grows E D s s1"
    if "execute_system_call E who (call_target a) (call_method a) (call_args a) s = (r, s1)" for r s1
    by (rule keeps_grows [OF system_call_keeps [OF 2(6,3) that]])
  have act: "grows E D s s1" if "execute_action E X who v height policy a evs s = (r, evs1, s1)" for v r evs1 s1
    by (rule grows_action [OF 2(6,3) ids(1) that])
  obtain v pend1 where n: "note_transfer a pend = (v, pend1)"
    by (cases "note_transfer a pend")
  show ?case
  proof (cases "is_system_call a")
    case True
    obtain r s1 where c: "execute_system_call E who (call_target a) (call_method a) (call_args a) s = (r, s1)"
      by (cases "execute_system_call E who (call_target a) (call_method a) (call_args a) s")
    have "grows E D s1 s'" if "sc_error r = None"
      using 2(1) [OF n [symmetric] True c [symmetric] that grows_ok [OF sys [OF c]] ids(2) _ 2(6)] 2(5)
      by (simp add: n True c that)
    then show ?thesis
      using 2(5) sys [OF c] by (cases "sc_error r") (auto simp: n True c intro: grows_trans)
  next
    case False
    obtain r evs1 s1 where c: "execute_action E X who v height policy a evs s = (r, evs1, s1)"
      by (cases "execute_action E X who v height policy a evs s")
    have "grows E D s1 s'" if "r = Inr g" for g
      using 2(2) [OF n [symmetric] False c [symmetric] that refl grows_ok [OF act [OF c]] ids(2) _ 2(6)] 2(5)
      by (simp add: n False c that)
    then show ?thesis
      using 2(5) act [OF c] by (cases r) (auto simp: n False c intro: grows_trans)
  qed
qed (simp add: grows_refl)

lemma grows_reserve:
  assumes "account_codec_ok E" "accounts_ok E s"
  shows "grows E D s (snd (reserve_fee E op s))"
  using grows_save_same(1) [OF assms] grows_refl [OF assms(2)]
  by (auto simp: reserve_fee_def load_acct [OF assms(2)] Let_def split: option.split)

lemma grows_credit_treasury:
  assumes "account_codec_ok E" "accounts_ok E s"
  shows "grows E D s (credit_treasury E fc fee s)"
  using grows_save_same(1) [OF assms] grows_refl [OF assms(2)]
  by (simp add: credit_treasury_def Let_def load_acct [OF assms(2)] split: option.split)

lemma settle_success_cases:
  assumes "accounts_ok E s" "settle_success E X op height gas reserved evs s = (evs', s')"
  obtains "s' = s"
  | a v fee where "acct E s (sender op) = Some a"
      "s' = credit_treasury E (effective_fee_config E X s) fee (save_account E (a\<lparr>balance := v\<rparr>) s)"
proof (cases "acct E s (sender op)")
  case None
  then have "s' = s"
    using assms by (simp add: settle_success_def Let_def load_acct split: if_splits)
  then show thesis
    by (rule that(1))
next
  case (Some a)
  have "s' = s \<or> (\<exists>v fee. s' = credit_treasury E (effective_fee_config E X s) fee
      (save_account E (a\<lparr>balance := v\<rparr>) s))"
    using assms(2) unfolding settle_success_def Let_def load_acct [OF assms(1)] Some
    by (simp split: if_split_asm) blast+
  then show thesis
    using that Some by blast
qed

lemma grows_settle_success:
  assumes "account_codec_ok E" "accounts_ok E s"
    and "settle_success E X op height gas reserved evs s = (evs', s')"
  shows "grows E D s s'"
  using assms(2,3)
proof (cases rule: settle_success_cases)
  case (2 a v fee)
  have "grows E D s (save_account E (a\<lparr>balance := v\<rparr>) s)"
    by (rule grows_save_same(1) [OF assms(1,2) 2(1)])
  moreover from this have "grows E D (save_account E (a\<lparr>balance := v\<rparr>) s) s'"
    unfolding 2(2) by (intro grows_credit_treasury [OF assms(1)] grows_ok)
  ultimately show ?thesis
    by (rule grows_trans)
qed (simp add: grows_refl assms(2))

lemma session_key_not_account: "\<not> is_account_key (session_spent_key i k)"
  unfolding session_spent_key_def by (rule key_not_account) simp

lemma check_session_Inr:
  assumes "check_session E op (Session key expiry limit budget targets meths restr) s = Inr p"
  obtains due where "session_budget E op key budget (session_spend (actions op)) s = Inr due"
    "p = \<lparr>session_charge = due, op_policy = session_policy targets meths restr\<rparr>"
    "(case current_height E s of Some h \<Rightarrow> h | None \<Rightarrow> 0) \<le> expiry"
    "limit = 0 \<or> session_spend (actions op) \<le> limit"
    "targets = [] \<or> first_some (target_error targets) (actions op) = None"
    "first_some privileged_error (actions op) = None"
    "meths = [] \<or> first_some (method_error meths) (actions op) = None"
proof -
  let ?now = "case current_height E s of Some h \<Rightarrow> h | None \<Rightarrow> 0"
  have 1: "?now \<le> expiry" "limit = 0 \<or> session_spend (actions op) \<le> limit"
    using assms by (auto simp: check_session_def Let_def not_less word_gt_0 split: if_splits)
  obtain due where 2: "session_budget E op key budget (session_spend (actions op)) s = Inr due"
    using assms by (cases "session_budget E op key budget (session_spend (actions op)) s")
      (auto simp: check_session_def Let_def split: if_splits)
  have 3: "targets = [] \<or> first_some (target_error targets) (actions op) = None"
    using assms 2 by (cases "first_some (target_error targets) (actions op)")
      (auto simp: check_session_def Let_def split: if_splits)
  have 4: "first_some privileged_error (actions op) = None"
    using assms 2 3 by (cases "first_some privileged_error (actions op)")
      (auto simp: check_session_def Let_def split: if_splits)
  have 5: "meths = [] \<or> first_some (method_error meths) (actions op) = None"
    using assms 2 3 4 by (cases "first_some (method_error meths) (actions op)")
      (auto simp: check_session_def Let_def split: if_splits)
  have "p = \<lparr>session_charge = due, op_policy = session_policy targets meths restr\<rparr>"
    using assms 2 3 4 5 by (auto simp: check_session_def Let_def split: if_splits)
  then show thesis
    using that 1 2 3 4 5 by blast
qed

lemma check_session_charge:
  assumes "check_session E op m s = Inr p" "session_charge p = Some (key, v)"
  shows "\<exists>k. key = session_spent_key (sender op) k"
proof (cases m)
  case (Session k x3 x4 x5 x6 x7 x8)
  then obtain due where "session_budget E op k x5 (session_spend (actions op)) s = Inr due"
    "session_charge p = due"
    using assms(1) check_session_Inr by (metis prepared_op.select_convs(1))
  then show ?thesis
    using assms(2) by (auto simp: session_budget_def Let_def split: if_splits)
qed (use assms in \<open>auto simp: check_session_def\<close>)

lemma validate_charge:
  assumes "accounts_ok E s" "validate_and_prepare E X op height s = (Inr p, s1)"
    "session_charge p = Some (key, v)"
  shows "\<not> is_account_key key"
proof (cases "is_system_authorized op")
  case True
  then show ?thesis
    using validate_system(3) [OF assms(1,2)] assms(3) by simp
next
  case False
  obtain a matched where "(case matched of Some m \<Rightarrow> check_session E op m s
      | None \<Rightarrow> Inr \<lparr>session_charge = None, op_policy = None\<rparr>) = Inr p"
    by (rule validate_Inr [OF assms(1,2) False])
  then obtain k where "key = session_spent_key (sender op) k"
    using assms(3) check_session_charge [of E op _ s p key v] by (cases matched) auto
  then show ?thesis
    by (simp add: session_key_not_account)
qed

lemma grows_commit_charge:
  "accounts_ok E s \<Longrightarrow> (\<And>key v. c = Some (key, v) \<Longrightarrow> \<not> is_account_key key) \<Longrightarrow>
   grows E D s (commit_charge c s)"
  by (auto simp: commit_charge_def grows_refl grows_put split: option.split)

lemma grows_validate:
  assumes "account_codec_ok E" "accounts_ok E s" "validate_and_prepare E X op height s = (Inr p, s1)"
  shows "grows E D s s1"
proof (cases "is_system_authorized op")
  case True
  then show ?thesis
    using validate_system(1) [OF assms(2,3)] assms(2) by (simp add: grows_refl)
next
  case False
  obtain a where a: "acct E s (sender op) = Some a" "acct_nonce a \<noteq> - 1"
    "s1 = save_account E (a\<lparr>acct_nonce := acct_nonce a + 1\<rparr>) s"
    by (rule validate_Inr [OF assms(2,3) False])
  have "acct_nonce a \<le> acct_nonce a + 1"
    using a(2) unat_lt [of "acct_nonce a"]
    by (simp add: word_le_nat_alt unat_word_ariths unat_max word_unat_eq_iff)
  then show ?thesis
    unfolding a(3) by (intro grows_save [where b = a])
      (use assms a acct_id_acct [OF assms(2) a(1)] in simp_all)
qed

lemma success_cases:
  assumes "execute_operation E X op height s = (r, s')" "rc_success r"
  obtains p s1 reserved s2 gas evs s3 evs1 s4 where
    "validate_and_prepare E X op height s = (Inr p, s1)" "reserve_fee E op s1 = (reserved, s2)"
    "run_actions E X (sender op) height (op_policy p) (actions op) Map.empty 0 [] s2 = (None, gas, evs, s3)"
    "settle_success E X op height gas reserved evs s3 = (evs1, s4)"
    "s' = commit_charge (session_charge p) s4" "r = receipt op gas None evs1"
    "precheck (wasm E) op = None"
  using assms
  by (auto simp: execute_operation_def receipt_def Let_def split: option.splits prod.splits sum.splits)

lemma failure_nonce_le: "acct_nonce a \<le> failure_nonce op a"
proof -
  have "acct_nonce a \<le> acct_nonce a + 1" if "acct_nonce a \<noteq> - 1"
    using that unat_lt [of "acct_nonce a"]
    by (simp add: word_le_nat_alt unat_word_ariths unat_max word_unat_eq_iff)
  then show ?thesis
    by (simp add: failure_nonce_def)
qed

text \<open>From the validated store on, and over the whole operation, nonces only grow.\<close>

lemma grows_success:
  assumes "account_codec_ok E" "accounts_ok E s" "deploy_ids E (sender op) (actions op) \<subseteq> D"
    and "execute_operation E X op height s = (r, s')" "rc_success r"
  obtains p s1 where "validate_and_prepare E X op height s = (Inr p, s1)" "grows E D s1 s'"
proof -
  obtain p s1 reserved s2 gas evs s3 evs1 s4 where
    1: "validate_and_prepare E X op height s = (Inr p, s1)" and
    2: "reserve_fee E op s1 = (reserved, s2)" and
    3: "run_actions E X (sender op) height (op_policy p) (actions op) Map.empty 0 [] s2 = (None, gas, evs, s3)" and
    4: "settle_success E X op height gas reserved evs s3 = (evs1, s4)" and
    5: "s' = commit_charge (session_charge p) s4"
    by (rule success_cases [OF assms(4,5)])
  have ok1: "accounts_ok E s1"
    by (rule grows_ok [OF grows_validate [OF assms(1,2) 1, of "{}"]])
  have g2: "grows E D s1 s2"
    using grows_reserve [OF assms(1) ok1, of D op] by (simp add: 2)
  have g3: "grows E D s2 s3"
    by (rule grows_run_actions [OF assms(1) grows_ok [OF g2] assms(3) 3])
  have g4: "grows E D s3 s4"
    by (rule grows_settle_success [OF assms(1) grows_ok [OF g3] 4])
  have "grows E D s4 s'"
    unfolding 5 using grows_ok [OF g4] validate_charge [OF assms(2) 1] by (rule grows_commit_charge)
  then show thesis
    using that [OF 1] g2 g3 g4 by (blast intro: grows_trans)
qed

lemma grows_operation:
  assumes "account_codec_ok E" "accounts_ok E s" "deploy_ids E (sender op) (actions op) \<subseteq> D"
    and "execute_operation E X op height s = (r, s')"
  shows "grows E D s s'"
proof (cases "rc_success r")
  case True
  obtain p s1 where "validate_and_prepare E X op height s = (Inr p, s1)" "grows E D s1 s'"
    by (rule grows_success [OF assms True])
  then show ?thesis
    using grows_validate [OF assms(1,2)] by (blast intro: grows_trans)
next
  case False
  note eff = failed_operation_effect [OF assms(1,2,4) False]
  then consider "s' = s" | a v where "acct E s (sender op) = Some a"
      "acct E s' = (acct E s)(sender op \<mapsto> a\<lparr>acct_nonce := failure_nonce op a, balance := v\<rparr>)"
    by blast
  then show ?thesis
  proof cases
    case (2 a v)
    then show ?thesis
      using eff failure_nonce_le [of a op] by (simp add: grows_def)
  qed (simp add: grows_refl assms(2))
qed

lemma grows_run_operations:
  assumes "account_codec_ok E"
  shows "accounts_ok E s \<Longrightarrow> (\<And>op. op \<in> set ops \<Longrightarrow> deploy_ids E (sender op) (actions op) \<subseteq> D) \<Longrightarrow>
    run_operations E X height ops g s = (rs, g', s') \<Longrightarrow> grows E D s s'"
proof (induction ops arbitrary: g s rs)
  case (Cons op ops)
  obtain r s1 where 1: "execute_operation E X op height s = (r, s1)"
    by (cases "execute_operation E X op height s")
  obtain rs2 where 2: "run_operations E X height ops (g + rc_gas_used r) s1 = (rs2, g', s')"
    using Cons.prems(3) 1 by (auto simp: Let_def split: prod.splits)
  have g: "grows E D s s1"
    using Cons.prems(2) by (intro grows_operation [OF assms Cons.prems(1) _ 1]) simp
  have "grows E D s1 s'"
    by (rule Cons.IH [OF grows_ok [OF g] _ 2]) (simp add: Cons.prems(2))
  with g show ?case
    by (rule grows_trans)
qed (simp add: grows_refl)

section \<open>Acceptance and replay\<close>

lemma operation_accepted:
  assumes "account_codec_ok E" "accounts_ok E s" "\<not> is_system_authorized op"
    and "execute_operation E X op height s = (r, s')" "rc_success r \<or> s' \<noteq> s"
  obtains p s1 where "validate_and_prepare E X op height s = (Inr p, s1)"
proof (cases "rc_success r")
  case True
  then show thesis
    using success_cases [OF assms(4)] that by metis
next
  case False
  show thesis
    using assms(4) False by (cases rule: failed_cases) (use assms(5) False that in auto)
qed

lemma old_nonce_rejected:
  assumes "accounts_ok E s" "\<not> is_system_authorized op"
    "acct E s (sender op) = Some a" "nonce op < acct_nonce a"
    and "execute_operation E X op height s = (r, s')"
  shows "\<not> rc_success r \<and> s' = s"
proof (rule ccontr)
  assume "\<not> (\<not> rc_success r \<and> s' = s)"
  moreover have "\<not> (\<exists>p s1. validate_and_prepare E X op height s = (Inr p, s1))"
    using validate_Inr [OF assms(1) _ assms(2)] assms(3,4) by (metis less_irrefl option.inject)
  ultimately show False
    using assms(5) by (auto simp: execute_operation_def receipt_def dest: validate_Inl
        split: option.splits prod.splits sum.splits)
qed

lemma accepted_next_nonce:
  assumes "account_codec_ok E" "accounts_ok E s" "\<not> is_system_authorized op"
    and "sender op \<notin> deploy_ids E (sender op) (actions op)"
    and "execute_operation E X op height s = (r, s')" "rc_success r \<or> s' \<noteq> s"
  obtains a a' matched where "acct E s (sender op) = Some a" "nonce op = acct_nonce a"
    "check_signature E X op height a = Inr matched"
    "accounts_ok E s'" "acct E s' (sender op) = Some a'" "nonce op < acct_nonce a'"
proof -
  obtain p s1 where v: "validate_and_prepare E X op height s = (Inr p, s1)"
    by (rule operation_accepted [OF assms(1-3,5,6)])
  obtain a matched where a: "acct E s (sender op) = Some a" "nonce op = acct_nonce a" "acct_nonce a \<noteq> - 1"
    "s1 = save_account E (a\<lparr>acct_nonce := acct_nonce a + 1\<rparr>) s" "check_signature E X op height a = Inr matched"
    by (rule validate_Inr [OF assms(2) v assms(3)])
  have less: "acct_nonce a < acct_nonce a + 1"
    using a(3) unat_lt [of "acct_nonce a"]
    by (simp add: word_less_nat_alt unat_word_ariths unat_max word_unat_eq_iff)
  show thesis
  proof (cases "rc_success r")
    case True
    obtain p' s1' where g: "validate_and_prepare E X op height s = (Inr p', s1')"
      "grows E (deploy_ids E (sender op) (actions op)) s1' s'"
      by (rule grows_success [OF assms(1,2) order_refl assms(5) True])
    have "acct E s1 (sender op) = Some (a\<lparr>acct_nonce := acct_nonce a + 1\<rparr>)"
      using assms(1) acct_id_acct [OF assms(2) a(1)] by (simp add: a(4) ledger_simps)
    then obtain a' where "acct E s' (sender op) = Some a'" "acct_nonce a + 1 \<le> acct_nonce a'"
      using growsD [OF g(2) assms(4), of "a\<lparr>acct_nonce := acct_nonce a + 1\<rparr>"] g(1) v by auto
    then show thesis
      using that [OF a(1,2,5) grows_ok [OF g(2)]] less a(2) by simp
  next
    case False
    then obtain v where "acct E s' (sender op) = Some (a\<lparr>acct_nonce := failure_nonce op a, balance := v\<rparr>)"
      "accounts_ok E s'"
      using failed_operation_effect [OF assms(1,2,5) False] assms(6) a(1) by auto
    then show thesis
      using that [OF a(1,2,5)] less a(2,3) by (simp add: failure_nonce_def)
  qed
qed

section \<open>A concrete environment\<close>

instance action :: countable
  by countable_datatype

definition sample_exec :: exec_env where
  "sample_exec = \<lparr>env_base = mem_new, env_blake3 = sample_hash, enc_account = sample_enc,
     dec_account = (\<lambda>b. Inr (sample_dec b)), enc_keys = sample_enc,
     staking_json = sample_json, governance_json = sample_json, bridge_json = sample_json,
     vesting_json = sample_json, guardian_json = sample_json, treasury_json = sample_json,
     paymasters_json = sample_json, auth_json = sample_json, value_json = sample_json,
     ed25519_verify = (\<lambda>pk msg sig. sig = id_bytes pk @ id_bytes (sample_hash msg)),
     debug_str = (\<lambda>s. CHR 0x22 # s @ [CHR 0x22]),
     sha256 = (\<lambda>b. id_bytes (sample_hash b)), p256_verify = (\<lambda>x y d r s. False),
     ml_dsa_check = (\<lambda>pk m sig. False), actions_json = sample_enc, wasm = sample_wasm,
     enc_revert = sample_enc, dec_revert = (\<lambda>b. Some (sample_dec b))\<rparr>"

lemma sample_exec_simps [simp]:
  "account_codec_ok sample_exec" "env_base sample_exec = mem_new" "env_blake3 sample_exec = sample_hash"
  "wasm sample_exec = sample_wasm"
  "ed25519_verify sample_exec pk msg sig \<longleftrightarrow> sig = id_bytes pk @ id_bytes (sample_hash msg)"
  by (simp_all add: sample_exec_def account_codec_ok_def)

text \<open>An operation signed with a given key.\<close>

definition sample_signed :: "hash \<Rightarrow> user_operation \<Rightarrow> user_operation" where
  "sample_signed k op = op\<lparr>signature := id_bytes k @
     id_bytes (sample_hash (operation_signing_message sample_exec new_block_executor op))\<rparr>"

lemma sample_signed_simps [simp]:
  "sender (sample_signed k op) = sender op" "nonce (sample_signed k op) = nonce op"
  "actions (sample_signed k op) = actions op" "max_fee (sample_signed k op) = max_fee op"
  "operation_signing_message E X (sample_signed k op) = operation_signing_message E X op"
  "signature (sample_signed k op) = id_bytes k @
     id_bytes (sample_hash (operation_signing_message sample_exec new_block_executor op))"
  "\<not> is_system_authorized (sample_signed k op)"
proof -
  have "length (signature (sample_signed k op)) = 64"
    by (simp add: sample_signed_def)
  then have "signature (sample_signed k op) \<noteq> [0xFF]"
    by auto
  then show "\<not> is_system_authorized (sample_signed k op)"
    by (simp add: is_system_authorized_def)
qed (simp_all add: sample_signed_def operation_signing_message_def signing_message_def)

lemma sample_validate:
  assumes "accounts_ok sample_exec s" "acct sample_exec s (sender op) = Some a"
    "auth_methods a = [Ed25519 k]" "nonce op = acct_nonce a" "acct_nonce a \<noteq> - 1"
  shows "validate_and_prepare sample_exec new_block_executor (sample_signed k op) height s =
    (Inr \<lparr>session_charge = None, op_policy = None\<rparr>,
     save_account sample_exec (a\<lparr>acct_nonce := acct_nonce a + 1\<rparr>) s)"
proof -
  have "check_signature sample_exec new_block_executor (sample_signed k op) height a = Inr None"
    using assms(3) by (simp add: check_signature_def signed_by_session_def)
  moreover have "consume_nonce sample_exec (sender op) (nonce op) s =
      (Inr (), save_account sample_exec (a\<lparr>acct_nonce := acct_nonce a + 1\<rparr>) s)"
    using assms by (simp add: consume_nonce_def require_acct checked_add_1)
  ultimately show ?thesis
    using assms(1,2) by (simp add: validate_and_prepare_def load_acct)
qed

section \<open>Properties of operations\<close>

text \<open>C27: an operation that fails is undone.  Nothing in the store changes except the sender's own
  account, no event is reported, and of the account at most the nonce and the balance change: the
  nonce by the operation's own number, the balance by the fee for the gas used (capped by the fee
  the sender signed once the fee fix is active).  Whatever the actions wrote before the failure is
  gone: contract storage, system contracts, other accounts.\<close>

theorem failed_operation_undone:
  assumes "account_codec_ok E" "accounts_ok E s"
    and "execute_operation E X op height s = (r, s')" "\<not> rc_success r"
  shows "rc_events r = [] \<and> accounts_ok E s' \<and>
    (\<forall>k. k \<noteq> account_key (sender op) \<longrightarrow> sget E s' k = sget E s k) \<and>
    (s' = s \<and> rc_gas_used r = 0 \<or>
     (\<exists>a. acct E s (sender op) = Some a \<and>
        (\<not> is_system_authorized op \<longrightarrow> nonce op = acct_nonce a) \<and>
        acct E s' = (acct E s)(sender op \<mapsto>
          a\<lparr>acct_nonce := failure_nonce op a,
            balance := sat_sub (balance a) (failure_fee X op height (rc_gas_used r))\<rparr>)))"
  by (rule failed_operation_effect [OF assms])

text \<open>Account 1 holds 100 units; the first operation sends 30 of them, the second one 500.\<close>

definition sample_bank :: overlay_store where
  "sample_bank = with_accounts sample_exec [sample_account 1 100] ov_new"

lemma sample_bank [simp]:
  "accounts_ok sample_exec sample_bank" "acct sample_exec sample_bank = [1 \<mapsto> sample_account 1 100]"
  "total_supply sample_exec sample_bank = 100"
  by (simp_all add: sample_bank_def ledger_simps accounts_ok_empty acct_empty supply_new_account supply_empty)

definition sample_pay :: "u128 \<Rightarrow> user_operation" where
  "sample_pay v = sample_signed 1
     \<lparr>sender = 1, nonce = 0, actions = [Transfer 2 v], max_fee = 50, signature = []\<rparr>"

lemma sample_pay_simps [simp]:
  "sender (sample_pay v) = 1" "nonce (sample_pay v) = 0" "actions (sample_pay v) = [Transfer 2 v]"
  "max_fee (sample_pay v) = 50" "\<not> is_system_authorized (sample_pay v)"
  by (simp_all add: sample_pay_def)

lemma sample_pay_validated:
  "validate_and_prepare sample_exec new_block_executor (sample_pay v) height sample_bank =
    (Inr \<lparr>session_charge = None, op_policy = None\<rparr>,
     save_account sample_exec ((sample_account 1 100)\<lparr>acct_nonce := 1\<rparr>) sample_bank)"
  unfolding sample_pay_def by (subst sample_validate [where a = "sample_account 1 100"]) simp_all

lemma sample_pay_precheck: "precheck W (sample_pay v) = None"
  by (simp add: precheck_def deploy_error_def MAX_ACTIONS_PER_OP_def)

lemma sample_pay_fails:
  assumes "execute_operation sample_exec new_block_executor (sample_pay 500) 0 sample_bank = (r, s')"
  shows "\<not> rc_success r" "rc_gas_used r = 0"
  using assms
  by (auto simp: execute_operation_def sample_pay_precheck sample_pay_validated Let_def reserve_fee_def
      load_acct ledger_simps exec_transfer_def transfer_def require_acct receipt_def)

theorem failed_operation_undone_witness:
  "\<exists>r s'. execute_operation sample_exec new_block_executor (sample_pay 500) 0 sample_bank = (r, s') \<and>
     \<not> rc_success r \<and> rc_events r = [] \<and> sget sample_exec s' (account_key 2) = sget sample_exec sample_bank (account_key 2)"
proof -
  obtain r s' where e: "execute_operation sample_exec new_block_executor (sample_pay 500) 0 sample_bank = (r, s')"
    by (cases "execute_operation sample_exec new_block_executor (sample_pay 500) 0 sample_bank")
  then show ?thesis
    using failed_operation_undone [OF _ _ e sample_pay_fails(1) [OF e]] sample_pay_fails(1) [OF e]
    by (intro exI [of _ r] exI [of _ s']) simp
qed

lemma check_signature_grounds:
  assumes "check_signature E X op height a = Inr matched"
  shows "\<exists>m \<in> set (auth_methods a). auth_grounds E m (operation_signing_message E X op) (signature op)
           (be_pq_auth_height X \<le> height)"
  using assms verify_auth_grounds by (fastforce simp: check_signature_def Let_def split: if_splits)

text \<open>The operations of a sequence of blocks, each with its executor configuration and its height.\<close>

fun run_blocks ::
    "'a exec_env_scheme \<Rightarrow> (block_executor \<times> u64 \<times> user_operation list) list \<Rightarrow> overlay_store \<Rightarrow> overlay_store" where
  "run_blocks E [] s = s"
| "run_blocks E ((X, height, ops) # bs) s = run_blocks E bs (snd (snd (run_operations E X height ops 0 s)))"

lemma grows_run_blocks:
  assumes "account_codec_ok E" "accounts_ok E s"
    and "\<And>X height ops o'. (X, height, ops) \<in> set bs \<Longrightarrow> o' \<in> set ops \<Longrightarrow> deploy_ids E (sender o') (actions o') \<subseteq> D"
  shows "grows E D s (run_blocks E bs s)"
  using assms(2,3)
proof (induction bs arbitrary: s)
  case Nil
  then show ?case by (simp add: grows_refl)
next
  case (Cons b bs)
  obtain X height ops where b: "b = (X, height, ops)" by (cases b)
  obtain rs g t where t: "run_operations E X height ops 0 s = (rs, g, t)"
    by (metis surj_pair)
  have g: "grows E D s t"
    by (rule grows_run_operations [OF assms(1) Cons.prems(1) _ t]) (rule Cons.prems(2) [of X height ops], simp_all add: b)
  have "grows E D t (run_blocks E bs t)"
    by (rule Cons.IH [OF grows_ok [OF g]]) (erule (1) Cons.prems(2) [OF list.set_intros(2)])
  then show ?case
    using grows_trans [OF g] by (simp add: b t)
qed

text \<open>C28: no operation is executed without its sender's authority, and none is executed twice.  If an
  operation succeeds or changes anything, and is not one with the proposer's mark \<open>[0xFF]\<close> on a single call of
  \<open>fulfill\<close> or \<open>slash\<close>, then one of the sender's authentication methods accepts its signature on the grounds
  that method promises, for the message that fixes the chain, the sender, the nonce, the fee bound and the
  digest of the actions; the nonce is the account's.  After the operations of any further blocks, at any heights
  and under any executor configurations, the same operation is rejected and changes nothing.  Excluded is a
  contract deployed at the sender's own identifier, that is, a hash collision.\<close>

theorem operation_authorised_once:
  assumes "account_codec_ok E" "accounts_ok E s" "\<not> is_system_authorized op"
    and "sender op \<notin> deploy_ids E (sender op) (actions op)"
    and "\<And>Y h ops o'. (Y, h, ops) \<in> set later \<Longrightarrow> o' \<in> set ops \<Longrightarrow> sender op \<notin> deploy_ids E (sender o') (actions o')"
    and "execute_operation E X op height s = (r, s')" "rc_success r \<or> s' \<noteq> s"
    and "t = run_blocks E later s'" "execute_operation E X' op height' t = (r2, t')"
  shows "(\<exists>a m. acct E s (sender op) = Some a \<and> nonce op = acct_nonce a \<and> m \<in> set (auth_methods a) \<and>
            auth_grounds E m (operation_signing_message E X op) (signature op)
              (be_pq_auth_height X \<le> height)) \<and>
         \<not> rc_success r2 \<and> t' = t"
proof -
  obtain a a' matched where a: "acct E s (sender op) = Some a" "nonce op = acct_nonce a"
    "check_signature E X op height a = Inr matched"
    "accounts_ok E s'" "acct E s' (sender op) = Some a'" "nonce op < acct_nonce a'"
    by (rule accepted_next_nonce [OF assms(1-4,6,7)])
  define D where "D = (\<Union>(Y, h, ops) \<in> set later. \<Union>o' \<in> set ops. deploy_ids E (sender o') (actions o'))"
  have g: "grows E D s' t"
    unfolding assms(8) by (rule grows_run_blocks [OF assms(1) a(4)]) (force simp: D_def)
  have "sender op \<notin> D"
    using assms(5) by (auto simp: D_def)
  then obtain b where b: "acct E t (sender op) = Some b" "acct_nonce a' \<le> acct_nonce b"
    using growsD [OF g _ a(5)] by auto
  have "\<not> rc_success r2 \<and> t' = t"
    by (rule old_nonce_rejected [OF grows_ok [OF g] assms(3) b(1) _ assms(9)]) (use a(6) b(2) in simp)
  then show ?thesis
    using a check_signature_grounds [OF a(3)] by blast
qed

lemma sample_pay_succeeds:
  "execute_operation sample_exec new_block_executor (sample_pay 30) height sample_bank = (r, s') \<Longrightarrow>
   rc_success r"
  by (auto simp: execute_operation_def sample_pay_precheck sample_pay_validated Let_def reserve_fee_def
      load_acct ledger_simps exec_transfer_def transfer_def require_acct create_account_def receipt_def
      split: prod.splits)

theorem operation_authorised_once_witness:
  "\<exists>r s' t r2 t'. execute_operation sample_exec new_block_executor (sample_pay 30) 0 sample_bank = (r, s') \<and>
     rc_success r \<and> t = run_blocks sample_exec [(new_block_executor, 1, [sample_pay 30])] s' \<and>
     execute_operation sample_exec new_block_executor (sample_pay 30) 2 t = (r2, t') \<and> \<not> rc_success r2 \<and> t' = t"
proof -
  let ?later = "[(new_block_executor, 1, [sample_pay 30])]"
  obtain r s' where 1: "execute_operation sample_exec new_block_executor (sample_pay 30) 0 sample_bank = (r, s')"
    by (cases "execute_operation sample_exec new_block_executor (sample_pay 30) 0 sample_bank")
  define t where "t = run_blocks sample_exec ?later s'"
  obtain r2 t' where 2: "execute_operation sample_exec new_block_executor (sample_pay 30) 2 t = (r2, t')"
    by (cases "execute_operation sample_exec new_block_executor (sample_pay 30) 2 t")
  have ok: "rc_success r"
    by (rule sample_pay_succeeds [OF 1])
  have "\<not> rc_success r2 \<and> t' = t"
    using operation_authorised_once [of sample_exec sample_bank "sample_pay 30" ?later new_block_executor 0
        r s' t new_block_executor 2 r2 t'] 1 2 ok t_def
    by (auto simp: deploy_ids_def)
  then show ?thesis
    using 1 2 ok t_def by blast
qed

section \<open>Session keys\<close>

lemma first_some_None: "first_some f xs = None \<longleftrightarrow> (\<forall>x \<in> set xs. f x = None)"
  by (induction xs) (auto split: option.split)

text \<open>What a session key may do in one action.\<close>

fun session_allows :: "account_id list \<Rightarrow> string list \<Rightarrow> action \<Rightarrow> bool" where
  "session_allows targets meths (Transfer to amount) \<longleftrightarrow> targets = [] \<or> to \<in> set targets"
| "session_allows targets meths (Call target meth args) \<longleftrightarrow>
     (targets = [] \<or> target \<in> set targets) \<and> (meths = [] \<or> meth \<in> set meths) \<and>
     target \<noteq> GUARDIAN_ADDRESS \<and>
     \<not> (target = GOVERNANCE_ADDRESS \<and> (prefix ''propose'' meth \<or> meth = ''finalize'' \<or> meth = ''execute''))"
| "session_allows targets meths (Deploy code salt) \<longleftrightarrow> False"
| "session_allows targets meths (SetAuth ms) \<longleftrightarrow> False"

lemma session_allowsI:
  assumes "targets = [] \<or> target_error targets act = None" "privileged_error act = None"
    "meths = [] \<or> method_error meths act = None"
  shows "session_allows targets meths act"
  using assms by (cases act) (auto simp: target_error_def split: if_splits)

lemma session_of_operation:
  assumes "accounts_ok E s" "\<not> is_system_authorized op" "acct E s (sender op) = Some a"
    and "find (signed_by_session E (operation_signing_message E X op) (signature op)) (auth_methods a) =
           Some m"
    and "validate_and_prepare E X op height s = (Inr p, s1)"
  shows "check_session E op m s = Inr p"
proof -
  obtain a' matched where a': "acct E s (sender op) = Some a'"
    "check_signature E X op height a' = Inr matched"
    "(case matched of Some m \<Rightarrow> check_session E op m s
      | None \<Rightarrow> Inr \<lparr>session_charge = None, op_policy = None\<rparr>) = Inr p"
    by (rule validate_Inr [OF assms(1,5,2)])
  then have "matched = Some m"
    using assms(3,4) by (auto simp: check_signature_def Let_def split: if_splits)
  then show ?thesis
    using a'(3) by simp
qed

lemma session_spent_commit:
  "session_spent E (commit_charge (Some (k, v)) s) k = v"
  by (simp add: session_spent_def commit_charge_def of_le_bytes_le_bytes)

text \<open>The amounts that a session is charged for, as exact numbers: the amount of a transfer, and sixteen bytes of the
  arguments of a call to a system contract with at least 48 bytes of arguments, those after the rollup identifier
  for the bridge and those after the first 32 bytes otherwise.  Shorter calls, among them bridge deposits of 24
  bytes, and calls to other contracts are free.\<close>

fun charged_amount :: "action \<Rightarrow> nat" where
  "charged_amount (Transfer to amount) = unat amount"
| "charged_amount (Call target meth args) =
     (if \<not> is_system_contract target \<or> length args < 48 then 0
      else if target = BRIDGE_ADDRESS then unat (of_le_bytes (take 16 (drop 8 args)) :: u128)
      else unat (of_le_bytes (take 16 (drop 32 args)) :: u128))"
| "charged_amount (Deploy code salt) = 0"
| "charged_amount (SetAuth ms) = 0"

definition charged_sum :: "action list \<Rightarrow> nat" where
  "charged_sum as = sum_list (map charged_amount as)"

lemma charged_action_spend: "charged_amount act = unat (action_spend act)"
  by (cases act) (auto simp: Let_def)

lemma session_spend_charged:
  assumes "charged_sum as < 2 ^ 128"
  shows "unat (session_spend as) = charged_sum as"
proof -
  have "charged_sum as = sum_list (map unat (map action_spend as))"
    unfolding charged_sum_def map_map by (intro arg_cong [where f = sum_list] map_cong) (simp_all add: charged_action_spend)
  then show ?thesis
    using assms by (simp add: session_spend_def unat_sum_list_exact)
qed

text \<open>C29: an operation signed by a session key stays within the session.  If it succeeds or changes
  anything, the session has not expired, every action goes to an allowed target with an allowed method, and
  none changes authentication methods, deploys a contract, calls guardian recovery or moves a governance
  proposal.  When the amounts the session is charged for add up to less than 2 ^ 128, they are within the
  spending limit, if there is one; and if the operation succeeds and there is a budget, the amount recorded for
  the session grows by them and stays within the budget.\<close>

theorem session_key_confined:
  assumes "account_codec_ok E" "accounts_ok E s" "\<not> is_system_authorized op"
    and "acct E s (sender op) = Some a"
    and "find (signed_by_session E (operation_signing_message E X op) (signature op)) (auth_methods a) =
           Some (Session key expiry limit budget targets meths restr)"
    and "execute_operation E X op height s = (r, s')" "rc_success r \<or> s' \<noteq> s"
  shows "(case current_height E s of Some h \<Rightarrow> h | None \<Rightarrow> 0) \<le> expiry \<and>
    (\<forall>act \<in> set (actions op). session_allows targets meths act) \<and>
    (charged_sum (actions op) < 2 ^ 128 \<longrightarrow>
       (0 < limit \<longrightarrow> charged_sum (actions op) \<le> unat limit) \<and>
       (rc_success r \<and> 0 < budget \<and> 0 < charged_sum (actions op) \<longrightarrow>
          unat (session_spent E s' (session_spent_key (sender op) key)) =
            min (unat (session_spent E s (session_spent_key (sender op) key)) + charged_sum (actions op)) (2 ^ 128 - 1) \<and>
          session_spent E s' (session_spent_key (sender op) key) \<le> budget))"
proof -
  obtain p s1 where v: "validate_and_prepare E X op height s = (Inr p, s1)"
    by (rule operation_accepted [OF assms(1-3,6,7)])
  have "check_session E op (Session key expiry limit budget targets meths restr) s = Inr p"
    by (rule session_of_operation [OF assms(2-5) v])
  then obtain due where due: "session_budget E op key budget (session_spend (actions op)) s = Inr due"
    "p = \<lparr>session_charge = due, op_policy = session_policy targets meths restr\<rparr>"
    and c: "(case current_height E s of Some h \<Rightarrow> h | None \<Rightarrow> 0) \<le> expiry"
      "limit = 0 \<or> session_spend (actions op) \<le> limit"
      "targets = [] \<or> first_some (target_error targets) (actions op) = None"
      "first_some privileged_error (actions op) = None"
      "meths = [] \<or> first_some (method_error meths) (actions op) = None"
    by (rule check_session_Inr)
  let ?k = "session_spent_key (sender op) key" and ?n = "charged_sum (actions op)"
  let ?v = "sat_add (session_spent E s ?k) (session_spend (actions op))"
  have "unat (session_spent E s' ?k) = min (unat (session_spent E s ?k) + ?n) (2 ^ 128 - 1) \<and> session_spent E s' ?k \<le> budget"
    if succ: "rc_success r" and pos: "0 < budget" "0 < ?n" and fits: "?n < 2 ^ 128"
  proof -
    have n: "unat (session_spend (actions op)) = ?n"
      by (rule session_spend_charged [OF fits])
    then have "0 < session_spend (actions op)"
      using pos(2) by (simp add: word_less_nat_alt)
    then have "due = Some (?k, ?v)" "?v \<le> budget"
      using due(1) pos(1) by (auto simp: session_budget_def Let_def not_less split: if_splits)
    moreover obtain s4 where "s' = commit_charge (session_charge p) s4"
      using success_cases [OF assms(6) succ] v by (metis Inr_inject prod.inject)
    ultimately show ?thesis
      using due(2) n by (simp add: session_spent_commit unat_sat_add)
  qed
  moreover have "?n \<le> unat limit" if "?n < 2 ^ 128" "0 < limit"
    using c(2) that session_spend_charged [OF that(1)] by (auto simp: word_le_nat_alt)
  ultimately show ?thesis
    using c by (auto simp: first_some_None intro!: session_allowsI)
qed

definition sample_session :: auth_method where
  "sample_session = Session 7 1000 40 60 [2] [] False"

definition sample_session_bank :: overlay_store where
  "sample_session_bank = with_accounts sample_exec
     [(sample_account 1 100)\<lparr>auth_methods := [sample_session]\<rparr>] ov_new"

definition sample_session_pay :: user_operation where
  "sample_session_pay = sample_signed 7
     \<lparr>sender = 1, nonce = 0, actions = [Transfer 2 30], max_fee = 50, signature = []\<rparr>"

lemma sample_session_bank:
  "accounts_ok sample_exec sample_session_bank"
  "acct sample_exec sample_session_bank 1 = Some ((sample_account 1 100)\<lparr>auth_methods := [sample_session]\<rparr>)"
  "ov_get mem_new sample_session_bank (session_spent_key i k) = None"
  "ov_get mem_new sample_session_bank (ascii ''__chain_meta__'') = None"
  using session_key_not_account [of i k] not_account_keys
  by (simp_all add: sample_session_bank_def ledger_simps accounts_ok_empty acct_empty ov_get_save_account)

lemma sample_session_signed:
  "\<not> is_system_authorized sample_session_pay"
  "signed_by_session sample_exec (operation_signing_message sample_exec new_block_executor sample_session_pay)
     (signature sample_session_pay) sample_session"
  by (simp_all add: sample_session_pay_def signed_by_session_def sample_session_def)

lemma sample_session_succeeds:
  assumes "execute_operation sample_exec new_block_executor sample_session_pay 0 sample_session_bank = (r, s')"
  shows "rc_success r"
proof -
  have chk: "check_signature sample_exec new_block_executor sample_session_pay 0
      ((sample_account 1 100)\<lparr>auth_methods := [sample_session]\<rparr>) = Inr (Some sample_session)"
    using sample_session_signed(2)
    by (simp add: check_signature_def sample_session_pay_def sample_session_def Let_def)
  have ses: "\<exists>p. check_session sample_exec sample_session_pay sample_session sample_session_bank = Inr p"
    by (simp add: check_session_def sample_session_def session_budget_def Let_def sample_session_pay_def
        session_spend_def session_spent_def sample_session_bank current_height_def target_error_def
        sat_add_def)
  then obtain p where "validate_and_prepare sample_exec new_block_executor sample_session_pay 0 sample_session_bank =
      (Inr p, save_account sample_exec ((sample_account 1 100)\<lparr>auth_methods := [sample_session], acct_nonce := 1\<rparr>)
         sample_session_bank)"
    using chk sample_session_signed(1) sample_session_bank(1,2)
    by (auto simp: validate_and_prepare_def load_acct consume_nonce_def require_acct checked_add_1
        sample_session_pay_def)
  then show ?thesis
    using assms sample_session_bank(1,2)
    by (auto simp: execute_operation_def sample_session_pay_def precheck_def deploy_error_def
        MAX_ACTIONS_PER_OP_def Let_def reserve_fee_def load_acct ledger_simps exec_transfer_def
        transfer_def require_acct create_account_def receipt_def split: prod.splits sum.splits option.splits)
qed

theorem session_key_confined_witness:
  "\<exists>r s'. execute_operation sample_exec new_block_executor sample_session_pay 0 sample_session_bank = (r, s') \<and>
     rc_success r \<and> unat (session_spent sample_exec s' (session_spent_key 1 7)) = 30"
proof -
  obtain r s' where e: "execute_operation sample_exec new_block_executor sample_session_pay 0 sample_session_bank = (r, s')"
    by (cases "execute_operation sample_exec new_block_executor sample_session_pay 0 sample_session_bank")
  have f: "find (signed_by_session sample_exec (operation_signing_message sample_exec new_block_executor
      sample_session_pay) (signature sample_session_pay)) [sample_session] = Some (Session 7 1000 40 60 [2] [] False)"
    using sample_session_signed(2) by (simp add: sample_session_def)
  show ?thesis
    using session_key_confined [OF _ sample_session_bank(1) sample_session_signed(1) _ _ e,
        of "(sample_account 1 100)\<lparr>auth_methods := [sample_session]\<rparr>" 7 1000 40 60 "[2]" "[]" False]
      sample_session_succeeds [OF e] e f sample_session_bank
    by (simp add: sample_session_pay_def charged_sum_def session_spent_def)
qed

end
