(* ===== verification/Call_Tree.thy ===== *)
theory Call_Tree
  imports Operations
begin

text \<open>
  Bounds on contract calls.  A call may queue sixteen calls, each of which may queue sixteen more, to
  depth eight; the fuel of the whole tree is shared.  Proved here, for every contract: the gas
  reported for an operation is bounded by the shared fuel and a constant per call, so that no
  counter of the executor ever wraps or saturates.
\<close>

section \<open>System calls\<close>

lemma finish_gas: "sc_gas_used (fst (finish save f)) = 200"
  by (simp add: finish_def err_def SYSTEM_CALL_GAS_def split: flow.split)

lemma system_call_gas:
  assumes "execute_system_call E caller target meth args s = (r, s')"
  shows "sc_gas_used r \<le> 200"
proof -
  have gov: "sc_gas_used (fst (execute_governance_call E caller meth args s)) = 200"
    using finish_gas [of "governance_save E"]
    by (simp add: execute_governance_call_def Let_def err_def SYSTEM_CALL_GAS_def split_def split: sum.split)
  have rest: "sc_gas_used (fst (execute_staking_call E caller meth args s)) = 200"
    "sc_gas_used (fst (execute_bridge_call E caller meth args s)) = 200"
    "sc_gas_used (fst (execute_vesting_call E caller meth args s)) = 200"
    by (simp_all add: execute_staking_call_def execute_bridge_call_def execute_vesting_call_def finish_gas)
  have gua: "sc_gas_used (fst (execute_guardian_call E caller meth args s)) = 200"
    by (auto simp: execute_guardian_call_def call_execute_recovery_def Let_def finish_gas err_def
        SYSTEM_CALL_GAS_def split: option.split sum.split prod.split)
  have int: "sc_gas_used (fst (execute_intent_call E caller meth args s)) = 200"
    by (simp add: execute_intent_call_def call_fulfill_def settle_intent_def Let_def intent_result_def
        err_def SYSTEM_CALL_GAS_def split: option.split sum.split prod.split)
  have "sc_gas_used (fst (execute_treasury_call E meth s)) = 200"
    "sc_gas_used (fst (execute_paymaster_call E caller meth s)) = 200"
    by (simp_all add: execute_treasury_call_def execute_paymaster_call_def paymaster_result_def
        err_def SYSTEM_CALL_GAS_def Let_def split: sum.split option.split)
  then have "sc_gas_used (fst (execute_system_call E caller target meth args s)) \<le> 200"
    using gov rest gua int by (simp add: execute_system_call_def)
  then show ?thesis
    using assms by simp
qed

section \<open>One call\<close>

lemma unat_add_le: "unat (a + b) \<le> unat a + unat (b :: 'a::len word)"
  by (simp add: unat_word_ariths)

lemma contract_frame_paid:
  assumes "engine_metered (wasm E)"
    and "contract_frame E X caller target tacct meth args v height (evs, fuel, s) = (r, evs', fuel', s')"
  shows "fuel' \<le> fuel \<and>
    (\<forall>g ps. r = Inr (g, ps) \<longrightarrow> length ps \<le> 16 \<and> unat g + unat fuel' \<le> unat fuel + 500)"
proof -
  let ?ctx = "call_context caller height target (load_contract_storage E s target) v (balance tacct)"
  have run: "calls_ok (vr_pending_calls q) \<and> vr_gas_used q \<le> fuel"
    if "vm_execute (wasm E) dh code (meth @ 0 # args) ?ctx (Some (min fuel MAX_FUEL_PER_CALL)) = Inr q"
    for dh code q
    using vm_execute_paid [OF assms(1) that] by (simp add: call_context_def new_host_context_def)
  have acc: "sat_sub fuel g \<le> fuel \<and> (g \<le> fuel \<longrightarrow>
      unat (CALL_BASE_GAS + g) + unat (sat_sub fuel g) \<le> unat fuel + 500)" for g
    using unat_add_le [of CALL_BASE_GAS g]
    by (auto simp: sat_sub_le unat_sat_sub CALL_BASE_GAS_def word_le_nat_alt)
  consider (err) e where "r = Inl e" "fuel' \<le> fuel"
    | (ok) q code where "r = Inr (CALL_BASE_GAS + vr_gas_used q, vr_pending_calls q)"
        "fuel' = sat_sub fuel (vr_gas_used q)"
        "vm_execute (wasm E) (be_determinism_fix_height X) code (meth @ 0 # args) ?ctx
           (Some (min fuel MAX_FUEL_PER_CALL)) = Inr q"
    using assms(2)
    by (fastforce simp: contract_frame_def Let_def sat_sub_le
        split: option.splits if_splits sum.splits vm_error.splits prod.splits)
  then show ?thesis
  proof cases
    case (ok q code)
    then show ?thesis
      using run [OF ok(3)] acc [of "vr_gas_used q"] by (simp add: calls_ok_def)
  qed simp
qed

lemma call_frame_paid:
  assumes "engine_metered (wasm E)"
    and "call_frame E X caller target meth args v height (evs, fuel, s) = (r, evs', fuel', s')"
  shows "fuel' \<le> fuel \<and>
    (\<forall>g ps. r = Inr (g, ps) \<longrightarrow> length ps \<le> 16 \<and> unat g + unat fuel' \<le> unat fuel + 700)"
proof (cases "is_system_contract target")
  case True
  have "unat (CALL_BASE_GAS + sc_gas_used q) \<le> 700"
    if "execute_system_call E caller target m args s = (q, t)" for m q t
    using unat_add_le [of CALL_BASE_GAS "sc_gas_used q"] system_call_gas [OF that]
    by (simp add: CALL_BASE_GAS_def word_le_nat_alt)
  then show ?thesis
    using assms(2) True
    by (auto simp: call_frame_def system_frame_def split: option.splits prod.splits)
next
  case False
  show ?thesis
  proof (cases "require_account E s target")
    case (Inr a)
    show ?thesis
    proof (cases "code_hash a = 0")
      case True
      then show ?thesis
        using assms(2) False Inr by (auto simp: call_frame_def CALL_BASE_GAS_def)
    next
      case code: False
      then have "contract_frame E X caller target a meth args v height (evs, fuel, s) = (r, evs', fuel', s')"
        using assms(2) False Inr by (simp add: call_frame_def)
      from contract_frame_paid [OF assms(1) this] show ?thesis
        by force
    qed
  qed (use assms(2) False in \<open>auto simp: call_frame_def\<close>)
qed

section \<open>The tree\<close>

text \<open>The number of calls in a full tree of the given height.\<close>

primrec tree_calls :: "nat \<Rightarrow> nat" where
  "tree_calls 0 = 0"
| "tree_calls (Suc n) = 1 + 16 * tree_calls n"

text \<open>A result of the dispatch: the gas it reports is covered by the fuel it took and a price per call.\<close>

definition paid :: "nat \<Rightarrow> u64 \<Rightarrow> (exec_error + u64) \<times> call_state \<Rightarrow> bool" where
  "paid extra fuel res \<longleftrightarrow>
     (case res of (r, evs, fuel', s) \<Rightarrow>
        fuel' \<le> fuel \<and> (\<forall>g. r = Inr g \<longrightarrow> unat g + unat fuel' \<le> unat fuel + extra))"

lemma paid_mono:
  assumes "paid e fuel res" "fuel \<le> fuel'" "unat fuel + e \<le> unat fuel' + e'"
  shows "paid e' fuel' res"
proof -
  obtain r evs f s where "res = (r, evs, f, s)"
    by (metis prod_cases4)
  then show ?thesis
    using assms by (fastforce simp: paid_def)
qed

lemma dispatch_paid:
  fixes E :: "'a exec_env_scheme"
  assumes "engine_metered (wasm E)"
  shows "paid (700 * tree_calls (9 - depth)) (fst (snd st))
      (dispatch_contract_call E X height policy depth caller target meth args v st)"
    and "depth \<le> 8 \<Longrightarrow> paid (unat gas + length ps * (700 * tree_calls (8 - depth))) (fst (snd st))
      (dispatch_pending E X height policy depth caller ps gas st)"
  using assms
proof (induction E X height policy depth caller target meth args v st
    and E X height policy depth caller ps gas st rule: dispatch_contract_call_dispatch_pending.induct)
  case (1 E X height policy depth caller target meth args v st)
  obtain evs fuel s where st: "st = (evs, fuel, s)"
    by (cases st)
  obtain r evs1 fuel1 s1 where f: "call_frame E X caller target meth args v height st = (r, evs1, fuel1, s1)"
    by (metis prod_cases4)
  note fr = call_frame_paid [OF 1(2), of X caller target meth args v height evs fuel s r evs1 fuel1 s1]
  show ?case
  proof (cases "call_guard depth policy target meth")
    case None
    then have d: "depth \<le> 8"
      by (auto simp: call_guard_def MAX_CALL_DEPTH_def split: if_splits)
    show ?thesis
    proof (cases r)
      case (Inr gp)
      obtain g ps where gp: "gp = (g, ps)"
        by (cases gp)
      have "paid (unat g + length ps * (700 * tree_calls (8 - depth))) fuel1
          (dispatch_pending E X height policy depth target ps g (evs1, fuel1, s1))"
        using 1(1) [OF None f [symmetric] Inr gp [symmetric] d 1(2)] by simp
      moreover have "length ps \<le> 16" "fuel1 \<le> fuel" "unat g + unat fuel1 \<le> unat fuel + 700"
        using fr f st Inr gp by auto
      moreover have "tree_calls (9 - depth) = 1 + 16 * tree_calls (8 - depth)"
        using d by (simp add: Suc_diff_le numeral_eq_Suc)
      moreover have "length ps * (700 * tree_calls (8 - depth)) \<le> 16 * (700 * tree_calls (8 - depth))"
        using calculation(2) by (rule mult_right_mono) simp
      ultimately have "paid (700 * tree_calls (9 - depth)) fuel
          (dispatch_pending E X height policy depth target ps g (evs1, fuel1, s1))"
        by (elim paid_mono) linarith+
      then show ?thesis
        by (simp add: dispatch_contract_call.simps None f Inr gp) (simp add: st)
    qed (use fr f st None in \<open>auto simp: paid_def dispatch_contract_call.simps\<close>)
  qed (simp add: dispatch_contract_call.simps paid_def st)
next
  case (3 E X height policy depth caller p ps gas st)
  obtain r evs1 fuel1 s1 where d: "dispatch_contract_call E X height policy (depth + 1) caller (pc_target p)
      (pc_method p) (pc_args p) 0 st = (r, evs1, fuel1, s1)"
    by (metis prod_cases4)
  have p: "paid (700 * tree_calls (8 - depth)) (fst (snd st)) (r, evs1, fuel1, s1)"
    using 3(1) [OF 3(4)] d by simp
  show ?case
  proof (cases r)
    case (Inr g)
    have "paid (unat (sat_add gas g) + length ps * (700 * tree_calls (8 - depth))) fuel1
        (dispatch_pending E X height policy depth caller ps (sat_add gas g) (evs1, fuel1, s1))"
      using 3(2) [OF d [symmetric] Inr 3(3,4)] by simp
    moreover have "unat (sat_add gas g) \<le> unat gas + unat g"
      by (rule unat_sat_add_le)
    moreover have "fuel1 \<le> fst (snd st)"
      "unat g + unat fuel1 \<le> unat (fst (snd st)) + 700 * tree_calls (8 - depth)"
      using p Inr by (simp_all add: paid_def)
    moreover have "length (p # ps) * (700 * tree_calls (8 - depth)) =
        700 * tree_calls (8 - depth) + length ps * (700 * tree_calls (8 - depth))"
      by simp
    ultimately have "paid (unat gas + length (p # ps) * (700 * tree_calls (8 - depth))) (fst (snd st))
        (dispatch_pending E X height policy depth caller ps (sat_add gas g) (evs1, fuel1, s1))"
      by (elim paid_mono) linarith+
    then show ?thesis
      using d Inr by simp
  qed (use p d in \<open>auto simp: paid_def\<close>)
qed (auto simp: paid_def)

section \<open>Operations\<close>

text \<open>The most an action can report: a full tree of calls, and all the fuel.\<close>

definition max_action_gas :: nat where
  "max_action_gas = 64000000 + 700 * tree_calls 9"

lemma tree_calls_numeral: "tree_calls (numeral k) = 1 + 16 * tree_calls (pred_numeral k)"
  by (subst numeral_eq_Suc) (rule tree_calls.simps)

lemma max_action_gas: "max_action_gas = 3206972914300"
  by (simp add: max_action_gas_def tree_calls_numeral)

lemma action_gas:
  assumes "engine_metered (wasm E)" "execute_action E X who v height policy a evs s = (Inr g, evs', s')"
  shows "unat g \<le> max_action_gas"
proof (cases a)
  case (Call target meth args)
  then obtain fuel where "dispatch_contract_call E X height policy 0 who target (as_bytes meth) args v
      (evs, MAX_CALL_TREE_FUEL, s) = (Inr g, evs', fuel, s')"
    using assms(2) by (auto split: prod.splits)
  then show ?thesis
    using dispatch_paid(1) [OF assms(1), of 0 "(evs, MAX_CALL_TREE_FUEL, s)" X height policy who target
        "as_bytes meth" args v]
    by (simp add: paid_def max_action_gas_def MAX_CALL_TREE_FUEL_def)
next
  case (Transfer to amount)
  then show ?thesis
    using assms(2)
    by (auto simp: exec_transfer_def max_action_gas TRANSFER_GAS_def ACCOUNT_CREATION_GAS_def
        split: sum.splits prod.splits if_splits)
next
  case (Deploy code salt)
  then show ?thesis
    using assms(2)
    by (auto simp: exec_deploy_def deployed_def Let_def max_action_gas DEPLOY_BASE_GAS_def
        split: sum.splits prod.splits if_splits option.splits)
next
  case (SetAuth ms)
  then show ?thesis
    using assms(2)
    by (auto simp: exec_set_auth_def max_action_gas SET_AUTH_GAS_def split: sum.splits if_splits option.splits)
qed

lemma run_actions_gas:
  assumes "engine_metered (wasm E)"
  shows "run_actions E X who height policy as pend gas evs s = (e, gas', evs', s') \<Longrightarrow>
    unat gas' \<le> unat gas + length as * max_action_gas"
  using assms
proof (induction E X who height policy as pend gas evs s
    arbitrary: e gas' evs' s' rule: run_actions.induct)
  case (2 E X who height policy a as pend gas evs s)
  obtain v pend1 where n: "note_transfer a pend = (v, pend1)"
    by (cases "note_transfer a pend")
  show ?case
  proof (cases "is_system_call a")
    case True
    obtain r s1 where c: "execute_system_call E who (call_target a) (call_method a) (call_args a) s = (r, s1)"
      by (cases "execute_system_call E who (call_target a) (call_method a) (call_args a) s")
    have "unat (gas + sc_gas_used r) \<le> unat gas + max_action_gas"
      using unat_add_le [of gas "sc_gas_used r"] system_call_gas [OF c]
      by (simp add: max_action_gas word_le_nat_alt)
    moreover have "unat gas' \<le> unat (gas + sc_gas_used r) + length as * max_action_gas"
    proof (cases "sc_error r")
      case None
      then show ?thesis
        using 2(1) [OF n [symmetric] True c [symmetric] None _ 2(4)] 2(3) by (simp add: n True c)
    qed (use 2(3) in \<open>simp add: n True c\<close>)
    ultimately show ?thesis
      by simp
  next
    case False
    obtain r evs1 s1 where c: "execute_action E X who v height policy a evs s = (r, evs1, s1)"
      by (cases "execute_action E X who v height policy a evs s")
    show ?thesis
    proof (cases r)
      case (Inr g)
      have "unat (gas + g) \<le> unat gas + max_action_gas"
        using unat_add_le [of gas g] action_gas [OF 2(4), of X who v height policy a evs s g] c Inr
        by fastforce
      moreover have "unat gas' \<le> unat (gas + g) + length as * max_action_gas"
        using 2(2) [OF n [symmetric] False c [symmetric] Inr refl _ 2(4)] 2(3) by (simp add: n False c Inr)
      ultimately show ?thesis
        by simp
    qed (use 2(3) n False c in auto)
  qed
qed simp

text \<open>C30: the gas of an operation is bounded, whatever its contracts do.  The sixteen actions an
  operation may have report at most the shared fuel of a call tree and a constant for each of the
  calls in a full tree of sixteen-fold fan-out to depth eight.  The bound is far below \<open>2 ^ 64\<close>, so no
  gas counter comes near the width at which it would wrap or saturate.  The assumption on wasmtime
  is that a guest does not gain fuel.\<close>

theorem operation_gas_bounded:
  assumes "engine_metered (wasm E)" "execute_operation E X op height s = (r, s')"
  shows "unat (rc_gas_used r) \<le> 16 * max_action_gas \<and> 16 * max_action_gas < 2 ^ 46"
proof -
  have "unat gas \<le> 16 * max_action_gas"
    if "precheck (wasm E) op = None"
      "run_actions E X (sender op) height policy (actions op) Map.empty 0 [] s2 = (e, gas, evs, s3)"
    for policy e gas evs s2 s3
  proof -
    have "length (actions op) \<le> 16"
      using that(1) by (auto simp: precheck_def MAX_ACTIONS_PER_OP_def split: if_splits)
    then have "length (actions op) * max_action_gas \<le> 16 * max_action_gas"
      by (rule mult_right_mono) simp
    with run_actions_gas [OF assms(1) that(2)] show ?thesis
      by (simp only: unat_0 add_0 le_trans)
  qed
  then have "unat (rc_gas_used r) \<le> 16 * max_action_gas"
    using assms(2)
    by (auto simp: execute_operation_def receipt_def Let_def
        split: option.splits prod.splits sum.splits)
  then show ?thesis
    by (simp add: max_action_gas)
qed

theorem operation_gas_bounded_witness:
  "engine_metered (wasm sample_exec) \<and>
   unat (rc_gas_used (fst (execute_operation sample_exec new_block_executor (sample_pay 30) 0 sample_bank)))
     \<le> 16 * 3206972914300"
proof -
  obtain r s' where e: "execute_operation sample_exec new_block_executor (sample_pay 30) 0 sample_bank = (r, s')"
    by (cases "execute_operation sample_exec new_block_executor (sample_pay 30) 0 sample_bank")
  show ?thesis
    using operation_gas_bounded [OF _ e] by (simp add: e max_action_gas)
qed

end
