(* ===== verification/Block_Ops.thy ===== *)
theory Block_Ops
  imports Operations
begin

text \<open>
  The operations of a block.  Blocks of 200 operations and more check all signatures ahead, against
  the accounts as they are before the block; proved here is when that gives the same state as
  checking each operation when it is reached.  Also proved: an operation of transfers creates no
  tokens and costs its sender no more than the fee bound, fees and burning included.
\<close>

section \<open>Signatures checked ahead\<close>

definition auths :: "'a ledger_env_scheme \<Rightarrow> overlay_store \<Rightarrow> account_id \<Rightarrow> auth_method list option" where
  "auths E s i = map_option auth_methods (acct E s i)"

lemma prevalidate_acct:
  "prevalidate E X height s op =
     (if is_system_authorized op then Some ''system''
      else case auths E s (sender op) of
        None \<Rightarrow> None
      | Some ms \<Rightarrow> first_some (\<lambda>m. verify_auth E m (operation_signing_message E X op) (signature op)
                     (be_pq_auth_height X \<le> height)) ms)"
  by (auto simp: prevalidate_def auths_def acct_def load_account_def split: option.split sum.split)

lemma prevalidate_None:
  assumes "prevalidate E X height s0 op = None" "auths E s (sender op) = auths E s0 (sender op)"
  obtains e where "validate_and_prepare E X op height s = (Inl e, s)"
proof -
  have pre: "prevalidate E X height s op = None" "\<not> is_system_authorized op"
    using assms by (auto simp: prevalidate_acct split: if_splits)
  show thesis
  proof (cases "load_account E s (sender op)")
    case (Inr oa)
    show thesis
    proof (cases oa)
      case (Some a)
      then have "check_signature E X op height a = Inl InvalidSignature"
        using pre Inr by (auto simp: prevalidate_acct auths_def acct_def first_some_None check_signature_def Let_def)
      then show thesis
        using that pre(2) Inr Some by (simp add: validate_and_prepare_def)
    qed (use that Inr in \<open>simp add: validate_and_prepare_def\<close>)
  qed (use that in \<open>simp add: validate_and_prepare_def\<close>)
qed

lemma unvalidated_operation:
  assumes "prevalidate E X height s0 op = None" "auths E s (sender op) = auths E s0 (sender op)"
  obtains e where "execute_operation E X op height s = (receipt op 0 (Some e) [], s)"
proof -
  obtain e where "validate_and_prepare E X op height s = (Inl e, s)"
    by (rule prevalidate_None [OF assms])
  then show thesis
    using that by (cases "precheck (wasm E) op") (simp_all add: execute_operation_def)
qed

text \<open>
  No operation's sender has had its authentication methods changed, or its account created, by an
  operation before it in the block.
\<close>

fun auth_stable ::
    "'a exec_env_scheme \<Rightarrow> block_executor \<Rightarrow> u64 \<Rightarrow> overlay_store \<Rightarrow> user_operation list \<Rightarrow> overlay_store
     \<Rightarrow> bool" where
  "auth_stable E X height s0 [] s = True"
| "auth_stable E X height s0 (op # ops) s =
     (auths E s (sender op) = auths E s0 (sender op) \<and>
      auth_stable E X height s0 ops (snd (execute_operation E X op height s)))"

text \<open>The parts of a receipt that do not depend on how the signature was checked.\<close>

definition outcome :: "execution_receipt \<Rightarrow> account_id \<times> u64 \<times> bool \<times> u64 \<times> event list" where
  "outcome r = (rc_sender r, rc_nonce r, rc_success r, rc_gas_used r, rc_events r)"

lemma run_validated_sequential:
  assumes "auth_stable E X height s0 ops s"
    and "run_operations E X height ops g s = (rs, g1, s1)"
    and "run_validated E X height (zip ops (map (prevalidate E X height s0) ops)) g s = (rs', g2, s2)"
  shows "s2 = s1 \<and> g2 = g1 \<and> map outcome rs' = map outcome rs"
  using assms
proof (induction ops arbitrary: g s rs rs')
  case (Cons op ops)
  obtain r t where e: "execute_operation E X op height s = (r, t)"
    by (cases "execute_operation E X op height s")
  obtain qs where q: "run_operations E X height ops (g + rc_gas_used r) t = (qs, g1, s1)" "rs = r # qs"
    using Cons.prems(2) by (auto simp: e Let_def split: prod.splits)
  have st: "auth_stable E X height s0 ops t"
    using Cons.prems(1) by (simp add: e)
  show ?case
  proof (cases "prevalidate E X height s0 op")
    case None
    obtain err where "r = receipt op 0 (Some err) []" "t = s"
      using unvalidated_operation [OF None] Cons.prems(1) e by (metis auth_stable.simps(2) prod.inject)
    moreover obtain qs' where "run_validated E X height (zip ops (map (prevalidate E X height s0) ops)) g s = (qs', g2, s2)"
      "rs' = rejected op # qs'"
      using Cons.prems(3) by (auto simp: None Let_def split: prod.splits)
    ultimately show ?thesis
      using Cons.IH [OF st q(1)] q(2) by (simp add: receipt_def rejected_def outcome_def)
  next
    case (Some name)
    obtain qs' where "run_validated E X height (zip ops (map (prevalidate E X height s0) ops)) (g + rc_gas_used r) t =
        (qs', g2, s2)" "rs' = r\<lparr>rc_auth_method := name\<rparr> # qs'"
      using Cons.prems(3) by (auto simp: Some e Let_def split: prod.splits)
    then show ?thesis
      using Cons.IH [OF st q(1)] q(2) by (simp add: outcome_def)
  qed
qed simp

text \<open>C31: checking all signatures ahead gives the same block.  If no operation changes the
  authentication methods of an account that acts later in the block, and none creates such an account,
  the parallel path and the sequential path end in the same store with the same state root and the
  same gas, and every operation has the same outcome, rejected ones included.  (Where the condition
  fails the parallel path rejects operations the sequential one accepts.)\<close>

theorem parallel_matches_sequential:
  assumes "auth_stable E X height s ops s"
    and "execute_block_sequential E X ops height s = (b, t)"
    and "execute_block_parallel E X ops height s = (b', t')"
  shows "t' = t \<and> br_state_root b' = br_state_root b \<and> br_gas_used b' = br_gas_used b \<and>
         map outcome (br_receipts b') = map outcome (br_receipts b)"
proof -
  obtain rs g t1 where 1: "run_operations E X height ops 0 s = (rs, g, t1)"
    by (metis prod_cases3)
  obtain rs' g' t2 where 2: "run_validated E X height (zip ops (map (prevalidate E X height s) ops)) 0 s = (rs', g', t2)"
    by (metis prod_cases3)
  show ?thesis
    using assms(2,3) run_validated_sequential [OF assms(1) 1 2]
    by (auto simp: execute_block_sequential_def execute_block_parallel_def 1 2 Let_def)
qed

lemma sample_stable:
  "auth_stable sample_exec new_block_executor 0 sample_bank [sample_pay 500, sample_pay 30] sample_bank"
proof -
  obtain r s' where e: "execute_operation sample_exec new_block_executor (sample_pay 500) 0 sample_bank = (r, s')"
    by (cases "execute_operation sample_exec new_block_executor (sample_pay 500) 0 sample_bank")
  have "auths sample_exec s' 1 = auths sample_exec sample_bank 1"
    using failed_operation_effect [OF _ _ e sample_pay_fails(1) [OF e]] by (auto simp: auths_def)
  then show ?thesis
    by (simp add: e)
qed

theorem parallel_matches_sequential_witness:
  "snd (execute_block_parallel sample_exec new_block_executor [sample_pay 500, sample_pay 30] 0 sample_bank) =
   snd (execute_block_sequential sample_exec new_block_executor [sample_pay 500, sample_pay 30] 0 sample_bank)"
  using parallel_matches_sequential [OF sample_stable prod.collapse [symmetric] prod.collapse [symmetric]]
  by blast

section \<open>Transfers and fees\<close>

lemma sget_transfer:
  assumes "\<not> is_account_key k" "transfer E from to amount s = (r, s')"
  shows "sget E s' k = sget E s k"
  using assms
  by (auto simp: transfer_def require_account_def create_account_def sget_save_other is_account_key_def Let_def
      split: sum.splits option.splits if_splits)

lemma transfer_action:
  assumes "execute_action E X who v height policy (Transfer to amount) evs s = (Inr g, evs1, s1)"
  shows "transfer E who to amount s = (Inr (), s1)"
  using assms by (auto simp: exec_transfer_def split: sum.splits prod.splits)

fun is_transfer :: "action \<Rightarrow> bool" where
  "is_transfer (Transfer to amount) = True"
| "is_transfer _ = False"

lemma run_transfers:
  assumes "account_codec_ok E" "list_all is_transfer as" "accounts_ok E s" "total_supply E s < 2 ^ 128"
    and "run_actions E X who height policy as pend gas evs s = (None, gas', evs', s')"
  shows "total_supply E s' = total_supply E s \<and> accounts_ok E s' \<and>
         (\<forall>k. \<not> is_account_key k \<longrightarrow> sget E s' k = sget E s k) \<and>
         (acct E s i \<noteq> None \<longrightarrow> acct E s' i \<noteq> None)"
  using assms(2-)
proof (induction as arbitrary: pend gas evs s)
  case (Cons a as)
  obtain to amount where a: "a = Transfer to amount"
    using Cons.prems(1) by (cases a) simp_all
  obtain pend1 g evs1 s1 where 1: "execute_action E X who 0 height policy a evs s = (Inr g, evs1, s1)"
    and rest: "run_actions E X who height policy as pend1 (gas + g) evs1 s1 = (None, gas', evs', s')"
    using Cons.prems(4) by (simp add: a del: execute_action.simps split: prod.splits sum.splits)
  have t: "transfer E who to amount s = (Inr (), s1)"
    using transfer_action 1 unfolding a .
  have k: "keeps E True s s1"
    using keeps_transfer [OF assms(1) keeps_refl [OF Cons.prems(2)], of True who to amount] t by simp
  then have live: "acct E s i \<noteq> None \<longrightarrow> acct E s1 i \<noteq> None"
    by (fastforce simp: keeps_def)
  show ?case
    using Cons.IH [OF _ _ _ rest] Cons.prems(1,3) transfer_supply [OF assms(1) Cons.prems(2,3) t]
      sget_transfer [OF _ t] keeps_ok [OF k] live by simp
qed simp

lemma treasury_amount_le:
  assumes "burn_rate_bps fc \<le> 10000"
  shows "unat (treasury_amount fc fee) \<le> unat fee"
proof -
  have "unat (10000 - burn_rate_bps fc) \<le> 10000"
    using assms by (simp add: unat_sub_if_size word_le_nat_alt)
  then have "unat fee * unat (10000 - burn_rate_bps fc) \<le> unat fee * 10000"
    by (rule mult_left_mono) simp
  then have "unat (sat_mul fee (ucast (10000 - burn_rate_bps fc))) \<le> unat fee * 10000"
    unfolding unat_sat_mul unat_ucast_u64_u128 by (rule le_trans [OF min.cobounded1])
  then have "unat (sat_mul fee (ucast (10000 - burn_rate_bps fc))) div 10000 \<le> unat fee * 10000 div 10000"
    by (rule div_le_mono)
  then show ?thesis
    by (simp add: treasury_amount_def unat_div)
qed

lemma balance_of_acct: "acct E s i = Some a \<Longrightarrow> balance_of E s i = balance a"
  by (simp add: balance_of_def)

lemma supply_set_balance:
  assumes "account_codec_ok E" "accounts_ok E s" "acct E s i = Some a"
  shows "total_supply E (save_account E (a\<lparr>balance := v\<rparr>) s) + unat (balance a) = total_supply E s + unat v"
  using supply_save [OF assms(1), of "a\<lparr>balance := v\<rparr>" s] acct_id_acct [OF assms(2,3)] assms(3)
  by (simp add: balance_of_def)

lemma credit_treasury_supply:
  assumes "account_codec_ok E" "accounts_ok E s" "burn_rate_bps fc \<le> 10000"
  shows "total_supply E s \<le> total_supply E (credit_treasury E fc fee s)"
    and "total_supply E (credit_treasury E fc fee s) \<le> total_supply E s + unat fee"
proof -
  have *: "total_supply E (save_account E (t\<lparr>balance := sat_add (balance t) v\<rparr>) s) \<ge> total_supply E s \<and>
      total_supply E (save_account E (t\<lparr>balance := sat_add (balance t) v\<rparr>) s) \<le> total_supply E s + unat v"
    if "acct E s i = Some t" for i t v
    using supply_set_balance [OF assms(1,2) that, of "sat_add (balance t) v"]
      sat_add_ge [of "balance t" v] unat_sat_add_le [of "balance t" v] by (simp add: word_le_nat_alt)
  show "total_supply E s \<le> total_supply E (credit_treasury E fc fee s)"
    "total_supply E (credit_treasury E fc fee s) \<le> total_supply E s + unat fee"
    using * treasury_amount_le [OF assms(3), of fee]
    by (auto simp: credit_treasury_def Let_def load_acct [OF assms(2)] split: option.split
        intro: le_trans [OF conjunct2 [OF *] add_left_mono])
qed

lemma reserve_supply:
  assumes "account_codec_ok E" "accounts_ok E s" "acct E s (sender op) = Some a"
    and "reserve_fee E op s = (reserved, s')"
  shows "total_supply E s' + unat reserved = total_supply E s \<and> accounts_ok E s' \<and>
         acct E s' (sender op) \<noteq> None \<and> (\<forall>k. \<not> is_account_key k \<longrightarrow> sget E s' k = sget E s k)"
proof -
  have le: "reserved \<le> balance a" and s': "s' = save_account E (a\<lparr>balance := balance a - reserved\<rparr>) s"
    using assms(2-) by (auto simp: reserve_fee_def load_acct Let_def)
  have "unat (balance a - reserved) + unat reserved = unat (balance a)"
    using le by (simp add: unat_sub word_le_nat_alt)
  then show ?thesis
    using supply_set_balance [OF assms(1-3), of "balance a - reserved"] acct_id_acct [OF assms(2,3)] assms(1,2)
    by (auto simp: s' ledger_simps sget_save_other is_account_key_def)
qed

lemma settle_supply:
  assumes "account_codec_ok E" "accounts_ok E s" "acct E s (sender op) \<noteq> None"
    and "be_fee_fix_height X \<le> height" "burn_rate_bps (effective_fee_config E X s) \<le> 10000"
    and "total_supply E s + unat reserved < 2 ^ 128"
    and "settle_success E X op height gas reserved evs s = (evs', s')"
  shows "total_supply E s' \<le> total_supply E s + unat reserved \<and>
         total_supply E s + unat reserved \<le> total_supply E s' + unat (max_fee op)"
proof -
  obtain a where a: "acct E s (sender op) = Some a"
    using assms(3) by blast
  define total_fee where "total_fee = min (calculate_fee (effective_fee_config E X s) gas) (max_fee op)"
  define available where "available = sat_add (balance a) reserved"
  define paid where "paid = min total_fee available"
  define t where "t = save_account E (a\<lparr>balance := sat_sub available paid\<rparr>) s"
  have s': "s' = (if 0 < reserved \<or> 0 < total_fee then credit_treasury E (effective_fee_config E X s) paid t else s)"
    using assms(4,7)
    by (auto simp: settle_success_def Let_def load_acct [OF assms(2)] a total_fee_def available_def paid_def t_def
        split: if_splits)
  have le: "paid \<le> available" "paid \<le> max_fee op"
    by (simp_all add: paid_def total_fee_def min.coboundedI1)
  have "unat (balance a) \<le> total_supply E s"
    using balance_le_supply [of E s "sender op"] a by (simp add: balance_of_def)
  then have av: "unat available = unat (balance a) + unat reserved"
    using assms(6) by (simp add: available_def unat_sat_add)
  have "total_supply E t + unat paid = total_supply E s + unat reserved"
    using supply_set_balance [OF assms(1,2) a, of "sat_sub available paid"] le(1) av
    by (simp add: t_def unat_sat_sub word_le_nat_alt)
  moreover have "accounts_ok E t"
    using assms(1,2) by (simp add: t_def ledger_simps)
  ultimately show ?thesis
    using credit_treasury_supply [OF assms(1) _ assms(5), of t paid] le(2)
    by (auto simp: s' word_le_nat_alt word_gt_0)
qed

lemma burn_rate_key: "\<not> is_account_key (ascii ''__config_burn_rate__'')"
  by (simp add: is_account_key_iff ascii_simps)

lemma failed_supply:
  assumes "account_codec_ok E" "accounts_ok E s" "be_fee_fix_height X \<le> height"
    and "execute_operation E X op height s = (r, s')" "\<not> rc_success r"
  shows "total_supply E s' \<le> total_supply E s \<and> total_supply E s \<le> total_supply E s' + unat (max_fee op)"
  using failed_operation_effect [OF assms(1,2,4,5)]
proof (elim conjE disjE exE)
  fix a
  assume a: "acct E s (sender op) = Some a"
    and s': "acct E s' = (acct E s)(sender op \<mapsto>
          a\<lparr>acct_nonce := failure_nonce op a,
            balance := sat_sub (balance a) (failure_fee X op height (rc_gas_used r))\<rparr>)"
  let ?b = "a\<lparr>acct_nonce := failure_nonce op a,
      balance := sat_sub (balance a) (failure_fee X op height (rc_gas_used r))\<rparr>"
  have "acct E s' = acct E (save_account E ?b s)"
    using acct_id_acct [OF assms(2) a] assms(1) by (simp add: s' ledger_simps)
  then have "total_supply E s' + unat (balance a) = total_supply E s + unat (balance ?b)"
    using supply_save [OF assms(1), of ?b s] acct_id_acct [OF assms(2) a] a supply_same
    by (metis (no_types, lifting) account.select_convs(1) account.update_convs(4,5) balance_of_acct account.surjective)
  moreover have "unat (failure_fee X op height (rc_gas_used r)) \<le> unat (max_fee op)"
    using assms(3) by (simp add: failure_fee_def Let_def word_le_nat_alt [symmetric])
  ultimately show ?thesis
    by (simp add: unat_sat_sub) arith
qed simp

lemma validate_supply:
  assumes "account_codec_ok E" "accounts_ok E s" "validate_and_prepare E X op height s = (Inr p, s1)"
  shows "total_supply E s1 = total_supply E s \<and> accounts_ok E s1 \<and> acct E s1 (sender op) \<noteq> None \<and>
         (\<forall>k. \<not> is_account_key k \<longrightarrow> sget E s1 k = sget E s k)"
proof -
  obtain a where a: "acct E s (sender op) = Some a"
    and s1: "s1 = s \<or> s1 = save_account E (a\<lparr>acct_nonce := acct_nonce a + 1\<rparr>) s"
    using validate_system [OF assms(2,3)] validate_Inr [OF assms(2,3)] by blast
  have id: "acct_id a = sender op"
    by (rule acct_id_acct [OF assms(2) a])
  show ?thesis
    using s1 a id assms(1,2) supply_save [OF assms(1), of "a\<lparr>acct_nonce := acct_nonce a + 1\<rparr>" s]
    by (auto simp: ledger_simps sget_save_other is_account_key_def balance_of_def)
qed

lemma commit_charge_supply:
  "(\<And>key v. c = Some (key, v) \<Longrightarrow> \<not> is_account_key key) \<Longrightarrow>
   total_supply E (commit_charge c s) = total_supply E s"
  by (intro supply_same) (auto simp: commit_charge_def acct_put split: option.split)

text \<open>C32: an operation of transfers creates no tokens, and destroys no more than the fee bound its sender
  signed.  With the fee corrections in force and a burn rate of at most 100\%, whatever the outcome
  (rejected, failed, or successful with the fee reserved, settled, split between the treasury and
  burning), the sum of all balances never grows, and it shrinks by at most \<open>max_fee\<close>.\<close>

theorem transfers_conserve_supply:
  assumes "account_codec_ok E" "accounts_ok E s" "total_supply E s < 2 ^ 128"
    and "be_fee_fix_height X \<le> height" "burn_rate_bps (effective_fee_config E X s) \<le> 10000"
    and "list_all is_transfer (actions op)"
    and "execute_operation E X op height s = (r, s')"
  shows "total_supply E s' \<le> total_supply E s \<and> total_supply E s \<le> total_supply E s' + unat (max_fee op)"
proof (cases "rc_success r")
  case True
  with assms(7) show ?thesis
  proof (cases rule: success_cases)
    case (1 p s1 reserved s2 gas evs s3 evs1 s4)
    note v = validate_supply [OF assms(1,2) 1(1)]
    then obtain a where a: "acct E s1 (sender op) = Some a" "accounts_ok E s1"
      by blast
    note r = reserve_supply [OF assms(1) a(2,1) 1(2)]
    have "total_supply E s2 < 2 ^ 128"
      using v r assms(3) by linarith
    note t = run_transfers [OF assms(1,6) _ this 1(3), of "sender op"]
    have "sget E s3 (ascii ''__config_burn_rate__'') = sget E s (ascii ''__config_burn_rate__'')"
      using v r t burn_rate_key by simp
    then have "burn_rate_bps (effective_fee_config E X s3) \<le> 10000"
      using assms(5) by (simp add: effective_fee_config_def)
    then have "total_supply E s4 \<le> total_supply E s3 + unat reserved \<and>
        total_supply E s3 + unat reserved \<le> total_supply E s4 + unat (max_fee op)"
      using settle_supply [OF assms(1) _ _ assms(4) _ _ 1(4)] v r t assms(3) by simp
    moreover have "total_supply E s' = total_supply E s4"
      unfolding 1(5) using validate_charge [OF assms(2) 1(1)] by (rule commit_charge_supply)
    ultimately show ?thesis
      using v r t by linarith
  qed
qed (rule failed_supply [OF assms(1,2,4,7)])

lemma sample_burn_rate: "burn_rate_bps (effective_fee_config sample_exec new_block_executor sample_bank) = 5000"
proof -
  have "ov_get mem_new sample_bank (ascii ''__config_burn_rate__'') = None"
    using burn_rate_key by (simp add: sample_bank_def ov_get_save_account)
  then show ?thesis
    by (simp add: effective_fee_config_def new_block_executor_def default_fee_config_def)
qed

theorem transfers_conserve_supply_witness:
  "\<exists>r s'. execute_operation sample_exec new_block_executor (sample_pay 30) (- 1) sample_bank = (r, s') \<and>
     rc_success r \<and> total_supply sample_exec s' \<le> 100 \<and> 50 \<le> total_supply sample_exec s'"
proof -
  obtain r s' where e: "execute_operation sample_exec new_block_executor (sample_pay 30) (- 1) sample_bank = (r, s')"
    by (cases "execute_operation sample_exec new_block_executor (sample_pay 30) (- 1) sample_bank")
  have "total_supply sample_exec s' \<le> 100 \<and> 100 \<le> total_supply sample_exec s' + 50"
    using transfers_conserve_supply [OF _ _ _ _ _ _ e]
    by (simp add: sample_burn_rate)
  then show ?thesis
    using e sample_pay_succeeds [OF e] by auto
qed

end
