(* ===== verification/Epoch_Rewards.thy ===== *)
theory Epoch_Rewards
  imports Block_Ops
begin

text \<open>
  The rewards paid from the staking pool at the end of an epoch:
  \<open>distribute_epoch_rewards_in_executor\<close> and \<open>credit_account_raw\<close> of
  \<open>crates/solen-execution/src/executor.rs\<close>.  The pool pays the epoch's reward, each eligible validator
  gets its share by stake and passes on its eligible delegators' part less its commission.  Proved here:
  rounding and saturation only ever lose tokens, and never more than the reward taken from the pool.
\<close>

section \<open>Definitions\<close>

definition credit_account_raw ::
    "'a ledger_env_scheme \<Rightarrow> account_id \<Rightarrow> u128 \<Rightarrow> overlay_store \<Rightarrow> overlay_store" where
  "credit_account_raw E i amount s =
     (case sget E s (account_key i) of
        None \<Rightarrow> s
      | Some data \<Rightarrow>
          (case dec_account E data of
             Inl _ \<Rightarrow> s
           | Inr a \<Rightarrow>
               ov_put (account_key i) (enc_account E (a\<lparr>balance := sat_add (balance a) amount\<rparr>)) s))"

definition reward_event :: "string \<Rightarrow> account_id \<Rightarrow> u128 \<Rightarrow> event" where
  "reward_event name who amount =
     \<lparr>emitter = STAKING_POOL_ADDRESS, topic = ascii name, ev_data = id_bytes who @ le_bytes 16 amount\<rparr>"

fun pay_delegators ::
    "'a ledger_env_scheme \<Rightarrow> u128 \<Rightarrow> u128 \<Rightarrow> delegation list \<Rightarrow> event list \<Rightarrow> overlay_store
     \<Rightarrow> event list \<times> overlay_store" where
  "pay_delegators E delegator_net eligible_delegated [] evs s = (evs, s)"
| "pay_delegators E delegator_net eligible_delegated (d # ds) evs s =
     (let del_share = sat_mul delegator_net (del_amount d) div eligible_delegated in
      if del_share = 0 then pay_delegators E delegator_net eligible_delegated ds evs s
      else pay_delegators E delegator_net eligible_delegated ds
             (evs @ [reward_event ''delegator_reward'' (delegator d) del_share])
             (credit_account_raw E (delegator d) del_share s))"

definition pay_validator ::
    "'a ledger_env_scheme \<Rightarrow> delegation list \<Rightarrow> u128 \<Rightarrow> staking_validator \<Rightarrow> event list \<Rightarrow> overlay_store
     \<Rightarrow> event list \<times> overlay_store" where
  "pay_validator E ds validator_share v evs s =
     (let eligible_delegated = sum_list (map del_amount ds);
          delegator_pool = (if 0 < eligible_delegated
            then sat_mul validator_share eligible_delegated div total_stake v else 0);
          commission = sat_mul delegator_pool (ucast (commission_rate_bps v)) div 10000;
          delegator_net = sat_sub delegator_pool commission;
          validator_reward = sat_sub validator_share delegator_pool + commission;
          s1 = credit_account_raw E (sv_id v) validator_reward s;
          evs1 = evs @ [reward_event ''epoch_reward'' (sv_id v) validator_reward]
      in if 0 < delegator_net \<and> 0 < eligible_delegated
         then pay_delegators E delegator_net eligible_delegated ds evs1 s1
         else (evs1, s1))"

fun pay_validators ::
    "'a ledger_env_scheme \<Rightarrow> staking_contract \<Rightarrow> u64 \<Rightarrow> u128 \<Rightarrow> u128 \<Rightarrow> staking_validator list \<Rightarrow> event list
     \<Rightarrow> overlay_store \<Rightarrow> event list \<times> overlay_store" where
  "pay_validators E st epoch actual_reward stake_total [] evs s = (evs, s)"
| "pay_validators E st epoch actual_reward stake_total (v # vs) evs s =
     (let validator_share = sat_mul actual_reward (total_stake v) div stake_total in
      if total_stake v = 0 \<or> validator_share = 0
      then pay_validators E st epoch actual_reward stake_total vs evs s
      else (case pay_validator E (eligible_delegations_for_validator st (sv_id v) epoch) validator_share v
                   evs s of
              (evs1, s1) \<Rightarrow> pay_validators E st epoch actual_reward stake_total vs evs1 s1))"

definition reward_per_epoch :: "'a ledger_env_scheme \<Rightarrow> overlay_store \<Rightarrow> u128" where
  "reward_per_epoch E s =
     (case sget E s (ascii ''__config_epoch_reward__'') of
        Some data \<Rightarrow> if 16 \<le> length data then of_le_bytes (take 16 data) else 31700000000
      | None \<Rightarrow> 31700000000)"

definition pool_balance :: "'a ledger_env_scheme \<Rightarrow> overlay_store \<Rightarrow> u128" where
  "pool_balance E s =
     (case sget E s (account_key STAKING_POOL_ADDRESS) of
        Some data \<Rightarrow> (case dec_account E data of Inr a \<Rightarrow> balance a | Inl _ \<Rightarrow> 0)
      | None \<Rightarrow> 0)"

definition deduct_pool :: "'a ledger_env_scheme \<Rightarrow> u128 \<Rightarrow> overlay_store \<Rightarrow> overlay_store" where
  "deduct_pool E actual_reward s =
     (case sget E s (account_key STAKING_POOL_ADDRESS) of
        None \<Rightarrow> s
      | Some data \<Rightarrow>
          (case dec_account E data of
             Inl _ \<Rightarrow> s
           | Inr a \<Rightarrow> ov_put (account_key STAKING_POOL_ADDRESS)
                        (enc_account E (a\<lparr>balance := sat_sub (balance a) actual_reward\<rparr>)) s))"

definition distribute_epoch_rewards ::
    "'a sys_env_scheme \<Rightarrow> u64 \<Rightarrow> overlay_store \<Rightarrow> execution_receipt list \<times> overlay_store" where
  "distribute_epoch_rewards E height s =
     (let current_epoch = height div 100;
          st = staking_load E s;
          active = eligible_validators st current_epoch;
          stake_total = sum_list (map total_stake active) in
      if stake_total = 0 \<or> active = [] \<or> pool_balance E s = 0 then ([], s)
      else let actual_reward = min (reward_per_epoch E s) (pool_balance E s);
               (evs, s1) = pay_validators E st current_epoch actual_reward stake_total active []
                             (deduct_pool E actual_reward s)
           in (if evs = [] then []
               else [\<lparr>rc_sender = STAKING_POOL_ADDRESS, rc_nonce = 0, rc_success = True, rc_gas_used = 0,
                      rc_error = None, rc_events = evs, rc_auth_method = ''system''\<rparr>], s1))"

section \<open>Rewards create no tokens\<close>

lemma div_shares:
  assumes "sum_list (map f xs) \<le> (d :: nat)"
  shows "sum_list (map (\<lambda>x. n * f x div d) xs) \<le> n"
proof (cases "d = 0")
  case False
  have "sum_list (map (\<lambda>x. n * f x div d) xs) * d \<le> n * sum_list (map f xs)"
  proof (induction xs)
    case (Cons x xs)
    then have "n * f x div d * d + sum_list (map (\<lambda>x. n * f x div d) xs) * d \<le> n * f x + n * sum_list (map f xs)"
      by (intro add_mono div_times_less_eq_dividend)
    then show ?case
      by (simp add: distrib_right distrib_left)
  qed simp
  also have "\<dots> \<le> n * d"
    using assms by simp
  finally show ?thesis
    using False by simp
qed (induction xs; simp)

lemma unat_share: "unat (sat_mul a b div c) \<le> unat a * unat b div unat c" for a b c :: u128
  unfolding unat_div unat_sat_mul by (rule div_le_mono) (rule min.cobounded1)

text \<open>What the payments may do to the accounts: add at most a given number of tokens.\<close>

definition adds :: "'a ledger_env_scheme \<Rightarrow> nat \<Rightarrow> overlay_store \<Rightarrow> overlay_store \<Rightarrow> bool" where
  "adds E n s s' \<longleftrightarrow> accounts_ok E s' \<and> total_supply E s \<le> total_supply E s' \<and>
     total_supply E s' \<le> total_supply E s + n"

lemma adds_refl: "accounts_ok E s \<Longrightarrow> adds E n s s"
  by (simp add: adds_def)

lemma adds_trans: "adds E m s s1 \<Longrightarrow> adds E n s1 s2 \<Longrightarrow> m + n \<le> k \<Longrightarrow> adds E k s s2"
  by (auto simp: adds_def)

lemma adds_ok: "adds E n s s' \<Longrightarrow> accounts_ok E s'"
  by (simp add: adds_def)

lemma raw_account:
  assumes "accounts_ok E s" "sget E s (account_key i) = Some data"
  obtains a where "dec_account E data = Inr a" "acct E s i = Some a" "acct_id a = i"
proof -
  have "load_account E s i = Inr (acct E s i)"
    by (rule load_acct [OF assms(1)])
  then obtain a where "dec_account E data = Inr a" "acct E s i = Some a"
    using assms(2) by (auto simp: load_account_def split: sum.splits)
  then show thesis
    using that acct_id_acct [OF assms(1)] by blast
qed

lemma adds_credit:
  assumes "account_codec_ok E" "accounts_ok E s"
  shows "adds E (unat amount) s (credit_account_raw E i amount s)"
proof (cases "sget E s (account_key i)")
  case (Some data)
  obtain a where a: "dec_account E data = Inr a" "acct E s i = Some a" "acct_id a = i"
    by (rule raw_account [OF assms(2) Some])
  define s' where "s' = save_account E (a\<lparr>balance := sat_add (balance a) amount\<rparr>) s"
  have "credit_account_raw E i amount s = s'"
    by (simp add: credit_account_raw_def save_account_def Some a s'_def)
  moreover have "accounts_ok E s'"
    using assms by (simp add: s'_def ledger_simps)
  moreover have "unat (balance a) \<le> unat (sat_add (balance a) amount)"
    unfolding word_le_nat_alt [symmetric] by (rule sat_add_ge)
  ultimately show ?thesis
    using supply_set_balance [OF assms a(2), of "sat_add (balance a) amount"]
      unat_sat_add_le [of "balance a" amount] unfolding adds_def s'_def [symmetric] by simp
qed (simp add: credit_account_raw_def adds_refl assms(2))

lemma adds_delegators:
  assumes "account_codec_ok E" "accounts_ok E s"
    and "pay_delegators E net elig ds evs s = (evs', s')"
  shows "adds E (sum_list (map (\<lambda>d. unat net * unat (del_amount d) div unat elig) ds)) s s'"
  using assms(2,3)
proof (induction ds arbitrary: evs s)
  case (Cons d ds)
  define share where "share = sat_mul net (del_amount d) div elig"
  define s1 where "s1 = (if share = 0 then s else credit_account_raw E (delegator d) share s)"
  have 1: "adds E (unat share) s s1"
    using adds_credit [OF assms(1) Cons.prems(1)] Cons.prems(1) by (simp add: s1_def adds_refl)
  obtain evs1 where "pay_delegators E net elig ds evs1 s1 = (evs', s')"
    using Cons.prems(2) by (auto simp: Let_def share_def s1_def split: if_splits)
  then have "adds E (sum_list (map (\<lambda>d. unat net * unat (del_amount d) div unat elig) ds)) s1 s'"
    by (rule Cons.IH [OF adds_ok [OF 1]])
  then show ?case
    using add_right_mono [OF unat_share [of net "del_amount d" elig]]
    by (intro adds_trans [OF 1]) (simp_all only: share_def list.map sum_list.Cons)
qed (simp add: adds_refl)

lemma share_le:
  fixes a b c :: u128
  assumes "unat b \<le> unat c"
  shows "unat (sat_mul a b div c) \<le> unat a"
  using unat_share [of a b c] div_shares [of unat "[b]" "unat c" "unat a"] assms by simp

lemma adds_validator:
  assumes "account_codec_ok E" "accounts_ok E s" "commission_rate_bps v \<le> 10000"
    and "sum_list (map (unat \<circ> del_amount) ds) \<le> unat (total_stake v)"
    and "pay_validator E ds share v evs s = (evs', s')"
  shows "adds E (unat share) s s'"
proof -
  define elig where "elig = sum_list (map del_amount ds)"
  define pool where "pool = (if 0 < elig then sat_mul share elig div total_stake v else 0)"
  define comm where "comm = sat_mul pool (ucast (commission_rate_bps v)) div 10000"
  define net where "net = sat_sub pool comm"
  define s1 where "s1 = credit_account_raw E (sv_id v) (sat_sub share pool + comm) s"
  have elig: "unat elig = sum_list (map (unat \<circ> del_amount) ds)"
    unfolding elig_def using le_less_trans [OF assms(4) unsigned_less]
    by (subst unat_sum_list_exact) (simp_all add: comp_def)
  have pool: "unat pool \<le> unat share"
    using share_le [of elig "total_stake v" share] elig assms(4) by (simp add: pool_def)
  have comm: "unat comm \<le> unat pool"
    unfolding comm_def using assms(3) by (intro share_le) (simp add: word_le_nat_alt)
  have "unat (sat_sub share pool + comm) = unat share - unat pool + unat comm"
    using pool comm unsigned_less [of share, where ?'a = nat] by (subst unat_add_exact) (simp_all add: unat_sat_sub)
  then have 1: "adds E (unat share - unat pool + unat comm) s s1"
    using adds_credit [OF assms(1,2)] unfolding s1_def by metis
  have "adds E (unat net) s1 s'"
  proof (cases "0 < net \<and> 0 < elig")
    case True
    then obtain evs1 where "pay_delegators E net elig ds evs1 s1 = (evs', s')"
      using assms(5) unfolding pay_validator_def Let_def elig_def [symmetric] pool_def [symmetric]
        comm_def [symmetric] net_def [symmetric] s1_def [symmetric] by auto
    then have "adds E (sum_list (map (\<lambda>d. unat net * unat (del_amount d) div unat elig) ds)) s1 s'"
      by (rule adds_delegators [OF assms(1) adds_ok [OF 1]])
    moreover have "sum_list (map (\<lambda>d. unat net * unat (del_amount d) div unat elig) ds) \<le> unat net"
      using elig by (intro div_shares) (simp add: comp_def)
    ultimately show ?thesis
      by (auto simp: adds_def)
  next
    case False
    then have "s' = s1"
      using assms(5) unfolding pay_validator_def Let_def elig_def [symmetric] pool_def [symmetric]
        comm_def [symmetric] net_def [symmetric] s1_def [symmetric] by auto
    then show ?thesis
      using adds_refl [OF adds_ok [OF 1]] by simp
  qed
  then show ?thesis
    using pool comm by (intro adds_trans [OF 1]) (auto simp: net_def unat_sat_sub)
qed

text \<open>What the contract's records must satisfy: the totals of \<open>delegated_totals_exact\<close>.\<close>

definition stakes_sound :: "staking_contract \<Rightarrow> bool" where
  "stakes_sound st \<longleftrightarrow> distinct (ids st) \<and> totals_ok st \<and> held st < 2 ^ 128 \<and>
     (\<forall>v \<in> set (validators st). commission_rate_bps v \<le> 10000)"

lemma eligible_le_delegated:
  assumes "stakes_sound st" "v \<in> set (validators st)"
  shows "sum_list (map (unat \<circ> del_amount) (eligible_delegations_for_validator st (sv_id v) epoch))
           \<le> unat (total_stake v)"
proof -
  let ?D = "filter (\<lambda>d. del_validator d = sv_id v) (delegations st)"
  have "filter (\<lambda>d. del_eligible_from d \<le> epoch) ?D = eligible_delegations_for_validator st (sv_id v) epoch"
    by (auto simp: eligible_delegations_for_validator_def intro: filter_cong)
  then have "sum_list (map (unat \<circ> del_amount) (eligible_delegations_for_validator st (sv_id v) epoch))
      \<le> delegated_to (delegations st) (sv_id v)"
    using sum_list_filter_partition [of "unat \<circ> del_amount" "\<lambda>d. del_eligible_from d \<le> epoch" ?D]
    by (simp add: delegated_to_def)
  then show ?thesis
    using unat_total_stake [of st v] assms by (simp add: stakes_sound_def ids_def)
qed

lemma adds_validators:
  assumes "account_codec_ok E" "stakes_sound st" "accounts_ok E s" "set vs \<subseteq> set (validators st)"
    and "pay_validators E st epoch reward stakes vs evs s = (evs', s')"
  shows "adds E (sum_list (map (\<lambda>v. unat reward * unat (total_stake v) div unat stakes) vs)) s s'"
  using assms(3-)
proof (induction vs arbitrary: evs s)
  case (Cons v vs)
  define share where "share = sat_mul reward (total_stake v) div stakes"
  have v: "v \<in> set (validators st)" "commission_rate_bps v \<le> 10000" "set vs \<subseteq> set (validators st)"
    using Cons.prems(2) assms(2) by (auto simp: stakes_sound_def)
  obtain evs1 s1 where 1: "adds E (unat share) s s1"
    and rest: "pay_validators E st epoch reward stakes vs evs1 s1 = (evs', s')"
  proof (cases "total_stake v = 0 \<or> share = 0")
    case True
    then show thesis
      using that [of s evs] Cons.prems(1,3) by (auto simp: Let_def share_def adds_refl)
  next
    case False
    obtain evs1 s1 where "pay_validator E (eligible_delegations_for_validator st (sv_id v) epoch) share v evs s =
        (evs1, s1)"
      by (metis surj_pair)
    moreover from this have "adds E (unat share) s s1"
      by (rule adds_validator [OF assms(1) Cons.prems(1) v(2) eligible_le_delegated [OF assms(2) v(1)]])
    ultimately show thesis
      using that [of s1 evs1] Cons.prems(3) False by (simp add: Let_def share_def)
  qed
  show ?case
    using add_right_mono [OF unat_share [of reward "total_stake v" stakes]]
      Cons.IH [OF adds_ok [OF 1] v(3) rest]
    by (intro adds_trans [OF 1]) (simp_all only: share_def list.map sum_list.Cons)
qed (simp add: adds_refl)

lemma eligible_shares:
  assumes "stakes_sound st"
  shows "sum_list (map (\<lambda>v. n * unat (total_stake v) div
    unat (sum_list (map total_stake (eligible_validators st epoch)))) (eligible_validators st epoch)) \<le> n"
  using filtered_total(1) [of st "\<lambda>v. is_active v \<and> sv_eligible_from v \<le> epoch"] assms
  by (intro div_shares) (simp add: eligible_validators_def stakes_sound_def ids_def comp_def)

lemma deduct_pool_supply:
  assumes "account_codec_ok E" "accounts_ok E s" "amount \<le> pool_balance E s" "pool_balance E s \<noteq> 0"
  shows "accounts_ok E (deduct_pool E amount s)"
    and "total_supply E (deduct_pool E amount s) + unat amount = total_supply E s"
proof -
  obtain data where d: "sget E s (account_key STAKING_POOL_ADDRESS) = Some data"
    using assms(4) by (auto simp: pool_balance_def split: option.splits)
  obtain a where a: "dec_account E data = Inr a" "acct E s STAKING_POOL_ADDRESS = Some a"
    "acct_id a = STAKING_POOL_ADDRESS"
    by (rule raw_account [OF assms(2) d])
  define s' where "s' = save_account E (a\<lparr>balance := sat_sub (balance a) amount\<rparr>) s"
  have s': "deduct_pool E amount s = s'"
    by (simp add: deduct_pool_def save_account_def d a s'_def)
  have le: "unat amount \<le> unat (balance a)"
    using assms(3) by (simp add: pool_balance_def d a word_le_nat_alt)
  show "accounts_ok E (deduct_pool E amount s)"
    unfolding s' using assms(1,2) by (simp add: s'_def ledger_simps)
  show "total_supply E (deduct_pool E amount s) + unat amount = total_supply E s"
    using supply_set_balance [OF assms(1,2) a(2), of "sat_sub (balance a) amount"] le
    unfolding s' s'_def [symmetric] unat_sat_sub by linarith
qed

text \<open>C34: epoch rewards create no tokens.  With sound stake records (distinct validators, exact delegated
  totals that fit the counter, commissions of at most 100\%), what validators and delegators are
  credited with at the end of an epoch is covered by what the pool was debited with: rounding and
  saturation only lose tokens, and never more than the epoch's reward.  Every account record
  stays well formed.\<close>

theorem epoch_rewards_never_mint:
  assumes "account_codec_ok E" "accounts_ok E s" "stakes_sound (staking_load E s)"
    and "distribute_epoch_rewards E height s = (rs, s')"
  shows "accounts_ok E s' \<and> total_supply E s' \<le> total_supply E s \<and>
         total_supply E s \<le> total_supply E s' + unat (min (reward_per_epoch E s) (pool_balance E s))"
proof -
  define st where "st = staking_load E s"
  define vs where "vs = eligible_validators st (height div 100)"
  define reward where "reward = min (reward_per_epoch E s) (pool_balance E s)"
  define s1 where "s1 = deduct_pool E reward s"
  show ?thesis
  proof (cases "sum_list (map total_stake vs) = 0 \<or> vs = [] \<or> pool_balance E s = 0")
    case True
    then have "s' = s"
      using assms(4) by (auto simp: distribute_epoch_rewards_def Let_def st_def vs_def)
    then show ?thesis
      using assms(2) by simp
  next
    case False
    then obtain evs where pay: "pay_validators E st (height div 100) reward (sum_list (map total_stake vs)) vs [] s1 =
        (evs, s')"
      using assms(4)
      unfolding distribute_epoch_rewards_def Let_def st_def [symmetric] vs_def [symmetric] reward_def [symmetric]
        s1_def [symmetric] by (auto split: prod.splits)
    have s1: "accounts_ok E s1" "total_supply E s1 + unat reward = total_supply E s"
      unfolding s1_def using False by (intro deduct_pool_supply [OF assms(1,2)]; simp add: reward_def)+
    have "set vs \<subseteq> set (validators st)"
      by (auto simp: vs_def eligible_validators_def)
    then have "adds E (sum_list (map (\<lambda>v. unat reward * unat (total_stake v) div
        unat (sum_list (map total_stake vs))) vs)) s1 s'"
      using assms(3) by (intro adds_validators [OF assms(1) _ s1(1) _ pay]) (simp_all add: st_def)
    moreover have "sum_list (map (\<lambda>v. unat reward * unat (total_stake v) div
        unat (sum_list (map total_stake vs))) vs) \<le> unat reward"
      unfolding vs_def using assms(3) by (intro eligible_shares) (simp add: st_def)
    ultimately show ?thesis
      using s1(2) unfolding reward_def [symmetric] adds_def by linarith
  qed
qed

definition sample_epoch :: overlay_store where
  "sample_epoch = staking_save sample_exec (Staking.sample_staking 40 [sample_delegation] [])
     (with_accounts sample_exec
        [sample_account STAKING_POOL_ADDRESS 1000, sample_account 1 0, sample_account 9 0] ov_new)"

lemma pool_address:
  "STAKING_POOL_ADDRESS \<noteq> 1" "STAKING_POOL_ADDRESS \<noteq> 9" "1 \<noteq> STAKING_POOL_ADDRESS" "9 \<noteq> STAKING_POOL_ADDRESS"
  using system_contract_head [OF is_system_contract_addr [of "0x10"]] by (auto simp: STAKING_POOL_ADDRESS_def)

lemma sample_epoch:
  "accounts_ok sample_exec sample_epoch" "total_supply sample_exec sample_epoch = 1000"
  "staking_load sample_exec sample_epoch = Staking.sample_staking 40 [sample_delegation] []"
proof -
  define s where "s = with_accounts sample_exec
    [sample_account STAKING_POOL_ADDRESS 1000, sample_account 1 0, sample_account 9 0] ov_new"
  have acct: "acct sample_exec sample_epoch = acct sample_exec s"
    unfolding sample_epoch_def s_def [symmetric] by (simp add: staking_save_def json_save_def ledger_simps)
  have "accounts_ok sample_exec s"
    by (simp add: s_def ledger_simps accounts_ok_empty)
  then show "accounts_ok sample_exec sample_epoch"
    unfolding sample_epoch_def s_def [symmetric] by (simp add: staking_save_def json_save_def ledger_simps)
  have "total_supply sample_exec s = 1000"
    by (simp add: s_def supply_new_account ledger_simps acct_empty supply_empty
        pool_address)
  then show "total_supply sample_exec sample_epoch = 1000"
    using supply_same [OF acct] by simp
  show "staking_load sample_exec sample_epoch = Staking.sample_staking 40 [sample_delegation] []"
    by (simp add: sample_epoch_def staking_load_def staking_save_def ledger_simps sample_exec_def)
qed

lemma sample_stakes_sound: "stakes_sound (Staking.sample_staking 40 [sample_delegation] [])"
  by (simp add: stakes_sound_def ids_def totals_ok_def held_def delegated_to_def Staking.sample_staking_defs
      DEFAULT_COMMISSION_BPS_def)

theorem epoch_rewards_never_mint_witness:
  "\<exists>rs s'. distribute_epoch_rewards sample_exec 200 sample_epoch = (rs, s') \<and>
     total_supply sample_exec s' \<le> 1000"
proof -
  obtain rs s' where d: "distribute_epoch_rewards sample_exec 200 sample_epoch = (rs, s')"
    by (metis surj_pair)
  then show ?thesis
    using epoch_rewards_never_mint [OF _ _ _ d] sample_stakes_sound by (auto simp: sample_epoch)
qed

end
