(* ===== verification/Block_Commit.thy ===== *)
theory Block_Commit
  imports Epoch_Rewards
begin

text \<open>
  How a block reaches the store: \<open>stage_block\<close> and the four ways
  \<open>crates/solen-execution/src/executor.rs\<close> commits what it staged, with the record that undoes the
  commit, and the accumulator of \<open>crates/solen-system-contracts/src/epoch_randomness.rs\<close>.  The
  executor's environment holds the store a block is staged on; here it is set to the store the
  function is given.  Proved here: a block either reaches the store with the root its proposer
  claimed or leaves no trace, and the undo record restores the store.
\<close>

section \<open>Epoch randomness\<close>

record epoch_randomness =
  er_acc :: hash
  er_seed :: hash

definition default_randomness :: epoch_randomness where
  "default_randomness = \<lparr>er_acc = 0, er_seed = 0\<rparr>"

record node_env = exec_env +
  randomness_json :: "epoch_randomness json_codec"

definition RANDOMNESS_KEY :: bytes where
  "RANDOMNESS_KEY = ascii ''__sys_epoch_randomness__''"

definition randomness_load :: "'a node_env_scheme \<Rightarrow> overlay_store \<Rightarrow> epoch_randomness" where
  "randomness_load E s = json_load E (randomness_json E) RANDOMNESS_KEY default_randomness s"

definition randomness_save :: "'a node_env_scheme \<Rightarrow> epoch_randomness \<Rightarrow> overlay_store \<Rightarrow> overlay_store" where
  "randomness_save E r s = json_save (randomness_json E) RANDOMNESS_KEY r s"

definition mix_block :: "(bytes \<Rightarrow> hash) \<Rightarrow> hash \<Rightarrow> u64 \<Rightarrow> epoch_randomness \<Rightarrow> epoch_randomness" where
  "mix_block blake3 contribution height r =
     (let acc = blake3 (id_bytes (er_acc r) @ id_bytes contribution @ le_bytes 8 height) in
      if 0 < height \<and> height mod 100 = 0
      then \<lparr>er_acc = blake3 (id_bytes acc), er_seed = blake3 (id_bytes acc)\<rparr>
      else r\<lparr>er_acc := acc\<rparr>)"

section \<open>Staging and committing\<close>

type_synonym block_revert = change_set

definition stage_block ::
    "'a node_env_scheme \<Rightarrow> block_executor \<Rightarrow> memory_store \<Rightarrow> user_operation list \<Rightarrow> u64
     \<Rightarrow> block_result \<times> change_set" where
  "stage_block E0 X m ops height =
     (let E = E0\<lparr>env_base := m\<rparr>;
          (r, s) = (if 200 \<le> length ops then execute_block_parallel E X ops height ov_new
                    else execute_block_sequential E X ops height ov_new);
          (rewards, s1) = (if 0 < height \<and> height mod 100 = 0 then distribute_epoch_rewards E height s
                           else ([], s));
          s2 = (if be_epoch_randomness_height X \<le> height
                then randomness_save E
                  (mix_block (env_blake3 E) (mem_state_root (env_blake3 E) m) height (randomness_load E s1)) s1
                else s1)
      in (r\<lparr>br_receipts := br_receipts r @ rewards\<rparr>, into_changes s2))"

definition apply_changes :: "'a ledger_env_scheme \<Rightarrow> change_set \<Rightarrow> memory_store \<Rightarrow> memory_store" where
  "apply_changes E changes m = apply_batch_atomic (mem_put (env_blake3 E)) mem_delete changes m"

definition capture_revert :: "change_set \<Rightarrow> memory_store \<Rightarrow> block_revert" where
  "capture_revert changes m = map (\<lambda>(k, _). (k, mem_get m k)) changes"

definition execute_block_with_height ::
    "'a node_env_scheme \<Rightarrow> block_executor \<Rightarrow> user_operation list \<Rightarrow> u64 \<Rightarrow> memory_store
     \<Rightarrow> block_result \<times> memory_store" where
  "execute_block_with_height E X ops height m =
     (let (r, changes) = stage_block E X m ops height;
          m1 = apply_changes E changes m
      in (r\<lparr>br_state_root := mem_state_root (env_blake3 E) m1\<rparr>, mem_commit_root (env_blake3 E) m1))"

definition execute_block ::
    "'a node_env_scheme \<Rightarrow> block_executor \<Rightarrow> user_operation list \<Rightarrow> memory_store
     \<Rightarrow> block_result \<times> memory_store" where
  "execute_block E X ops m = execute_block_with_height E X ops 0 m"

definition commit_capturing_revert ::
    "'a ledger_env_scheme \<Rightarrow> change_set \<Rightarrow> memory_store \<Rightarrow> block_revert \<times> memory_store" where
  "commit_capturing_revert E changes m = (capture_revert changes m, apply_changes E changes m)"

definition execute_block_journaled ::
    "'a node_env_scheme \<Rightarrow> block_executor \<Rightarrow> user_operation list \<Rightarrow> u64 \<Rightarrow> memory_store
     \<Rightarrow> (block_result \<times> block_revert) \<times> memory_store" where
  "execute_block_journaled E X ops height m =
     (let (r, changes) = stage_block E X m ops height;
          (revert, m1) = commit_capturing_revert E changes m
      in ((r\<lparr>br_state_root := mem_state_root (env_blake3 E) m1\<rparr>, revert), mem_commit_root (env_blake3 E) m1))"

definition execute_block_journaled_durable ::
    "'a node_env_scheme \<Rightarrow> block_executor \<Rightarrow> user_operation list \<Rightarrow> u64 \<Rightarrow> memory_store
     \<Rightarrow> (block_result \<times> block_revert) \<times> memory_store" where
  "execute_block_journaled_durable E X ops height m =
     (let (r, changes) = stage_block E X m ops height;
          rk = eager_revert_key height;
          revert = AList.update rk None (capture_revert changes m);
          encoded = enc_revert E (sort_key fst revert);
          m1 = apply_changes E (AList.update rk (Some encoded) changes) m
      in ((r\<lparr>br_state_root := mem_state_root (env_blake3 E) m1\<rparr>, revert), mem_commit_root (env_blake3 E) m1))"

definition decode_eager_revert :: "'a exec_env_scheme \<Rightarrow> bytes \<Rightarrow> block_revert option" where
  "decode_eager_revert E bytes =
     map_option (\<lambda>pairs. fold (\<lambda>(k, v) m. AList.update k v m) pairs []) (dec_revert E bytes)"

definition execute_block_checked ::
    "'a node_env_scheme \<Rightarrow> block_executor \<Rightarrow> user_operation list \<Rightarrow> u64 \<Rightarrow> hash \<Rightarrow> memory_store
     \<Rightarrow> (block_result \<times> block_revert) option \<times> memory_store" where
  "execute_block_checked E X ops height expected_root m =
     (let (r, changes) = stage_block E X m ops height;
          (revert, m1) = commit_capturing_revert E changes m;
          r1 = r\<lparr>br_state_root := mem_state_root (env_blake3 E) m1\<rparr> in
      if br_state_root r1 = expected_root then (Some (r1, revert), mem_commit_root (env_blake3 E) m1)
      else (None, mem_commit_root (env_blake3 E) (apply_changes E revert m1)))"

section \<open>Commits and their undo records\<close>

lemma mem_inv_batch: "mem_inv blake3 m \<Longrightarrow> mem_inv blake3 (apply_batch_atomic (mem_put blake3) mem_delete cs m)"
  unfolding apply_batch_atomic_def
  by (induction cs arbitrary: m) (auto simp: mem_inv_put mem_inv_delete split: option.split)

lemma mem_inv_apply: "mem_inv (env_blake3 E) m \<Longrightarrow> mem_inv (env_blake3 E) (apply_changes E cs m)"
  by (simp add: apply_changes_def mem_inv_batch)

lemma distinct_stage: "stage_block E X m ops height = (r, changes) \<Longrightarrow> distinct (map fst changes)"
  by (auto simp: stage_block_def Let_def split: prod.splits)

lemma keys_capture: "map fst (capture_revert cs m) = map fst cs"
  by (simp add: capture_revert_def split_def comp_def)

lemma capture_values: "(k, v) \<in> set (capture_revert cs m) \<Longrightarrow> v = mem_get m k"
  by (auto simp: capture_revert_def)

lemma get_apply:
  "distinct (map fst cs) \<Longrightarrow>
   mem_get (apply_changes E cs m) k = (case map_of cs k of None \<Rightarrow> mem_get m k | Some v \<Rightarrow> v)"
  unfolding apply_changes_def by (rule mem.get_batch)

lemma revert_restores:
  assumes "distinct (map fst cs)"
  shows "mem_get (apply_changes E (capture_revert cs m) (apply_changes E cs m)) = mem_get m"
  unfolding apply_changes_def
proof (rule mem.batch_reverted [OF assms])
  show "distinct (map fst (capture_revert cs m))"
    using assms by (simp add: keys_capture)
  show "fst ` set cs \<subseteq> fst ` set (capture_revert cs m)"
    by (metis keys_capture list.set_map order_refl)
qed (rule capture_values)

lemma root_commit [simp]:
  "mem_inv blake3 m \<Longrightarrow> mem_state_root blake3 (mem_commit_root blake3 m) = mem_state_root blake3 m"
  by (intro mem_state_root_determined mem_inv_commit_root) simp_all

lemma root_of_contents:
  "mem_inv blake3 m \<Longrightarrow> mem_inv blake3 m' \<Longrightarrow> mem_get m = mem_get m' \<Longrightarrow>
   mem_state_root blake3 m = mem_state_root blake3 m'"
  by (rule mem_state_root_determined) simp_all

lemma checked_block:
  assumes "mem_inv (env_blake3 E) m" "execute_block_checked E X ops height expected_root m = (res, m')"
  shows "mem_inv (env_blake3 E) m' \<and>
    (case res of
       Some (r, revert) \<Rightarrow>
         mem_state_root (env_blake3 E) m' = expected_root \<and> br_state_root r = expected_root \<and>
         mem_get (apply_changes E revert m') = mem_get m \<and> distinct (map fst revert)
     | None \<Rightarrow>
         mem_get m' = mem_get m \<and> mem_state_root (env_blake3 E) m' = mem_state_root (env_blake3 E) m)"
proof -
  obtain r changes where st: "stage_block E X m ops height = (r, changes)"
    by (metis surj_pair)
  note d = distinct_stage [OF st]
  define m1 where "m1 = apply_changes E changes m"
  define m2 where "m2 = apply_changes E (capture_revert changes m) m1"
  have inv: "mem_inv (env_blake3 E) m1" "mem_inv (env_blake3 E) m2"
    using assms(1) by (simp_all add: m1_def m2_def mem_inv_apply)
  have undone: "mem_get m2 = mem_get m"
    unfolding m1_def m2_def by (rule revert_restores [OF d])
  have again: "mem_get (apply_changes E (capture_revert changes m) (mem_commit_root (env_blake3 E) m1)) = mem_get m"
    using undone d unfolding m2_def by (simp add: fun_eq_iff get_apply keys_capture cong: option.case_cong)
  show ?thesis
    using assms(2) inv undone again d keys_capture [of changes m] root_of_contents [OF inv(2) assms(1) undone]
    unfolding execute_block_checked_def commit_capturing_revert_def st Let_def prod.case m1_def [symmetric]
      m2_def [symmetric]
    by (auto simp: mem_inv_commit_root split: if_splits)
qed

text \<open>C35: a block received from a peer is applied entirely and with the claimed root, or not at all.
  When the executor accepts it, the store's root is the expected one and is the root in the
  result, and applying the returned undo record brings back every key.  When it refuses it, every key
  reads as before and the root is the one from before.\<close>

theorem checked_block_all_or_nothing:
  assumes "mem_inv (env_blake3 E) m" "execute_block_checked E X ops height expected_root m = (res, m')"
  shows "mem_inv (env_blake3 E) m' \<and>
    (case res of
       Some (r, revert) \<Rightarrow>
         mem_state_root (env_blake3 E) m' = expected_root \<and> br_state_root r = expected_root \<and>
         mem_get (apply_changes E revert m') = mem_get m
     | None \<Rightarrow>
         mem_get m' = mem_get m \<and> mem_state_root (env_blake3 E) m' = mem_state_root (env_blake3 E) m)"
  using checked_block [OF assms] by (auto split: option.splits)

section \<open>A concrete environment\<close>

instance epoch_randomness_ext :: (countable) countable
  by intro_classes (rule countable_by [of "\<lambda>r. (er_acc r, er_seed r, epoch_randomness.more r)"], simp add: inj_def)

definition sample_node :: node_env where
  "sample_node = exec_env.extend sample_exec (node_env.fields sample_json)"

lemma sample_node_simps [simp]:
  "env_base sample_node = mem_new" "env_blake3 sample_node = sample_hash" "enc_revert sample_node = sample_enc"
  "dec_revert sample_node b = Some (sample_dec b)" "ed25519_verify sample_node = ed25519_verify sample_exec"
  by (simp_all add: sample_node_def sample_exec_def exec_env.extend_def node_env.fields_def)

text \<open>An executor with the randomness accumulator active: every block writes to the store.\<close>

definition sample_executor :: block_executor where
  "sample_executor = new_block_executor\<lparr>be_epoch_randomness_height := 0\<rparr>"

theorem checked_block_all_or_nothing_witness:
  "\<exists>r revert m'. execute_block_checked sample_node sample_executor [sample_pay 30] 1
      (br_state_root (fst (execute_block_with_height sample_node sample_executor [sample_pay 30] 1 mem_new)))
      mem_new = (Some (r, revert), m') \<and>
     mem_get (apply_changes sample_node revert m') [1] = None"
proof -
  let ?root = "br_state_root (fst (execute_block_with_height sample_node sample_executor [sample_pay 30] 1 mem_new))"
  obtain res m' where e: "execute_block_checked sample_node sample_executor [sample_pay 30] 1 ?root mem_new = (res, m')"
    by (metis surj_pair)
  obtain r revert where res: "res = Some (r, revert)"
    using e by (auto simp: execute_block_checked_def execute_block_with_height_def commit_capturing_revert_def
        Let_def split: prod.splits if_splits)
  show ?thesis
    using checked_block_all_or_nothing [OF _ e] e by (simp add: res mem_inv_new)
qed

end
