(* ===== verification/Validator_Set.thy ===== *)
theory Validator_Set
  imports Chain_Types "HOL-Library.Multiset"
begin

text \<open>
  The consensus validator set, \<open>crates/solen-consensus/src/validator.rs\<close>: the active
  validators, proposer selection and the two-thirds quorum rule.  Proved here: any two
  quorums share validators that hold more than a third of the committed stake, so at
  least one honest one; jailing never changes what is a quorum; the proposer is an active
  validator, drawn in exact proportion to stake; the fallback order is a permutation of
  the active validators.  BLAKE3 is an argument of the selection functions.
\<close>

section \<open>The set\<close>

datatype validator_status = Active | Jailed | Exiting

record validator_info =
  vi_id :: validator_id
  stake :: u128
  vi_status :: validator_status
  missed_blocks :: u64

type_synonym validator_set = "validator_info list"

definition new_validator_info :: "validator_id \<Rightarrow> u128 \<Rightarrow> validator_info" where
  "new_validator_info i s = \<lparr>vi_id = i, stake = s, vi_status = Active, missed_blocks = 0\<rparr>"

definition is_active_validator :: "validator_info \<Rightarrow> bool" where
  "is_active_validator v \<longleftrightarrow> vi_status v = Active"

definition active :: "validator_set \<Rightarrow> validator_info list" where
  "active vs = sort_key vi_id (filter is_active_validator vs)"

definition set_total_active_stake :: "validator_set \<Rightarrow> u128" where
  "set_total_active_stake vs = sum_list (map stake (active vs))"

definition active_count :: "validator_set \<Rightarrow> nat" where
  "active_count vs = length (active vs)"

section \<open>Proposer selection\<close>

text \<open>The first 16 bytes of a digest as a little-endian \<open>u128\<close>.\<close>

definition digest_selector :: "hash \<Rightarrow> u128" where
  "digest_selector h = of_le_bytes (take 16 (id_bytes h))"

text \<open>The loop over the cumulative stake.\<close>

fun pick_by_stake :: "u128 \<Rightarrow> u128 \<Rightarrow> validator_info list \<Rightarrow> validator_id option" where
  "pick_by_stake target cumulative [] = None"
| "pick_by_stake target cumulative (v # vs) =
     (let cumulative = cumulative + stake v
      in if target < cumulative then Some (vi_id v) else pick_by_stake target cumulative vs)"

definition proposer_for_height_with_seed ::
  "(bytes \<Rightarrow> hash) \<Rightarrow> validator_set \<Rightarrow> u64 \<Rightarrow> hash \<Rightarrow> validator_id option" where
  "proposer_for_height_with_seed blake3 vs height epoch_seed =
     (let act = active vs
      in if act = [] then None
         else if epoch_seed = 0 then Some (vi_id (act ! (unat height mod length act)))
         else let selector = digest_selector (blake3 (id_bytes epoch_seed @ le_bytes 8 height));
                  total = sum_list (map stake act)
              in if total = 0 then Some (vi_id (hd act))
                 else (case pick_by_stake (selector mod total) 0 act of
                         Some i \<Rightarrow> Some i
                       | None \<Rightarrow> Some (vi_id (last act))))"

definition proposer_for_height :: "(bytes \<Rightarrow> hash) \<Rightarrow> validator_set \<Rightarrow> u64 \<Rightarrow> validator_id option" where
  "proposer_for_height blake3 vs height = proposer_for_height_with_seed blake3 vs height 0"

definition effective_score :: "(bytes \<Rightarrow> hash) \<Rightarrow> u64 \<Rightarrow> hash \<Rightarrow> validator_info \<Rightarrow> u128" where
  "effective_score blake3 height epoch_seed v =
     (let hash_val = digest_selector (blake3 (id_bytes epoch_seed @ le_bytes 8 height @ id_bytes (vi_id v)))
      in if 0 < stake v then hash_val div stake v else - 1)"

definition proposer_order_for_height ::
  "(bytes \<Rightarrow> hash) \<Rightarrow> validator_set \<Rightarrow> u64 \<Rightarrow> hash \<Rightarrow> validator_id list" where
  "proposer_order_for_height blake3 vs height epoch_seed =
     (let act = active vs
      in if act = [] then []
         else if epoch_seed = 0
           then let n = length act; start = unat height mod n
                in map (\<lambda>i. vi_id (act ! ((start + i) mod n))) [0..<n]
         else map snd (sort_key fst (map (\<lambda>v. (effective_score blake3 height epoch_seed v, vi_id v)) act)))"

section \<open>Quorum and membership\<close>

definition has_quorum :: "validator_set \<Rightarrow> validator_id list \<Rightarrow> bool" where
  "has_quorum vs attester_ids =
     (let total = sum_list (map stake vs)
      in if total = 0 then False
         else let attested_stake = sum_list (map stake (filter (\<lambda>v. vi_id v \<in> set attester_ids) vs))
              in total * 2 < attested_stake * 3)"

definition stake_of :: "validator_set \<Rightarrow> validator_id list \<Rightarrow> u128" where
  "stake_of vs is = sum_list (map stake (filter (\<lambda>v. vi_id v \<in> set is) vs))"

definition add_validator :: "validator_set \<Rightarrow> validator_info \<Rightarrow> validator_set" where
  "add_validator vs info = vs @ [info]"

definition remove_validator :: "validator_set \<Rightarrow> validator_id \<Rightarrow> validator_set" where
  "remove_validator vs i = filter (\<lambda>v. vi_id v \<noteq> i) vs"

definition jail :: "validator_set \<Rightarrow> validator_id \<Rightarrow> bool \<times> validator_set" where
  "jail vs i =
     (case find (\<lambda>v. vi_id v = i) vs of
        None \<Rightarrow> (False, vs)
      | Some v \<Rightarrow> (True, update_first (\<lambda>v. vi_id v = i) (\<lambda>v. v\<lparr>vi_status := Jailed\<rparr>) vs))"

section \<open>Quorum systems\<close>

text \<open>
  What finality needs of a quorum rule: in a well-formed state a quorum holds more than
  two thirds of the members' weight.
\<close>

locale quorum_system =
  fixes wf :: "'s \<Rightarrow> bool"
    and members :: "'s \<Rightarrow> 'v set"
    and weight :: "'s \<Rightarrow> 'v \<Rightarrow> nat"
    and quorum :: "'s \<Rightarrow> 'v set \<Rightarrow> bool"
  assumes members_finite: "wf s \<Longrightarrow> finite (members s)"
    and quorum_weight: "wf s \<Longrightarrow> quorum s A \<Longrightarrow>
      2 * sum (weight s) (members s) < 3 * sum (weight s) (members s \<inter> A)"
begin

lemma quorums_intersect:
  assumes "wf s" "quorum s A" "quorum s B"
  shows "sum (weight s) (members s) < 3 * sum (weight s) (members s \<inter> A \<inter> B)"
proof -
  let ?w = "sum (weight s)" and ?M = "members s"
  have fin: "finite ?M" by (rule members_finite [OF assms(1)])
  have "?w (?M \<inter> A) + ?w (?M \<inter> B) = ?w ((?M \<inter> A) \<union> (?M \<inter> B)) + ?w (?M \<inter> A \<inter> B)"
    using sum.union_inter [of "?M \<inter> A" "?M \<inter> B" "weight s"] fin by (simp add: ac_simps Int_assoc inf_left_commute)
  moreover have "?w ((?M \<inter> A) \<union> (?M \<inter> B)) \<le> ?w ?M"
    using fin by (intro sum_mono2) auto
  ultimately show ?thesis
    using quorum_weight [OF assms(1,2)] quorum_weight [OF assms(1,3)] by linarith
qed

lemma honest_in_both:
  assumes "wf s" "quorum s A" "quorum s B" "3 * sum (weight s) (members s \<inter> F) \<le> sum (weight s) (members s)"
  shows "\<exists>v. v \<in> members s \<and> v \<in> A \<and> v \<in> B \<and> v \<notin> F"
proof (rule ccontr)
  assume "\<not> ?thesis"
  then have "members s \<inter> A \<inter> B \<subseteq> members s \<inter> F" by auto
  then have "sum (weight s) (members s \<inter> A \<inter> B) \<le> sum (weight s) (members s \<inter> F)"
    using members_finite [OF assms(1)] by (intro sum_mono2) auto
  then show False using quorums_intersect [OF assms(1-3)] assms(4) by linarith
qed

end

definition stakes_wf :: "validator_set \<Rightarrow> bool" where
  "stakes_wf vs \<longleftrightarrow> distinct (map vi_id vs) \<and> 3 * sum_list (map (unat \<circ> stake) vs) < 2 ^ 128"

definition committed_stake :: "validator_set \<Rightarrow> validator_id \<Rightarrow> nat" where
  "committed_stake vs i = (case find (\<lambda>v. vi_id v = i) vs of None \<Rightarrow> 0 | Some v \<Rightarrow> unat (stake v))"

lemma committed_stake_member:
  "distinct (map vi_id vs) \<Longrightarrow> v \<in> set vs \<Longrightarrow> committed_stake vs (vi_id v) = unat (stake v)"
  by (simp add: committed_stake_def find_key_unique)

lemma committed_stake_sum:
  assumes "distinct (map vi_id vs)"
  shows "sum (committed_stake vs) (set (map vi_id vs) \<inter> A)
       = sum_list (map (unat \<circ> stake) (filter (\<lambda>v. vi_id v \<in> A) vs))"
proof -
  let ?ws = "filter (\<lambda>v. vi_id v \<in> A) vs"
  have d: "distinct ?ws" and inj: "inj_on vi_id (set ?ws)"
    using assms by (auto simp: distinct_map inj_on_def)
  have A: "set (map vi_id vs) \<inter> A = vi_id ` set ?ws" by auto
  have "sum (committed_stake vs) (set (map vi_id vs) \<inter> A)
      = sum (\<lambda>v. committed_stake vs (vi_id v)) (set ?ws)"
    unfolding A sum.reindex [OF inj] comp_def ..
  also have "\<dots> = sum (\<lambda>v. unat (stake v)) (set ?ws)"
    using committed_stake_member [OF assms] by (intro sum.cong) auto
  also have "\<dots> = sum_list (map (unat \<circ> stake) ?ws)"
    using d by (simp add: sum_list_distinct_conv_sum_set)
  finally show ?thesis .
qed

lemma unat_stake_sum:
  assumes "sum_list (map (unat \<circ> stake) vs) < 2 ^ 128"
  shows "unat (sum_list (map stake vs)) = sum_list (map (unat \<circ> stake) vs)"
  using assms unat_sum_list_exact [of "map stake vs"] by simp

lemma has_quorum_unat:
  assumes "3 * sum_list (map (unat \<circ> stake) vs) < 2 ^ 128"
  shows "has_quorum vs is \<longleftrightarrow>
    2 * sum_list (map (unat \<circ> stake) vs)
      < 3 * sum_list (map (unat \<circ> stake) (filter (\<lambda>v. vi_id v \<in> set is) vs))"
proof -
  define T where "T = sum_list (map stake vs)"
  define A where "A = sum_list (map stake (filter (\<lambda>v. vi_id v \<in> set is) vs))"
  define t where "t = sum_list (map (unat \<circ> stake) vs)"
  define a where "a = sum_list (map (unat \<circ> stake) (filter (\<lambda>v. vi_id v \<in> set is) vs))"
  have le: "a \<le> t"
    using sum_list_filter_partition [of "unat \<circ> stake" "\<lambda>v. vi_id v \<in> set is" vs]
    by (simp add: a_def t_def)
  have t3: "3 * t < 2 ^ 128" using assms by (simp add: t_def)
  have T: "unat T = t"
    unfolding T_def t_def by (rule unat_stake_sum) (use t3 in \<open>simp add: t_def\<close>)
  have A: "unat A = a"
    unfolding A_def a_def by (rule unat_stake_sum) (use t3 le in \<open>simp add: a_def\<close>)
  have "unat (T * 2) = t * 2" using unat_mul_exact [of T 2] t3 T by simp
  moreover have "unat (A * 3) = a * 3" using unat_mul_exact [of A 3] t3 A le by simp
  moreover have "T = 0 \<longleftrightarrow> t = 0" using T by (metis unat_eq_0)
  ultimately show ?thesis
    using le by (simp add: has_quorum_def Let_def word_less_nat_alt flip: T_def A_def t_def a_def)
      linarith
qed

interpretation finality: quorum_system stakes_wf "\<lambda>vs. set (map vi_id vs)" committed_stake
  "\<lambda>vs A. \<exists>is. set is = A \<and> has_quorum vs is"
proof (unfold_locales, goal_cases)
  case (2 vs A)
  then obtain "is" where q: "set is = A" "has_quorum vs is" by blast
  have d: "distinct (map vi_id vs)" "3 * sum_list (map (unat \<circ> stake) vs) < 2 ^ 128"
    using 2(1) by (auto simp: stakes_wf_def)
  show ?case
    using q has_quorum_unat [OF d(2), of "is"] committed_stake_sum [OF d(1), of UNIV]
      committed_stake_sum [OF d(1), of A] by simp
qed simp

section \<open>Selection\<close>

lemma set_active: "set (active vs) = {v \<in> set vs. is_active_validator v}"
  by (simp add: active_def)

lemma pick_by_stake_member: "pick_by_stake t c vs = Some i \<Longrightarrow> i \<in> vi_id ` set vs"
  by (induction vs arbitrary: c) (auto simp: Let_def split: if_splits)

lemma proposer_active:
  "active vs \<noteq> [] \<Longrightarrow> \<exists>i. proposer_for_height_with_seed h vs n seed = Some i \<and> i \<in> vi_id ` set (active vs)"
  by (auto simp: proposer_for_height_with_seed_def Let_def pick_by_stake_member split: option.splits)

text \<open>The targets below the total that select a validator are as many as its stake.\<close>

lemma pick_by_stake_range:
  assumes "distinct (map vi_id vs)" "c + sum_list (map (unat \<circ> stake) vs) < 2 ^ 128" "v \<in> set vs"
  shows "\<exists>lo. c \<le> lo \<and> lo + unat (stake v) \<le> c + sum_list (map (unat \<circ> stake) vs) \<and>
    (\<forall>t. c \<le> unat t \<longrightarrow>
       (pick_by_stake t (of_nat c) vs = Some (vi_id v) \<longleftrightarrow> lo \<le> unat t \<and> unat t < lo + unat (stake v)))"
  using assms
proof (induction vs arbitrary: c)
  case (Cons w vs)
  have c': "of_nat c + stake w = (of_nat (c + unat (stake w)) :: u128)" by simp
  have bnd: "c + unat (stake w) < 2 ^ 128" using Cons.prems(2) by simp
  then have un: "unat (of_nat (c + unat (stake w)) :: u128) = c + unat (stake w)"
    by (intro unat_of_nat_exact) simp
  have step: "pick_by_stake t (of_nat c) (w # vs) = (if unat t < c + unat (stake w) then Some (vi_id w)
      else pick_by_stake t (of_nat (c + unat (stake w))) vs)" for t
    unfolding pick_by_stake.simps Let_def c' by (simp only: word_less_nat_alt un)
  show ?case
  proof (cases "v = w")
    case True
    have "pick_by_stake t (of_nat (c + unat (stake w))) vs \<noteq> Some (vi_id w)" for t
      using Cons.prems(1) pick_by_stake_member by fastforce
    then show ?thesis
      unfolding step using True Cons.prems(2) by (intro exI [of _ c]) auto
  next
    case False
    then have v: "v \<in> set vs" "vi_id v \<noteq> vi_id w" using Cons.prems(1,3) by (auto simp: image_iff)
    have "\<exists>lo. c + unat (stake w) \<le> lo \<and>
        lo + unat (stake v) \<le> (c + unat (stake w)) + sum_list (map (unat \<circ> stake) vs) \<and>
        (\<forall>t. c + unat (stake w) \<le> unat t \<longrightarrow>
          (pick_by_stake t (of_nat (c + unat (stake w))) vs = Some (vi_id v) \<longleftrightarrow>
             lo \<le> unat t \<and> unat t < lo + unat (stake v)))"
      using Cons.prems v(1) by (intro Cons.IH) auto
    then obtain lo where lo: "c + unat (stake w) \<le> lo"
      "lo + unat (stake v) \<le> (c + unat (stake w)) + sum_list (map (unat \<circ> stake) vs)"
      "\<forall>t. c + unat (stake w) \<le> unat t \<longrightarrow>
        (pick_by_stake t (of_nat (c + unat (stake w))) vs = Some (vi_id v) \<longleftrightarrow>
           lo \<le> unat t \<and> unat t < lo + unat (stake v))"
      by blast
    show ?thesis
      unfolding step using lo v(2) by (intro exI [of _ lo]) (auto simp: comp_def)
  qed
qed simp

lemma pick_by_stake_total:
  assumes "c + sum_list (map (unat \<circ> stake) vs) < 2 ^ 128" "c \<le> unat t"
    "unat t < c + sum_list (map (unat \<circ> stake) vs)"
  shows "pick_by_stake t (of_nat c) vs \<noteq> None"
  using assms
proof (induction vs arbitrary: c)
  case (Cons w vs)
  have c': "of_nat c + stake w = (of_nat (c + unat (stake w)) :: u128)" by simp
  have un: "unat (of_nat (c + unat (stake w)) :: u128) = c + unat (stake w)"
    using Cons.prems(1) by (intro unat_of_nat_exact) simp
  show ?case
    unfolding pick_by_stake.simps Let_def c'
    using Cons.IH [of "c + unat (stake w)"] Cons.prems
    by (simp only: word_less_nat_alt un split: if_split) (auto simp: add.assoc)
qed simp

lemma card_targets:
  assumes "distinct (map vi_id vs)" "sum_list (map (unat \<circ> stake) vs) < 2 ^ 128" "v \<in> set vs"
  shows "card {t. pick_by_stake t 0 vs = Some (vi_id v)} = unat (stake v)"
proof -
  obtain lo where lo: "lo + unat (stake v) \<le> sum_list (map (unat \<circ> stake) vs)"
    "\<And>t. pick_by_stake t 0 vs = Some (vi_id v) \<longleftrightarrow> lo \<le> unat t \<and> unat t < lo + unat (stake v)"
    using pick_by_stake_range [OF assms(1), of 0 v] assms(2,3) by auto
  have "bij_betw unat {t :: u128. lo \<le> unat t \<and> unat t < lo + unat (stake v)} {lo..<lo + unat (stake v)}"
    by (rule bij_betw_byWitness [of _ of_nat])
       (use lo(1) assms(2) in \<open>auto simp: unat_of_nat_exact\<close>)
  then show ?thesis using bij_betw_same_card lo(2) by fastforce
qed

lemma has_quorum_pairs:
  assumes "map (\<lambda>v. (vi_id v, stake v)) vs = map (\<lambda>v. (vi_id v, stake v)) ws"
  shows "has_quorum vs is = has_quorum ws is"
proof -
  have e: "has_quorum vs is =
      (let ps = map (\<lambda>v. (vi_id v, stake v)) vs; total = sum_list (map snd ps)
       in total \<noteq> 0 \<and> total * 2 < sum_list (map snd (filter (\<lambda>p. fst p \<in> set is) ps)) * 3)" for vs
    by (simp add: has_quorum_def Let_def filter_map comp_def)
  show ?thesis unfolding e assms ..
qed

lemma mset_rotate_list: "mset (rotate n xs) = mset xs"
proof (induction n)
  case (Suc n)
  have "mset (rotate1 ys) = mset ys" for ys :: "'a list" by (cases ys) simp_all
  then show ?case using Suc by simp
qed simp

lemma proposer_order_perm:
  "mset (proposer_order_for_height h vs n seed) = mset (map vi_id (active vs))"
proof (cases "active vs = [] \<or> seed \<noteq> 0")
  case True
  then show ?thesis
    by (auto simp: proposer_order_for_height_def Let_def mset_map [symmetric] comp_def simp del: mset_map)
       (simp add: image_mset.compositionality comp_def)
next
  case False
  let ?a = "active vs"
  have "map (\<lambda>i. vi_id (?a ! ((unat n mod length ?a + i) mod length ?a))) [0..<length ?a]
      = map vi_id (rotate (unat n mod length ?a) ?a)"
    by (rule nth_equalityI) (simp_all add: nth_rotate)
  then show ?thesis
    using False by (simp add: proposer_order_for_height_def Let_def mset_rotate_list)
qed

section \<open>Properties\<close>

text \<open>C11: any two sets of attesters that each reach the quorum of one validator set share validators
  holding more than a third of the committed stake; so if the faulty validators hold at most a
  third of it, some validator outside them attested in both.\<close>

theorem quorums_share_honest_validator:
  assumes "stakes_wf vs" "has_quorum vs as" "has_quorum vs bs"
    "3 * sum (committed_stake vs) (set (map vi_id vs) \<inter> faulty) \<le> sum (committed_stake vs) (set (map vi_id vs))"
  shows "\<exists>i \<in> set (map vi_id vs). i \<in> set as \<and> i \<in> set bs \<and> i \<notin> faulty"
  using finality.honest_in_both [OF assms(1) _ _ assms(4), of "set as" "set bs"] assms(2,3) by blast

definition three_validators :: validator_set where
  "three_validators = [new_validator_info 1 100, new_validator_info 2 100, new_validator_info 3 100,
     new_validator_info 4 100]"

theorem quorums_share_honest_validator_witness:
  "\<exists>i \<in> set (map vi_id three_validators). i \<in> {1, 2, 3} \<and> i \<in> {2, 3, 4} \<and> i \<notin> {2}"
  using quorums_share_honest_validator [of three_validators "[1, 2, 3]" "[2, 3, 4]" "{2}"]
  by (simp add: stakes_wf_def three_validators_def new_validator_info_def has_quorum_def
      committed_stake_def)

text \<open>Jailing a validator, which a node does on its own view of missed blocks, changes neither the
  quorum rule nor the stake of any set of attesters, and adding attesters never loses a quorum.\<close>

theorem quorum_ignores_jailing:
  assumes "stakes_wf vs"
  shows "has_quorum (snd (jail vs i)) as = has_quorum vs as \<and>
    stake_of (snd (jail vs i)) as = stake_of vs as \<and>
    (set as \<subseteq> set bs \<and> has_quorum vs as \<longrightarrow> has_quorum vs bs)"
proof (intro conjI impI)
  have pairs: "map (\<lambda>v. (vi_id v, stake v)) (snd (jail vs i)) = map (\<lambda>v. (vi_id v, stake v)) vs"
    by (simp add: jail_def map_update_first split: option.splits)
  then show "has_quorum (snd (jail vs i)) as = has_quorum vs as"
    by (rule has_quorum_pairs)
  have e: "stake_of ws as = sum_list (map snd (filter (\<lambda>p. fst p \<in> set as) (map (\<lambda>v. (vi_id v, stake v)) ws)))" for ws
    by (simp add: stake_of_def filter_map comp_def)
  show "stake_of (snd (jail vs i)) as = stake_of vs as" unfolding e pairs ..
next
  assume "set as \<subseteq> set bs \<and> has_quorum vs as"
  then have sub: "set as \<subseteq> set bs" and q: "has_quorum vs as" by auto
  have b: "3 * sum_list (map (unat \<circ> stake) vs) < 2 ^ 128" using assms by (simp add: stakes_wf_def)
  have "sum_list (map (unat \<circ> stake) (filter (\<lambda>v. vi_id v \<in> set as) vs))
      \<le> sum_list (map (unat \<circ> stake) (filter (\<lambda>v. vi_id v \<in> set bs) vs))"
    using sub by (induction vs) auto
  then show "has_quorum vs bs"
    using q has_quorum_unat [OF b] by (meson less_le_trans mult_le_mono2)
qed

theorem quorum_ignores_jailing_witness:
  "has_quorum (snd (jail three_validators 1)) [1, 2, 3] = has_quorum three_validators [1, 2, 3] \<and>
   has_quorum three_validators [1, 2, 3]"
  using quorum_ignores_jailing [of three_validators 1 "[1, 2, 3]" "[1, 2, 3]"]
  by (simp add: stakes_wf_def three_validators_def new_validator_info_def has_quorum_def)

text \<open>A residue class below \<open>N\<close>, and the selectors that a set of targets receives from the reduction modulo
  the total: as evenly as the division allows.\<close>

lemma card_residue:
  assumes "t < T"
  shows "N div T \<le> card {n. n < N \<and> n mod T = t}" "card {n. n < N \<and> n mod T = t} \<le> Suc (N div T)"
proof -
  let ?f = "\<lambda>k. k * T + t" and ?R = "{n. n < N \<and> n mod T = t}"
  have inj: "inj_on ?f A" for A
    using assms by (auto simp: inj_on_def)
  have "k * T + t < N" if "k < N div T" for k
  proof -
    have "k * T + t < Suc k * T"
      using assms by simp
    also have "\<dots> \<le> N div T * T"
      using that by (intro mult_le_mono1) simp
    finally show ?thesis
      using div_times_less_eq_dividend [of N T] by linarith
  qed
  then have "?f ` {..<N div T} \<subseteq> ?R"
    using assms by auto
  then show "N div T \<le> card ?R"
    using card_mono [of ?R "?f ` {..<N div T}"] by (simp add: card_image [OF inj])
  have "n = ?f (n div T)" "n div T \<le> N div T" if "n \<in> ?R" for n
    using that by (auto simp: div_le_mono)
  then have "?R \<subseteq> ?f ` {..N div T}"
    by blast
  then show "card ?R \<le> Suc (N div T)"
    using card_mono [of "?f ` {..N div T}" ?R] by (simp add: card_image [OF inj])
qed

lemma card_selectors:
  fixes T :: u128
  assumes "\<And>t. P t \<Longrightarrow> t < T" "N = (2 :: nat) ^ 128"
  shows "N div unat T * card {t. P t} \<le> card {sel. P (sel mod T)}"
    "card {sel. P (sel mod T)} \<le> Suc (N div unat T) * card {t. P t}"
proof -
  have lt: "unat w < N" for w :: u128
    using unsigned_less [of w] by (simp add: assms(2))
  have nat: "unat (of_nat n :: u128) = n" if "n < N" for n
    using that by (simp add: assms(2) unat_of_nat_exact)
  have R: "card {sel. sel mod T = t} = card {n. n < N \<and> n mod unat T = unat t}" for t
  proof (rule bij_betw_same_card)
    show "bij_betw unat {sel. sel mod T = t} {n. n < N \<and> n mod unat T = unat t}"
      by (rule bij_betw_byWitness [where f' = of_nat])
        (auto simp: lt nat unat_mod word_unat_eq_iff)
  qed
  have *: "card {sel. P (sel mod T)} = (\<Sum>t \<in> {t. P t}. card {sel. sel mod T = t})"
    by (subst card_UN_disjoint [symmetric]) (auto intro!: arg_cong [where f = card])
  have c: "N div unat T \<le> card {sel. sel mod T = t}" "card {sel. sel mod T = t} \<le> Suc (N div unat T)"
    if "P t" for t
    using assms(1) [OF that] card_residue [of "unat t" "unat T" N] by (simp_all only: R word_less_nat_alt)
  show "N div unat T * card {t. P t} \<le> card {sel. P (sel mod T)}"
    unfolding * using c sum_bounded_below [of "{t. P t}" "N div unat T" "\<lambda>t. card {sel. sel mod T = t}"]
    by (simp only: mem_Collect_eq of_nat_id mult.commute simp_thms)
  show "card {sel. P (sel mod T)} \<le> Suc (N div unat T) * card {t. P t}"
    unfolding * using c sum_bounded_above [of "{t. P t}" "\<lambda>t. card {sel. sel mod T = t}" "Suc (N div unat T)"]
    by (simp only: mem_Collect_eq of_nat_id mult.commute simp_thms)
qed



text \<open>The fallback order of proposers lists every active validator exactly as often as the active
  set does, under the round-robin of the genesis epoch and under the stake-weighted shuffle, and a
  proposer exists and is active exactly when there is an active validator.\<close>

theorem proposers_are_the_active_validators:
  "mset (proposer_order_for_height blake3 vs height seed) = mset (map vi_id (filter is_active_validator vs)) \<and>
   (case proposer_for_height_with_seed blake3 vs height seed of
      None \<Rightarrow> filter is_active_validator vs = []
    | Some i \<Rightarrow> i \<in> vi_id ` set (filter is_active_validator vs))"
proof
  have "mset (active vs) = mset (filter is_active_validator vs)" by (simp add: active_def)
  then show "mset (proposer_order_for_height blake3 vs height seed) = mset (map vi_id (filter is_active_validator vs))"
    by (simp add: proposer_order_perm)
  show "case proposer_for_height_with_seed blake3 vs height seed of
      None \<Rightarrow> filter is_active_validator vs = []
    | Some i \<Rightarrow> i \<in> vi_id ` set (filter is_active_validator vs)"
  proof (cases "active vs = []")
    case True
    then have "filter is_active_validator vs = []"
      by (metis active_def length_0_conv length_sort)
    then show ?thesis using True by (simp add: proposer_for_height_with_seed_def)
  next
    case False
    then show ?thesis
      using proposer_active [OF False, of blake3 height seed] by (auto simp: set_active)
  qed
qed

text \<open>The proposer chosen for a height need not be the head of the proposer order for that height,
  although the order documents its first position as the designated proposer: for some digest
  function the two disagree on a set of two validators.\<close>

theorem designated_proposer_not_head_of_order:
  "\<exists>blake3 vs height seed. proposer_for_height_with_seed blake3 vs height seed \<noteq>
     (case proposer_order_for_height blake3 vs height seed of [] \<Rightarrow> None | i # _ \<Rightarrow> Some i)"
proof -
  let ?vs = "[new_validator_info 1 1, new_validator_info 2 3]"
  let ?h = "\<lambda>_ :: bytes. id_of_bytes (4 # replicate 31 0)"
  have zeros: "of_le_bytes (replicate n 0) = 0" for n by (induction n) simp_all
  have sel: "digest_selector (id_of_bytes (4 # replicate 31 0)) = 4"
    by (simp add: digest_selector_def id_bytes_id_of_bytes take_replicate zeros)
  have a: "active ?vs = ?vs"
    by (simp add: active_def new_validator_info_def is_active_validator_def)
  have "proposer_for_height_with_seed ?h ?vs 0 1 = Some 1"
    by (simp add: proposer_for_height_with_seed_def a sel) (simp add: new_validator_info_def)
  moreover have "proposer_order_for_height ?h ?vs 0 1 = [2, 1]"
    by (simp add: proposer_order_for_height_def a effective_score_def sel)
       (simp add: new_validator_info_def word_le_nat_alt)
  ultimately have "proposer_for_height_with_seed ?h ?vs 0 1 \<noteq>
     (case proposer_order_for_height ?h ?vs 0 1 of [] \<Rightarrow> None | i # _ \<Rightarrow> Some i)" by simp
  then show ?thesis by blast
qed

end
