(* ===== verification/Consensus_Types.thy ===== *)
theory Consensus_Types
  imports Block_Commit Validator_Set
begin

text \<open>
  The data of the consensus layer: block headers (\<open>crates/solen-types/src/block.rs\<close>), attestations,
  finalized blocks and their persisted form (\<open>crates/solen-consensus/src/engine.rs\<close>), the records of
  \<open>crates/solen-consensus/src/checkpoint.rs\<close>, and the hashes over them.  The JSON encodings are
  fields of the environment.
\<close>

section \<open>Blocks\<close>

record block_header =
  bh_height :: u64
  bh_epoch :: u64
  bh_parent_hash :: hash
  bh_state_root :: hash
  bh_transactions_root :: hash
  bh_receipts_root :: hash
  bh_proposer :: validator_id
  bh_timestamp_ms :: u64
  bh_proposer_signature :: bytes

record attestation =
  at_validator :: validator_id
  at_height :: u64
  at_hash :: hash

record finalized_block =
  fb_header :: block_header
  fb_result :: block_result
  fb_attestations :: "attestation list"
  fb_operations :: "user_operation list"

record serializable_block =
  sb_header :: block_header
  sb_state_root :: hash
  sb_receipts :: "execution_receipt list"
  sb_gas_used :: u64
  sb_operations :: "user_operation list"

definition to_serializable :: "finalized_block \<Rightarrow> serializable_block" where
  "to_serializable b =
     \<lparr>sb_header = fb_header b, sb_state_root = br_state_root (fb_result b),
      sb_receipts = br_receipts (fb_result b), sb_gas_used = br_gas_used (fb_result b),
      sb_operations = fb_operations b\<rparr>"

definition of_serializable :: "serializable_block \<Rightarrow> finalized_block" where
  "of_serializable sb =
     \<lparr>fb_header = sb_header sb,
      fb_result = \<lparr>br_state_root = sb_state_root sb, br_receipts = sb_receipts sb, br_gas_used = sb_gas_used sb\<rparr>,
      fb_attestations = [], fb_operations = sb_operations sb\<rparr>"

section \<open>Checkpoints\<close>

record finalized_checkpoint =
  fc_height :: u64
  fc_epoch :: u64
  fc_block_hash :: hash
  fc_state_root :: hash
  fc_attestations :: "(validator_id \<times> bytes) list"

section \<open>Environment and hashes\<close>

text \<open>
  \<open>ops_json\<close> and \<open>receipts_json\<close> are the encoders whose failure the code handles; \<open>header_json\<close> is the
  one whose success it relies on.  \<open>sign_with\<close> is the node's key, when it has one.
\<close>

record consensus_env = node_env +
  header_json :: "block_header \<Rightarrow> bytes"
  ops_json :: "user_operation list \<Rightarrow> bytes option"
  receipts_json :: "execution_receipt list \<Rightarrow> bytes option"
  block_json :: "serializable_block json_codec"
  checkpoint_json :: "finalized_checkpoint option json_codec"
  sign_with :: "(bytes \<Rightarrow> bytes) option"

definition block_hash :: "'a consensus_env_scheme \<Rightarrow> block_header \<Rightarrow> hash" where
  "block_hash E h = env_blake3 E (header_json E (h\<lparr>bh_proposer_signature := []\<rparr>))"

definition compute_tx_root :: "'a consensus_env_scheme \<Rightarrow> user_operation list \<Rightarrow> hash" where
  "compute_tx_root E ops =
     (if ops = [] then 0
      else case ops_json E ops of
        Some data \<Rightarrow> env_blake3 E data
      | None \<Rightarrow> env_blake3 E (le_bytes 8 (of_nat (length ops) :: u64)))"

definition compute_receipts_root :: "'a consensus_env_scheme \<Rightarrow> block_result \<Rightarrow> hash" where
  "compute_receipts_root E r =
     (if br_receipts r = [] then 0
      else case receipts_json E (br_receipts r) of
        Some data \<Rightarrow> env_blake3 E data
      | None \<Rightarrow> env_blake3 E (le_bytes 8 (of_nat (length (br_receipts r)) :: u64)))"

text \<open>A 64-byte signature of the proposer over the block hash.\<close>

definition header_signed :: "'a consensus_env_scheme \<Rightarrow> block_header \<Rightarrow> bool" where
  "header_signed E h \<longleftrightarrow>
     length (bh_proposer_signature h) = 64 \<and>
     ed25519_verify E (bh_proposer h) (id_bytes (block_hash E h)) (bh_proposer_signature h)"

lemma block_hash_signature [simp]: "block_hash E (h\<lparr>bh_proposer_signature := sig\<rparr>) = block_hash E h"
  by (simp add: block_hash_def)

lemma persisted_block: "of_serializable (to_serializable b) = b\<lparr>fb_attestations := []\<rparr>"
  by (simp add: of_serializable_def to_serializable_def)

end
