(* ===== verification/Checkpoints.thy ===== *)
theory Checkpoints
  imports Consensus_Types
begin

text \<open>
  Checkpoints, \<open>crates/solen-consensus/src/checkpoint.rs\<close>: the list of state checkpoints, the
  checkpoint that validators finalize by attesting to it, and the trusted checkpoints compiled into
  the node.  Proved here: a checkpoint is finalized only with the attestations of a quorum, and from
  then on a block that differs from it at its height is refused.
\<close>

section \<open>State checkpoints\<close>

definition CHECKPOINT_INTERVAL :: u64 where "CHECKPOINT_INTERVAL = 100"

record checkpoint =
  cp_height :: u64
  cp_epoch :: u64
  cp_state_root :: hash
  cp_block_hash :: hash
  cp_validator_set_hash :: hash
  cp_timestamp_ms :: u64

definition should_checkpoint :: "u64 \<Rightarrow> bool" where
  "should_checkpoint height \<longleftrightarrow> 0 < height \<and> height mod CHECKPOINT_INTERVAL = 0"

record checkpoint_store =
  cs_checkpoints :: "checkpoint list"
  cs_max :: nat

definition new_checkpoint_store :: "nat \<Rightarrow> checkpoint_store" where
  "new_checkpoint_store n = \<lparr>cs_checkpoints = [], cs_max = n\<rparr>"

text \<open>Removing the first element of an empty vector panics: the result is \<open>None\<close>.\<close>

definition add_checkpoint :: "checkpoint \<Rightarrow> checkpoint_store \<Rightarrow> checkpoint_store option" where
  "add_checkpoint c s =
     (if cs_max s \<le> length (cs_checkpoints s)
      then (case cs_checkpoints s of
              [] \<Rightarrow> None
            | _ # cs \<Rightarrow> Some (s\<lparr>cs_checkpoints := cs @ [c]\<rparr>))
      else Some (s\<lparr>cs_checkpoints := cs_checkpoints s @ [c]\<rparr>))"

definition latest_checkpoint :: "checkpoint_store \<Rightarrow> checkpoint option" where
  "latest_checkpoint s = (if cs_checkpoints s = [] then None else Some (last (cs_checkpoints s)))"

definition at_or_before :: "checkpoint_store \<Rightarrow> u64 \<Rightarrow> checkpoint option" where
  "at_or_before s height = find (\<lambda>c. cp_height c \<le> height) (rev (cs_checkpoints s))"

section \<open>Finalized checkpoints\<close>

record pending_checkpoint =
  pcp_height :: u64
  pcp_epoch :: u64
  pcp_block_hash :: hash
  pcp_state_root :: hash
  pcp_attestations :: "(validator_id \<times> bytes) list"
  pcp_created_at :: u64

record finalized_checkpoint_store =
  fs_latest :: "finalized_checkpoint option"
  fs_pending :: "pending_checkpoint option"
  fs_heights :: "u64 list"

definition new_finalized_checkpoints :: finalized_checkpoint_store where
  "new_finalized_checkpoints = \<lparr>fs_latest = None, fs_pending = None, fs_heights = []\<rparr>"

definition propose_checkpoint ::
    "u64 \<Rightarrow> u64 \<Rightarrow> u64 \<Rightarrow> hash \<Rightarrow> hash \<Rightarrow> finalized_checkpoint_store \<Rightarrow> finalized_checkpoint_store" where
  "propose_checkpoint now_ms height epoch bh root s =
     s\<lparr>fs_pending := Some \<lparr>pcp_height = height, pcp_epoch = epoch, pcp_block_hash = bh, pcp_state_root = root,
                          pcp_attestations = [], pcp_created_at = now_ms\<rparr>\<rparr>"

definition add_attestation ::
    "validator_id \<Rightarrow> bytes \<Rightarrow> validator_set \<Rightarrow> finalized_checkpoint_store
     \<Rightarrow> bool \<times> finalized_checkpoint_store" where
  "add_attestation i sig vs s =
     (case fs_pending s of
        None \<Rightarrow> (False, s)
      | Some p \<Rightarrow>
          if \<exists>a \<in> set (pcp_attestations p). fst a = i then (False, s)
          else
            let p1 = p\<lparr>pcp_attestations := pcp_attestations p @ [(i, sig)]\<rparr> in
            if has_quorum vs (map fst (pcp_attestations p1))
            then let f = \<lparr>fc_height = pcp_height p1, fc_epoch = pcp_epoch p1, fc_block_hash = pcp_block_hash p1,
                          fc_state_root = pcp_state_root p1, fc_attestations = pcp_attestations p1\<rparr>;
                     heights = fs_heights s @ [fc_height f]
                 in (True, \<lparr>fs_latest = Some f, fs_pending = None,
                            fs_heights = (if 100 < length heights then tl heights else heights)\<rparr>)
            else (False, s\<lparr>fs_pending := Some p1\<rparr>))"

definition validate_block :: "finalized_checkpoint_store \<Rightarrow> u64 \<Rightarrow> hash \<Rightarrow> hash option" where
  "validate_block s height bh =
     (case fs_latest s of
        Some cp \<Rightarrow> if height = fc_height cp \<and> bh \<noteq> fc_block_hash cp then Some (fc_block_hash cp) else None
      | None \<Rightarrow> None)"

definition is_finalized :: "finalized_checkpoint_store \<Rightarrow> u64 \<Rightarrow> bool" where
  "is_finalized s height = (case fs_latest s of Some cp \<Rightarrow> height \<le> fc_height cp | None \<Rightarrow> False)"

definition FINALIZED_KEY :: bytes where
  "FINALIZED_KEY = ascii ''__finalized_checkpoint__''"

definition save_checkpoints ::
    "'a consensus_env_scheme \<Rightarrow> finalized_checkpoint_store \<Rightarrow> memory_store \<Rightarrow> memory_store" where
  "save_checkpoints E s m = mem_put (env_blake3 E) FINALIZED_KEY (to_vec (checkpoint_json E) (fs_latest s)) m"

text \<open>
  The stored value is read as a checkpoint, not as an optional one: the JSON \<open>null\<close> that stands for
  no checkpoint does not parse, which gives the same result.
\<close>

definition load_checkpoints :: "'a consensus_env_scheme \<Rightarrow> memory_store \<Rightarrow> finalized_checkpoint_store" where
  "load_checkpoints E m =
     (let latest = (case mem_get m FINALIZED_KEY of
                      Some data \<Rightarrow> (case from_slice (checkpoint_json E) data of Inr cp \<Rightarrow> cp | Inl _ \<Rightarrow> None)
                    | None \<Rightarrow> None)
      in \<lparr>fs_latest = latest, fs_pending = None,
          fs_heights = (case latest of Some cp \<Rightarrow> [fc_height cp] | None \<Rightarrow> [])\<rparr>)"

definition checkpoint_message :: "(bytes \<Rightarrow> hash) \<Rightarrow> u64 \<Rightarrow> hash \<Rightarrow> hash \<Rightarrow> bytes" where
  "checkpoint_message blake3 height bh root =
     id_bytes (blake3 (le_bytes 8 height @ id_bytes bh @ id_bytes root))"

section \<open>Trusted checkpoints\<close>

type_synonym trusted_checkpoints = "(u64 \<times> hash) list"

definition trusted_for :: "u64 \<Rightarrow> trusted_checkpoints" where
  "trusted_for chain_id = []"

fun validate_trusted :: "trusted_checkpoints \<Rightarrow> u64 \<Rightarrow> hash \<Rightarrow> hash option" where
  "validate_trusted [] height bh = None"
| "validate_trusted ((h, trusted) # es) height bh =
     (if height = h \<and> bh \<noteq> trusted then Some trusted else validate_trusted es height bh)"

section \<open>Properties\<close>

inductive checkpoint_run :: "validator_set \<Rightarrow> finalized_checkpoint_store \<Rightarrow> bool" for vs where
  start: "checkpoint_run vs new_finalized_checkpoints"
| propose: "checkpoint_run vs s \<Longrightarrow> checkpoint_run vs (propose_checkpoint now h e bh root s)"
| attest: "checkpoint_run vs s \<Longrightarrow> checkpoint_run vs (snd (add_attestation i sig vs s))"

definition checkpoint_ok :: "validator_set \<Rightarrow> finalized_checkpoint_store \<Rightarrow> bool" where
  "checkpoint_ok vs s \<longleftrightarrow>
     (\<forall>p. fs_pending s = Some p \<longrightarrow> distinct (map fst (pcp_attestations p))) \<and>
     (\<forall>f. fs_latest s = Some f \<longrightarrow> distinct (map fst (fc_attestations f)) \<and> has_quorum vs (map fst (fc_attestations f))) \<and>
     length (fs_heights s) \<le> 100"

lemma checkpoint_ok_attest: "checkpoint_ok vs s \<Longrightarrow> checkpoint_ok vs (snd (add_attestation i sig vs s))"
  by (auto simp: checkpoint_ok_def add_attestation_def Let_def split: option.splits)

lemma checkpoint_ok_run: "checkpoint_run vs s \<Longrightarrow> checkpoint_ok vs s"
  by (induction rule: checkpoint_run.induct)
    (simp add: checkpoint_ok_def new_finalized_checkpoints_def,
     simp add: checkpoint_ok_def propose_checkpoint_def, rule checkpoint_ok_attest)

lemma conflicting_block_refused:
  "fs_latest s = Some f \<Longrightarrow> validate_block s (fc_height f) bh = None \<longleftrightarrow> bh = fc_block_hash f"
  by (simp add: validate_block_def)

lemma checkpoints_persist:
  "json_ok (checkpoint_json E) \<Longrightarrow> fs_latest (load_checkpoints E (save_checkpoints E s m)) = fs_latest s"
  by (simp add: load_checkpoints_def save_checkpoints_def mem_get_put json_ok_def Let_def)

end
