(* ===== verification/Slashing.thy ===== *)
theory Slashing
  imports Consensus_Types
begin

text \<open>
  Slashing evidence and epoch transitions of the consensus layer:
  \<open>crates/solen-consensus/src/slashing.rs\<close> and \<open>crates/solen-consensus/src/epoch.rs\<close>.  Proved here: a
  validator is accused of signing twice only over two blocks it did sign and that differ in
  parent, transactions or state, and of downtime only after a hundred missed slots in a row.
\<close>

section \<open>Evidence\<close>

datatype slashing_reason =
    DoubleSign u64 hash hash
  | Downtime u64
  | InvalidStateRoot u64 hash hash

fun penalty_bps :: "slashing_reason \<Rightarrow> u64" where
  "penalty_bps (DoubleSign _ _ _) = 1000"
| "penalty_bps (Downtime _) = 100"
| "penalty_bps (InvalidStateRoot _ _ _) = 500"

record slashing_evidence =
  offender :: validator_id
  reason :: slashing_reason

definition DOWNTIME_THRESHOLD :: u64 where "DOWNTIME_THRESHOLD = 100"

definition check_double_sign ::
    "'a consensus_env_scheme \<Rightarrow> block_header \<Rightarrow> block_header \<Rightarrow> slashing_evidence option" where
  "check_double_sign E a b =
     (if bh_height a \<noteq> bh_height b \<or> bh_proposer a \<noteq> bh_proposer b then None
      else if block_hash E a = block_hash E b then None
      else if bh_parent_hash a = bh_parent_hash b \<and> bh_transactions_root a = bh_transactions_root b \<and>
              bh_state_root a = bh_state_root b then None
      else if length (bh_proposer_signature a) \<noteq> 64 \<or> length (bh_proposer_signature b) \<noteq> 64 then None
      else if \<not> ed25519_verify E (bh_proposer a) (id_bytes (block_hash E a)) (bh_proposer_signature a) then None
      else if \<not> ed25519_verify E (bh_proposer b) (id_bytes (block_hash E b)) (bh_proposer_signature b) then None
      else Some \<lparr>offender = bh_proposer a,
                 reason = DoubleSign (bh_height a) (bh_state_root a) (bh_state_root b)\<rparr>)"

record slashing_result =
  sr_offender :: validator_id
  sr_penalty :: u128
  sr_remaining_stake :: u128
  sr_reason :: string

text \<open>The debug form of a reason.\<close>

fun debug_reason :: "slashing_reason \<Rightarrow> string" where
  "debug_reason (DoubleSign height a b) =
     ''DoubleSign { height: '' @ dec_string (unat height) @ '', block_a: '' @ debug_bytes (id_bytes a) @
     '', block_b: '' @ debug_bytes (id_bytes b) @ '' }''"
| "debug_reason (Downtime missed) = ''Downtime { missed_blocks: '' @ dec_string (unat missed) @ '' }''"
| "debug_reason (InvalidStateRoot height expected got) =
     ''InvalidStateRoot { height: '' @ dec_string (unat height) @ '', expected: '' @
     debug_bytes (id_bytes expected) @ '', got: '' @ debug_bytes (id_bytes got) @ '' }''"

text \<open>The product of the penalty wraps, as it does in a release build.\<close>

definition process_slashing ::
    "slashing_evidence \<Rightarrow> validator_set \<Rightarrow> slashing_result option \<times> validator_set" where
  "process_slashing ev vs =
     (case find (\<lambda>v. vi_id v = offender ev) vs of
        None \<Rightarrow> (None, snd (jail vs (offender ev)))
      | Some v \<Rightarrow>
          let pen = stake v * ucast (penalty_bps (reason ev)) div 10000;
              remaining = sat_sub (stake v) pen;
              vs1 = update_first (\<lambda>v. vi_id v = offender ev) (\<lambda>v. v\<lparr>stake := remaining\<rparr>) vs
          in (Some \<lparr>sr_offender = offender ev, sr_penalty = pen, sr_remaining_stake = remaining,
                    sr_reason = debug_reason (reason ev)\<rparr>, snd (jail vs1 (offender ev))))"

definition persist_slashing_evidence ::
    "(bytes \<Rightarrow> hash) \<Rightarrow> slashing_result \<Rightarrow> u64 \<Rightarrow> memory_store \<Rightarrow> memory_store" where
  "persist_slashing_evidence blake3 r height m =
     mem_put blake3
       (ascii (''slash/'' @ hex_encode (id_bytes (sr_offender r)) @ ''/'' @ dec_string (unat height)))
       (ascii (''penalty='' @ dec_string (unat (sr_penalty r)) @ '',remaining='' @
               dec_string (unat (sr_remaining_stake r)) @ '',reason='' @ sr_reason r)) m"

definition record_missed_block ::
    "validator_set \<Rightarrow> validator_id \<Rightarrow> slashing_evidence option \<times> validator_set" where
  "record_missed_block vs i =
     (case find (\<lambda>v. vi_id v = i) vs of
        None \<Rightarrow> (None, vs)
      | Some v \<Rightarrow>
          let missed = missed_blocks v + 1;
              vs1 = update_first (\<lambda>v. vi_id v = i) (\<lambda>v. v\<lparr>missed_blocks := missed\<rparr>) vs
          in (if DOWNTIME_THRESHOLD \<le> missed
              then Some \<lparr>offender = i, reason = Downtime missed\<rparr> else None, vs1))"

text \<open>The counter is reset when a validator proposes in its slot, and when evidence is queued.\<close>

definition reset_missed :: "validator_set \<Rightarrow> validator_id \<Rightarrow> validator_set" where
  "reset_missed vs i = update_first (\<lambda>v. vi_id v = i) (\<lambda>v. v\<lparr>missed_blocks := 0\<rparr>) vs"

section \<open>Epochs\<close>

definition EPOCH_LENGTH :: u64 where "EPOCH_LENGTH = 100"

record epoch_manager =
  current_epoch :: u64
  base_reward :: u128

definition new_epoch_manager :: epoch_manager where
  "new_epoch_manager = \<lparr>current_epoch = 0, base_reward = 100\<rparr>"

definition is_epoch_boundary :: "u64 \<Rightarrow> bool" where
  "is_epoch_boundary height \<longleftrightarrow> 0 < height \<and> height mod EPOCH_LENGTH = 0"

definition epoch_for_height :: "u64 \<Rightarrow> u64" where
  "epoch_for_height height = height div EPOCH_LENGTH"

text \<open>The loop runs over a copy of the set and looks each validator up by its identifier.\<close>

definition reward_validator :: "u128 \<Rightarrow> u128 \<Rightarrow> validator_info \<Rightarrow> validator_info" where
  "reward_validator total_reward total_st v = v\<lparr>stake := stake v + total_reward * stake v div total_st\<rparr>"

definition process_epoch_transition :: "epoch_manager \<Rightarrow> validator_set \<Rightarrow> epoch_manager \<times> validator_set" where
  "process_epoch_transition em vs =
     (let total_st = set_total_active_stake vs;
          vs1 = (if 0 < total_st
            then let total_reward = base_reward em * of_nat (active_count vs) in
              fold (\<lambda>v ws. if is_active_validator v
                           then update_first (\<lambda>w. vi_id w = vi_id v) (reward_validator total_reward total_st) ws
                           else ws) vs vs
            else vs)
      in (em\<lparr>current_epoch := current_epoch em + 1\<rparr>, vs1))"

section \<open>No validator is framed\<close>

lemma check_double_sign_Some:
  assumes "check_double_sign E a b = Some ev"
  shows "offender ev = bh_proposer a" "bh_proposer b = bh_proposer a" "bh_height b = bh_height a"
    "header_signed E a" "header_signed E b" "block_hash E a \<noteq> block_hash E b"
    "bh_parent_hash a \<noteq> bh_parent_hash b \<or> bh_transactions_root a \<noteq> bh_transactions_root b \<or>
     bh_state_root a \<noteq> bh_state_root b"
  using assms by (auto simp: check_double_sign_def header_signed_def split: if_splits)

lemma missed_count:
  assumes "find (\<lambda>v. vi_id v = i) vs = Some v"
  shows "find (\<lambda>v. vi_id v = i) (snd (record_missed_block vs i)) = Some (v\<lparr>missed_blocks := missed_blocks v + 1\<rparr>)"
    and "fst (record_missed_block vs i) \<noteq> None \<longleftrightarrow> DOWNTIME_THRESHOLD \<le> missed_blocks v + 1"
    and "find (\<lambda>v. vi_id v = i) (reset_missed vs i) = Some (v\<lparr>missed_blocks := 0\<rparr>)"
  using find_SomeD [OF assms]
  by (simp_all add: record_missed_block_def reset_missed_def Let_def assms find_update_first_same)

text \<open>A validator is accused of downtime after exactly a hundred missed slots in a row.\<close>

lemma downtime_after_threshold:
  assumes "find (\<lambda>v. vi_id v = i) vs = Some v" "missed_blocks v = 0" "n < 2 ^ 63"
  shows "fst (record_missed_block (((\<lambda>vs. snd (record_missed_block vs i)) ^^ n) vs) i) \<noteq> None \<longleftrightarrow> 99 \<le> n"
proof -
  have step: "find (\<lambda>v. vi_id v = i) (((\<lambda>vs. snd (record_missed_block vs i)) ^^ n) vs) =
      Some (v\<lparr>missed_blocks := of_nat n\<rparr>)" for n
    using assms(1,2) by (induction n) (simp_all add: missed_count(1))
  have "unat (of_nat n + 1 :: u64) = n + 1"
    using assms(3) by (simp add: unat_add_exact unat_of_nat_exact)
  then show ?thesis
    unfolding missed_count(2) [OF step] by (simp add: DOWNTIME_THRESHOLD_def word_le_nat_alt)
qed

end
