(* ===== verification/Mempool.thy ===== *)
theory Mempool
  imports Chain_Types
begin

text \<open>
  The pool of pending operations, \<open>crates/solen-consensus/src/mempool.rs\<close>.  The ordered set of
  entries is a list in the order of \<open>MempoolEntry::cmp\<close> with the set's insertion; the hash set of
  seen keys is a set and the hash map of counts a map.  Proved here: the three views of the pool stay
  consistent, its limits hold, and it hands out the highest fees first.
\<close>

section \<open>The ordered entries\<close>

definition MAX_OPS_PER_SENDER :: nat where "MAX_OPS_PER_SENDER = 64"

definition MAX_OP_SIZE :: nat where "MAX_OP_SIZE = 8 * 1024 * 1024"

definition entry_less :: "user_operation \<Rightarrow> user_operation \<Rightarrow> bool" where
  "entry_less a b \<longleftrightarrow>
     max_fee b < max_fee a \<or>
     max_fee b = max_fee a \<and> (sender a < sender b \<or> sender a = sender b \<and> nonce a < nonce b)"

definition entry_key :: "user_operation \<Rightarrow> account_id \<times> u64" where
  "entry_key op = (sender op, nonce op)"

fun entries_insert :: "user_operation \<Rightarrow> user_operation list \<Rightarrow> user_operation list" where
  "entries_insert e [] = [e]"
| "entries_insert e (x # xs) =
     (if entry_less e x then e # x # xs
      else if entry_less x e then x # entries_insert e xs
      else x # xs)"

definition entries_remove :: "user_operation \<Rightarrow> user_operation list \<Rightarrow> user_operation list" where
  "entries_remove e = filter (\<lambda>x. entry_less e x \<or> entry_less x e)"

section \<open>The pool\<close>

record mempool =
  mp_entries :: "user_operation list"
  mp_seen :: "(account_id \<times> u64) set"
  mp_counts :: "account_id \<rightharpoonup> nat"
  mp_max_size :: nat

definition new_mempool :: "nat \<Rightarrow> mempool" where
  "new_mempool max_size = \<lparr>mp_entries = [], mp_seen = {}, mp_counts = Map.empty, mp_max_size = max_size\<rparr>"

fun action_size :: "action \<Rightarrow> nat" where
  "action_size (Deploy code _) = length code + 32"
| "action_size (Call _ method args) = length args + length method + 32"
| "action_size _ = 64"

definition op_size :: "user_operation \<Rightarrow> nat" where
  "op_size op = length (signature op) + sum_list (map action_size (actions op))"

definition count_down :: "account_id \<Rightarrow> (account_id \<rightharpoonup> nat) \<Rightarrow> (account_id \<rightharpoonup> nat)" where
  "count_down s counts =
     (case counts s of
        Some n \<Rightarrow> if n - 1 = 0 then counts(s := None) else counts(s \<mapsto> n - 1)
      | None \<Rightarrow> counts)"

definition forget_entry :: "user_operation \<Rightarrow> mempool \<Rightarrow> mempool" where
  "forget_entry e p = p\<lparr>mp_seen := mp_seen p - {entry_key e}, mp_counts := count_down (sender e) (mp_counts p)\<rparr>"

definition make_room :: "user_operation \<Rightarrow> mempool \<Rightarrow> mempool option" where
  "make_room op p =
     (if mp_max_size p \<le> length (mp_entries p)
      then (if mp_entries p = [] then None
            else let lowest = last (mp_entries p) in
                 if max_fee lowest < max_fee op
                 then Some (forget_entry lowest (p\<lparr>mp_entries := butlast (mp_entries p)\<rparr>))
                 else None)
      else Some p)"

definition submit_op :: "user_operation \<Rightarrow> mempool \<Rightarrow> bool \<times> mempool" where
  "submit_op op p =
     (if signature op = [0xFF] then (False, p)
      else if MAX_OP_SIZE < op_size op then (False, p)
      else case make_room op p of
        None \<Rightarrow> (False, p)
      | Some q \<Rightarrow>
          let n = (case mp_counts q (sender op) of Some n \<Rightarrow> n | None \<Rightarrow> 0) in
          if MAX_OPS_PER_SENDER \<le> n then (False, q)
          else if entry_key op \<in> mp_seen q then (False, q)
          else (True, q\<lparr>mp_seen := insert (entry_key op) (mp_seen q),
                        mp_entries := entries_insert op (mp_entries q),
                        mp_counts := (mp_counts q)(sender op \<mapsto> n + 1)\<rparr>))"

definition clear_pool :: "mempool \<Rightarrow> mempool" where
  "clear_pool p = p\<lparr>mp_entries := [], mp_seen := {}, mp_counts := Map.empty\<rparr>"

fun drain_ops :: "nat \<Rightarrow> mempool \<Rightarrow> user_operation list \<times> mempool" where
  "drain_ops 0 p = ([], p)"
| "drain_ops (Suc n) p =
     (case mp_entries p of
        [] \<Rightarrow> ([], p)
      | e # es \<Rightarrow>
          let (ops, q) = drain_ops n (forget_entry e (p\<lparr>mp_entries := es\<rparr>)) in (e # ops, q))"

definition remove_one :: "user_operation \<Rightarrow> mempool \<Rightarrow> mempool" where
  "remove_one op p =
     (if entry_key op \<in> mp_seen p then
        let q = p\<lparr>mp_seen := mp_seen p - {entry_key op}\<rparr> in
        (case find (\<lambda>e. sender e = sender op \<and> nonce e = nonce op) (mp_entries q) of
           Some e \<Rightarrow> q\<lparr>mp_entries := entries_remove e (mp_entries q),
                       mp_counts := count_down (sender op) (mp_counts q)\<rparr>
         | None \<Rightarrow> q)
      else p)"

definition remove_finalized :: "user_operation list \<Rightarrow> mempool \<Rightarrow> mempool" where
  "remove_finalized ops p = fold remove_one ops p"

definition pending_count_for_sender :: "mempool \<Rightarrow> account_id \<Rightarrow> nat" where
  "pending_count_for_sender p s = (case mp_counts p s of Some n \<Rightarrow> n | None \<Rightarrow> 0)"

section \<open>Consistency\<close>

definition sender_count :: "user_operation list \<Rightarrow> account_id \<Rightarrow> nat" where
  "sender_count es s = length (filter (\<lambda>e. sender e = s) es)"

definition counts_of :: "user_operation list \<Rightarrow> account_id \<rightharpoonup> nat" where
  "counts_of es s = (if sender_count es s = 0 then None else Some (sender_count es s))"

definition mempool_ok :: "mempool \<Rightarrow> bool" where
  "mempool_ok p \<longleftrightarrow>
     sorted_wrt entry_less (mp_entries p) \<and> distinct (map entry_key (mp_entries p)) \<and>
     mp_seen p = entry_key ` set (mp_entries p) \<and> mp_counts p = counts_of (mp_entries p) \<and>
     length (mp_entries p) \<le> mp_max_size p \<and>
     (\<forall>s. sender_count (mp_entries p) s \<le> MAX_OPS_PER_SENDER) \<and>
     (\<forall>e \<in> set (mp_entries p). signature e \<noteq> [0xFF] \<and> op_size e \<le> MAX_OP_SIZE)"

lemma entry_less_trans: "entry_less a b \<Longrightarrow> entry_less b c \<Longrightarrow> entry_less a c"
  unfolding entry_less_def by auto

lemma entry_less_total: "entry_key a \<noteq> entry_key b \<Longrightarrow> entry_less a b \<or> entry_less b a"
  unfolding entry_less_def entry_key_def by auto

lemma entry_less_irrefl [simp]: "\<not> entry_less a a"
  by (simp add: entry_less_def)

lemma sender_count_simps [simp]:
  "sender_count [] s = 0"
  "sender_count (e # es) s = (if sender e = s then Suc (sender_count es s) else sender_count es s)"
  "sender_count (es @ fs) s = sender_count es s + sender_count fs s"
  by (simp_all add: sender_count_def)

lemma count_down_of:
  "sender_count es (sender e) = Suc n \<Longrightarrow> (\<And>s. sender_count fs s = (if s = sender e then n else sender_count es s)) \<Longrightarrow>
   count_down (sender e) (counts_of es) = counts_of fs"
  by (auto simp: count_down_def counts_of_def fun_eq_iff)

lemma insert_properties_all:
  "sorted_wrt entry_less es \<Longrightarrow> entry_key e \<notin> entry_key ` set es \<Longrightarrow>
   set (entries_insert e es) = insert e (set es) \<and> length (entries_insert e es) = Suc (length es) \<and>
   (\<forall>s. sender_count (entries_insert e es) s = sender_count (e # es) s) \<and>
   sorted_wrt entry_less (entries_insert e es) \<and>
   (distinct (map entry_key es) \<longrightarrow> distinct (map entry_key (entries_insert e es)))"
proof (induction es)
  case (Cons x xs)
  have "entry_less e x \<or> entry_less x e"
    using Cons.prems(2) by (intro entry_less_total) auto
  with Cons show ?case
    by (auto intro: entry_less_trans)
qed simp

lemma insert_properties:
  assumes "entry_key e \<notin> entry_key ` set es" "sorted_wrt entry_less es"
  shows "set (entries_insert e es) = insert e (set es)" "length (entries_insert e es) = Suc (length es)"
    "sender_count (entries_insert e es) s = sender_count (e # es) s" "sorted_wrt entry_less (entries_insert e es)"
    "distinct (map entry_key es) \<Longrightarrow> distinct (map entry_key (entries_insert e es))"
  using insert_properties_all [OF assms(2,1)] by simp_all

lemma remove_properties:
  assumes "e \<in> set es" "sorted_wrt entry_less es"
  shows "\<exists>us vs. es = us @ e # vs \<and> entries_remove e es = us @ vs"
proof -
  obtain us vs where es: "es = us @ e # vs"
    using assms(1) by (meson split_list)
  then have "filter (\<lambda>x. entry_less e x \<or> entry_less x e) us = us"
    "filter (\<lambda>x. entry_less e x \<or> entry_less x e) vs = vs"
    using assms(2) by (simp_all add: filter_id_conv sorted_wrt_append)
  then show ?thesis
    unfolding es entries_remove_def by (intro exI [of _ us] exI [of _ vs]) simp
qed

text \<open>Taking one entry out of a consistent pool.\<close>

lemma mempool_ok_split:
  assumes "mempool_ok p" "mp_entries p = us @ e # vs"
  shows "mempool_ok (p\<lparr>mp_entries := us @ vs, mp_seen := mp_seen p - {entry_key e},
      mp_counts := count_down (sender e) (mp_counts p)\<rparr>)"
proof -
  have "count_down (sender e) (counts_of (us @ e # vs)) = counts_of (us @ vs)"
    by (rule count_down_of [where n = "sender_count (us @ vs) (sender e)"]) simp_all
  moreover have "sender_count (us @ vs) s \<le> MAX_OPS_PER_SENDER" for s
  proof -
    have "sender_count (us @ e # vs) s \<le> MAX_OPS_PER_SENDER"
      using assms by (simp add: mempool_ok_def)
    then show ?thesis by (simp split: if_splits)
  qed
  ultimately show ?thesis
    using assms unfolding mempool_ok_def by (auto simp: sorted_wrt_append)
qed

lemma mempool_ok_make_room:
  assumes "mempool_ok p" "make_room op p = Some q"
  shows "mempool_ok q \<and> length (mp_entries q) < mp_max_size q"
proof (cases "mp_max_size p \<le> length (mp_entries p)")
  case True
  then have ne: "mp_entries p \<noteq> []" and q: "q = forget_entry (last (mp_entries p)) (p\<lparr>mp_entries := butlast (mp_entries p)\<rparr>)"
    using assms(2) by (auto simp: make_room_def Let_def split: if_splits)
  have "length (mp_entries p) \<le> mp_max_size p" "0 < length (mp_entries p)"
    using assms(1) ne by (simp_all add: mempool_ok_def)
  then have len: "length (butlast (mp_entries p)) < mp_max_size p"
    unfolding length_butlast by linarith
  have "mp_entries p = butlast (mp_entries p) @ last (mp_entries p) # []"
    using ne by simp
  from mempool_ok_split [OF assms(1) this] len show ?thesis
    by (simp only: q forget_entry_def mempool.simps append_Nil2) simp
next
  case False
  then show ?thesis
    using assms by (simp add: make_room_def)
qed

definition add_entry :: "user_operation \<Rightarrow> mempool \<Rightarrow> mempool" where
  "add_entry op q =
     q\<lparr>mp_seen := insert (entry_key op) (mp_seen q), mp_entries := entries_insert op (mp_entries q),
       mp_counts := (mp_counts q)(sender op \<mapsto> pending_count_for_sender q (sender op) + 1)\<rparr>"

lemma submit_op_cases:
  "submit_op op p =
     (if signature op = [0xFF] \<or> MAX_OP_SIZE < op_size op then (False, p)
      else case make_room op p of
        None \<Rightarrow> (False, p)
      | Some q \<Rightarrow>
          if MAX_OPS_PER_SENDER \<le> pending_count_for_sender q (sender op) \<or> entry_key op \<in> mp_seen q
          then (False, q) else (True, add_entry op q))"
  by (simp add: submit_op_def add_entry_def pending_count_for_sender_def Let_def split: option.split)

lemma pending_count_ok: "mempool_ok q \<Longrightarrow> pending_count_for_sender q s = sender_count (mp_entries q) s"
  by (simp add: mempool_ok_def pending_count_for_sender_def counts_of_def)

lemma mempool_ok_add:
  assumes q: "mempool_ok q" "length (mp_entries q) < mp_max_size q"
    and new: "entry_key op \<notin> mp_seen q" "\<not> MAX_OPS_PER_SENDER \<le> pending_count_for_sender q (sender op)"
    and op: "signature op \<noteq> [0xFF]" "op_size op \<le> MAX_OP_SIZE"
  shows "mempool_ok (add_entry op q)"
proof -
  have keys: "entry_key op \<notin> entry_key ` set (mp_entries q)" and s: "sorted_wrt entry_less (mp_entries q)"
    using q(1) new(1) by (simp_all add: mempool_ok_def)
  note ins = insert_properties [OF keys s]
  have "(mp_counts q)(sender op \<mapsto> pending_count_for_sender q (sender op) + 1) =
      counts_of (entries_insert op (mp_entries q))"
    using q(1) unfolding pending_count_ok [OF q(1)] mempool_ok_def
    by (auto simp: fun_eq_iff counts_of_def ins(3))
  moreover have "sender_count (entries_insert op (mp_entries q)) i \<le> MAX_OPS_PER_SENDER" for i
    using q(1) new(2) unfolding pending_count_ok [OF q(1)] mempool_ok_def by (auto simp: ins(3) not_le Suc_le_eq)
  ultimately show ?thesis
    using q op unfolding mempool_ok_def add_entry_def by (simp add: ins(1,2,4,5))
qed

lemma mempool_ok_submit:
  assumes "mempool_ok p"
  shows "mempool_ok (snd (submit_op op p))"
proof (cases "make_room op p")
  case (Some q)
  note room = mempool_ok_make_room [OF assms Some]
  show ?thesis
    using assms room mempool_ok_add [of q op] by (simp add: submit_op_cases Some not_less)
qed (simp add: submit_op_cases assms)

lemma mempool_ok_drain:
  "mempool_ok p \<Longrightarrow> mempool_ok (snd (drain_ops n p)) \<and> fst (drain_ops n p) = take n (mp_entries p) \<and>
     mp_entries (snd (drain_ops n p)) = drop n (mp_entries p)"
proof (induction n arbitrary: p)
  case (Suc n)
  show ?case
  proof (cases "mp_entries p")
    case (Cons e es)
    have "mempool_ok (forget_entry e (p\<lparr>mp_entries := es\<rparr>))"
      using mempool_ok_split [OF Suc.prems, of "[]" e es] Cons by (simp add: forget_entry_def)
    from Suc.IH [OF this] show ?thesis
      by (simp add: Cons Let_def split_def) (simp add: forget_entry_def)
  qed (simp add: Suc.prems)
qed simp

lemma mempool_ok_remove_one:
  assumes "mempool_ok p"
  shows "mempool_ok (remove_one op p) \<and>
    entry_key ` set (mp_entries (remove_one op p)) = entry_key ` set (mp_entries p) - {entry_key op}"
proof (cases "entry_key op \<in> mp_seen p")
  case True
  have "mp_seen p = entry_key ` set (mp_entries p)"
    using assms by (simp add: mempool_ok_def)
  with True obtain e where e: "find (\<lambda>e. sender e = sender op \<and> nonce e = nonce op) (mp_entries p) = Some e"
    by (cases "find (\<lambda>e. sender e = sender op \<and> nonce e = nonce op) (mp_entries p)")
      (auto simp: entry_key_def find_None_iff)
  then have mem: "e \<in> set (mp_entries p)" and key: "entry_key e = entry_key op"
    by (auto simp: find_Some_iff entry_key_def)
  obtain us vs where split: "mp_entries p = us @ e # vs" "entries_remove e (mp_entries p) = us @ vs"
    using remove_properties [OF mem] assms by (auto simp: mempool_ok_def)
  have "remove_one op p = p\<lparr>mp_entries := us @ vs, mp_seen := mp_seen p - {entry_key e},
      mp_counts := count_down (sender e) (mp_counts p)\<rparr>"
    using True e key split by (simp add: remove_one_def Let_def entry_key_def)
  moreover have "distinct (map entry_key (us @ e # vs))"
    using assms split(1) unfolding mempool_ok_def by metis
  then have "entry_key ` set (us @ vs) = entry_key ` set (us @ e # vs) - {entry_key op}"
    unfolding key [symmetric] by auto
  ultimately show ?thesis
    using mempool_ok_split [OF assms split(1)] split(1) by simp
next
  case False
  moreover have "mp_seen p = entry_key ` set (mp_entries p)"
    using assms by (simp add: mempool_ok_def)
  ultimately show ?thesis
    using assms by (simp add: remove_one_def)
qed

lemma mempool_ok_remove_finalized:
  "mempool_ok p \<Longrightarrow> mempool_ok (remove_finalized ops p) \<and>
     entry_key ` set (mp_entries (remove_finalized ops p)) = entry_key ` set (mp_entries p) - entry_key ` set ops"
  unfolding remove_finalized_def
proof (induction ops arbitrary: p)
  case (Cons op ops)
  then show ?case
    using mempool_ok_remove_one [OF Cons.prems, of op] by auto
qed simp

inductive mempool_run :: "nat \<Rightarrow> mempool \<Rightarrow> bool" for n where
  start: "mempool_run n (new_mempool n)"
| submit: "mempool_run n p \<Longrightarrow> mempool_run n (snd (submit_op op p))"
| drain: "mempool_run n p \<Longrightarrow> mempool_run n (snd (drain_ops k p))"
| finalized: "mempool_run n p \<Longrightarrow> mempool_run n (remove_finalized ops p)"
| clear: "mempool_run n p \<Longrightarrow> mempool_run n (clear_pool p)"

lemma mempool_ok_run: "mempool_run n p \<Longrightarrow> mempool_ok p"
proof (induction rule: mempool_run.induct)
  case start
  then show ?case by (simp add: mempool_ok_def new_mempool_def counts_of_def fun_eq_iff)
next
  case (clear p)
  then show ?case by (simp add: mempool_ok_def clear_pool_def counts_of_def fun_eq_iff)
qed (simp_all add: mempool_ok_submit mempool_ok_drain mempool_ok_remove_finalized)

lemma sorted_fees:
  "sorted_wrt entry_less es \<Longrightarrow> a \<in> set (take k es) \<Longrightarrow> b \<in> set (drop k es) \<Longrightarrow> max_fee b \<le> max_fee a"
  by (metis append_take_drop_id entry_less_def order.order_iff_strict order_refl sorted_wrt_append)

text \<open>C36: the pool is consistent and fair after any history of submissions, drains, finalized blocks and
  clears.  Its entries, its set of seen keys and its counts per sender describe the same operations; it
  holds at most one operation per sender and nonce, at most the maximum, at most 64 per sender, and no
  operation with the system marker; draining hands out the highest fees; after a block is finalized no
  pending operation has the sender and nonce of one of its operations.\<close>

theorem mempool_consistent:
  assumes "mempool_run n p"
  shows "mempool_ok p \<and>
    (\<forall>a \<in> set (fst (drain_ops k p)). \<forall>b \<in> set (mp_entries (snd (drain_ops k p))). max_fee b \<le> max_fee a) \<and>
    length (fst (drain_ops k p)) = min k (length (mp_entries p)) \<and>
    (\<forall>e \<in> set (mp_entries (remove_finalized ops p)). \<forall>op \<in> set ops. sender e \<noteq> sender op \<or> nonce e \<noteq> nonce op)"
proof -
  note ok = mempool_ok_run [OF assms]
  have "entry_key e \<notin> entry_key ` set ops" if "e \<in> set (mp_entries (remove_finalized ops p))" for e
    using that mempool_ok_remove_finalized [OF ok, of ops] by blast
  moreover have "sorted_wrt entry_less (mp_entries p)"
    using ok by (simp add: mempool_ok_def)
  ultimately show ?thesis
    using ok mempool_ok_drain [OF ok, of k] by (fastforce simp: entry_key_def dest: sorted_fees)
qed

definition sample_pending :: "u64 \<Rightarrow> u128 \<Rightarrow> user_operation" where
  "sample_pending n fee = \<lparr>sender = 7, nonce = n, actions = [], max_fee = fee, signature = []\<rparr>"

text \<open>A full pool of one: the second, better paying operation evicts the first.\<close>

theorem mempool_consistent_witness:
  "\<exists>p. mempool_run 1 p \<and> mp_entries p = [sample_pending 1 9] \<and> mempool_ok p \<and> length (fst (drain_ops 5 p)) = 1"
proof -
  let ?p = "snd (submit_op (sample_pending 1 9) (snd (submit_op (sample_pending 0 5) (new_mempool 1))))"
  have run: "mempool_run 1 ?p"
    by (intro mempool_run.intros)
  have "mp_entries ?p = [sample_pending 1 9]"
    by (simp add: submit_op_def new_mempool_def sample_pending_def op_size_def MAX_OP_SIZE_def make_room_def
        MAX_OPS_PER_SENDER_def entry_key_def forget_entry_def Let_def count_down_def)
  with run obtain p where p: "mempool_run 1 p" "mp_entries p = [sample_pending 1 9]"
    by blast
  then show ?thesis
    using mempool_consistent [OF p(1), of 5 "[]"] by (intro exI [of _ p]) (simp only: p, simp)
qed

end
