(* ===== verification/Intent_Pool.thy ===== *)
theory Intent_Pool
  imports System_Calls
begin

text \<open>
  Intents before they reach the chain: the types, the pool and the built-in solver of
  \<open>crates/solen-intents/src\<close>, and the encoding of a chosen solution as the arguments of the
  \<open>fulfill\<close> system call, which \<open>ConsensusEngine::produce_block\<close> performs.  Hash maps are association
  lists.  Proved here: the encoding is read back by the executor as the solution's transfers and the
  intent's constraints, so a settlement that succeeds satisfies every constraint of the intent.
\<close>

section \<open>Types\<close>

datatype constraint =
    MinBalance account_id u128
  | MaxSpend account_id u128
  | RequireTransfer account_id account_id u128
  | RequireCall account_id string
  | CrossChainSwap u128 u128 u64 hash hash
  | is_CustomConstraint: CustomConstraint account_id bytes

record intent =
  in_id :: u64
  in_sender :: account_id
  in_constraints :: "constraint list"
  in_max_fee :: u128
  in_expiry_height :: u64
  in_signature :: bytes
  in_tip :: u128

datatype intent_status = IPending | IMatched | IFulfilled | IExpired | ICancelled

record solution =
  so_intent_id :: u64
  so_solver :: account_id
  so_operations :: "user_operation list"
  so_claimed_tip :: u128
  so_score :: u64
  so_signature :: bytes

datatype pool_error =
    PoolFull
  | IntentNotFound u64
  | AlreadyFulfilled
  | InvalidSolverSignature
  | IntentExpired
  | NoSolution u64

section \<open>The pool\<close>

record intent_pool =
  ip_intents :: "(u64 \<times> intent \<times> intent_status) list"
  ip_solutions :: "(u64 \<times> solution list) list"
  ip_next_id :: u64
  ip_max_size :: nat

definition new_intent_pool :: "nat \<Rightarrow> intent_pool" where
  "new_intent_pool n = \<lparr>ip_intents = [], ip_solutions = [], ip_next_id = 0, ip_max_size = n\<rparr>"

definition submit_intent :: "intent \<Rightarrow> intent_pool \<Rightarrow> (pool_error + u64) \<times> intent_pool" where
  "submit_intent i p =
     (if ip_max_size p \<le> length (ip_intents p) then (Inl PoolFull, p)
      else let id = ip_next_id p in
           (Inr id, p\<lparr>ip_next_id := id + 1,
                      ip_intents := AList.update id (i\<lparr>in_id := id\<rparr>, IPending) (ip_intents p)\<rparr>))"

definition solution_message :: "solution \<Rightarrow> bytes" where
  "solution_message so = le_bytes 8 (so_intent_id so) @ id_bytes (so_solver so) @ le_bytes 16 (so_claimed_tip so)"

definition MAX_SOLUTIONS_PER_INTENT :: nat where "MAX_SOLUTIONS_PER_INTENT = 50"

definition submit_solution ::
    "'a sys_env_scheme \<Rightarrow> solution \<Rightarrow> intent_pool \<Rightarrow> (pool_error + unit) \<times> intent_pool" where
  "submit_solution E so p =
     (if length (so_signature so) \<noteq> 64 then (Inl InvalidSolverSignature, p)
      else if \<not> ed25519_verify E (so_solver so) (solution_message so) (so_signature so)
      then (Inl InvalidSolverSignature, p)
      else case map_of (ip_intents p) (so_intent_id so) of
        None \<Rightarrow> (Inl (IntentNotFound (so_intent_id so)), p)
      | Some (_, status) \<Rightarrow>
          if status = IFulfilled then (Inl AlreadyFulfilled, p)
          else
            let entry = (case map_of (ip_solutions p) (so_intent_id so) of Some ss \<Rightarrow> ss | None \<Rightarrow> []);
                q = p\<lparr>ip_solutions := AList.update (so_intent_id so) entry (ip_solutions p)\<rparr> in
            if MAX_SOLUTIONS_PER_INTENT \<le> length entry then (Inl PoolFull, q)
            else (Inr (), q\<lparr>ip_solutions := AList.update (so_intent_id so) (entry @ [so]) (ip_solutions q)\<rparr>))"

text \<open>\<open>Iterator::max_by\<close> keeps the later of two equal elements.\<close>

definition solution_better :: "solution \<Rightarrow> solution \<Rightarrow> bool" where
  "solution_better a b \<longleftrightarrow>
     so_score b < so_score a \<or> so_score a = so_score b \<and> so_claimed_tip a < so_claimed_tip b"

definition select_best_solution :: "intent_pool \<Rightarrow> u64 \<Rightarrow> pool_error + solution" where
  "select_best_solution p i =
     (case map_of (ip_solutions p) i of
        None \<Rightarrow> Inl (NoSolution i)
      | Some [] \<Rightarrow> Inl (NoSolution i)
      | Some (s # ss) \<Rightarrow> Inr (foldl (\<lambda>best x. if solution_better best x then best else x) s ss))"

definition fulfill_intent :: "u64 \<Rightarrow> intent_pool \<Rightarrow> (pool_error + unit) \<times> intent_pool" where
  "fulfill_intent i p =
     (case map_of (ip_intents p) i of
        None \<Rightarrow> (Inl (IntentNotFound i), p)
      | Some (x, _) \<Rightarrow> (Inr (), p\<lparr>ip_intents := AList.update i (x, IFulfilled) (ip_intents p)\<rparr>))"

definition cancel_intent :: "u64 \<Rightarrow> account_id \<Rightarrow> intent_pool \<Rightarrow> (pool_error + unit) \<times> intent_pool" where
  "cancel_intent i who p =
     (case map_of (ip_intents p) i of
        None \<Rightarrow> (Inl (IntentNotFound i), p)
      | Some (x, _) \<Rightarrow>
          if in_sender x \<noteq> who then (Inl (IntentNotFound i), p)
          else (Inr (), p\<lparr>ip_intents := AList.update i (x, ICancelled) (ip_intents p)\<rparr>))"

definition is_past :: "u64 \<Rightarrow> intent \<times> intent_status \<Rightarrow> bool" where
  "is_past height e \<longleftrightarrow> snd e = IPending \<and> in_expiry_height (fst e) < height"

definition expire_intents :: "u64 \<Rightarrow> intent_pool \<Rightarrow> nat \<times> intent_pool" where
  "expire_intents height p =
     (length (filter (\<lambda>(_, e). is_past height e) (ip_intents p)),
      p\<lparr>ip_intents := map (\<lambda>(i, e). (i, if is_past height e then (fst e, IExpired) else e)) (ip_intents p)\<rparr>)"

definition pending_intents :: "intent_pool \<Rightarrow> intent list" where
  "pending_intents p = sort_key in_id (map (fst \<circ> snd) (filter (\<lambda>(_, _, st). st = IPending) (ip_intents p)))"

section \<open>The built-in solver\<close>

definition required_transfers :: "constraint list \<Rightarrow> action list" where
  "required_transfers cs =
     concat (map (\<lambda>c. case c of RequireTransfer _ to m \<Rightarrow> [Transfer to m] | _ \<Rightarrow> []) cs)"

definition direct_solve :: "account_id \<Rightarrow> intent \<Rightarrow> solution option" where
  "direct_solve solver i =
     (if required_transfers (in_constraints i) = [] then None
      else Some \<lparr>so_intent_id = in_id i, so_solver = solver,
        so_operations = [\<lparr>sender = in_sender i, nonce = 0, actions = required_transfers (in_constraints i),
                          max_fee = in_max_fee i, signature = []\<rparr>],
        so_claimed_tip = in_tip i div 2, so_score = 100, so_signature = []\<rparr>)"

section \<open>Arguments of the settlement call\<close>

definition action_transfers :: "action list \<Rightarrow> (account_id \<times> u128) list" where
  "action_transfers as = concat (map (\<lambda>a. case a of Transfer to m \<Rightarrow> [(to, m)] | _ \<Rightarrow> []) as)"

definition solution_transfers :: "solution \<Rightarrow> (account_id \<times> u128) list" where
  "solution_transfers so = concat (map (action_transfers \<circ> actions) (so_operations so))"

fun encode_constraint :: "constraint \<Rightarrow> bytes" where
  "encode_constraint (MinBalance account m) = 0 # id_bytes account @ le_bytes 16 m"
| "encode_constraint (MaxSpend account m) = 1 # id_bytes account @ le_bytes 16 m"
| "encode_constraint (RequireTransfer frm to m) = 2 # id_bytes frm @ id_bytes to @ le_bytes 16 m"
| "encode_constraint (RequireCall target meth) =
     3 # id_bytes target @ le_bytes 4 (of_nat (length (as_bytes meth)) :: u32) @ as_bytes meth"
| "encode_constraint (CrossChainSwap input_amount min_output chain dest token) =
     4 # le_bytes 16 input_amount @ le_bytes 16 min_output @ le_bytes 8 chain @ id_bytes dest @ id_bytes token"
| "encode_constraint (CustomConstraint _ _) = []"

definition fulfill_args :: "intent \<Rightarrow> solution \<Rightarrow> bytes" where
  "fulfill_args i so =
     le_bytes 8 (in_id i) @ id_bytes (so_solver so) @ le_bytes 16 (so_claimed_tip so) @
     le_bytes 4 (of_nat (length (solution_transfers so)) :: u32) @
     concat (map (\<lambda>(to, m). id_bytes to @ le_bytes 16 m) (solution_transfers so)) @
     le_bytes 4 (of_nat (length (in_constraints i)) :: u32) @
     concat (map encode_constraint (in_constraints i))"

section \<open>What the executor checks of a constraint\<close>

text \<open>A minimum balance is checked in the state after the settlement, a maximal spend only when it names the
  caller, a required transfer by recipient and amount and whoever its sender is, and a swap by the amount sent to
  the bridge, whatever its output.  Required calls and custom constraints are not checked.\<close>

fun checked_part ::
    "'a ledger_env_scheme \<Rightarrow> account_id \<Rightarrow> (account_id \<times> u128) list \<Rightarrow> u128 \<Rightarrow> overlay_store
     \<Rightarrow> constraint \<Rightarrow> bool" where
  "checked_part E who transfers tot s (MinBalance account m) \<longleftrightarrow>
     m \<le> (case load_account E s account of Inr (Some a) \<Rightarrow> balance a | _ \<Rightarrow> 0)"
| "checked_part E who transfers tot s (MaxSpend account m) \<longleftrightarrow> (account = who \<longrightarrow> tot \<le> m)"
| "checked_part E who transfers tot s (RequireTransfer frm to m) \<longleftrightarrow> m \<le> transferred_to transfers to"
| "checked_part E who transfers tot s (RequireCall target meth) \<longleftrightarrow> True"
| "checked_part E who transfers tot s (CrossChainSwap input_amount min_output chain dest token) \<longleftrightarrow>
     input_amount \<le> transferred_to transfers BRIDGE_ADDRESS"
| "checked_part E who transfers tot s (CustomConstraint verifier data) \<longleftrightarrow> True"

definition encodable :: "constraint \<Rightarrow> bool" where
  "encodable c = (case c of RequireCall _ meth \<Rightarrow> length meth < 2 ^ 32 | _ \<Rightarrow> True)"

lemma read_here:
  "length pre = off \<Longrightarrow> id_or_zero (pre @ id_bytes a @ rest) off = a"
  "length pre = off \<Longrightarrow> read_account_id (pre @ id_bytes a @ rest) off = Some a"
  "length pre = off \<Longrightarrow> u128_or_zero (pre @ le_bytes 16 m @ rest) off = m"
  "length pre = off \<Longrightarrow> read_u128 (pre @ le_bytes 16 m @ rest) off = Some m"
  "length pre = off \<Longrightarrow> read_u64 (pre @ le_bytes 8 n @ rest) off = Some n"
  "length pre = off \<Longrightarrow> k < 2 ^ 32 \<Longrightarrow> u32_at (pre @ le_bytes 4 (of_nat k :: u32) @ rest) off = k"
  by (auto simp: id_or_zero_def u128_or_zero_def read_account_id_def read_u128_def read_u64_def u32_at_def
      of_le_bytes_le_bytes unat_of_nat_exact)

lemma parse_transfers_encoded:
  "parse_transfers (pre @ concat (map (\<lambda>(to, m). id_bytes to @ le_bytes 16 m) ts) @ rest) (length pre) (length ts) = Inr ts"
proof (induction ts arbitrary: pre)
  case (Cons t ts)
  obtain to m where t: "t = (to, m)" by (metis surj_pair)
  let ?tail = "concat (map (\<lambda>(to, m). id_bytes to @ le_bytes 16 m) ts) @ rest"
  have "read_account_id (pre @ id_bytes to @ le_bytes 16 m @ ?tail) (length pre) = Some to"
    "read_u128 (pre @ id_bytes to @ le_bytes 16 m @ ?tail) (length pre + 32) = Some m"
    using read_here(4) [of "pre @ id_bytes to" "length pre + 32" m ?tail] by (simp_all add: read_here(2))
  then show ?case
    using Cons.IH [of "pre @ id_bytes to @ le_bytes 16 m"] by (simp add: t add.assoc)
qed simp

text \<open>The decoder's verdict on the encoding of a constraint list, constraint by constraint.\<close>

lemma check_encoded_step:
  assumes "encodable c" "\<not> is_CustomConstraint c"
  shows "check_constraints E who transfers tot (pre @ encode_constraint c @ rest) s (length pre) (Suc n) = None \<longleftrightarrow>
    checked_part E who transfers tot s c \<and>
    check_constraints E who transfers tot (pre @ encode_constraint c @ rest) s (length (pre @ encode_constraint c)) n = None"
proof (cases c)
  case (MinBalance account m)
  then have "id_or_zero (pre @ encode_constraint c @ rest) (Suc (length pre)) = account"
    "u128_or_zero (pre @ encode_constraint c @ rest) (33 + length pre) = m"
    using read_here(1) [of "pre @ [0]" "Suc (length pre)" account "le_bytes 16 m @ rest"]
      read_here(3) [of "pre @ 0 # id_bytes account" "33 + length pre" m rest] by simp_all
  then show ?thesis
    by (auto simp: MinBalance nth_append Let_def violated_def not_less add.assoc add.commute [of "length pre"] split: if_splits)
next
  case (MaxSpend account m)
  then have "id_or_zero (pre @ encode_constraint c @ rest) (Suc (length pre)) = account"
    "u128_or_zero (pre @ encode_constraint c @ rest) (33 + length pre) = m"
    using read_here(1) [of "pre @ [1]" "Suc (length pre)" account "le_bytes 16 m @ rest"]
      read_here(3) [of "pre @ 1 # id_bytes account" "33 + length pre" m rest] by simp_all
  then show ?thesis
    by (auto simp: MaxSpend nth_append Let_def violated_def not_less add.assoc add.commute [of "length pre"] split: if_splits)
next
  case (RequireTransfer frm to m)
  then have "id_or_zero (pre @ encode_constraint c @ rest) (33 + length pre) = to"
    "u128_or_zero (pre @ encode_constraint c @ rest) (65 + length pre) = m"
    using read_here(1) [of "pre @ 2 # id_bytes frm" "33 + length pre" to "le_bytes 16 m @ rest"]
      read_here(3) [of "pre @ 2 # id_bytes frm @ id_bytes to" "65 + length pre" m rest] by simp_all
  then show ?thesis
    by (auto simp: RequireTransfer nth_append Let_def violated_def not_less add.assoc add.commute [of "length pre"] split: if_splits)
next
  case (RequireCall target meth)
  then have "u32_at (pre @ encode_constraint c @ rest) (33 + length pre) = length meth"
    using assms(1) read_here(6) [of "pre @ 3 # id_bytes target" "33 + length pre" "length meth" "as_bytes meth @ rest"]
    by (simp add: encodable_def ascii_def)
  then show ?thesis
    by (auto simp: RequireCall nth_append Let_def ascii_def add.assoc add.commute [of "length pre"] split: if_splits)
next
  case (CrossChainSwap input_amount min_output chain dest token)
  then have "u128_or_zero (pre @ encode_constraint c @ rest) (Suc (length pre)) = input_amount"
    using read_here(3) [of "pre @ [4]" "Suc (length pre)" input_amount
        "le_bytes 16 min_output @ le_bytes 8 chain @ id_bytes dest @ id_bytes token @ rest"] by simp
  then show ?thesis
    by (auto simp: CrossChainSwap nth_append Let_def violated_def not_less add.assoc add.commute [of "length pre"] split: if_splits)
qed (use assms(2) in simp)

lemma check_encoded:
  assumes "\<forall>c \<in> set cs. encodable c" "length (filter (\<lambda>c. \<not> is_CustomConstraint c) cs) \<le> n"
  shows "check_constraints E who transfers tot (pre @ concat (map encode_constraint cs)) s (length pre) n = None \<longleftrightarrow>
    (\<forall>c \<in> set cs. checked_part E who transfers tot s c)"
  using assms
proof (induction cs arbitrary: pre n)
  case (Cons c cs)
  show ?case
  proof (cases "is_CustomConstraint c")
    case True
    then show ?thesis
      using Cons.IH [of n pre] Cons.prems by (cases c) simp_all
  next
    case False
    then obtain k where n: "n = Suc k"
      using Cons.prems(2) by (cases n) simp_all
    show ?thesis
      using Cons.IH [of k "pre @ encode_constraint c"] Cons.prems False
        check_encoded_step [of c E who transfers tot pre "concat (map encode_constraint cs)" s k]
      by (simp add: n)
  qed
next
  case Nil
  then show ?case by (cases n) simp_all
qed

lemma length_transfers_encoded [simp]:
  "length (concat (map (\<lambda>(to, m). id_bytes to @ le_bytes 16 m) ts)) = length ts * 48"
  by (induction ts) auto

lemma fulfill_args_read:
  assumes "length (solution_transfers so) < 2 ^ 32"
  shows "60 \<le> length (fulfill_args i so)" "read_u64 (fulfill_args i so) 0 = Some (in_id i)"
    "read_account_id (fulfill_args i so) 8 = Some (so_solver so)"
    "u128_or_zero (fulfill_args i so) 40 = so_claimed_tip so"
    "u32_at (fulfill_args i so) 56 = length (solution_transfers so)"
    "parse_transfers (fulfill_args i so) 60 (length (solution_transfers so)) = Inr (solution_transfers so)"
  using read_here(2) [of "le_bytes 8 (in_id i)" 8] read_here(5) [of "[]" 0]
    read_here(3) [of "le_bytes 8 (in_id i) @ id_bytes (so_solver so)" 40]
    read_here(6) [of "le_bytes 8 (in_id i) @ id_bytes (so_solver so) @ le_bytes 16 (so_claimed_tip so)" 56, OF _ assms]
    parse_transfers_encoded [of "le_bytes 8 (in_id i) @ id_bytes (so_solver so) @ le_bytes 16 (so_claimed_tip so) @
      le_bytes 4 (of_nat (length (solution_transfers so)) :: u32)" "solution_transfers so"]
  by (simp_all add: fulfill_args_def)

lemma fulfill_args_constraints:
  assumes "\<forall>c \<in> set (in_constraints i). encodable c" "length (in_constraints i) < 2 ^ 32"
  shows "verify_constraints E who transfers tot (fulfill_args i so) (60 + length (solution_transfers so) * 48) s = None \<longleftrightarrow>
    (\<forall>c \<in> set (in_constraints i). checked_part E who transfers tot s c)"
proof -
  let ?head = "le_bytes 8 (in_id i) @ id_bytes (so_solver so) @ le_bytes 16 (so_claimed_tip so) @
     le_bytes 4 (of_nat (length (solution_transfers so)) :: u32) @
     concat (map (\<lambda>(to, m). id_bytes to @ le_bytes 16 m) (solution_transfers so))"
  let ?pre = "?head @ le_bytes 4 (of_nat (length (in_constraints i)) :: u32)"
  have n: "u32_at (fulfill_args i so) (60 + length (solution_transfers so) * 48) = length (in_constraints i)"
    using read_here(6) [of ?head "60 + length (solution_transfers so) * 48" "length (in_constraints i)", OF _ assms(2)]
    by (simp add: fulfill_args_def)
  have pre: "fulfill_args i so = ?pre @ concat (map encode_constraint (in_constraints i))"
    "length ?pre = 60 + length (solution_transfers so) * 48 + 4"
    by (simp_all add: fulfill_args_def)
  have "60 + length (solution_transfers so) * 48 + 4 \<le> length (fulfill_args i so)"
    unfolding pre(1) length_append [of ?pre] pre(2) by simp
  then show ?thesis
    unfolding verify_constraints_def n
    using check_encoded [OF assms(1), of "length (in_constraints i)" E who transfers tot ?pre s]
    unfolding pre(2) pre(1) [symmetric] by simp
qed

text \<open>C37: the executor settles an intent exactly when its owner had authorised it, the owner's balance covers
  the solution's transfers and the claimed tip, these are all executed, and what the executor checks of each
  constraint holds in the resulting state: minimum balances, maximal spends of the owner, the amounts of required
  transfers and of bridged inputs.  The arguments are those the proposer builds from the intent and the solution.
  Required calls and custom constraints play no part in the decision.\<close>

theorem intent_settled_as_asked:
  assumes "call_fulfill E (in_sender i) (fulfill_args i so) s = (r, s')"
    and "\<forall>c \<in> set (in_constraints i). encodable c" "length (in_constraints i) < 2 ^ 32"
    and "length (solution_transfers so) < 2 ^ 32"
  shows "sc_error r = None \<longleftrightarrow>
    intent_authorized E s (in_id i) (in_sender i) \<and>
    (\<exists>a. load_account E s (in_sender i) = Inr (Some a) \<and>
       total_needed (solution_transfers so) (so_claimed_tip so) \<le> balance a) \<and>
    (\<exists>evs s1 evs1. exec_transfers E (in_sender i) (solution_transfers so) [] s = (None, evs, s1) \<and>
       pay_tip E (in_sender i) (so_solver so) (so_claimed_tip so) evs s1 = (None, evs1, s')) \<and>
    (\<forall>c \<in> set (in_constraints i). checked_part E (in_sender i) (solution_transfers so)
       (total_needed (solution_transfers so) (so_claimed_tip so)) s' c)"
  unfolding fulfill_args_constraints [OF assms(2,3), of E _ _ _ so, symmetric]
  using assms(1) fulfill_args_read [OF assms(4), of i]
  by (auto simp: call_fulfill_def settle_intent_def intent_result_def err_def Let_def not_less
      split: if_splits sum.splits option.splits prod.splits)

section \<open>The pool\<close>

text \<open>The order in which the hash map yields its entries does not matter to the proposer.\<close>

lemma pending_intents_deterministic:
  assumes "mset (ip_intents p) = mset (ip_intents q)" "inj_on in_id ((fst \<circ> snd) ` set (ip_intents p))"
  shows "pending_intents p = pending_intents q"
  unfolding pending_intents_def
proof (rule sort_key_inj_key_eq)
  show "mset (map (fst \<circ> snd) (filter (\<lambda>(_, _, st). st = IPending) (ip_intents p))) =
      mset (sort_key in_id (map (fst \<circ> snd) (filter (\<lambda>(_, _, st). st = IPending) (ip_intents q))))"
    using assms(1) by (simp add: mset_filter)
  show "inj_on in_id (set (map (fst \<circ> snd) (filter (\<lambda>(_, _, st). st = IPending) (ip_intents p))))"
    using assms(2) by (rule inj_on_subset) auto
qed simp

text \<open>No operation removes an intent, so a pool that is full once refuses every later intent.\<close>

lemma length_update_present: "map_of xs k = Some w \<Longrightarrow> length (AList.update k v xs) = length xs"
  by (induction xs) (auto split: if_splits)

lemma full_pool_stays_full:
  assumes "ip_max_size p \<le> length (ip_intents p)"
    and "q \<in> {snd (fulfill_intent j p), snd (cancel_intent j who p), snd (expire_intents height p)}"
  shows "submit_intent i q = (Inl PoolFull, q)"
  using assms
  by (auto simp: submit_intent_def fulfill_intent_def cancel_intent_def expire_intents_def length_update_present
      split: option.splits)

section \<open>A concrete settlement\<close>

definition sample_intent :: intent where
  "sample_intent =
     \<lparr>in_id = 0, in_sender = 1, in_constraints = [MaxSpend 1 50, RequireTransfer 1 2 30],
      in_max_fee = 5, in_expiry_height = 500, in_signature = [], in_tip = 10\<rparr>"

definition sample_solution :: solution where
  "sample_solution = the (direct_solve 9 sample_intent)"

definition sample_intent_store :: overlay_store where
  "sample_intent_store =
     ov_put (ascii ''intent/0'') (id_bytes 1) (save_account sample_sys (sample_account 1 100) ov_new)"

lemma sample_intent_store:
  "accounts_ok sample_sys sample_intent_store" "acct sample_sys sample_intent_store = [1 \<mapsto> sample_account 1 100]"
  "intent_authorized sample_sys sample_intent_store 0 1"
  by (simp_all add: sample_intent_store_def ledger_simps accounts_ok_empty acct_empty is_account_key_iff ascii_simps
      intent_authorized_def dec_string.simps digit_char_def)

lemma sample_settles:
  "\<exists>evs s1 s2. exec_transfers sample_sys 1 [(2, 30)] [] sample_intent_store = (None, evs, s1) \<and>
     pay_tip sample_sys 1 9 5 evs s1 = (None, evs @ [intent_log 1 ''solver_tip'' (id_bytes 9 @ le_bytes 16 (5 :: u128))], s2)"
  using sample_intent_store
  by (simp add: require_account_def load_acct settle_def credit_or_create_present pay_tip_def ledger_simps
      sample_account_def blank_account_def Let_def)

theorem intent_settled_as_asked_witness:
  "\<exists>r s'. call_fulfill sample_sys 1 (fulfill_args sample_intent sample_solution) sample_intent_store = (r, s') \<and>
     sc_error r = None \<and>
     checked_part sample_sys 1 [(2, 30)] 35 s' (RequireTransfer 1 2 30)"
proof -
  have so: "solution_transfers sample_solution = [(2, 30)]" "so_solver sample_solution = 9"
    "so_claimed_tip sample_solution = 5"
    by (simp_all add: sample_solution_def direct_solve_def sample_intent_def required_transfers_def
        solution_transfers_def action_transfers_def)
  have i: "in_sender sample_intent = 1" "in_id sample_intent = 0" "\<forall>c \<in> set (in_constraints sample_intent). encodable c"
    "length (in_constraints sample_intent) < 2 ^ 32"
    by (simp_all add: sample_intent_def encodable_def)
  obtain r s' where e: "call_fulfill sample_sys 1 (fulfill_args sample_intent sample_solution) sample_intent_store = (r, s')"
    by (metis surj_pair)
  moreover have "verify_constraints sample_sys 1 [(2, 30)] 35 (fulfill_args sample_intent sample_solution) 108 s = None" for s
    using fulfill_args_constraints [OF i(3,4), of sample_sys 1 "[(2, 30)]" 35 sample_solution s]
    by (simp add: so) (simp add: sample_intent_def transferred_to_def)
  ultimately have "sc_error r = None"
    using sample_settles sample_intent_store fulfill_args_read [of sample_solution sample_intent]
    by (auto simp: call_fulfill_def settle_intent_def so i load_acct total_needed_def sample_account_def
        intent_result_def Let_def sat_add_def)
  then show ?thesis
    using intent_settled_as_asked [of sample_sys sample_intent sample_solution sample_intent_store r s'] e i
    by (auto simp: so total_needed_def sample_intent_def sat_add_def)
qed

end
