(* ===== verification/Engine.thy ===== *)
theory Engine
  imports Rollback Checkpoints Slashing Mempool Intent_Pool
begin

text \<open>
  The state of a node's consensus engine and its bookkeeping operations, from
  \<open>crates/solen-consensus/src/engine.rs\<close>: configuration, start, persistence of blocks, undoing an
  unfinalized block, slashing queue, checkpoints and epoch transitions.  Each handler takes and returns
  the whole engine; the locks around the fields are left out, so a handler is one step.  Hash maps are
  association lists, so every iteration order is a state of the model.  The two clocks a handler reads are
  arguments.  Broadcasting of events and logging are left out.
\<close>

section \<open>State\<close>

record engine_config =
  ec_block_time_ms :: u64
  ec_max_ops_per_block :: nat
  ec_validator_id :: validator_id
  ec_chain_id :: u64
  ec_prune :: bool
  ec_fork_choice_v2_height :: u64
  ec_fee_fix_height :: u64
  ec_authenticate_sync_blocks :: bool
  ec_determinism_fix_height :: u64
  ec_pq_auth_height :: u64
  ec_epoch_randomness_height :: u64

definition default_engine_config :: engine_config where
  "default_engine_config =
     \<lparr>ec_block_time_ms = 2000, ec_max_ops_per_block = 5000, ec_validator_id = 0, ec_chain_id = 0,
      ec_prune = False, ec_fork_choice_v2_height = - 1, ec_fee_fix_height = - 1,
      ec_authenticate_sync_blocks = False, ec_determinism_fix_height = - 1, ec_pq_auth_height = - 1,
      ec_epoch_randomness_height = - 1\<rparr>"

record pending_block =
  pb_header :: block_header
  pb_operations :: "user_operation list"
  pb_proposed_at :: nat
  pb_already_executed :: bool
  pb_result :: "block_result option"
  pb_revert :: "block_revert option"
  pb_mismatch_count :: u32

text \<open>The monotonic clock and the wall clock, both in milliseconds.\<close>

record clock =
  instant_ms :: nat
  unix_ms :: u64

definition unix_secs :: "clock \<Rightarrow> u64" where
  "unix_secs t = unix_ms t div 1000"

record engine =
  en_config :: engine_config
  en_store :: memory_store
  en_mempool :: mempool
  en_executor :: block_executor
  en_chain :: "finalized_block list"
  en_validators :: validator_set
  en_epochs :: epoch_manager
  en_pending_attestations :: "(u64 \<times> attestation list) list"
  en_pending_blocks :: "(u64 \<times> pending_block) list"
  en_intents :: intent_pool
  en_pending_slashing :: "slashing_evidence list"
  en_force_finalizes :: u32
  en_last_probe :: "nat option"
  en_early_attestations :: "(validator_id \<times> u64 \<times> hash \<times> nat) list"
  en_epoch_seed :: hash
  en_checkpoints :: finalized_checkpoint_store
  en_trusted :: trusted_checkpoints
  en_dropped_height :: "u64 option"
  en_needs_resync :: bool
  en_sync_reverts :: u32
  en_resyncing :: bool
  en_journal :: rollback_journal
  en_v2_blocks :: "(u64 \<times> (hash \<times> pending_block) list) list"
  en_v2_votes :: "(u64 \<times> (validator_id \<times> hash) list) list"
  en_v2_revotes :: "(u64 \<times> hash) list"
  en_v2_invalid :: "(u64 \<times> hash set) list"

definition SYNC_REVERT_RESYNC_THRESHOLD :: u32 where "SYNC_REVERT_RESYNC_THRESHOLD = 5"

definition get_or :: "'k \<Rightarrow> 'v \<Rightarrow> ('k \<times> 'v) list \<Rightarrow> 'v" where
  "get_or k d xs = (case map_of xs k of Some v \<Rightarrow> v | None \<Rightarrow> d)"

definition above :: "u64 \<Rightarrow> (u64 \<times> 'v) list \<Rightarrow> (u64 \<times> 'v) list" where
  "above height = filter (\<lambda>(h, _). height < h)"

abbreviation store_root :: "'a consensus_env_scheme \<Rightarrow> engine \<Rightarrow> hash" where
  "store_root E e \<equiv> mem_state_root (env_blake3 E) (en_store e)"

section \<open>Start\<close>

text \<open>A block that stands for the height a store was restored at.\<close>

definition marker_block :: "u64 \<Rightarrow> u64 \<Rightarrow> hash \<Rightarrow> validator_id \<Rightarrow> finalized_block" where
  "marker_block height epoch root who =
     \<lparr>fb_header = \<lparr>bh_height = height, bh_epoch = epoch, bh_parent_hash = 0, bh_state_root = root,
        bh_transactions_root = 0, bh_receipts_root = 0, bh_proposer = who, bh_timestamp_ms = 0,
        bh_proposer_signature = []\<rparr>,
      fb_result = \<lparr>br_state_root = root, br_receipts = [], br_gas_used = 0\<rparr>,
      fb_attestations = [], fb_operations = []\<rparr>"

definition with_validators ::
    "'a consensus_env_scheme \<Rightarrow> engine_config \<Rightarrow> memory_store \<Rightarrow> mempool \<Rightarrow> validator_set \<Rightarrow> engine" where
  "with_validators E cfg m0 pool vs =
     (let (height, epoch) = load_chain_meta m0;
          m = snd (apply_durable_reverts_above E m0 height)
      in \<lparr>en_config = cfg, en_store = m, en_mempool = pool,
          en_executor = new_block_executor\<lparr>be_chain_id := ec_chain_id cfg, be_fee_fix_height := ec_fee_fix_height cfg,
            be_determinism_fix_height := ec_determinism_fix_height cfg, be_pq_auth_height := ec_pq_auth_height cfg,
            be_epoch_randomness_height := ec_epoch_randomness_height cfg\<rparr>,
          en_chain = (if 0 < height then [marker_block height epoch (mem_state_root (env_blake3 E) m) 0] else []),
          en_validators = vs, en_epochs = new_epoch_manager\<lparr>current_epoch := epoch\<rparr>,
          en_pending_attestations = [], en_pending_blocks = [], en_intents = new_intent_pool 10000,
          en_pending_slashing = [], en_force_finalizes = 0, en_last_probe = None, en_early_attestations = [],
          en_epoch_seed = 0, en_checkpoints = new_finalized_checkpoints, en_trusted = trusted_for (ec_chain_id cfg),
          en_dropped_height = None, en_needs_resync = False, en_sync_reverts = 0, en_resyncing = False,
          en_journal = new_journal ROLLBACK_JOURNAL_CAP, en_v2_blocks = [], en_v2_votes = [], en_v2_revotes = [],
          en_v2_invalid = []\<rparr>)"

definition new_engine :: "'a consensus_env_scheme \<Rightarrow> engine_config \<Rightarrow> memory_store \<Rightarrow> mempool \<Rightarrow> engine" where
  "new_engine E cfg m pool = with_validators E cfg m pool [new_validator_info (ec_validator_id cfg) 1000]"

definition tip_height :: "engine \<Rightarrow> u64" where
  "tip_height e = (if en_chain e = [] then 0 else bh_height (fb_header (last (en_chain e))))"

definition get_block :: "engine \<Rightarrow> u64 \<Rightarrow> finalized_block option" where
  "get_block e height = find (\<lambda>b. bh_height (fb_header b) = height) (en_chain e)"

definition latest_block :: "engine \<Rightarrow> finalized_block option" where
  "latest_block e = (if en_chain e = [] then None else Some (last (en_chain e)))"

definition engine_simulate ::
    "'a consensus_env_scheme \<Rightarrow> engine \<Rightarrow> user_operation \<Rightarrow> memory_store \<Rightarrow> execution_receipt" where
  "engine_simulate E e op m = simulate (E\<lparr>env_base := m\<rparr>) (en_executor e) op (sat_add (tip_height e) 1)"

section \<open>Attestations of our own and the partition latch\<close>

definition LAST_ATTESTATION_KEY :: bytes where
  "LAST_ATTESTATION_KEY = ascii ''__last_attestation__''"

definition persist_last_attestation :: "'a consensus_env_scheme \<Rightarrow> u64 \<Rightarrow> hash \<Rightarrow> engine \<Rightarrow> engine" where
  "persist_last_attestation E height bh e =
     e\<lparr>en_store := mem_put (env_blake3 E) LAST_ATTESTATION_KEY (le_bytes 8 height @ id_bytes bh) (en_store e)\<rparr>"

definition last_attested_block :: "engine \<Rightarrow> (u64 \<times> hash) option" where
  "last_attested_block e =
     (case mem_get (en_store e) LAST_ATTESTATION_KEY of
        Some data \<Rightarrow> if 40 \<le> length data
                    then Some (of_le_bytes (take 8 data), id_of_bytes (take 32 (drop 8 data))) else None
      | None \<Rightarrow> None)"

definition PARTITION_PROBE_INTERVAL_MS :: nat where "PARTITION_PROBE_INTERVAL_MS = 30000"

definition is_likely_partitioned :: "engine \<Rightarrow> bool" where
  "is_likely_partitioned e \<longleftrightarrow> 3 < en_force_finalizes e"

definition partition_probe_due :: "clock \<Rightarrow> engine \<Rightarrow> bool \<times> engine" where
  "partition_probe_due t e =
     (case en_last_probe e of
        Some p \<Rightarrow> if instant_ms t - p < PARTITION_PROBE_INTERVAL_MS then (False, e)
                  else (True, e\<lparr>en_last_probe := Some (instant_ms t)\<rparr>)
      | None \<Rightarrow> (True, e\<lparr>en_last_probe := Some (instant_ms t)\<rparr>))"

definition reset_partition_state :: "engine \<Rightarrow> engine" where
  "reset_partition_state e = e\<lparr>en_force_finalizes := 0, en_last_probe := None\<rparr>"

definition request_resync :: "engine \<Rightarrow> engine" where
  "request_resync e = e\<lparr>en_needs_resync := True\<rparr>"

definition take_resync_request :: "engine \<Rightarrow> bool \<times> engine" where
  "take_resync_request e = (en_needs_resync e, e\<lparr>en_needs_resync := False\<rparr>)"

definition take_dropped_block_height :: "engine \<Rightarrow> u64 option \<times> engine" where
  "take_dropped_block_height e = (en_dropped_height e, e\<lparr>en_dropped_height := None\<rparr>)"

definition set_resyncing :: "bool \<Rightarrow> engine \<Rightarrow> engine" where
  "set_resyncing v e = e\<lparr>en_resyncing := v\<rparr>"

definition reconcile_tip_with_finalized_checkpoint :: "'a consensus_env_scheme \<Rightarrow> engine \<Rightarrow> bool \<times> engine" where
  "reconcile_tip_with_finalized_checkpoint E e =
     (if tip_height e = 0 then (False, e)
      else case fs_latest (en_checkpoints e) of
        Some c \<Rightarrow>
          if fc_height c = tip_height e
          then if store_root E e \<noteq> fc_state_root c then (True, request_resync e) else (False, e)
          else (False, e)
      | None \<Rightarrow> (False, e))"

section \<open>Checkpoint attestations\<close>

definition attest_checkpoint ::
    "'a consensus_env_scheme \<Rightarrow> validator_id \<Rightarrow> bytes \<Rightarrow> engine \<Rightarrow> bool \<times> engine" where
  "attest_checkpoint E i sig e =
     (let (finalized, cps) = add_attestation i sig (en_validators e) (en_checkpoints e);
          e1 = e\<lparr>en_checkpoints := cps\<rparr> in
      if finalized
      then (case fs_latest cps of
              Some cp \<Rightarrow> (True, e1\<lparr>en_store := mem_put (env_blake3 E) FINALIZED_KEY
                            (to_vec (checkpoint_json E) (Some cp)) (en_store e1)\<rparr>)
            | None \<Rightarrow> (True, e1))
      else (False, e1))"

definition attest_checkpoint_with_data ::
    "'a consensus_env_scheme \<Rightarrow> validator_id \<Rightarrow> bytes \<Rightarrow> u64 \<Rightarrow> hash \<Rightarrow> hash \<Rightarrow> engine \<Rightarrow> bool \<times> engine" where
  "attest_checkpoint_with_data E i sig height bh root e =
     (case fs_pending (en_checkpoints e) of
        Some p \<Rightarrow>
          if pcp_height p \<noteq> height \<or> pcp_block_hash p \<noteq> bh \<or> pcp_state_root p \<noteq> root then (False, e)
          else attest_checkpoint E i sig e
      | None \<Rightarrow> (False, e))"

section \<open>Undoing our unfinalized blocks\<close>

definition undoable :: "pending_block \<Rightarrow> bool" where
  "undoable pb \<longleftrightarrow> pb_already_executed pb \<and> pb_revert pb \<noteq> None"

definition stashed_reverts :: "engine \<Rightarrow> (u64 \<times> block_revert) list" where
  "stashed_reverts e =
     concat (map (\<lambda>(h, cands). map (\<lambda>(_, pb). (h, the (pb_revert pb))) (filter (undoable \<circ> snd) cands)) (en_v2_blocks e)) @
     map (\<lambda>(h, pb). (h, the (pb_revert pb))) (filter (undoable \<circ> snd) (en_pending_blocks e))"

definition reconcile_store_from_durable_reverts :: "'a consensus_env_scheme \<Rightarrow> u64 \<Rightarrow> engine \<Rightarrow> bool \<times> engine" where
  "reconcile_store_from_durable_reverts E tip e =
     (let (applied, m) = apply_durable_reverts_above E (en_store e) tip in (applied, e\<lparr>en_store := m\<rparr>))"

definition undo_stashed :: "'a consensus_env_scheme \<Rightarrow> engine \<Rightarrow> engine" where
  "undo_stashed E e =
     e\<lparr>en_v2_blocks := map (\<lambda>(h, cands). (h, filter (\<lambda>(_, pb). \<not> undoable pb) cands)) (en_v2_blocks e),
       en_pending_blocks := filter (\<lambda>(_, pb). \<not> undoable pb) (en_pending_blocks e),
       en_store := mem_commit_root (env_blake3 E)
         (undo_entries E (sort_key (\<lambda>(h, _). - uint h) (stashed_reverts e)) (en_store e))\<rparr>"

definition restore_store_to_finalized_tip :: "'a consensus_env_scheme \<Rightarrow> engine \<Rightarrow> engine" where
  "restore_store_to_finalized_tip E e =
     (if en_chain e = [] then e
      else let tip_root = br_state_root (fb_result (last (en_chain e))) in
        if store_root E e = tip_root then e
        else let e1 = undo_stashed E e in
          if store_root E e1 = tip_root then e1
          else let (applied, e2) = reconcile_store_from_durable_reverts E (tip_height e1) e1 in
            if applied \<and> store_root E e2 = tip_root then e2
            else request_resync e2)"

definition clear_eager_revert :: "u64 \<Rightarrow> engine \<Rightarrow> engine" where
  "clear_eager_revert height e = e\<lparr>en_store := mem_delete (eager_revert_key height) (en_store e)\<rparr>"

section \<open>Persisting blocks\<close>

definition block_key :: "u64 \<Rightarrow> bytes" where
  "block_key height = as_bytes (''block/'' @ dec_string (unat height))"

definition BLOCK_RETENTION :: u64 where "BLOCK_RETENTION = 10000000"

definition prune_old_blocks :: "u64 \<Rightarrow> engine \<Rightarrow> engine" where
  "prune_old_blocks height e =
     (if \<not> ec_prune (en_config e) \<or> height \<le> BLOCK_RETENTION then e
      else let prune_below = height - BLOCK_RETENTION;
               heights = filter (\<lambda>h. h \<noteq> 0) (map of_nat [unat (sat_sub prune_below 10) ..< unat prune_below])
           in e\<lparr>en_store := fold (\<lambda>h m. mem_delete (block_key h) m) heights (en_store e)\<rparr>)"

definition persist_block_and_meta :: "'a consensus_env_scheme \<Rightarrow> finalized_block \<Rightarrow> engine \<Rightarrow> engine" where
  "persist_block_and_meta E b e =
     (let h = fb_header b;
          m = mem_put (env_blake3 E) (block_key (bh_height h)) (to_vec (block_json E) (to_serializable b)) (en_store e)
      in prune_old_blocks (bh_height h)
           (e\<lparr>en_store := save_chain_meta (env_blake3 E) (bh_height h) (bh_epoch h) m\<rparr>))"

fun load_persisted_blocks_range ::
    "'a consensus_env_scheme \<Rightarrow> memory_store \<Rightarrow> u64 \<Rightarrow> nat \<Rightarrow> finalized_block list" where
  "load_persisted_blocks_range E m height 0 = []"
| "load_persisted_blocks_range E m height (Suc n) =
     (case mem_get m (block_key height) of
        Some data \<Rightarrow>
          (case from_slice (block_json E) data of
             Inr sb \<Rightarrow> of_serializable sb # load_persisted_blocks_range E m (height + 1) n
           | Inl _ \<Rightarrow> [])
      | None \<Rightarrow> [])"

definition load_persisted_blocks :: "'a consensus_env_scheme \<Rightarrow> engine \<Rightarrow> finalized_block list" where
  "load_persisted_blocks E e = load_persisted_blocks_range E (en_store e) 1 (unat (tip_height e))"

definition get_blocks_for_sync :: "'a consensus_env_scheme \<Rightarrow> engine \<Rightarrow> u64 \<Rightarrow> nat \<Rightarrow> finalized_block list" where
  "get_blocks_for_sync E e from_height max_blocks = load_persisted_blocks_range E (en_store e) from_height max_blocks"

section \<open>Validators\<close>

definition header_is_validator_signed :: "'a consensus_env_scheme \<Rightarrow> engine \<Rightarrow> block_header \<Rightarrow> bool" where
  "header_is_validator_signed E e h \<longleftrightarrow>
     header_signed E h \<and> bh_proposer h \<in> vi_id ` set (active (en_validators e))"

text \<open>\<open>ConsensusEngine::process_slashing\<close>: evidence is queued for the next block we propose.\<close>

definition queue_slashing :: "slashing_evidence \<Rightarrow> engine \<Rightarrow> engine" where
  "queue_slashing ev e =
     e\<lparr>en_validators := reset_missed (en_validators e) (offender ev),
       en_pending_slashing := (if \<exists>x \<in> set (en_pending_slashing e). offender x = offender ev
                               then en_pending_slashing e else en_pending_slashing e @ [ev])\<rparr>"

definition track_missed :: "'a consensus_env_scheme \<Rightarrow> u64 \<Rightarrow> validator_id \<Rightarrow> engine \<Rightarrow> engine" where
  "track_missed E height who e =
     (case proposer_for_height_with_seed (env_blake3 E) (en_validators e) height (en_epoch_seed e) of
        None \<Rightarrow> e
      | Some designated \<Rightarrow>
          if designated \<noteq> who
          then (case record_missed_block (en_validators e) designated of
                  (Some ev, vs) \<Rightarrow> queue_slashing ev (e\<lparr>en_validators := vs\<rparr>)
                | (None, vs) \<Rightarrow> e\<lparr>en_validators := vs\<rparr>)
          else e\<lparr>en_validators := reset_missed (en_validators e) designated\<rparr>)"

section \<open>Epoch transitions\<close>

definition staking_in :: "'a consensus_env_scheme \<Rightarrow> memory_store \<Rightarrow> staking_contract" where
  "staking_in E m = staking_load (E\<lparr>env_base := m\<rparr>) ov_new"

definition max_stake_change :: "validator_set \<Rightarrow> u128" where
  "max_stake_change vs =
     (if 4 \<le> active_count vs then sum_list (map stake (filter is_active_validator vs)) div 3 else - 1)"

text \<open>\<open>(new as i128 - old as i128).unsigned_abs()\<close>, with the wrap-around of a release build.\<close>

definition stake_diff :: "u128 \<Rightarrow> u128 \<Rightarrow> u128" where
  "stake_diff new old = (if sint (new - old) < 0 then old - new else new - old)"

definition refresh_validator :: "u128 \<Rightarrow> validator_info \<Rightarrow> validator_info" where
  "refresh_validator new v =
     (if is_active_validator v then v\<lparr>stake := new\<rparr>
      else v\<lparr>stake := new, vi_status := Active, missed_blocks := 0\<rparr>)"

definition sync_validator ::
    "u128 \<Rightarrow> staking_validator \<Rightarrow> u128 \<times> validator_set \<Rightarrow> u128 \<times> validator_set" where
  "sync_validator limit sv st =
     (let (changed, vs) = st; new = total_stake sv in
      if \<not> is_active sv then st
      else case find (\<lambda>v. vi_id v = sv_id sv) vs of
        Some v \<Rightarrow> (sat_add changed (stake_diff new (stake v)),
                   update_first (\<lambda>v. vi_id v = sv_id sv) (refresh_validator new) vs)
      | None \<Rightarrow>
          if limit < sat_add changed new \<and> 0 < limit then st
          else (sat_add changed new, add_validator vs (new_validator_info (sv_id sv) new)))"

definition drop_validator ::
    "u128 \<Rightarrow> validator_id \<times> u128 \<Rightarrow> u128 \<times> validator_set \<Rightarrow> u128 \<times> validator_set" where
  "drop_validator limit v st =
     (let (changed, vs) = st in
      if limit < sat_add changed (snd v) \<and> 0 < limit then st
      else (sat_add changed (snd v), remove_validator vs (fst v)))"

definition sync_validator_set :: "staking_contract \<Rightarrow> validator_set \<Rightarrow> validator_set" where
  "sync_validator_set staking vs =
     (let limit = max_stake_change vs;
          active_ids = sv_id ` set (filter is_active (validators staking));
          (changed, vs1) = fold (sync_validator limit) (validators staking) (0, vs);
          to_remove = map (\<lambda>v. (vi_id v, stake v)) (filter (\<lambda>v. vi_id v \<notin> active_ids) vs1)
      in snd (fold (drop_validator limit) to_remove (changed, vs1)))"

definition propose_at_boundary :: "'a consensus_env_scheme \<Rightarrow> clock \<Rightarrow> engine \<Rightarrow> engine" where
  "propose_at_boundary E t e =
     (if en_chain e = [] then e
      else let h = fb_header (last (en_chain e)) in
        e\<lparr>en_checkpoints := propose_checkpoint (unix_ms t) (bh_height h) (current_epoch (en_epochs e))
            (block_hash E h) (bh_state_root h) (en_checkpoints e)\<rparr>)"

definition attest_own_checkpoint :: "'a consensus_env_scheme \<Rightarrow> engine \<Rightarrow> engine" where
  "attest_own_checkpoint E e =
     (case (fs_pending (en_checkpoints e), sign_with E) of
        (Some p, Some sign) \<Rightarrow>
          snd (attest_checkpoint E (ec_validator_id (en_config e))
            (sign (checkpoint_message (env_blake3 E) (pcp_height p) (pcp_block_hash p) (pcp_state_root p))) e)
      | _ \<Rightarrow> e)"

definition next_seed :: "'a consensus_env_scheme \<Rightarrow> engine \<Rightarrow> engine" where
  "next_seed E e =
     (if en_chain e = [] then e
      else let h = fb_header (last (en_chain e)) in
        e\<lparr>en_epoch_seed :=
            (if ec_epoch_randomness_height (en_config e) \<le> bh_height h
             then er_seed (randomness_load (E\<lparr>env_base := en_store e\<rparr>) ov_new)
             else env_blake3 E (id_bytes (bh_state_root h)))\<rparr>)"

definition try_epoch_transition :: "'a consensus_env_scheme \<Rightarrow> clock \<Rightarrow> u64 \<Rightarrow> engine \<Rightarrow> engine" where
  "try_epoch_transition E t height e =
     (if is_epoch_boundary height
      then let (em, vs) = process_epoch_transition (en_epochs e) (en_validators e);
               e1 = e\<lparr>en_epochs := em, en_validators := sync_validator_set (staking_in E (en_store e)) vs\<rparr>
           in next_seed E (attest_own_checkpoint E (propose_at_boundary E t e1))
      else e)"

end
