(* ===== verification/Finality.thy ===== *)
theory Finality
  imports Engine
begin

text \<open>
  How the engine of \<open>crates/solen-consensus/src/engine.rs\<close> finalizes blocks: finalization of a pending
  block, attestations, attestation-aware fork choice (version 2) and the acceptance of a peer's block.
\<close>

section \<open>Finalizing a pending block\<close>

text \<open>What every path does with a block it has executed: append it, journal its undo record, drop its
  durable undo record, and persist it.\<close>

definition append_block :: "'a consensus_env_scheme \<Rightarrow> u64 \<Rightarrow> finalized_block \<Rightarrow> block_revert \<Rightarrow> engine \<Rightarrow> engine" where
  "append_block E height b revert e =
     persist_block_and_meta E b
       (clear_eager_revert height
         (e\<lparr>en_chain := en_chain e @ [b], en_journal := journal_record height revert (en_journal e)\<rparr>))"

text \<open>The execution of the pending block: ours has been executed already, a peer's is executed on the
  state of our tip and kept only with the root its header claims.\<close>

definition execute_pending ::
    "'a consensus_env_scheme \<Rightarrow> u64 \<Rightarrow> pending_block \<Rightarrow> engine \<Rightarrow> (block_result \<times> block_revert) option \<times> engine" where
  "execute_pending E height pb e =
     (if pb_already_executed pb
      then (Some (case pb_result pb of Some r \<Rightarrow> r
                  | None \<Rightarrow> \<lparr>br_state_root = bh_state_root (pb_header pb), br_receipts = [], br_gas_used = 0\<rparr>,
                  case pb_revert pb of Some r \<Rightarrow> r | None \<Rightarrow> []), e)
      else let e1 = restore_store_to_finalized_tip E e;
               (res, m) = execute_block_checked E (en_executor e1) (pb_operations pb) height
                            (bh_state_root (pb_header pb)) (en_store e1)
           in (res, e1\<lparr>en_store := m\<rparr>))"

definition fc_v2_active :: "engine \<Rightarrow> u64 \<Rightarrow> bool" where
  "fc_v2_active e height \<longleftrightarrow> ec_fork_choice_v2_height (en_config e) \<le> height"

text \<open>A block whose execution does not give the claimed root.\<close>

definition reject_invalid :: "'a consensus_env_scheme \<Rightarrow> u64 \<Rightarrow> block_header \<Rightarrow> engine \<Rightarrow> engine" where
  "reject_invalid E height h e =
     (let bad = block_hash E h; me = ec_validator_id (en_config e) in
      if fc_v2_active e height
      then e\<lparr>en_v2_invalid := AList.update height (insert bad (get_or height {} (en_v2_invalid e))) (en_v2_invalid e),
             en_v2_votes := (case map_of (en_v2_votes e) height of
                Some m \<Rightarrow> if map_of m me = Some bad
                          then AList.update height (AList.delete me m) (en_v2_votes e) else en_v2_votes e
              | None \<Rightarrow> en_v2_votes e)\<rparr>
      else e\<lparr>en_needs_resync := True\<rparr>)"

definition finish_block ::
    "'a consensus_env_scheme \<Rightarrow> clock \<Rightarrow> u64 \<Rightarrow> finalized_block \<Rightarrow> block_revert \<Rightarrow> engine \<Rightarrow> engine" where
  "finish_block E t height b revert e =
     (let e1 = append_block E height b revert e;
          e2 = e1\<lparr>en_v2_invalid := above height (en_v2_invalid e1),
                  en_mempool := remove_finalized (fb_operations b) (en_mempool e1)\<rparr>;
          e3 = try_epoch_transition E t height (track_missed E height (bh_proposer (fb_header b)) e2)
      in if fb_attestations b \<noteq> [] then e3\<lparr>en_force_finalizes := 0\<rparr> else e3)"

definition finalize_pending_block :: "'a consensus_env_scheme \<Rightarrow> clock \<Rightarrow> u64 \<Rightarrow> engine \<Rightarrow> engine" where
  "finalize_pending_block E t height e =
     (let atts = get_or height [] (en_pending_attestations e);
          e1 = e\<lparr>en_pending_blocks := AList.delete height (en_pending_blocks e),
                 en_pending_attestations := AList.delete height (en_pending_attestations e)\<rparr>
      in case map_of (en_pending_blocks e) height of
           None \<Rightarrow> e1
         | Some pb \<Rightarrow>
             (case execute_pending E height pb e1 of
                (None, e2) \<Rightarrow> reject_invalid E height (pb_header pb) e2
              | (Some (r, revert), e2) \<Rightarrow>
                  finish_block E t height
                    \<lparr>fb_header = pb_header pb, fb_result = r, fb_attestations = atts, fb_operations = pb_operations pb\<rparr>
                    revert e2))"

definition force_finalize_block :: "'a consensus_env_scheme \<Rightarrow> clock \<Rightarrow> u64 \<Rightarrow> engine \<Rightarrow> engine" where
  "force_finalize_block E t height e = finalize_pending_block E t height e"

definition attesters :: "engine \<Rightarrow> u64 \<Rightarrow> validator_id list" where
  "attesters e height = map at_validator (get_or height [] (en_pending_attestations e))"

definition force_finalize_block_if_quorum :: "'a consensus_env_scheme \<Rightarrow> clock \<Rightarrow> u64 \<Rightarrow> engine \<Rightarrow> bool \<times> engine" where
  "force_finalize_block_if_quorum E t height e =
     (if active_count (en_validators e) \<le> 1 \<or> height \<le> 3 \<or> has_quorum (en_validators e) (attesters e height)
      then (True, finalize_pending_block E t height e) else (False, e))"

section \<open>Fork choice\<close>

definition take_v2_revotes :: "engine \<Rightarrow> (u64 \<times> hash) list \<times> engine" where
  "take_v2_revotes e = (en_v2_revotes e, e\<lparr>en_v2_revotes := []\<rparr>)"

definition cast_vote :: "u64 \<Rightarrow> validator_id \<Rightarrow> hash \<Rightarrow> engine \<Rightarrow> engine" where
  "cast_vote height i h e =
     e\<lparr>en_v2_votes := AList.update height (AList.update i h (get_or height [] (en_v2_votes e))) (en_v2_votes e)\<rparr>"

definition v2_tally :: "engine \<Rightarrow> u64 \<Rightarrow> (hash \<times> validator_id list) list" where
  "v2_tally e height =
     fold (\<lambda>(i, h) t. AList.update h (get_or h [] t @ [i]) t) (get_or height [] (en_v2_votes e)) []"

definition is_invalid_at :: "engine \<Rightarrow> u64 \<Rightarrow> hash \<Rightarrow> bool" where
  "is_invalid_at e height h \<longleftrightarrow> h \<in> get_or height {} (en_v2_invalid e)"

text \<open>\<open>position(\<dots>).unwrap_or(usize::MAX)\<close>; the list is shorter than any machine word.\<close>

definition rank_in :: "validator_id list \<Rightarrow> validator_id \<Rightarrow> nat" where
  "rank_in order i = (if i \<in> set order then length (takeWhile (\<lambda>j. j \<noteq> i) order) else 2 ^ 64 - 1)"

definition leader_better :: "hash \<times> u128 \<times> nat \<Rightarrow> hash \<times> u128 \<times> nat \<Rightarrow> bool" where
  "leader_better x best =
     (let (h, st, rk) = x; (bh, bst, brk) = best in
      bst < st \<or> st = bst \<and> rk < brk \<or> st = bst \<and> rk = brk \<and> h < bh)"

definition v2_candidates ::
    "'a consensus_env_scheme \<Rightarrow> engine \<Rightarrow> u64 \<Rightarrow> (hash \<times> validator_id list) list \<Rightarrow> (hash \<times> u128 \<times> nat) list" where
  "v2_candidates E e height tally =
     (let order = proposer_order_for_height (env_blake3 E) (en_validators e) height (en_epoch_seed e);
          cands = get_or height [] (en_v2_blocks e)
      in List.map_filter (\<lambda>(h, voters).
           if is_invalid_at e height h then None
           else map_option (\<lambda>pb. (h, stake_of (en_validators e) voters, rank_in order (bh_proposer (pb_header pb))))
                  (map_of cands h)) tally)"

definition v2_leader ::
    "'a consensus_env_scheme \<Rightarrow> engine \<Rightarrow> u64 \<Rightarrow> (hash \<times> validator_id list) list \<Rightarrow> hash option" where
  "v2_leader E e height tally =
     map_option fst (fold (\<lambda>x best. case best of None \<Rightarrow> Some x
                            | Some b \<Rightarrow> if leader_better x b then Some x else best)
                       (v2_candidates E e height tally) None)"

definition v2_finalize :: "'a consensus_env_scheme \<Rightarrow> clock \<Rightarrow> u64 \<Rightarrow> hash \<Rightarrow> engine \<Rightarrow> engine" where
  "v2_finalize E t height h e =
     (case map_of (get_or height [] (en_v2_blocks e)) h of
        None \<Rightarrow> e
      | Some pb \<Rightarrow>
          let voters = map fst (filter (\<lambda>(_, v). v = h) (get_or height [] (en_v2_votes e)));
              atts = map (\<lambda>i. \<lparr>at_validator = i, at_height = height, at_hash = h\<rparr>) voters;
              e1 = e\<lparr>en_v2_blocks := AList.update height (AList.delete h (get_or height [] (en_v2_blocks e))) (en_v2_blocks e),
                     en_pending_blocks := AList.update height pb (en_pending_blocks e),
                     en_pending_attestations := AList.update height atts (en_pending_attestations e)\<rparr>;
              e2 = finalize_pending_block E t height e1
          in e2\<lparr>en_v2_blocks := above height (en_v2_blocks e2), en_v2_votes := above height (en_v2_votes e2)\<rparr>)"

definition v2_winner :: "engine \<Rightarrow> u64 \<Rightarrow> (hash \<times> validator_id list) list \<Rightarrow> hash option" where
  "v2_winner e height tally =
     map_option fst (find (\<lambda>(h, voters). \<not> is_invalid_at e height h \<and> has_quorum (en_validators e) voters \<and>
       map_of (get_or height [] (en_v2_blocks e)) h \<noteq> None) tally)"

definition follow_leader :: "'a consensus_env_scheme \<Rightarrow> clock \<Rightarrow> u64 \<Rightarrow> hash \<Rightarrow> engine \<Rightarrow> engine" where
  "follow_leader E t height leader e =
     (let me = ec_validator_id (en_config e) in
      if me \<notin> vi_id ` set (active (en_validators e)) then e
      else if map_of (get_or height [] (en_v2_votes e)) me = Some leader then e
      else let e1 = cast_vote height me leader e;
               e2 = e1\<lparr>en_v2_revotes := en_v2_revotes e1 @ [(height, leader)]\<rparr>
           in if has_quorum (en_validators e2) (get_or leader [] (v2_tally e2 height))
              then v2_finalize E t height leader e2 else e2)"

definition v2_reevaluate :: "'a consensus_env_scheme \<Rightarrow> clock \<Rightarrow> u64 \<Rightarrow> engine \<Rightarrow> engine" where
  "v2_reevaluate E t height e =
     (if height \<noteq> tip_height e + 1 then e
      else let tally = v2_tally e height in
        if tally = [] then e
        else case v2_winner e height tally of
          Some h \<Rightarrow> v2_finalize E t height h e
        | None \<Rightarrow>
            (case v2_leader E e height tally of
               None \<Rightarrow> e
             | Some leader \<Rightarrow> follow_leader E t height leader e))"

definition peer_block :: "clock \<Rightarrow> block_header \<Rightarrow> user_operation list \<Rightarrow> pending_block" where
  "peer_block t h ops =
     \<lparr>pb_header = h, pb_operations = ops, pb_proposed_at = instant_ms t, pb_already_executed = False,
      pb_result = None, pb_revert = None, pb_mismatch_count = 0\<rparr>"

definition v2_record_block ::
    "'a consensus_env_scheme \<Rightarrow> clock \<Rightarrow> block_header \<Rightarrow> user_operation list \<Rightarrow> engine \<Rightarrow> engine" where
  "v2_record_block E t h ops e =
     (let height = bh_height h; bh = block_hash E h; cands = get_or height [] (en_v2_blocks e);
          cands1 = (if map_of cands bh = None then AList.update bh (peer_block t h ops) cands else cands)
      in v2_reevaluate E t height (e\<lparr>en_v2_blocks := AList.update height cands1 (en_v2_blocks e)\<rparr>))"

definition v2_record_vote :: "'a consensus_env_scheme \<Rightarrow> clock \<Rightarrow> validator_id \<Rightarrow> u64 \<Rightarrow> hash \<Rightarrow> engine \<Rightarrow> engine" where
  "v2_record_vote E t i height h e = v2_reevaluate E t height (cast_vote height i h e)"

section \<open>Attestations\<close>

definition MAX_V2_VOTE_LOOKAHEAD :: u64 where "MAX_V2_VOTE_LOOKAHEAD = 64"

definition MAX_EARLY_ATTESTATIONS :: nat where "MAX_EARLY_ATTESTATIONS = 200"

definition EARLY_ATT_TTL_SECS :: nat where "EARLY_ATT_TTL_SECS = 10"

definition buffer_early :: "clock \<Rightarrow> validator_id \<Rightarrow> u64 \<Rightarrow> hash \<Rightarrow> engine \<Rightarrow> engine" where
  "buffer_early t i height h e =
     (let buf = filter (\<lambda>(_, _, _, at). (instant_ms t - at) div 1000 < EARLY_ATT_TTL_SECS) (en_early_attestations e)
      in e\<lparr>en_early_attestations :=
             (if length buf < MAX_EARLY_ATTESTATIONS \<and> \<not> (\<exists>(v, hh, _, _) \<in> set buf. v = i \<and> hh = height)
              then buf @ [(i, height, h, instant_ms t)] else buf)\<rparr>)"

definition accept_attestation ::
    "'a consensus_env_scheme \<Rightarrow> clock \<Rightarrow> validator_id \<Rightarrow> u64 \<Rightarrow> hash \<Rightarrow> engine \<Rightarrow> bool \<times> engine" where
  "accept_attestation E t i height h e =
     (if i \<notin> vi_id ` set (active (en_validators e)) then (False, e)
      else if fc_v2_active e height
      then (if height \<le> tip_height e \<or> tip_height e + MAX_V2_VOTE_LOOKAHEAD < height then (False, e)
            else let e1 = v2_record_vote E t i height h e in (tip_height e < tip_height e1, e1))
      else case map_of (en_pending_blocks e) height of
        None \<Rightarrow> (False, buffer_early t i height h e)
      | Some pb \<Rightarrow>
          if block_hash E (pb_header pb) \<noteq> h
          then (False, e\<lparr>en_pending_blocks :=
                 AList.update height (pb\<lparr>pb_mismatch_count := pb_mismatch_count pb + 1\<rparr>) (en_pending_blocks e)\<rparr>)
          else
            let atts = get_or height [] (en_pending_attestations e);
                e1 = e\<lparr>en_pending_attestations := AList.update height atts (en_pending_attestations e)\<rparr> in
            if \<exists>a \<in> set atts. at_validator a = i then (False, e1)
            else
              let e2 = e1\<lparr>en_pending_attestations := AList.update height
                     (atts @ [\<lparr>at_validator = i, at_height = height, at_hash = h\<rparr>]) (en_pending_attestations e1)\<rparr> in
              if has_quorum (en_validators e2) (attesters e2 height)
              then (True, finalize_pending_block E t height e2) else (False, e2))"

definition attestation_signing_payload :: "u64 \<Rightarrow> u64 \<Rightarrow> hash \<Rightarrow> bytes" where
  "attestation_signing_payload chain_id height h =
     ascii ''SOLEN_ATT'' @ le_bytes 8 chain_id @ le_bytes 8 height @ id_bytes h"

definition accept_verified_attestation ::
    "'a consensus_env_scheme \<Rightarrow> clock \<Rightarrow> validator_id \<Rightarrow> u64 \<Rightarrow> hash \<Rightarrow> bytes \<Rightarrow> engine \<Rightarrow> bool \<times> engine" where
  "accept_verified_attestation E t i height h sig e =
     (if \<not> ed25519_verify E i (attestation_signing_payload (ec_chain_id (en_config e)) height h) sig then (False, e)
      else accept_attestation E t i height h e)"

section \<open>Blocks of peers\<close>

definition MAX_TIMESTAMP_DRIFT_MS :: u64 where "MAX_TIMESTAMP_DRIFT_MS = 30000"

text \<open>The checks that read the engine and reject; each of them returns at once.\<close>

definition header_acceptable :: "'a consensus_env_scheme \<Rightarrow> clock \<Rightarrow> engine \<Rightarrow> block_header \<Rightarrow> bool" where
  "header_acceptable E t e h \<longleftrightarrow>
     (let bh = block_hash E h; height = bh_height h; tip = latest_block e;
          act = vi_id ` set (active (en_validators e));
          order = proposer_order_for_height (env_blake3 E) (en_validators e) height (en_epoch_seed e)
      in \<not> en_resyncing e \<and> tip_height e + 1 \<le> height \<and>
         (height = tip_height e + 1 \<longrightarrow> (\<forall>b. tip = Some b \<longrightarrow> bh_parent_hash h = block_hash E (fb_header b))) \<and>
         \<not> is_invalid_at e height bh \<and> validate_trusted (en_trusted e) height bh = None \<and>
         validate_block (en_checkpoints e) height bh = None \<and> \<not> tip_height e + 1 < height \<and>
         (\<forall>b. tip = Some b \<longrightarrow> bh_timestamp_ms (fb_header b) < bh_timestamp_ms h) \<and>
         bh_timestamp_ms h \<le> unix_ms t + MAX_TIMESTAMP_DRIFT_MS \<and>
         bh_epoch h = height div EPOCH_LENGTH \<and> bh_proposer h \<in> act \<and> bh_proposer h \<in> set order \<and>
         (0 < height \<longrightarrow> header_signed E h))"

text \<open>The attestations that arrived before the block.\<close>

definition replay_early :: "'a consensus_env_scheme \<Rightarrow> clock \<Rightarrow> block_header \<Rightarrow> engine \<Rightarrow> engine" where
  "replay_early E t h e =
     (let bh = block_hash E h; height = bh_height h;
          early = filter (\<lambda>(_, hh, hash, _). hh = height \<and> hash = bh) (en_early_attestations e);
          e1 = e\<lparr>en_early_attestations := filter (\<lambda>(_, hh, _, _). hh \<noteq> height) (en_early_attestations e)\<rparr>
      in fold (\<lambda>(i, hh, hash, _) e. snd (accept_attestation E t i hh hash e)) early e1)"

definition add_pending ::
    "'a consensus_env_scheme \<Rightarrow> clock \<Rightarrow> block_header \<Rightarrow> user_operation list \<Rightarrow> engine \<Rightarrow> engine" where
  "add_pending E t h ops e =
     replay_early E t h
       (e\<lparr>en_pending_blocks := AList.update (bh_height h) (peer_block t h ops) (en_pending_blocks e)\<rparr>)"

text \<open>A second block at the height of a pending one.\<close>

definition compete_pending ::
    "'a consensus_env_scheme \<Rightarrow> clock \<Rightarrow> pending_block \<Rightarrow> block_header \<Rightarrow> user_operation list \<Rightarrow> engine
     \<Rightarrow> bool \<times> engine" where
  "compete_pending E t ex h ops e =
     (let height = bh_height h;
          order = proposer_order_for_height (env_blake3 E) (en_validators e) height (en_epoch_seed e) in
      if block_hash E (pb_header ex) = block_hash E h then (False, e)
      else if bh_proposer (pb_header ex) = bh_proposer h
      then (False, case check_double_sign E (pb_header ex) h of Some ev \<Rightarrow> queue_slashing ev e | None \<Rightarrow> e)
      else if rank_in order (bh_proposer h) < rank_in order (bh_proposer (pb_header ex))
      then (if pb_already_executed ex then (False, e)
            else (True, add_pending E t h ops
                    (e\<lparr>en_pending_blocks := AList.delete height (en_pending_blocks e),
                       en_pending_attestations := AList.delete height (en_pending_attestations e)\<rparr>)))
      else (False, e))"

definition accept_block ::
    "'a consensus_env_scheme \<Rightarrow> clock \<Rightarrow> block_header \<Rightarrow> user_operation list \<Rightarrow> engine \<Rightarrow> bool \<times> engine" where
  "accept_block E t h ops e =
     (if \<not> header_acceptable E t e h then (False, e)
      else case get_block e (bh_height h) of
        Some b \<Rightarrow>
          (False, if bh_proposer (fb_header b) = bh_proposer h \<and> block_hash E (fb_header b) \<noteq> block_hash E h
                  then (case check_double_sign E (fb_header b) h of Some ev \<Rightarrow> queue_slashing ev e | None \<Rightarrow> e)
                  else e)
      | None \<Rightarrow>
          if fc_v2_active e (bh_height h) then (True, v2_record_block E t h ops e)
          else case map_of (en_pending_blocks e) (bh_height h) of
            Some ex \<Rightarrow> compete_pending E t ex h ops e
          | None \<Rightarrow> (True, add_pending E t h ops e))"

end
