(* ===== verification/Node_Steps.thy ===== *)
theory Node_Steps
  imports Finality
begin

text \<open>
  The other steps of the engine of \<open>crates/solen-consensus/src/engine.rs\<close>: replaying a synced block,
  rolling back to an earlier height, resetting after a restored snapshot, producing a block, and the
  timeout of pending blocks.
\<close>

section \<open>Synced blocks\<close>

definition sync_refused :: "'a consensus_env_scheme \<Rightarrow> engine \<Rightarrow> block_header \<Rightarrow> bool" where
  "sync_refused E e h \<longleftrightarrow>
     en_chain e \<noteq> [] \<and> (bh_height h \<le> tip_height e \<or> bh_height h \<noteq> tip_height e + 1) \<or>
     bh_epoch h \<noteq> bh_height h div EPOCH_LENGTH \<or>
     ec_authenticate_sync_blocks (en_config e) \<and> \<not> header_is_validator_signed E e h"

definition count_sync_revert :: "engine \<Rightarrow> engine" where
  "count_sync_revert e =
     (let n = en_sync_reverts e + 1 in
      if SYNC_REVERT_RESYNC_THRESHOLD \<le> n \<and> \<not> en_resyncing e
      then e\<lparr>en_needs_resync := True, en_sync_reverts := 0\<rparr>
      else e\<lparr>en_sync_reverts := n\<rparr>)"

definition synced_block ::
    "block_header \<Rightarrow> user_operation list \<Rightarrow> execution_receipt list \<Rightarrow> block_result \<Rightarrow> finalized_block" where
  "synced_block h ops synced r =
     \<lparr>fb_header = h, fb_result = (if synced \<noteq> [] then r\<lparr>br_receipts := synced\<rparr> else r),
      fb_attestations = [], fb_operations = ops\<rparr>"

definition replay_synced_block ::
    "'a consensus_env_scheme \<Rightarrow> clock \<Rightarrow> block_header \<Rightarrow> user_operation list \<Rightarrow> execution_receipt list \<Rightarrow> engine
     \<Rightarrow> bool \<times> engine" where
  "replay_synced_block E t h ops synced e =
     (if sync_refused E e h then (False, e)
      else
        let height = bh_height h;
            e1 = restore_store_to_finalized_tip E e;
            (res, m) = execute_block_checked E (en_executor e1) ops height (bh_state_root h) (en_store e1);
            e2 = e1\<lparr>en_store := m\<rparr>
        in case res of
             None \<Rightarrow> (False, count_sync_revert e2)
           | Some (r, revert) \<Rightarrow>
               (True, try_epoch_transition E t height
                  (append_block E height (synced_block h ops synced r) revert (e2\<lparr>en_sync_reverts := 0\<rparr>))))"

section \<open>Rolling back and resetting\<close>

definition rollback_to_height :: "'a consensus_env_scheme \<Rightarrow> u64 \<Rightarrow> hash \<Rightarrow> engine \<Rightarrow> bool \<times> engine" where
  "rollback_to_height E target expected_root e =
     (if tip_height e \<le> target then (False, e)
      else case min_rollback_target (en_journal e) of
        None \<Rightarrow> (False, e)
      | Some lowest \<Rightarrow>
          if target < lowest then (False, e)
          else
            let m = mem_commit_root (env_blake3 E) (undo_entries E (entries_above target (en_journal e)) (en_store e));
                e1 = e\<lparr>en_store := m\<rparr>;
                epoch = target div EPOCH_LENGTH
            in if mem_state_root (env_blake3 E) m \<noteq> expected_root then (False, e1)
               else (True, e1\<lparr>en_chain := filter (\<lambda>b. bh_height (fb_header b) \<le> target) (en_chain e1),
                 en_journal := journal_truncate target (en_journal e1), en_pending_blocks := [],
                 en_pending_attestations := [], en_early_attestations := [], en_dropped_height := None,
                 en_force_finalizes := 0, en_epochs := (en_epochs e1)\<lparr>current_epoch := epoch\<rparr>,
                 en_store := save_chain_meta (env_blake3 E) target epoch m\<rparr>))"

definition restake :: "staking_validator \<Rightarrow> validator_set \<Rightarrow> validator_set" where
  "restake sv vs =
     (if is_active sv then update_first (\<lambda>v. vi_id v = sv_id sv) (\<lambda>v. v\<lparr>stake := total_stake sv\<rparr>) vs else vs)"

definition reset_to_height :: "'a consensus_env_scheme \<Rightarrow> u64 \<Rightarrow> u64 \<Rightarrow> engine \<Rightarrow> engine" where
  "reset_to_height E height epoch e =
     e\<lparr>en_pending_blocks := [], en_pending_attestations := [], en_early_attestations := [],
       en_v2_blocks := [], en_v2_votes := [], en_v2_revotes := [], en_v2_invalid := [],
       en_mempool := clear_pool (en_mempool e), en_force_finalizes := 0, en_sync_reverts := 0,
       en_last_probe := None, en_dropped_height := None, en_journal := journal_clear (en_journal e),
       en_epochs := (en_epochs e)\<lparr>current_epoch := epoch\<rparr>,
       en_chain := [marker_block height epoch (store_root E e) (ec_validator_id (en_config e))],
       en_validators := fold restake (validators (staking_in E (en_store e))) (en_validators e)\<rparr>"

definition reset_to_store_meta :: "'a consensus_env_scheme \<Rightarrow> engine \<Rightarrow> (u64 \<times> u64) \<times> engine" where
  "reset_to_store_meta E e =
     (let (height, epoch) = load_chain_meta (en_store e) in ((height, epoch), reset_to_height E height epoch e))"

definition clear_stale_pending :: "u64 \<Rightarrow> engine \<Rightarrow> engine" where
  "clear_stale_pending height e =
     e\<lparr>en_pending_blocks := above height (en_pending_blocks e),
       en_pending_attestations := above height (en_pending_attestations e),
       en_v2_blocks := above height (en_v2_blocks e), en_v2_votes := above height (en_v2_votes e),
       en_v2_invalid := above height (en_v2_invalid e)\<rparr>"

definition has_pending_block :: "engine \<Rightarrow> u64 \<Rightarrow> bool" where
  "has_pending_block e height \<longleftrightarrow> map_of (en_pending_blocks e) height \<noteq> None"

section \<open>Whose turn it is\<close>

definition next_order :: "'a consensus_env_scheme \<Rightarrow> engine \<Rightarrow> validator_id list" where
  "next_order E e =
     proposer_order_for_height (env_blake3 E) (en_validators e) (tip_height e + 1) (en_epoch_seed e)"

definition is_next_proposer :: "'a consensus_env_scheme \<Rightarrow> engine \<Rightarrow> bool" where
  "is_next_proposer E e \<longleftrightarrow>
     proposer_for_height_with_seed (env_blake3 E) (en_validators e) (tip_height e + 1) (en_epoch_seed e) =
       Some (ec_validator_id (en_config e))"

definition is_backup_proposer :: "'a consensus_env_scheme \<Rightarrow> clock \<Rightarrow> nat \<Rightarrow> engine \<Rightarrow> bool" where
  "is_backup_proposer E t stalled_ms e =
     (let block_time = ec_block_time_ms (en_config e); order = next_order E e in
      if stalled_ms < unat (block_time * 3) then False
      else if length order \<le> 1 then False
      else let interval_secs = max (max (block_time * 2) 4000 div 1000) 1;
               round = unat (unix_secs t div interval_secs)
           in order ! ((round + 1) mod length order) = ec_validator_id (en_config e))"

definition partition_probe_proposer :: "'a consensus_env_scheme \<Rightarrow> clock \<Rightarrow> engine \<Rightarrow> validator_id option" where
  "partition_probe_proposer E t e =
     (let order = next_order E e in
      if order = [] then None
      else Some (order ! (unat (unix_secs t div max 30 1) mod length order)))"

definition is_partition_probe_proposer :: "'a consensus_env_scheme \<Rightarrow> clock \<Rightarrow> engine \<Rightarrow> bool" where
  "is_partition_probe_proposer E t e \<longleftrightarrow> partition_probe_proposer E t e = Some (ec_validator_id (en_config e))"

section \<open>Producing a block\<close>

definition nonce_current :: "'a consensus_env_scheme \<Rightarrow> memory_store \<Rightarrow> user_operation \<Rightarrow> bool" where
  "nonce_current E m op =
     (case mem_get m (account_key (sender op)) of
        Some data \<Rightarrow> (case dec_account E data of Inr a \<Rightarrow> acct_nonce a \<le> nonce op | Inl _ \<Rightarrow> True)
      | None \<Rightarrow> True)"

definition slash_operation :: "validator_id \<Rightarrow> slashing_evidence \<Rightarrow> user_operation" where
  "slash_operation me ev =
     \<lparr>sender = me, nonce = 0,
      actions = [Call STAKING_ADDRESS ''slash'' (id_bytes (offender ev) @ le_bytes 8 (penalty_bps (reason ev)))],
      max_fee = 0, signature = [0xFF]\<rparr>"

definition choose_solution :: "validator_id \<Rightarrow> u64 \<Rightarrow> intent_pool \<Rightarrow> intent \<Rightarrow> solution option" where
  "choose_solution me height p i =
     (case select_best_solution p (in_id i) of
        Inr so \<Rightarrow> Some so
      | Inl _ \<Rightarrow>
          if 2 \<le> sat_sub height (sat_sub (in_expiry_height i) 500) then direct_solve me i else None)"

definition fulfill_operation :: "intent \<Rightarrow> solution \<Rightarrow> user_operation" where
  "fulfill_operation i so =
     \<lparr>sender = in_sender i, nonce = 0, actions = [Call INTENT_ADDRESS ''fulfill'' (fulfill_args i so)],
      max_fee = in_max_fee i, signature = [0xFF]\<rparr>"

fun include_intents ::
    "validator_id \<Rightarrow> u64 \<Rightarrow> intent list \<Rightarrow> intent_pool \<Rightarrow> user_operation list \<times> intent_pool" where
  "include_intents me height [] p = ([], p)"
| "include_intents me height (i # is) p =
     (case choose_solution me height p i of
        None \<Rightarrow> include_intents me height is p
      | Some so \<Rightarrow>
          let (ops, q) = include_intents me height is (snd (fulfill_intent (in_id i) p))
          in (fulfill_operation i so # ops, q))"

definition gather_operations :: "'a consensus_env_scheme \<Rightarrow> engine \<Rightarrow> user_operation list \<times> engine" where
  "gather_operations E e =
     (let me = ec_validator_id (en_config e);
          (drained, pool) = drain_ops (ec_max_ops_per_block (en_config e)) (en_mempool e);
          slashes = map (slash_operation me) (en_pending_slashing e);
          p = snd (expire_intents (tip_height e) (en_intents e));
          (fulfills, q) = include_intents me (tip_height e) (pending_intents p) p
      in (filter (nonce_current E (en_store e)) drained @ slashes @ fulfills,
          e\<lparr>en_mempool := pool, en_pending_slashing := [], en_intents := q\<rparr>))"

definition build_header ::
    "'a consensus_env_scheme \<Rightarrow> engine \<Rightarrow> u64 \<Rightarrow> user_operation list \<Rightarrow> block_result \<Rightarrow> block_header" where
  "build_header E e height ops r =
     (let (parent, ts) = (if en_chain e = [] then (0, 0)
            else (block_hash E (fb_header (last (en_chain e))), bh_timestamp_ms (fb_header (last (en_chain e)))));
          h = \<lparr>bh_height = height, bh_epoch = epoch_for_height height, bh_parent_hash = parent,
               bh_state_root = br_state_root r, bh_transactions_root = compute_tx_root E ops,
               bh_receipts_root = compute_receipts_root E r, bh_proposer = ec_validator_id (en_config e),
               bh_timestamp_ms = sat_add ts (ec_block_time_ms (en_config e)), bh_proposer_signature = []\<rparr>
      in case sign_with E of
           Some sign \<Rightarrow> h\<lparr>bh_proposer_signature := sign (id_bytes (block_hash E h))\<rparr>
         | None \<Rightarrow> h)"

record produced_block =
  pr_finalized :: "finalized_block option"
  pr_header :: block_header
  pr_operations :: "user_operation list"

definition finish_single ::
    "'a consensus_env_scheme \<Rightarrow> clock \<Rightarrow> u64 \<Rightarrow> finalized_block \<Rightarrow> block_revert \<Rightarrow> engine \<Rightarrow> engine" where
  "finish_single E t height b revert e =
     (let e1 = append_block E height b revert e
      in try_epoch_transition E t height
           (e1\<lparr>en_mempool := remove_finalized (fb_operations b) (en_mempool e1)\<rparr>))"

definition own_block ::
    "clock \<Rightarrow> block_header \<Rightarrow> user_operation list \<Rightarrow> block_result \<Rightarrow> block_revert \<Rightarrow> pending_block" where
  "own_block t h ops r revert =
     \<lparr>pb_header = h, pb_operations = ops, pb_proposed_at = instant_ms t, pb_already_executed = True,
      pb_result = Some r, pb_revert = Some revert, pb_mismatch_count = 0\<rparr>"

definition propose_own ::
    "'a consensus_env_scheme \<Rightarrow> clock \<Rightarrow> u64 \<Rightarrow> pending_block \<Rightarrow> engine \<Rightarrow> engine" where
  "propose_own E t height pb e =
     (let me = ec_validator_id (en_config e); bh = block_hash E (pb_header pb) in
      if fc_v2_active e height
      then let e1 = e\<lparr>en_v2_blocks := AList.update height
                       (AList.update bh pb (get_or height [] (en_v2_blocks e))) (en_v2_blocks e)\<rparr>;
               e2 = cast_vote height me bh (persist_last_attestation E height bh e1);
               e3 = e2\<lparr>en_v2_revotes := en_v2_revotes e2 @ [(height, bh)]\<rparr>
           in v2_reevaluate E t height e3
      else let e1 = e\<lparr>en_pending_blocks := AList.update height pb (en_pending_blocks e)\<rparr>
           in snd (accept_attestation E t me height bh (persist_last_attestation E height bh e1)))"

definition produce_block :: "'a consensus_env_scheme \<Rightarrow> clock \<Rightarrow> engine \<Rightarrow> produced_block \<times> engine" where
  "produce_block E t e0 =
     (let (ops, e) = gather_operations E (restore_store_to_finalized_tip E e0);
          height = (if en_chain e = [] then 1 else tip_height e + 1);
          ((r, revert), m) = execute_block_journaled_durable E (en_executor e) ops height (en_store e);
          e1 = e\<lparr>en_store := m\<rparr>;
          h = build_header E e1 height ops r
      in if active_count (en_validators e1) \<le> 1
         then let att = \<lparr>at_validator = ec_validator_id (en_config e1), at_height = height, at_hash = block_hash E h\<rparr>;
                  b = \<lparr>fb_header = h, fb_result = r, fb_attestations = [att], fb_operations = ops\<rparr>
              in (\<lparr>pr_finalized = Some b, pr_header = h, pr_operations = ops\<rparr>,
                  finish_single E t height b revert e1)
         else (\<lparr>pr_finalized = None, pr_header = h, pr_operations = ops\<rparr>,
               propose_own E t height (own_block t h ops r revert) e1))"

text \<open>One tick of \<open>ConsensusEngine::run\<close>; whether the node is alone is decided when it starts.\<close>

definition run_tick :: "'a consensus_env_scheme \<Rightarrow> clock \<Rightarrow> bool \<Rightarrow> engine \<Rightarrow> engine" where
  "run_tick E t single e = (if single \<or> is_next_proposer E e then snd (produce_block E t e) else e)"

section \<open>Timeouts\<close>

definition MAX_CONSECUTIVE_FORCE_FINALIZES :: u32 where "MAX_CONSECUTIVE_FORCE_FINALIZES = 3"

definition drop_pending :: "u64 \<Rightarrow> engine \<Rightarrow> engine" where
  "drop_pending height e = e\<lparr>en_pending_blocks := AList.delete height (en_pending_blocks e)\<rparr>"

definition time_out_block :: "'a consensus_env_scheme \<Rightarrow> clock \<Rightarrow> u64 \<Rightarrow> nat \<times> engine \<Rightarrow> nat \<times> engine" where
  "time_out_block E t height st =
     (let (count, e) = st in
      if height \<noteq> tip_height e + 1 then st
      else if (case map_of (en_pending_blocks e) height of
                 Some pb \<Rightarrow> bh_proposer (pb_header pb) = ec_validator_id (en_config e) \<and> 0 < pb_mismatch_count pb
               | None \<Rightarrow> False)
      then (count, (drop_pending height e)\<lparr>en_dropped_height := Some height\<rparr>)
      else
        let n = en_force_finalizes e + 1; e1 = e\<lparr>en_force_finalizes := n\<rparr> in
        if 1 < active_count (en_validators e) \<and> \<not> has_quorum (en_validators e) (attesters e height) \<and> 3 < height
        then (count, if 2 < n then drop_pending height e1 else e1)
        else if MAX_CONSECUTIVE_FORCE_FINALIZES < n then (count, drop_pending height e1)
        else (count + 1, finalize_pending_block E t height e1))"

definition finalize_timed_out_blocks :: "'a consensus_env_scheme \<Rightarrow> clock \<Rightarrow> nat \<Rightarrow> engine \<Rightarrow> nat \<times> engine" where
  "finalize_timed_out_blocks E t timeout_ms e =
     (let e1 = e\<lparr>en_pending_blocks := above (tip_height e) (en_pending_blocks e)\<rparr>;
          stale = map fst (filter (\<lambda>(_, pb). timeout_ms < instant_ms t - pb_proposed_at pb) (en_pending_blocks e1));
          (count, e2) = fold (time_out_block E t) stale (0, e1)
      in (count, e2\<lparr>en_pending_attestations := above (tip_height e2) (en_pending_attestations e2)\<rparr>))"

end
