(* ===== verification/Node_Messages.thy ===== *)
theory Node_Messages
  imports Node_Steps
begin

text \<open>
  The node around the engine: the gossip messages of \<open>crates/solen-p2p/src/messages.rs\<close> and the task of
  \<open>crates/solen-node/src/main.rs\<close> that handles them.  The state of the task is one record; what it broadcasts
  is appended to an outbox.  \<open>sign\<close> is the signature with the validator's key.
\<close>

section \<open>Messages\<close>

record sync_block =
  sy_header :: block_header
  sy_operations :: "user_operation list"
  sy_receipts :: "execution_receipt list"

datatype network_message =
    NewBlock block_header "user_operation list" nat u64
  | NewTransaction user_operation
  | AttestationMsg validator_id u64 hash bytes
  | SyncRequest u64 u64
  | SyncBlocks "sync_block list"
  | StatusAnnounce u64 hash
  | CheckpointAttestation validator_id u64 hash hash bytes

fun topic_for_chain :: "network_message \<Rightarrow> u64 \<Rightarrow> string" where
  "topic_for_chain (NewBlock _ _ _ _) c = ''solen/'' @ dec_string (unat c) @ ''/blocks/1''"
| "topic_for_chain (NewTransaction _) c = ''solen/'' @ dec_string (unat c) @ ''/transactions/1''"
| "topic_for_chain (AttestationMsg _ _ _ _) c = ''solen/'' @ dec_string (unat c) @ ''/attestations/1''"
| "topic_for_chain (SyncRequest _ _) c = ''solen/'' @ dec_string (unat c) @ ''/sync/1''"
| "topic_for_chain (SyncBlocks _) c = ''solen/'' @ dec_string (unat c) @ ''/sync/1''"
| "topic_for_chain (StatusAnnounce _ _) c = ''solen/'' @ dec_string (unat c) @ ''/sync/1''"
| "topic_for_chain (CheckpointAttestation _ _ _ _ _) c = ''solen/'' @ dec_string (unat c) @ ''/attestations/1''"

section \<open>State of the message task\<close>

record node =
  nd_engine :: engine
  nd_syncing :: bool
  nd_net_height :: u64
  nd_peer_heights :: "u64 list"
  nd_serve_tracker :: "(u64 \<times> nat \<times> u32) list"
  nd_serve_global :: "nat \<times> u32"
  nd_sync_fails :: u32
  nd_fork_mismatch :: bool
  nd_bad_roots :: "hash list"
  nd_ticks :: u32
  nd_outbox :: "network_message list"

definition start_node :: "clock \<Rightarrow> engine \<Rightarrow> node" where
  "start_node t e =
     \<lparr>nd_engine = e, nd_syncing = (1 < active_count (en_validators e)), nd_net_height = 0, nd_peer_heights = [],
      nd_serve_tracker = [], nd_serve_global = (instant_ms t, 0), nd_sync_fails = 0, nd_fork_mismatch = False,
      nd_bad_roots = [], nd_ticks = 0, nd_outbox = []\<rparr>"

definition broadcast :: "network_message \<Rightarrow> node \<Rightarrow> node" where
  "broadcast m n = n\<lparr>nd_outbox := nd_outbox n @ [m]\<rparr>"

definition node_id :: "node \<Rightarrow> validator_id" where
  "node_id n = ec_validator_id (en_config (nd_engine n))"

definition own_attestation :: "(bytes \<Rightarrow> bytes) \<Rightarrow> node \<Rightarrow> u64 \<Rightarrow> hash \<Rightarrow> network_message" where
  "own_attestation sign n height h =
     AttestationMsg (node_id n) height h
       (sign (attestation_signing_payload (ec_chain_id (en_config (nd_engine n))) height h))"

definition broadcast_v2_revotes :: "(bytes \<Rightarrow> bytes) \<Rightarrow> node \<Rightarrow> node" where
  "broadcast_v2_revotes sign n =
     (let (revotes, e) = take_v2_revotes (nd_engine n)
      in n\<lparr>nd_engine := e, nd_outbox := nd_outbox n @ map (\<lambda>(height, h). own_attestation sign n height h) revotes\<rparr>)"

section \<open>Transactions, blocks and attestations\<close>

text \<open>\<open>queued\<close> is the number of messages waiting in the channel.\<close>

definition on_transaction :: "nat \<Rightarrow> user_operation \<Rightarrow> node \<Rightarrow> node" where
  "on_transaction queued op n =
     (if 2048 < queued then n
      else n\<lparr>nd_engine := (nd_engine n)\<lparr>en_mempool := snd (submit_op op (en_mempool (nd_engine n)))\<rparr>\<rparr>)"

definition leave_sync :: "'a consensus_env_scheme \<Rightarrow> clock \<Rightarrow> u64 \<Rightarrow> node \<Rightarrow> node" where
  "leave_sync E t height n =
     (if nd_syncing n
      then n\<lparr>nd_syncing := False,
             nd_engine := snd (force_finalize_block_if_quorum E t height
               (clear_stale_pending (sat_sub height 1) (nd_engine n)))\<rparr>
      else n)"

definition block_accepted ::
    "'a consensus_env_scheme \<Rightarrow> (bytes \<Rightarrow> bytes) \<Rightarrow> clock \<Rightarrow> block_header \<Rightarrow> node \<Rightarrow> node" where
  "block_accepted E sign t h n0 =
     (let e = nd_engine n0;
          n = leave_sync E t (bh_height h)
            (n0\<lparr>nd_fork_mismatch := False, nd_engine := (if is_likely_partitioned e then reset_partition_state e else e)\<rparr>)
      in if fc_v2_active (nd_engine n) (bh_height h) then broadcast_v2_revotes sign n
         else let bh = block_hash E h; n1 = broadcast (own_attestation sign n (bh_height h) bh) n
              in n1\<lparr>nd_engine := snd (accept_attestation E t (node_id n1) (bh_height h) bh (nd_engine n1))\<rparr>)"

definition request_missing :: "'a consensus_env_scheme \<Rightarrow> block_header \<Rightarrow> node \<Rightarrow> node" where
  "request_missing E h n =
     (let our_h = tip_height (nd_engine n) in
      if our_h + 1 < bh_height h \<and> header_is_validator_signed E (nd_engine n) h
      then broadcast (SyncRequest (our_h + 1) (bh_height h))
             (n\<lparr>nd_syncing := True, nd_net_height := max (nd_net_height n) (bh_height h)\<rparr>)
      else n)"

definition on_new_block ::
    "'a consensus_env_scheme \<Rightarrow> (bytes \<Rightarrow> bytes) \<Rightarrow> clock \<Rightarrow> block_header \<Rightarrow> user_operation list \<Rightarrow> node \<Rightarrow> node" where
  "on_new_block E sign t h ops n =
     (if 5000 < length ops then n
      else let (accepted, e) = accept_block E t h ops (nd_engine n); n1 = n\<lparr>nd_engine := e\<rparr>
           in if accepted then block_accepted E sign t h n1 else request_missing E h n1)"

definition on_attestation ::
    "'a consensus_env_scheme \<Rightarrow> (bytes \<Rightarrow> bytes) \<Rightarrow> clock \<Rightarrow> validator_id \<Rightarrow> u64 \<Rightarrow> hash \<Rightarrow> bytes \<Rightarrow> node \<Rightarrow> node" where
  "on_attestation E sign t i height h sig n =
     (if length sig = 64 \<and>
         ed25519_verify E i (attestation_signing_payload (ec_chain_id (en_config (nd_engine n))) height h) sig
      then let n1 = n\<lparr>nd_engine := snd (accept_attestation E t i height h (nd_engine n))\<rparr>
           in if fc_v2_active (nd_engine n1) height then broadcast_v2_revotes sign n1 else n1
      else n)"

section \<open>Heights and checkpoints of peers\<close>

definition on_status_announce :: "u64 \<Rightarrow> node \<Rightarrow> node" where
  "on_status_announce height n0 =
     (let heights = nd_peer_heights n0 @ [height];
          n = n0\<lparr>nd_peer_heights := drop (length heights - 100) heights\<rparr>;
          our = tip_height (nd_engine n);
          ahead = length (filter (\<lambda>h. our + 1 < h) (nd_peer_heights n)) in
      if our + 1 < height
      then (if nd_fork_mismatch n then n
            else if 2 \<le> ahead \<or> length (nd_peer_heights n) \<le> 1 \<and> our = 0
            then broadcast (SyncRequest (our + 1) height)
                   (n\<lparr>nd_net_height := max (nd_net_height n) height, nd_syncing := True\<rparr>)
            else n)
      else n\<lparr>nd_net_height := max (nd_net_height n) height\<rparr>)"

definition on_checkpoint_attestation ::
    "'a consensus_env_scheme \<Rightarrow> validator_id \<Rightarrow> u64 \<Rightarrow> hash \<Rightarrow> hash \<Rightarrow> bytes \<Rightarrow> node \<Rightarrow> node" where
  "on_checkpoint_attestation E i height bh root sig n =
     (if length sig = 64 \<and> ed25519_verify E i (checkpoint_message (env_blake3 E) height bh root) sig
      then n\<lparr>nd_engine := snd (attest_checkpoint_with_data E i sig height bh root (nd_engine n))\<rparr>
      else n)"

section \<open>Synchronisation\<close>

definition MAX_SYNC_SERVES_PER_SEC :: u32 where "MAX_SYNC_SERVES_PER_SEC = 8"

text \<open>At most three answers in thirty seconds for one range.\<close>

definition serve_range :: "clock \<Rightarrow> u64 \<Rightarrow> node \<Rightarrow> bool \<times> node" where
  "serve_range t from_height n =
     (let now = instant_ms t; (since, count) = get_or from_height (now, 0) (nd_serve_tracker n);
          (ok, entry) = (if now - since < 30000 then (count + 1 \<le> 3, (since, count + 1)) else (True, (now, 1)));
          tracker = AList.update from_height entry (nd_serve_tracker n)
      in (ok, n\<lparr>nd_serve_tracker := (if 1000 < length tracker
            then filter (\<lambda>(_, at, _). now - at < 60000) tracker else tracker)\<rparr>))"

text \<open>At most eight answers in a second for all ranges.\<close>

definition serve_budget :: "clock \<Rightarrow> node \<Rightarrow> bool \<times> node" where
  "serve_budget t n =
     (let now = instant_ms t; (since, count) = nd_serve_global n in
      if 1000 \<le> now - since then (True, n\<lparr>nd_serve_global := (now, 1)\<rparr>)
      else if count < MAX_SYNC_SERVES_PER_SEC then (True, n\<lparr>nd_serve_global := (since, count + 1)\<rparr>)
      else (False, n))"

definition on_sync_request :: "'a consensus_env_scheme \<Rightarrow> clock \<Rightarrow> u64 \<Rightarrow> node \<Rightarrow> node" where
  "on_sync_request E t from_height n0 =
     (let (ok, n) = serve_range t from_height n0 in
      if \<not> ok then n
      else let (ok, n) = serve_budget t n in
        if \<not> ok then n
        else case get_blocks_for_sync E (nd_engine n) from_height 100 of
          [] \<Rightarrow> n
        | b # bs \<Rightarrow>
            if bh_height (fb_header b) = from_height
            then broadcast (SyncBlocks (map (\<lambda>b. \<lparr>sy_header = fb_header b, sy_operations = fb_operations b,
                   sy_receipts = br_receipts (fb_result b)\<rparr>) (b # bs))) n
            else n)"

text \<open>One block of a batch: the number of applied blocks and whether one was out of reach are counted.\<close>

definition apply_sync_block ::
    "'a consensus_env_scheme \<Rightarrow> clock \<Rightarrow> sync_block \<Rightarrow> u64 \<times> bool \<times> node \<Rightarrow> u64 \<times> bool \<times> node" where
  "apply_sync_block E t b st =
     (let (synced, gap, n) = st; root = bh_state_root (sy_header b) in
      if root \<in> set (nd_bad_roots n) then st
      else
        let (applied, e) = replay_synced_block E t (sy_header b) (sy_operations b) (sy_receipts b) (nd_engine n);
            n1 = n\<lparr>nd_engine := e\<rparr> in
        if applied then (synced + 1, gap, n1)
        else if bh_height (sy_header b) = tip_height e + 1
        then let bad = List.insert root (nd_bad_roots n1)
             in (synced, gap, n1\<lparr>nd_bad_roots := (if 1000 < length bad then [] else bad)\<rparr>)
        else (synced, gap \<or> tip_height e + 1 < bh_height (sy_header b), n1))"

definition give_up_sync :: "node \<Rightarrow> node" where
  "give_up_sync n =
     (let our = tip_height (nd_engine n); e = nd_engine n
      in n\<lparr>nd_syncing := False, nd_sync_fails := 0, nd_fork_mismatch := True,
           nd_engine := (if our + 2 < nd_net_height n \<and> \<not> en_resyncing e then request_resync e else e),
           nd_peer_heights := [], nd_net_height := 0\<rparr>)"

definition continue_sync :: "bool \<Rightarrow> node \<Rightarrow> node" where
  "continue_sync again n =
     (let our = tip_height (nd_engine n) in
      if nd_net_height n \<le> our + 1 then n\<lparr>nd_engine := snd (take_resync_request (nd_engine n))\<rparr>
      else if again then broadcast (SyncRequest (our + 1) (nd_net_height n)) n
      else n)"

definition on_sync_blocks :: "'a consensus_env_scheme \<Rightarrow> clock \<Rightarrow> sync_block list \<Rightarrow> node \<Rightarrow> node" where
  "on_sync_blocks E t blocks n =
     (let our = tip_height (nd_engine n);
          relevant = (if nd_fork_mismatch n
            then filter (\<lambda>b. our + 1 \<le> bh_height (sy_header b) \<and> bh_state_root (sy_header b) \<notin> set (nd_bad_roots n)) blocks
            else blocks);
          batch = sort_key (\<lambda>b. bh_height (sy_header b)) (take 100 relevant) in
      if relevant = [] then n
      else
        let (synced, gap, n1) = fold (apply_sync_block E t) batch (0, False, n) in
        if 0 < synced then continue_sync True (n1\<lparr>nd_sync_fails := 0\<rparr>)
        else if \<not> (\<exists>b \<in> set batch. tip_height (nd_engine n1) + 1 \<le> bh_height (sy_header b)) then n1
        else let n2 = n1\<lparr>nd_sync_fails := nd_sync_fails n1 + 1\<rparr>
             in if 3 \<le> nd_sync_fails n2 then give_up_sync n2 else continue_sync gap n2)"

section \<open>The task\<close>

fun receive ::
    "'a consensus_env_scheme \<Rightarrow> (bytes \<Rightarrow> bytes) \<Rightarrow> clock \<Rightarrow> nat \<Rightarrow> network_message \<Rightarrow> node \<Rightarrow> node" where
  "receive E sign t queued (NewTransaction op) n = on_transaction queued op n"
| "receive E sign t queued (NewBlock h ops _ _) n = on_new_block E sign t h ops n"
| "receive E sign t queued (AttestationMsg i height h sig) n = on_attestation E sign t i height h sig n"
| "receive E sign t queued (StatusAnnounce height _) n = on_status_announce height n"
| "receive E sign t queued (CheckpointAttestation i height bh root sig) n =
     on_checkpoint_attestation E i height bh root sig n"
| "receive E sign t queued (SyncRequest from_height _) n = on_sync_request E t from_height n"
| "receive E sign t queued (SyncBlocks blocks) n = on_sync_blocks E t blocks n"

text \<open>The periodic announcement of our height, which also ends a start in sync mode.\<close>

definition status_tick :: "'a consensus_env_scheme \<Rightarrow> node \<Rightarrow> node" where
  "status_tick E n0 =
     (let height = tip_height (nd_engine n0);
          n = (broadcast (StatusAnnounce height (store_root E (nd_engine n0))) n0)\<lparr>nd_ticks := nd_ticks n0 + 1\<rparr>;
          known = nd_net_height n; cleared = n\<lparr>nd_engine := clear_stale_pending height (nd_engine n), nd_syncing := False\<rparr> in
      if \<not> nd_syncing n then n
      else if height = 0 \<and> 5 \<le> nd_ticks n then n\<lparr>nd_syncing := False\<rparr>
      else if 0 < known \<and> known \<le> height + 1 \<and> 4 \<le> nd_ticks n then cleared
      else if 0 < height \<and> known = 0 \<and> 5 \<le> nd_ticks n then cleared
      else n)"

end
