(* ===== verification/Snapshot.thy ===== *)
theory Snapshot
  imports Storage Encoding
begin

text \<open>
  State snapshots (\<open>crates/solen-consensus/src/snapshot.rs\<close>): a header with the height, the epoch and the
  state root, followed by the compressed entries of the store.  The compressor is a parameter; decompression
  yields the bytes read before the end or the first error.
\<close>

section \<open>Format\<close>

definition SNAPSHOT_MAGIC :: bytes where "SNAPSHOT_MAGIC = ascii ''SNAP''"

definition SNAPSHOT_VERSION :: u32 where "SNAPSHOT_VERSION = 1"

definition HEADER_SIZE :: nat where "HEADER_SIZE = 56"

definition MAX_SNAPSHOT_SIZE :: nat where "MAX_SNAPSHOT_SIZE = 2 * 1024 * 1024 * 1024"

datatype snapshot_error =
    SnapInvalid string
  | SnapRootMismatch string string
  | SnapIo string
  | SnapStorage string

record snapshot_meta =
  sm_height :: u64
  sm_epoch :: u64
  sm_state_root :: hash
  sm_entry_count :: u64
  sm_compressed_size :: nat
  sm_uncompressed_size :: nat

definition encode_entry :: "bytes \<times> bytes \<Rightarrow> bytes" where
  "encode_entry kv =
     (let (k, v) = kv
      in le_bytes 4 (of_nat (length k) :: u32) @ k @ le_bytes 4 (of_nat (length v) :: u32) @ v)"

definition snapshot_body :: "(bytes \<times> bytes) list \<Rightarrow> bytes" where
  "snapshot_body entries = le_bytes 8 (of_nat (length entries) :: u64) @ concat (map encode_entry entries)"

definition create_snapshot ::
    "(bytes \<Rightarrow> hash) \<Rightarrow> (bytes \<Rightarrow> bytes) \<Rightarrow> memory_store \<Rightarrow> u64 \<Rightarrow> u64 \<Rightarrow> bytes" where
  "create_snapshot blake3 deflate m height epoch =
     SNAPSHOT_MAGIC @ le_bytes 4 SNAPSHOT_VERSION @ le_bytes 8 height @ le_bytes 8 epoch @
     id_bytes (mem_state_root blake3 m) @ deflate (snapshot_body (mem_scan_all m))"

definition read_snapshot_meta :: "bytes \<Rightarrow> snapshot_error + snapshot_meta" where
  "read_snapshot_meta data =
     (if length data < HEADER_SIZE then Inl (SnapInvalid ''too short'')
      else if take 4 data \<noteq> SNAPSHOT_MAGIC then Inl (SnapInvalid ''bad magic'')
      else let version = of_le_bytes (take 4 (drop 4 data)) :: u32 in
        if version \<noteq> SNAPSHOT_VERSION then Inl (SnapInvalid (''unsupported version: '' @ dec_string (unat version)))
        else Inr \<lparr>sm_height = of_le_bytes (take 8 (drop 8 data)), sm_epoch = of_le_bytes (take 8 (drop 16 data)),
                  sm_state_root = id_of_bytes (take 32 (drop 24 data)), sm_entry_count = 0,
                  sm_compressed_size = length data - HEADER_SIZE, sm_uncompressed_size = 0\<rparr>)"

text \<open>The entries of the body are written to the store as they are read; the number of entries still expected
  when the body ends is returned.\<close>

fun load_entries :: "(bytes \<Rightarrow> hash) \<Rightarrow> bytes \<Rightarrow> nat \<Rightarrow> memory_store \<Rightarrow> nat \<times> memory_store" where
  "load_entries blake3 rest 0 m = (0, m)"
| "load_entries blake3 rest (Suc n) m =
     (if length rest < 4 then (Suc n, m)
      else let key_len = unat (of_le_bytes (take 4 rest) :: u32); rest1 = drop 4 rest in
        if length rest1 < key_len + 4 then (Suc n, m)
        else let key = take key_len rest1; rest2 = drop key_len rest1;
                 val_len = unat (of_le_bytes (take 4 rest2) :: u32); rest3 = drop 4 rest2 in
          if length rest3 < val_len then (Suc n, m)
          else load_entries blake3 (drop val_len rest3) n (mem_put blake3 key (take val_len rest3) m))"

definition restore_snapshot ::
    "(bytes \<Rightarrow> hash) \<Rightarrow> (bytes \<Rightarrow> bytes \<times> string option) \<Rightarrow> bytes \<Rightarrow> memory_store
     \<Rightarrow> (snapshot_error + snapshot_meta) \<times> memory_store" where
  "restore_snapshot blake3 inflate data m =
     (case read_snapshot_meta data of
        Inl e \<Rightarrow> (Inl e, m)
      | Inr meta \<Rightarrow>
          let (raw, err) = inflate (drop HEADER_SIZE data) in
          if MAX_SNAPSHOT_SIZE < length raw
          then (Inl (SnapInvalid (''decompressed size exceeds '' @
                 dec_string (MAX_SNAPSHOT_SIZE div (1024 * 1024)) @ ''MB limit'')), m)
          else case err of
            Some e \<Rightarrow> (Inl (SnapIo e), m)
          | None \<Rightarrow>
              if length raw < 8 then (Inl (SnapInvalid ''no entry count''), m)
              else
                let entry_count = of_le_bytes (take 8 raw) :: u64;
                    (missing, m1) = load_entries blake3 (drop 8 raw) (unat entry_count) m in
                if 0 < missing
                then (Inl (SnapInvalid (''truncated snapshot: expected '' @ dec_string (unat entry_count) @
                       '' entries, loaded '' @ dec_string (unat entry_count - missing))), m1)
                else
                  let m2 = mem_commit_root blake3 m1; actual = mem_state_root blake3 m2 in
                  if actual \<noteq> sm_state_root meta
                  then (Inl (SnapRootMismatch (hex_encode (id_bytes (sm_state_root meta))) (hex_encode (id_bytes actual))), m2)
                  else (Inr (meta\<lparr>sm_entry_count := entry_count, sm_uncompressed_size := length raw\<rparr>), m2))"

section \<open>Reading back\<close>

definition entry_fits :: "bytes \<times> bytes \<Rightarrow> bool" where
  "entry_fits kv \<longleftrightarrow> length (fst kv) < 2 ^ 32 \<and> length (snd kv) < 2 ^ 32"

lemma load_encoded:
  "\<forall>kv \<in> set es. entry_fits kv \<Longrightarrow>
   load_entries blake3 (concat (map encode_entry es)) (length es) m = (0, fold (\<lambda>(k, v). mem_put blake3 k v) es m)"
proof (induction es arbitrary: m)
  case (Cons kv es)
  obtain k v where kv: "kv = (k, v)" by fastforce
  then have "unat (of_nat (length k) :: u32) = length k" "unat (of_nat (length v) :: u32) = length v"
    using Cons.prems by (simp_all add: entry_fits_def unat_of_nat_exact)
  then show ?case
    using Cons by (simp add: kv encode_entry_def of_le_bytes_le_bytes)
qed simp

lemma put_all_inv: "mem_inv blake3 m \<Longrightarrow> mem_inv blake3 (fold (\<lambda>(k, v). mem_put blake3 k v) es m)"
  by (induction es arbitrary: m) (auto simp: mem_inv_put)

lemma clear_inv: "mem_inv blake3 m \<Longrightarrow> mem_inv blake3 (clear_store mem_scan_all mem_delete m)"
proof -
  have "mem_inv blake3 m \<Longrightarrow> mem_inv blake3 (fold mem_delete ks m)" for ks m
    by (induction ks arbitrary: m) (simp_all add: mem_inv_delete)
  then show "mem_inv blake3 m \<Longrightarrow> mem_inv blake3 (clear_store mem_scan_all mem_delete m)"
    by (simp add: clear_store_def)
qed

lemma body_entries: "8 * length es + 8 \<le> length (snapshot_body es)"
  by (induction es) (auto simp: snapshot_body_def encode_entry_def)

lemma created_meta:
  "read_snapshot_meta (create_snapshot blake3 deflate m height epoch) =
     Inr \<lparr>sm_height = height, sm_epoch = epoch, sm_state_root = mem_state_root blake3 m, sm_entry_count = 0,
          sm_compressed_size = length (deflate (snapshot_body (mem_scan_all m))), sm_uncompressed_size = 0\<rparr>"
  "drop HEADER_SIZE (create_snapshot blake3 deflate m height epoch) = deflate (snapshot_body (mem_scan_all m))"
proof -
  have l: "length SNAPSHOT_MAGIC = 4" "length (id_bytes h) = 32" for h
    by code_simp (rule length_id_bytes)
  show "read_snapshot_meta (create_snapshot blake3 deflate m height epoch) =
     Inr \<lparr>sm_height = height, sm_epoch = epoch, sm_state_root = mem_state_root blake3 m, sm_entry_count = 0,
          sm_compressed_size = length (deflate (snapshot_body (mem_scan_all m))), sm_uncompressed_size = 0\<rparr>"
    "drop HEADER_SIZE (create_snapshot blake3 deflate m height epoch) = deflate (snapshot_body (mem_scan_all m))"
    by (simp_all add: read_snapshot_meta_def create_snapshot_def HEADER_SIZE_def l of_le_bytes_le_bytes)
qed

text \<open>A snapshot restores the state it was taken of.  With a compressor that is inverted by its decompressor, the
  snapshot of a store whose entries fit the format's length fields and the size limit is accepted by any cleared
  store; afterwards every key reads as in the original, the roots agree, and the header's height and epoch are
  returned.\<close>

theorem snapshot_roundtrip:
  assumes "\<forall>x. inflate (deflate x) = (x, None)" "mem_inv blake3 m" "mem_inv blake3 m0"
    and "\<forall>kv \<in> set (mem_scan_all m). entry_fits kv" "length (snapshot_body (mem_scan_all m)) \<le> MAX_SNAPSHOT_SIZE"
  shows "\<exists>meta m'. restore_snapshot blake3 inflate (create_snapshot blake3 deflate m height epoch)
      (clear_store mem_scan_all mem_delete m0) = (Inr meta, m') \<and>
    mem_get m' = mem_get m \<and> mem_state_root blake3 m' = mem_state_root blake3 m \<and>
    sm_height meta = height \<and> sm_epoch meta = epoch \<and> sm_state_root meta = mem_state_root blake3 m"
proof -
  let ?es = "mem_scan_all m" and ?m0 = "clear_store mem_scan_all mem_delete m0"
  let ?m1 = "fold (\<lambda>(k, v). mem_put blake3 k v) ?es ?m0"
  have "length ?es < 2 ^ 64"
    using body_entries [of ?es] assms(5) by (simp add: MAX_SNAPSHOT_SIZE_def)
  then have n: "unat (of_nat (length ?es) :: u64) = length ?es"
    by (simp add: unat_of_nat_exact)
  have body: "of_le_bytes (take 8 (snapshot_body ?es)) = (of_nat (length ?es) :: u64)"
    "drop 8 (snapshot_body ?es) = concat (map encode_entry ?es)" "\<not> length (snapshot_body ?es) < 8"
    by (simp_all add: snapshot_body_def of_le_bytes_le_bytes)
  have inv: "mem_inv blake3 ?m1"
    by (intro put_all_inv clear_inv assms(3))
  have "distinct (map fst ?es)"
    by (simp add: mem_scan_all_def)
  then have get: "mem_get ?m1 = mem_get m"
    using mem.fold_put [of ?es blake3 ?m0] mem.get_clear_store [of m0] mem.scan_all_get [of m]
    by (auto simp: map_add_def fun_eq_iff split: option.split)
  then have root: "mem_state_root blake3 (mem_commit_root blake3 ?m1) = mem_state_root blake3 m"
    using mem_state_root_determined [of blake3 "mem_commit_root blake3 ?m1" m] mem_inv_commit_root [OF inv] assms(2) by simp
  show ?thesis
    using assms(1,5) load_encoded [OF assms(4), of blake3 ?m0]
    by (simp add: restore_snapshot_def created_meta body n get root Let_def)
qed

theorem snapshot_roundtrip_witness:
  "\<exists>meta m'. restore_snapshot sample_hash (\<lambda>x. (x, None)) (create_snapshot sample_hash id (mem_put sample_hash [1] [2, 3] mem_new) 7 0)
      (clear_store mem_scan_all mem_delete mem_new) = (Inr meta, m') \<and> mem_get m' [1] = Some [2, 3] \<and> sm_height meta = 7"
proof -
  let ?m = "mem_put sample_hash [1] [2, 3] mem_new"
  have scan: "mem_scan_all ?m = [([1], [2, 3])]"
    by code_simp
  have "mem_inv sample_hash ?m" "mem_inv sample_hash mem_new"
    by (simp_all add: mem_inv_new mem_inv_put)
  then show ?thesis
    using snapshot_roundtrip [of "\<lambda>x. (x, None)" id sample_hash ?m mem_new 7 0]
    by (auto simp: scan entry_fits_def snapshot_body_def encode_entry_def MAX_SNAPSHOT_SIZE_def mem_get_put)
qed

end
