(* ===== verification/Node_Loop.thy ===== *)
theory Node_Loop
  imports Node_Messages Snapshot
begin

text \<open>
  The production loop of \<open>crates/solen-node/src/main.rs\<close> on a networked node: the stranded check, timeouts,
  governance of the block time, automatic recovery, the partition latch and block production.  What the peers
  answer over HTTP, the checkpoints on disk and what restoring a database checkpoint does to the store are
  arguments (\<open>recovery_sources\<close>); an answer is the state root a peer reports in hexadecimal, or none.
\<close>

section \<open>Asking the peers\<close>

datatype canonicity = Canonical | Forked | Inconclusive

definition ascii_lower :: "char \<Rightarrow> char" where
  "ascii_lower c = (let n = of_char c :: nat in if 65 \<le> n \<and> n \<le> 90 then char_of (n + 32) else c)"

definition eq_ignore_ascii_case :: "string \<Rightarrow> string \<Rightarrow> bool" where
  "eq_ignore_ascii_case a b \<longleftrightarrow> map ascii_lower a = map ascii_lower b"

definition classify_root :: "string option \<Rightarrow> string \<Rightarrow> canonicity option" where
  "classify_root reported want =
     (case reported of
        Some root \<Rightarrow> Some (if eq_ignore_ascii_case root want then Canonical else Forked)
      | None \<Rightarrow> None)"

definition decide_canonicity :: "string option list \<Rightarrow> string \<Rightarrow> canonicity" where
  "decide_canonicity answers want =
     (case first_some (\<lambda>a. classify_root a want) answers of Some v \<Rightarrow> v | None \<Rightarrow> Inconclusive)"

definition CANONICITY_ROUNDS :: nat where "CANONICITY_ROUNDS = 3"

definition check_canonicity :: "(nat \<Rightarrow> string option list) \<Rightarrow> hash \<Rightarrow> canonicity" where
  "check_canonicity answers root =
     (case find (\<lambda>v. v \<noteq> Inconclusive)
             (map (\<lambda>r. decide_canonicity (answers r) (hex_encode (id_bytes root))) [0..<CANONICITY_ROUNDS]) of
        Some v \<Rightarrow> v
      | None \<Rightarrow> Inconclusive)"

definition checkpoint_is_canonical :: "(nat \<Rightarrow> string option list) \<Rightarrow> hash \<Rightarrow> bool" where
  "checkpoint_is_canonical answers root \<longleftrightarrow> check_canonicity answers root = Canonical"

text \<open>The search for the highest block below the tip on which we agree with the peers.\<close>

function ancestor_from ::
    "(u64 \<Rightarrow> string option list) \<Rightarrow> engine \<Rightarrow> nat \<Rightarrow> nat \<Rightarrow> (u64 \<times> hash) option" where
  "ancestor_from answers e lo h =
     (if h < lo then None
      else case get_block e (of_nat h) of
        None \<Rightarrow> None
      | Some b \<Rightarrow>
          let root = bh_state_root (fb_header b) in
          (case first_some id (answers (of_nat h)) of
             None \<Rightarrow> None
           | Some r \<Rightarrow>
               if eq_ignore_ascii_case r (hex_encode (id_bytes root)) then Some (of_nat h, root)
               else if h = lo then None
               else ancestor_from answers e lo (h - 1)))"
  by pat_completeness auto
termination
  by (relation "measure (\<lambda>(_, _, _, h). h)") auto

declare ancestor_from.simps [simp del]

definition find_common_ancestor ::
    "(u64 \<Rightarrow> string option list) \<Rightarrow> engine \<Rightarrow> u64 \<Rightarrow> u64 \<Rightarrow> (u64 \<times> hash) option" where
  "find_common_ancestor answers e min_height tip =
     (if tip = 0 then None else ancestor_from answers e (unat min_height) (unat (sat_sub tip 1)))"

section \<open>Recovery\<close>

text \<open>Database checkpoints and snapshots are listed by height, the lowest first; a peer is its reported height and
  the snapshot downloaded from it.\<close>

record recovery_sources =
  rs_tip_answers :: "nat \<Rightarrow> string option list"
  rs_ancestor_answers :: "u64 \<Rightarrow> string option list"
  rs_checkpoint_answers :: "u64 \<Rightarrow> nat \<Rightarrow> string option list"
  rs_rocks :: "(u64 \<times> hash \<times> (memory_store \<Rightarrow> bool \<times> memory_store)) list"
  rs_local :: "(u64 \<times> bytes option) list"
  rs_remote :: "(u64 option \<times> bytes option) list"

definition rollback_to_ancestor_tier ::
    "'a consensus_env_scheme \<Rightarrow> recovery_sources \<Rightarrow> engine \<Rightarrow> bool \<times> engine" where
  "rollback_to_ancestor_tier E src e =
     (case min_rollback_target (en_journal e) of
        None \<Rightarrow> (False, e)
      | Some lo \<Rightarrow>
          (case find_common_ancestor (rs_ancestor_answers src) e lo (tip_height e) of
             None \<Rightarrow> (False, e)
           | Some (h, root) \<Rightarrow> if h < tip_height e then rollback_to_height E h root e else (False, e)))"

fun rocks_tier ::
    "'a consensus_env_scheme \<Rightarrow> recovery_sources \<Rightarrow> (u64 \<times> hash \<times> (memory_store \<Rightarrow> bool \<times> memory_store)) list
     \<Rightarrow> engine \<Rightarrow> bool \<times> engine" where
  "rocks_tier E src [] e = (False, e)"
| "rocks_tier E src ((h, root, restore) # cs) e =
     (if \<not> checkpoint_is_canonical (rs_checkpoint_answers src h) root then rocks_tier E src cs e
      else case restore (en_store e) of
        (True, m) \<Rightarrow> (True, snd (reset_to_store_meta E (e\<lparr>en_store := m\<rparr>)))
      | (False, m) \<Rightarrow> rocks_tier E src cs (e\<lparr>en_store := m\<rparr>))"

definition restore_into ::
    "'a consensus_env_scheme \<Rightarrow> (bytes \<Rightarrow> bytes \<times> string option) \<Rightarrow> bytes \<Rightarrow> engine \<Rightarrow> bool \<times> engine" where
  "restore_into E inflate data e =
     (case restore_snapshot (env_blake3 E) inflate data (clear_store mem_scan_all mem_delete (en_store e)) of
        (Inr meta, m) \<Rightarrow> (True, reset_to_height E (sm_height meta) (sm_epoch meta) (e\<lparr>en_store := m\<rparr>))
      | (Inl _, m) \<Rightarrow> (False, e\<lparr>en_store := m\<rparr>))"

fun local_tier ::
    "'a consensus_env_scheme \<Rightarrow> (bytes \<Rightarrow> bytes \<times> string option) \<Rightarrow> recovery_sources
     \<Rightarrow> (u64 \<times> bytes option) list \<Rightarrow> engine \<Rightarrow> bool \<times> engine" where
  "local_tier E inflate src [] e = (False, e)"
| "local_tier E inflate src ((_, None) # cs) e = local_tier E inflate src cs e"
| "local_tier E inflate src ((_, Some data) # cs) e =
     (case read_snapshot_meta data of
        Inl _ \<Rightarrow> local_tier E inflate src cs e
      | Inr meta \<Rightarrow>
          if \<not> checkpoint_is_canonical (rs_checkpoint_answers src (sm_height meta)) (sm_state_root meta)
          then local_tier E inflate src cs e
          else case restore_into E inflate data e of
            (True, e1) \<Rightarrow> (True, e1)
          | (False, e1) \<Rightarrow> local_tier E inflate src cs e1)"

fun remote_tier ::
    "'a consensus_env_scheme \<Rightarrow> (bytes \<Rightarrow> bytes \<times> string option) \<Rightarrow> (u64 option \<times> bytes option) list
     \<Rightarrow> engine \<Rightarrow> bool \<times> engine" where
  "remote_tier E inflate [] e = (False, e)"
| "remote_tier E inflate ((peer_height, snap) # ps) e =
     (if (case peer_height of Some h \<Rightarrow> h \<le> tip_height e | None \<Rightarrow> False) then remote_tier E inflate ps e
      else case snap of
        None \<Rightarrow> remote_tier E inflate ps e
      | Some data \<Rightarrow>
          if data = [] then remote_tier E inflate ps e
          else case restore_into E inflate data e of
            (True, e1) \<Rightarrow> (True, e1)
          | (False, e1) \<Rightarrow> remote_tier E inflate ps e1)"

text \<open>Each tier is tried when the one before it did not succeed.\<close>

definition or_else :: "bool \<times> engine \<Rightarrow> (engine \<Rightarrow> bool \<times> engine) \<Rightarrow> bool \<times> engine" where
  "or_else r f = (case r of (True, e) \<Rightarrow> (True, e) | (False, e) \<Rightarrow> f e)"

definition recover ::
    "'a consensus_env_scheme \<Rightarrow> (bytes \<Rightarrow> bytes \<times> string option) \<Rightarrow> recovery_sources \<Rightarrow> engine \<Rightarrow> bool \<times> engine" where
  "recover E inflate src e =
     or_else
       (if 0 < tip_height e \<and> check_canonicity (rs_tip_answers src) (store_root E e) = Forked
        then or_else (rollback_to_ancestor_tier E src e)
               (\<lambda>e. or_else (rocks_tier E src (filter (\<lambda>(h, _). h \<le> tip_height e) (rev (rs_rocks src))) e)
                 (\<lambda>e. local_tier E inflate src (filter (\<lambda>(h, _). h \<le> tip_height e) (rev (rs_local src))) e))
        else (False, e))
       (remote_tier E inflate (rs_remote src))"

section \<open>The loop\<close>

definition STRANDED_BEHIND_BLOCKS :: u64 where "STRANDED_BEHIND_BLOCKS = 12"

definition STRANDED_RESYNC_AFTER_MS :: nat where "STRANDED_RESYNC_AFTER_MS = 40000"

definition QUORUM_TIMEOUT_MS :: nat where "QUORUM_TIMEOUT_MS = 10000"

definition PARTITION_SYNC_INTERVAL_MS :: nat where "PARTITION_SYNC_INTERVAL_MS = 3000"

record node_loop =
  lp_node :: node
  lp_min_interval :: u64
  lp_final_height :: u64
  lp_final_at :: nat
  lp_proposed_at :: nat
  lp_partition_sync_at :: nat
  lp_stranded_height :: u64
  lp_stranded_at :: nat
  lp_is_validator :: bool

definition start_loop :: "clock \<Rightarrow> node \<Rightarrow> node_loop" where
  "start_loop t n =
     (let e = nd_engine n; now = instant_ms t
      in \<lparr>lp_node = n, lp_min_interval = ec_block_time_ms (en_config e), lp_final_height = tip_height e,
          lp_final_at = now, lp_proposed_at = now,
          lp_partition_sync_at = (if PARTITION_SYNC_INTERVAL_MS \<le> now then now - PARTITION_SYNC_INTERVAL_MS else now),
          lp_stranded_height = tip_height e, lp_stranded_at = now,
          lp_is_validator = (node_id n \<in> vi_id ` set (en_validators e))\<rparr>)"

abbreviation loop_engine :: "node_loop \<Rightarrow> engine" where
  "loop_engine l \<equiv> nd_engine (lp_node l)"

definition set_engine :: "engine \<Rightarrow> node_loop \<Rightarrow> node_loop" where
  "set_engine e l = l\<lparr>lp_node := (lp_node l)\<lparr>nd_engine := e\<rparr>\<rparr>"

definition send :: "network_message \<Rightarrow> node_loop \<Rightarrow> node_loop" where
  "send m l = l\<lparr>lp_node := broadcast m (lp_node l)\<rparr>"

definition check_stranded :: "clock \<Rightarrow> node_loop \<Rightarrow> node_loop" where
  "check_stranded t l =
     (let e = loop_engine l; our = tip_height e; now = instant_ms t in
      if 0 < our \<and> our + STRANDED_BEHIND_BLOCKS < nd_net_height (lp_node l) \<and> \<not> en_resyncing e \<and>
         \<not> is_likely_partitioned e \<and> our = lp_stranded_height l
      then (if STRANDED_RESYNC_AFTER_MS \<le> now - lp_stranded_at l
            then (set_engine (request_resync e) l)\<lparr>lp_stranded_at := now\<rparr> else l)
      else l\<lparr>lp_stranded_height := our, lp_stranded_at := now\<rparr>)"

definition note_synced :: "clock \<Rightarrow> node_loop \<Rightarrow> node_loop" where
  "note_synced t l =
     (let our = tip_height (loop_engine l) in
      if lp_final_height l < our then l\<lparr>lp_final_height := our, lp_final_at := instant_ms t\<rparr> else l)"

definition finalize_stale :: "'a consensus_env_scheme \<Rightarrow> clock \<Rightarrow> node_loop \<Rightarrow> node_loop" where
  "finalize_stale E t l =
     (let (forced, e) = finalize_timed_out_blocks E t QUORUM_TIMEOUT_MS (loop_engine l); l1 = set_engine e l
      in if 0 < forced then send (StatusAnnounce (tip_height e) (store_root E e)) l1 else l1)"

definition governed_interval :: "memory_store \<Rightarrow> u64 \<Rightarrow> u64" where
  "governed_interval m interval =
     (case mem_get m (ascii ''__config_block_time__'') of
        Some data \<Rightarrow>
          if 8 \<le> length data
          then let bt = of_le_bytes (take 8 data) in if 0 < bt \<and> bt \<noteq> interval then bt else interval
          else interval
      | None \<Rightarrow> interval)"

definition announce_checkpoint :: "'a consensus_env_scheme \<Rightarrow> (bytes \<Rightarrow> bytes) \<Rightarrow> node_loop \<Rightarrow> node_loop" where
  "announce_checkpoint E sign l =
     (case fs_pending (en_checkpoints (loop_engine l)) of
        Some p \<Rightarrow>
          send (CheckpointAttestation (node_id (lp_node l)) (pcp_height p) (pcp_block_hash p) (pcp_state_root p)
            (sign (checkpoint_message (env_blake3 E) (pcp_height p) (pcp_block_hash p) (pcp_state_root p)))) l
      | None \<Rightarrow> l)"

definition note_finalized :: "'a consensus_env_scheme \<Rightarrow> (bytes \<Rightarrow> bytes) \<Rightarrow> clock \<Rightarrow> node_loop \<Rightarrow> node_loop" where
  "note_finalized E sign t l =
     (let e = loop_engine l; our = tip_height e; now = instant_ms t in
      if lp_final_height l < our
      then let ts = (case latest_block e of Some b \<Rightarrow> bh_timestamp_ms (fb_header b) | None \<Rightarrow> 0);
               age = unat (sat_sub (unix_ms t) ts);
               l1 = l\<lparr>lp_final_height := our, lp_final_at := now, lp_proposed_at := (if age \<le> now then now - age else now)\<rparr>
           in if our mod 100 = 0
              then announce_checkpoint E sign (l1\<lparr>lp_min_interval := governed_interval (en_store e) (lp_min_interval l1)\<rparr>)
              else l1
      else l)"

definition run_recovery ::
    "'a consensus_env_scheme \<Rightarrow> (bytes \<Rightarrow> bytes \<times> string option) \<Rightarrow> recovery_sources \<Rightarrow> node_loop \<Rightarrow> node_loop" where
  "run_recovery E inflate src l =
     (let (ok, e) = recover E inflate src (set_resyncing True (loop_engine l)); e1 = set_resyncing False e in
      if ok
      then let e2 = reset_partition_state e1
           in send (SyncRequest (tip_height e2 + 1) (tip_height e2 + 500)) (set_engine e2 l)
      else set_engine e1 l)"

definition wait_in_partition :: "clock \<Rightarrow> node_loop \<Rightarrow> node_loop" where
  "wait_in_partition t l =
     (let our = tip_height (loop_engine l); now = instant_ms t;
          l1 = (if PARTITION_SYNC_INTERVAL_MS \<le> now - lp_partition_sync_at l
                then send (SyncRequest (our + 1) (our + 10)) (l\<lparr>lp_partition_sync_at := now\<rparr>) else l)
      in set_engine (snd (take_dropped_block_height (loop_engine l1))) l1)"

definition request_dropped :: "node_loop \<Rightarrow> node_loop" where
  "request_dropped l =
     (let (dropped, e) = take_dropped_block_height (loop_engine l); l1 = set_engine e l
      in case dropped of Some h \<Rightarrow> send (SyncRequest h (h + 10)) l1 | None \<Rightarrow> l1)"

definition propose :: "'a consensus_env_scheme \<Rightarrow> (bytes \<Rightarrow> bytes) \<Rightarrow> clock \<Rightarrow> node_loop \<Rightarrow> node_loop" where
  "propose E sign t l =
     (let (p, e) = produce_block E t (loop_engine l); h = pr_header p;
          gas = (case pr_finalized p of Some b \<Rightarrow> br_gas_used (fb_result b) | None \<Rightarrow> 0);
          l1 = send (NewBlock h (pr_operations p) (length (pr_operations p)) gas)
                 ((set_engine e l)\<lparr>lp_proposed_at := instant_ms t, lp_final_at := instant_ms t\<rparr>)
      in if fc_v2_active (loop_engine l1) (bh_height h)
         then l1\<lparr>lp_node := broadcast_v2_revotes sign (lp_node l1)\<rparr>
         else send (own_attestation sign (lp_node l1) (bh_height h) (block_hash E h)) l1)"

text \<open>The end of an iteration: \<open>pending\<close> and \<open>stalled\<close> were read before the recovery, \<open>probe\<close> says that we are the
  one that may produce during a partition.\<close>

definition maybe_propose ::
    "'a consensus_env_scheme \<Rightarrow> (bytes \<Rightarrow> bytes) \<Rightarrow> clock \<Rightarrow> bool \<Rightarrow> nat \<Rightarrow> bool \<Rightarrow> node_loop \<Rightarrow> node_loop" where
  "maybe_propose E sign t pending stalled probe l =
     (let e = loop_engine l;
          go = (active_count (en_validators e) \<le> 1 \<or> is_next_proposer E e \<and> \<not> pending \<or>
                \<not> pending \<and> is_backup_proposer E t stalled e \<or> probe \<and> \<not> pending);
          l1 = request_dropped l
      in if go then propose E sign t l1 else l1)"

definition produce_phase ::
    "'a consensus_env_scheme \<Rightarrow> (bytes \<Rightarrow> bytes) \<Rightarrow> clock \<Rightarrow> bool \<Rightarrow> nat \<Rightarrow> node_loop \<Rightarrow> node_loop" where
  "produce_phase E sign t pending stalled l =
     (let e = loop_engine l in
      if lp_is_validator l \<and> 0 < tip_height e \<and> is_likely_partitioned e
      then let (due, e1) = (if is_partition_probe_proposer E t e then partition_probe_due t e else (False, e));
               l1 = set_engine e1 l
           in if due then maybe_propose E sign t pending stalled True l1 else wait_in_partition t l1
      else maybe_propose E sign t pending stalled False l)"

definition loop_tick ::
    "'a consensus_env_scheme \<Rightarrow> (bytes \<Rightarrow> bytes) \<Rightarrow> (bytes \<Rightarrow> bytes \<times> string option) \<Rightarrow> recovery_sources \<Rightarrow> clock
     \<Rightarrow> node_loop \<Rightarrow> node_loop" where
  "loop_tick E sign inflate src t l0 =
     (let l = check_stranded t l0 in
      if nd_syncing (lp_node l) \<and> \<not> en_needs_resync (loop_engine l) then note_synced t l
      else
        let l = note_finalized E sign t (finalize_stale E t l) in
        if instant_ms t - lp_proposed_at l < unat (lp_min_interval l) then l
        else
          let e = loop_engine l; pending = has_pending_block e (tip_height e + 1);
              stalled = instant_ms t - lp_final_at l; (resync, e1) = take_resync_request e; l1 = set_engine e1 l
          in if resync then run_recovery E inflate src l1 else produce_phase E sign t pending stalled l1)"

end
