(* ===== verification/Chain_Rollback.thy ===== *)
theory Chain_Rollback
  imports Node_Steps
begin

text \<open>
  In-place rollback over the engine's steps.  The invariant says of every block of the chain that the
  journal still covers that undoing the journal down to its height gives a store with the root of
  that block.  It holds when a node starts, and it is kept when the node replays a synced block, accepted or
  not, when it finalizes the block of a peer, and when it rolls back; so a rollback to any such block
  succeeds.
\<close>

section \<open>Bookkeeping writes\<close>

lemma meta_keys [simp]:
  "is_non_state_key CHAIN_META_KEY" "is_non_state_key FINALIZED_KEY" "is_non_state_key LAST_ATTESTATION_KEY"
  "is_non_state_key (block_key h)" "is_non_state_key (eager_revert_key h)"
  by (simp_all add: is_non_state_key_def CHAIN_META_KEY_def FINALIZED_KEY_def LAST_ATTESTATION_KEY_def
      block_key_def eager_revert_key_def ascii_simps)

text \<open>\<open>bookkept E e e'\<close>: the store changed at most outside the state, and the fields a rollback depends on
  are the same.\<close>

definition bookkept :: "'a consensus_env_scheme \<Rightarrow> engine \<Rightarrow> engine \<Rightarrow> bool" where
  "bookkept E e e' \<longleftrightarrow>
     same_state (en_store e') (en_store e) \<and>
     (mem_inv (env_blake3 E) (en_store e) \<longrightarrow> mem_inv (env_blake3 E) (en_store e')) \<and>
     en_chain e' = en_chain e \<and> en_journal e' = en_journal e"

lemma bookkept_refl [simp]: "bookkept E e e"
  by (simp add: bookkept_def)

lemma bookkept_trans: "bookkept E e e' \<Longrightarrow> bookkept E e' e'' \<Longrightarrow> bookkept E e e''"
  by (auto simp: bookkept_def intro: same_state_trans)

lemma mem_inv_fold_delete: "mem_inv blake3 m \<Longrightarrow> mem_inv blake3 (fold (\<lambda>h m. mem_delete (k h) m) hs m)"
  by (induction hs arbitrary: m) (simp_all add: mem_inv_delete)

lemma same_state_fold_delete:
  "(\<And>h. is_non_state_key (k h)) \<Longrightarrow> same_state (fold (\<lambda>h m. mem_delete (k h) m) hs m) m"
proof (induction hs arbitrary: m)
  case (Cons h hs)
  then show ?case
    using same_state_trans [OF Cons.IH [of "mem_delete (k h) m"] same_state_writes(2)] by simp
qed simp

lemma bookkept_prune: "bookkept E e (prune_old_blocks h e)"
  by (simp add: bookkept_def prune_old_blocks_def Let_def mem_inv_fold_delete same_state_fold_delete)

lemma bookkept_persist: "bookkept E e (persist_block_and_meta E b e)"
proof -
  have "bookkept E e (e\<lparr>en_store := save_chain_meta (env_blake3 E) h ep (mem_put (env_blake3 E) (block_key k) v (en_store e))\<rparr>)" for h ep k v
    by (auto simp: bookkept_def save_chain_meta_def mem_inv_put intro: same_state_trans [OF same_state_writes(1) same_state_writes(1)])
  then show ?thesis
    unfolding persist_block_and_meta_def Let_def by (rule bookkept_trans [OF _ bookkept_prune])
qed

lemma bookkept_clear: "bookkept E e (clear_eager_revert h e)"
  by (simp add: bookkept_def clear_eager_revert_def mem_inv_delete)

lemma bookkept_attest: "bookkept E e (snd (attest_checkpoint E i sig e))"
  by (auto simp: bookkept_def attest_checkpoint_def Let_def mem_inv_put split: prod.split option.split)

lemma bookkept_epoch: "bookkept E e (try_epoch_transition E t h e)"
proof -
  have "bookkept E e (next_seed E e)" "bookkept E e (propose_at_boundary E t e)" for e
    by (simp_all add: bookkept_def next_seed_def propose_at_boundary_def Let_def)
  moreover have "bookkept E e (attest_own_checkpoint E e)" for e
    by (auto simp: attest_own_checkpoint_def bookkept_attest split: prod.split option.split)
  moreover have "bookkept E e (e\<lparr>en_epochs := em, en_validators := vs\<rparr>)" for em vs
    by (simp add: bookkept_def)
  ultimately show ?thesis
    unfolding try_epoch_transition_def Let_def by (simp split: prod.split) (metis bookkept_trans)
qed

text \<open>Appending a block.\<close>

lemma append_block_fields:
  "en_chain (append_block E h b r e) = en_chain e @ [b]"
  "en_journal (append_block E h b r e) = journal_record h r (en_journal e)"
  "same_state (en_store (append_block E h b r e)) (en_store e)"
  "mem_inv (env_blake3 E) (en_store e) \<Longrightarrow> mem_inv (env_blake3 E) (en_store (append_block E h b r e))"
proof -
  let ?e = "e\<lparr>en_chain := en_chain e @ [b], en_journal := journal_record h r (en_journal e)\<rparr>"
  have "bookkept E ?e (append_block E h b r e)"
    unfolding append_block_def by (rule bookkept_trans [OF bookkept_clear bookkept_persist])
  then show "en_chain (append_block E h b r e) = en_chain e @ [b]"
    "en_journal (append_block E h b r e) = journal_record h r (en_journal e)"
    "same_state (en_store (append_block E h b r e)) (en_store e)"
    "mem_inv (env_blake3 E) (en_store e) \<Longrightarrow> mem_inv (env_blake3 E) (en_store (append_block E h b r e))"
    by (auto simp: bookkept_def)
qed

section \<open>Undoing journal entries\<close>

definition entries_wf :: "(u64 \<times> block_revert) list \<Rightarrow> bool" where
  "entries_wf es \<longleftrightarrow> (\<forall>(_, r) \<in> set es. distinct (map fst r))"

lemma entries_wf_simps [simp]:
  "entries_wf []" "entries_wf ((h, r) # es) \<longleftrightarrow> distinct (map fst r) \<and> entries_wf es"
  "entries_wf (rev es) = entries_wf es"
  by (auto simp: entries_wf_def)

lemma entries_wf_take: "entries_wf es \<Longrightarrow> entries_wf (take k es)" "entries_wf es \<Longrightarrow> entries_wf (drop k es)"
  unfolding entries_wf_def by (meson in_set_takeD, meson in_set_dropD)

lemma entries_wf_takeWhile: "entries_wf es \<Longrightarrow> entries_wf (takeWhile P es)"
  by (auto simp: entries_wf_def dest: set_takeWhileD)

lemma undo_same_state:
  "entries_wf es \<Longrightarrow> same_state m m' \<Longrightarrow> same_state (undo_entries E es m) (undo_entries E es m')"
  unfolding undo_entries_def
  by (induction es arbitrary: m m') (auto simp: entries_wf_def same_state_apply)

lemma undo_inv: "mem_inv (env_blake3 E) m \<Longrightarrow> mem_inv (env_blake3 E) (undo_entries E es m)"
  unfolding undo_entries_def by (induction es arbitrary: m) (auto simp: mem_inv_apply)

lemma undo_append: "undo_entries E (es @ fs) m = undo_entries E fs (undo_entries E es m)"
  by (simp add: undo_entries_def)

text \<open>The entries, newest first, have the heights below a given one without a gap.\<close>

fun descending :: "(u64 \<times> 'r) list \<Rightarrow> nat \<Rightarrow> bool" where
  "descending [] n \<longleftrightarrow> True"
| "descending (x # xs) n \<longleftrightarrow> unat (fst x) = n \<and> (xs = [] \<or> 0 < n \<and> descending xs (n - 1))"

lemma descending_split:
  "descending xs n \<Longrightarrow>
   takeWhile (\<lambda>(h, _). target < h) xs = take (n - unat target) xs \<and>
   dropWhile (\<lambda>(h, _). target < h) xs = drop (n - unat target) xs"
proof (induction xs arbitrary: n)
  case (Cons x xs)
  show ?case
  proof (cases "target < fst x")
    case True
    then have "n - unat target = Suc (n - 1 - unat target)"
      using Cons.prems by (simp add: word_less_nat_alt)
    then show ?thesis
      using True Cons.IH [of "n - 1"] Cons.prems by (auto simp: split_def)
  next
    case False
    then show ?thesis
      using Cons.prems by (simp add: split_def word_less_nat_alt)
  qed
qed simp

lemma descending_take: "descending xs n \<Longrightarrow> descending (take k xs) n"
  by (induction xs arbitrary: n k) (auto simp: take_Cons split: nat.split)

lemma descending_drop: "descending xs n \<Longrightarrow> k \<le> n \<Longrightarrow> descending (drop k xs) (n - k)"
proof (induction k arbitrary: xs n)
  case (Suc k)
  show ?case
  proof (cases xs)
    case (Cons x ys)
    then show ?thesis
      using Suc.prems Suc.IH [of ys "n - 1"] by (cases "ys = []") simp_all
  qed simp
qed simp

definition journal_ok :: "'a consensus_env_scheme \<Rightarrow> engine \<Rightarrow> bool" where
  "journal_ok E e \<longleftrightarrow>
     (let xs = rev (rj_entries (en_journal e)) in
      mem_inv (env_blake3 E) (en_store e) \<and> entries_wf xs \<and> 0 < rj_cap (en_journal e) \<and>
      descending xs (unat (tip_height e)) \<and> (en_chain e = [] \<longrightarrow> xs = []) \<and>
      sorted (map (bh_height \<circ> fb_header) (en_chain e)) \<and>
      (\<forall>b \<in> set (en_chain e). unat (tip_height e) \<le> unat (bh_height (fb_header b)) + length xs \<longrightarrow>
         mem_state_root (env_blake3 E)
           (undo_entries E (entries_above (bh_height (fb_header b)) (en_journal e)) (en_store e)) =
         br_state_root (fb_result b)))"

lemma sorted_le_last: "sorted (map f xs) \<Longrightarrow> x \<in> set xs \<Longrightarrow> f x \<le> f (last xs)"
  by (induction xs) auto

lemma chain_below_tip:
  "journal_ok E e \<Longrightarrow> b \<in> set (en_chain e) \<Longrightarrow> bh_height (fb_header b) \<le> tip_height e"
  using sorted_le_last [of "bh_height \<circ> fb_header" "en_chain e" b]
  by (auto simp: journal_ok_def Let_def tip_height_def)

lemma entries_above_take:
  "descending (rev (rj_entries j)) n \<Longrightarrow> entries_above target j = take (n - unat target) (rev (rj_entries j))"
  unfolding entries_above_def using descending_split by blast

lemma rev_keep_last: "rev (drop (length xs - c) xs) = take c (rev xs)"
  by (cases "c \<le> length xs") (simp_all add: rev_drop)

lemma journal_record_entries:
  assumes "descending (rev (rj_entries j)) n" "rj_entries j = [] \<or> unat h = Suc n"
  shows "rev (rj_entries (journal_record h r j)) = take (rj_cap j) ((h, r) # rev (rj_entries j))"
proof -
  have "\<not> (rj_entries j \<noteq> [] \<and> h \<noteq> fst (last (rj_entries j)) + 1)"
  proof (cases "rev (rj_entries j)")
    case (Cons x xs)
    then have l: "last (rj_entries j) = x"
      by (metis hd_rev list.sel(1) rev_rev_ident rev_is_Nil_conv last_rev)
    have "unat (fst x) = n" "unat h = Suc n"
      using assms Cons by auto
    then have "of_nat (unat h) = (of_nat (Suc (unat (fst x))) :: u64)"
      by simp
    then have "h = fst x + 1"
      by (simp add: add.commute)
    then show ?thesis
      by (simp add: l)
  qed simp
  then have "rj_entries (journal_record h r j) =
      drop (length (rj_entries j @ [(h, r)]) - rj_cap j) (rj_entries j @ [(h, r)])"
    by (auto simp: journal_record_def Let_def)
  then show ?thesis
    by (simp only: rev_keep_last rev_append rev.simps append.simps)
qed

lemma journal_record_cap [simp]: "rj_cap (journal_record h r j) = rj_cap j"
  by (simp add: journal_record_def Let_def)

text \<open>A block appended to a chain whose journal is sound.\<close>

lemma journal_ok_append:
  assumes ok: "journal_ok E e"
    and succ: "en_chain e \<noteq> [] \<Longrightarrow> unat h = Suc (unat (tip_height e))"
    and undone: "mem_inv (env_blake3 E) m" "mem_get (apply_changes E r m) = mem_get (en_store e)" "distinct (map fst r)"
    and new: "mem_inv (env_blake3 E) (en_store e')" "same_state (en_store e') m"
      "mem_state_root (env_blake3 E) m = br_state_root (fb_result b)"
      "en_chain e' = en_chain e @ [b]" "bh_height (fb_header b) = h" "en_journal e' = journal_record h r (en_journal e)"
  shows "journal_ok E e'"
proof -
  let ?xs = "rev (rj_entries (en_journal e))" and ?c = "rj_cap (en_journal e)"
  have tip: "tip_height e' = h"
    by (simp add: tip_height_def new(4,5))
  note o = ok [unfolded journal_ok_def Let_def]
  have d: "descending ?xs (unat (tip_height e))" and c: "0 < ?c" using o by auto
  have ne: "rj_entries (en_journal e) = [] \<or> unat h = Suc (unat (tip_height e))"
    using o succ by auto
  have xs': "rev (rj_entries (en_journal e')) = take ?c ((h, r) # ?xs)"
    unfolding new(6) by (rule journal_record_entries [OF d ne])
  have d': "descending ((h, r) # ?xs) (unat h)"
    using d ne by auto
  have wf: "entries_wf ((h, r) # ?xs)"
    using o undone(3) by simp
  have above': "entries_above k (en_journal e') = take (unat h - unat k) (take ?c ((h, r) # ?xs))" for k
    using entries_above_take [of "en_journal e'" "unat h" k] descending_take [OF d', of ?c] by (simp add: xs')
  have roots: "mem_state_root (env_blake3 E)
      (undo_entries E (entries_above (bh_height (fb_header a)) (en_journal e')) (en_store e')) = br_state_root (fb_result a)"
    if a: "a \<in> set (en_chain e)" "unat h \<le> unat (bh_height (fb_header a)) + length (take ?c ((h, r) # ?xs))" for a
  proof -
    let ?k = "unat (bh_height (fb_header a))" and ?n = "unat (tip_height e)"
    have "en_chain e \<noteq> []"
      using a(1) by auto
    then have n: "unat h = Suc ?n" "?k \<le> ?n"
      using succ chain_below_tip [OF ok a(1)] by (simp_all add: word_le_nat_alt)
    have len: "Suc ?n - ?k \<le> ?c" "?n \<le> ?k + length ?xs"
      using a(2) n by (auto simp: min_def split: if_splits)
    then have "entries_above (bh_height (fb_header a)) (en_journal e') = (h, r) # entries_above (bh_height (fb_header a)) (en_journal e)"
      using n by (simp add: above' entries_above_take [OF d] Suc_diff_le)
    moreover have "same_state (apply_changes E r (en_store e')) (en_store e)"
      using same_state_apply [OF undone(3) new(2), of E] same_state_contents [OF undone(2)] same_state_trans by blast
    moreover have "entries_wf (entries_above (bh_height (fb_header a)) (en_journal e))"
      using wf by (simp add: entries_above_take [OF d] entries_wf_take)
    ultimately have "mem_state_root (env_blake3 E)
        (undo_entries E (entries_above (bh_height (fb_header a)) (en_journal e')) (en_store e')) =
       mem_state_root (env_blake3 E) (undo_entries E (entries_above (bh_height (fb_header a)) (en_journal e)) (en_store e))"
      using o new(1) by (intro same_state_root) (auto simp: undo_entries_def [of E "_ # _"] undo_entries_def [symmetric]
          intro!: undo_inv mem_inv_apply undo_same_state)
    then show ?thesis
      using o a(1) len(2) by auto
  qed
  have own: "mem_state_root (env_blake3 E) (undo_entries E (entries_above h (en_journal e')) (en_store e')) = br_state_root (fb_result b)"
    using same_state_root [OF new(1) undone(1) new(2)] new(3) by (simp add: above' undo_entries_def)
  have "bh_height (fb_header a) \<le> h" if "a \<in> set (en_chain e)" for a
    using chain_below_tip [OF ok that] succ that by (fastforce simp: word_le_nat_alt)
  then show ?thesis
    unfolding journal_ok_def Let_def tip xs'
    using new(1,4,5,6) c descending_take [OF d', of ?c] entries_wf_take(1) [OF wf, of ?c] roots own o
    by (auto simp: sorted_append)
qed

section \<open>The steps keep the invariant\<close>

lemma journal_ok_bookkept:
  assumes "journal_ok E e" "bookkept E e e'"
  shows "journal_ok E e'"
proof -
  note o = assms(1) [unfolded journal_ok_def Let_def] and k = assms(2) [unfolded bookkept_def]
  have tip: "tip_height e' = tip_height e"
    using k by (simp add: tip_height_def)
  have "entries_wf (entries_above h (en_journal e))" for h
    using o by (simp add: entries_above_def entries_wf_takeWhile)
  then have "mem_state_root (env_blake3 E) (undo_entries E (entries_above h (en_journal e)) (en_store e')) =
      mem_state_root (env_blake3 E) (undo_entries E (entries_above h (en_journal e)) (en_store e))" for h
    using o k by (intro same_state_root undo_inv undo_same_state) auto
  then show ?thesis
    using o k by (simp add: journal_ok_def Let_def tip)
qed

lemma journal_ok_restore: "journal_ok E e \<Longrightarrow> restore_store_to_finalized_tip E e = e"
proof (cases "en_chain e = []")
  case False
  assume ok: "journal_ok E e"
  let ?b = "last (en_chain e)"
  have "?b \<in> set (en_chain e)" "bh_height (fb_header ?b) = tip_height e"
    using False by (simp_all add: tip_height_def)
  moreover have "descending (rev (rj_entries (en_journal e))) (unat (tip_height e))"
    using ok by (simp add: journal_ok_def Let_def)
  then have "entries_above (tip_height e) (en_journal e) = []"
    by (simp add: entries_above_take)
  ultimately have "store_root E e = br_state_root (fb_result ?b)"
    using ok unfolding journal_ok_def Let_def by (fastforce simp: undo_entries_def)
  then show ?thesis
    by (simp add: restore_store_to_finalized_tip_def)
qed (simp add: restore_store_to_finalized_tip_def)

lemma unat_succ: "\<not> h + 1 \<le> h \<Longrightarrow> unat (h + 1) = Suc (unat (h :: u64))"
  by (simp add: word_le_nat_alt unat_plus_if' split: if_splits)

lemma journal_ok_replay:
  assumes "journal_ok E e"
  shows "journal_ok E (snd (replay_synced_block E t h ops synced e))"
proof (cases "sync_refused E e h")
  case False
  let ?height = "bh_height h"
  obtain res m where x: "execute_block_checked E (en_executor e) ops ?height (bh_state_root h) (en_store e) = (res, m)"
    by (metis surj_pair)
  have inv: "mem_inv (env_blake3 E) (en_store e)"
    using assms by (simp add: journal_ok_def Let_def)
  note c = checked_block [OF inv x]
  show ?thesis
  proof (cases res)
    case None
    then have "bookkept E e (count_sync_revert (e\<lparr>en_store := m\<rparr>))"
      using c by (simp add: bookkept_def same_state_contents count_sync_revert_def Let_def)
    then show ?thesis
      using journal_ok_bookkept [OF assms]
      by (simp add: replay_synced_block_def False journal_ok_restore [OF assms] x None)
  next
    case (Some rr)
    obtain r revert where rr: "rr = (r, revert)" by (metis surj_pair)
    let ?b = "synced_block h ops synced r" and ?e2 = "e\<lparr>en_store := m, en_sync_reverts := 0\<rparr>"
    have b: "fb_header ?b = h" "br_state_root (fb_result ?b) = br_state_root r"
      by (simp_all add: synced_block_def)
    have "journal_ok E (append_block E ?height ?b revert ?e2)"
    proof (rule journal_ok_append [OF assms, where m = m and r = revert and h = ?height and b = ?b])
      show "unat ?height = Suc (unat (tip_height e))" if "en_chain e \<noteq> []"
        using that False unat_succ [of "tip_height e"] by (auto simp: sync_refused_def)
    qed (use c Some rr append_block_fields [where E = E and h = ?height and b = ?b and r = revert and e = ?e2]
        in \<open>auto simp: b\<close>)
    then show ?thesis
      using journal_ok_bookkept [OF _ bookkept_epoch]
      by (simp add: replay_synced_block_def Let_def False journal_ok_restore [OF assms] x Some rr)
  qed
qed (use assms in \<open>simp add: replay_synced_block_def\<close>)

lemma descending_last: "descending xs n \<Longrightarrow> xs \<noteq> [] \<Longrightarrow> unat (fst (last xs)) + length xs = Suc n"
  by (induction xs arbitrary: n) fastforce+

lemma min_target_covers:
  assumes "descending (rev (rj_entries j)) n" "min_rollback_target j = Some lowest" "lowest \<le> h"
  shows "n \<le> unat h + length (rj_entries j)"
proof -
  obtain x es where es: "rj_entries j = x # es"
    using assms(2) by (auto simp: min_rollback_target_def split: list.splits)
  then have "unat (fst x) + length (rj_entries j) = Suc n"
    using descending_last [OF assms(1)] by simp
  moreover have "unat (fst x) \<le> Suc (unat h)"
    using assms(2,3) by (auto simp: es min_rollback_target_def sat_sub_def word_le_nat_alt unat_sub_if' split: if_splits prod.splits)
  ultimately show ?thesis by simp
qed

text \<open>The state of a rolled-back engine.\<close>

lemma rolled_back_ok:
  assumes ok: "journal_ok E e" and b: "b \<in> set (en_chain e)"
    and range: "unat (tip_height e) \<le> unat (bh_height (fb_header b)) + length (rj_entries (en_journal e))"
    and store: "en_store e' = save_chain_meta (env_blake3 E) (bh_height (fb_header b)) epoch
      (mem_commit_root (env_blake3 E) (undo_entries E (entries_above (bh_height (fb_header b)) (en_journal e)) (en_store e)))"
    and chain: "en_chain e' = filter (\<lambda>a. bh_height (fb_header a) \<le> bh_height (fb_header b)) (en_chain e)"
    and journal: "en_journal e' = journal_truncate (bh_height (fb_header b)) (en_journal e)"
  shows "tip_height e' = bh_height (fb_header b) \<and> store_root E e' = br_state_root (fb_result b) \<and> journal_ok E e'"
proof -
  let ?h = "bh_height (fb_header b)" and ?xs = "rev (rj_entries (en_journal e))"
  let ?n = "unat (tip_height e)" and ?k = "unat (bh_height (fb_header b))"
  let ?m = "undo_entries E (take (?n - ?k) ?xs) (en_store e)"
  note o = ok [unfolded journal_ok_def Let_def]
  have d: "descending ?xs ?n" and wf: "entries_wf ?xs" and s: "sorted (map (bh_height \<circ> fb_header) (en_chain e))"
    using o by auto
  have kn: "?k \<le> ?n"
    using chain_below_tip [OF ok b] by (simp add: word_le_nat_alt)
  have inv: "mem_inv (env_blake3 E) ?m" "mem_inv (env_blake3 E) (en_store e')" and same: "same_state (en_store e') ?m"
    using o by (auto simp: store undo_inv save_chain_meta_def mem_inv_put mem_inv_commit_root entries_above_take [OF d]
        intro: same_state_trans [OF same_state_writes(1) same_state_writes(3)])
  have s': "sorted (map (bh_height \<circ> fb_header) (en_chain e'))" "b \<in> set (en_chain e')" "en_chain e' \<noteq> []"
    using s b by (auto simp: chain sorted_filter filter_empty_conv)
  have "last (en_chain e') \<in> set (en_chain e')"
    using s'(3) by simp
  then have "bh_height (fb_header (last (en_chain e'))) \<le> ?h"
    unfolding chain by simp
  then have tip: "tip_height e' = ?h"
    using sorted_le_last [OF s'(1,2)] s'(3) by (simp add: tip_height_def)
  have xs': "rev (rj_entries (en_journal e')) = drop (?n - ?k) ?xs"
    using descending_split [OF d] by (simp add: journal journal_truncate_def)
  have d': "descending (drop (?n - ?k) ?xs) ?k"
    using descending_drop [OF d, of "?n - ?k"] kn by simp
  have roots: "mem_state_root (env_blake3 E) (undo_entries E (entries_above (bh_height (fb_header a)) (en_journal e')) (en_store e')) =
      br_state_root (fb_result a)"
    if a: "a \<in> set (en_chain e')" "?k \<le> unat (bh_height (fb_header a)) + (length ?xs - (?n - ?k))" for a
  proof -
    let ?ka = "unat (bh_height (fb_header a))"
    have ka: "?ka \<le> ?k" "a \<in> set (en_chain e)"
      using a(1) by (simp_all add: chain word_le_nat_alt)
    have "take (?n - ?ka) ?xs = take (?n - ?k) ?xs @ take (?k - ?ka) (drop (?n - ?k) ?xs)"
      using ka(1) kn take_add [of "?n - ?k" "?k - ?ka" ?xs] by simp
    then have "undo_entries E (entries_above (bh_height (fb_header a)) (en_journal e)) (en_store e) =
        undo_entries E (take (?k - ?ka) (drop (?n - ?k) ?xs)) ?m"
      by (simp add: entries_above_take [OF d] undo_append)
    moreover have "mem_state_root (env_blake3 E) (undo_entries E (take (?k - ?ka) (drop (?n - ?k) ?xs)) (en_store e')) =
        mem_state_root (env_blake3 E) (undo_entries E (take (?k - ?ka) (drop (?n - ?k) ?xs)) ?m)"
      using inv same wf o by (intro same_state_root undo_inv undo_same_state entries_wf_take) auto
    moreover have "mem_state_root (env_blake3 E)
        (undo_entries E (entries_above (bh_height (fb_header a)) (en_journal e)) (en_store e)) = br_state_root (fb_result a)"
      using o ka(2) a(2) range kn by simp
    moreover have "entries_above (bh_height (fb_header a)) (en_journal e') = take (?k - ?ka) (drop (?n - ?k) ?xs)"
      using entries_above_take [of "en_journal e'" ?k] d' unfolding xs' .
    ultimately show ?thesis
      by simp
  qed
  have "store_root E e' = br_state_root (fb_result b)"
    using same_state_root [OF inv(2,1) same] o b range by (simp add: entries_above_take [OF d])
  moreover have "journal_ok E e'"
    using roots inv(2) d' entries_wf_take(2) [OF wf] o s'
    unfolding journal_ok_def Let_def tip xs' by (auto simp: journal journal_truncate_def)
  ultimately show ?thesis
    using tip by simp
qed

lemma rollback_step:
  assumes ok: "journal_ok E e" and b: "b \<in> set (en_chain e)" "bh_height (fb_header b) < tip_height e"
    and low: "min_rollback_target (en_journal e) = Some lowest" "lowest \<le> bh_height (fb_header b)"
    and r: "rollback_to_height E (bh_height (fb_header b)) root e = (res, e')"
  shows "res \<longleftrightarrow> root = br_state_root (fb_result b)"
    and "res \<Longrightarrow> tip_height e' = bh_height (fb_header b) \<and> store_root E e' = root \<and> journal_ok E e'"
    and "res \<Longrightarrow> en_chain e' = filter (\<lambda>a. bh_height (fb_header a) \<le> bh_height (fb_header b)) (en_chain e)"
proof -
  let ?h = "bh_height (fb_header b)"
  let ?m = "undo_entries E (entries_above ?h (en_journal e)) (en_store e)"
  note o = ok [unfolded journal_ok_def Let_def]
  have range: "unat (tip_height e) \<le> unat ?h + length (rj_entries (en_journal e))"
    using min_target_covers [OF _ low] o by simp
  then have root: "mem_state_root (env_blake3 E) (mem_commit_root (env_blake3 E) ?m) = br_state_root (fb_result b)"
    using o b(1) by (simp add: undo_inv)
  have guards: "\<not> tip_height e \<le> ?h" "\<not> ?h < lowest"
    using b(2) low(2) by auto
  show res: "res \<longleftrightarrow> root = br_state_root (fb_result b)"
    using r by (auto simp: rollback_to_height_def Let_def low(1) guards root split: if_splits)
  show "en_chain e' = filter (\<lambda>a. bh_height (fb_header a) \<le> ?h) (en_chain e)" if res
    using r that by (auto simp: rollback_to_height_def Let_def low(1) guards split: if_splits)
  show "tip_height e' = ?h \<and> store_root E e' = root \<and> journal_ok E e'" if res
    using rolled_back_ok [OF ok b(1) range, of e'] r that res
    by (auto simp: rollback_to_height_def Let_def low(1) guards split: if_splits)
qed

lemma bookkept_finish: "bookkept E (append_block E h b r e) (finish_block E t h b r e)"
proof -
  have "bookkept E x (track_missed E h i x)" for x i
    by (auto simp: bookkept_def track_missed_def queue_slashing_def split: option.split prod.split)
  moreover have "bookkept E x (x\<lparr>en_v2_invalid := v, en_mempool := p\<rparr>)" for x v p
    by (simp add: bookkept_def)
  ultimately have "bookkept E x (try_epoch_transition E t h (track_missed E h i (x\<lparr>en_v2_invalid := v, en_mempool := p\<rparr>)))" for x v p i
    by (meson bookkept_trans bookkept_epoch)
  then show ?thesis
    unfolding finish_block_def Let_def by (simp add: bookkept_def)
qed

lemma journal_ok_finalize_peer:
  assumes ok: "journal_ok E e" and pb: "map_of (en_pending_blocks e) h = Some pb" "\<not> pb_already_executed pb"
    and h: "bh_height (pb_header pb) = h" "h = tip_height e + 1" "tip_height e < h"
  shows "journal_ok E (finalize_pending_block E t h e)"
proof -
  let ?atts = "get_or h [] (en_pending_attestations e)"
  define e1 where "e1 = e\<lparr>en_pending_blocks := AList.delete h (en_pending_blocks e),
      en_pending_attestations := AList.delete h (en_pending_attestations e)\<rparr>"
  have ok1: "journal_ok E e1" and tip1: "tip_height e1 = tip_height e" "en_chain e1 = en_chain e" "en_store e1 = en_store e"
    using journal_ok_bookkept [OF ok, of e1] by (simp_all add: e1_def bookkept_def tip_height_def)
  obtain res m where x: "execute_block_checked E (en_executor e1) (pb_operations pb) h (bh_state_root (pb_header pb)) (en_store e1) = (res, m)"
    by (metis surj_pair)
  have inv: "mem_inv (env_blake3 E) (en_store e1)"
    using ok1 by (simp add: journal_ok_def Let_def)
  note c = checked_block [OF inv x]
  let ?e2 = "e1\<lparr>en_store := m\<rparr>"
  have run: "finalize_pending_block E t h e =
      (case res of None \<Rightarrow> reject_invalid E h (pb_header pb) ?e2
       | Some (r, revert) \<Rightarrow> finish_block E t h
           \<lparr>fb_header = pb_header pb, fb_result = r, fb_attestations = ?atts, fb_operations = pb_operations pb\<rparr> revert ?e2)"
    using pb by (simp add: finalize_pending_block_def execute_pending_def journal_ok_restore [OF ok1] x
        flip: e1_def split: option.split)
  show ?thesis
  proof (cases res)
    case None
    then have "bookkept E e1 (reject_invalid E h (pb_header pb) ?e2)"
      using c by (simp add: bookkept_def same_state_contents reject_invalid_def Let_def)
    then show ?thesis
      using journal_ok_bookkept [OF ok1] by (simp add: run None)
  next
    case (Some rr)
    obtain r revert where rr: "rr = (r, revert)" by (metis surj_pair)
    let ?b = "\<lparr>fb_header = pb_header pb, fb_result = r, fb_attestations = ?atts, fb_operations = pb_operations pb\<rparr>"
    have "unat h = Suc (unat (tip_height e1))"
      using unat_succ [of "tip_height e"] h tip1 by (simp add: not_le)
    then have "journal_ok E (append_block E h ?b revert ?e2)"
      using c Some rr h append_block_fields [where E = E and h = h and b = ?b and r = revert and e = ?e2]
      by (intro journal_ok_append [OF ok1, where m = m and r = revert and h = h and b = ?b]) auto
    then show ?thesis
      using journal_ok_bookkept [OF _ bookkept_finish] by (simp add: run Some rr)
  qed
qed

lemma journal_ok_start:
  assumes "mem_inv (env_blake3 E) m"
  shows "journal_ok E (with_validators E cfg m pool vs)"
proof -
  let ?m = "\<lambda>h. snd (apply_durable_reverts_above E m h)"
  have "mem_inv (env_blake3 E) (?m h)" for h
    using assms by (simp add: apply_durable_reverts_above_def Let_def mem_inv_commit_root undo_inv)
  then show ?thesis
    by (auto simp: with_validators_def journal_ok_def new_journal_def ROLLBACK_JOURNAL_CAP_def marker_block_def
        entries_above_def undo_entries_def tip_height_def Let_def split: prod.split)
qed

section \<open>Rollback succeeds\<close>

text \<open>A node that follows the chain: it starts from a store, replays synced blocks, finalizes blocks of peers
  at its next height, and rolls back to blocks of its chain.\<close>

inductive follower :: "'a consensus_env_scheme \<Rightarrow> engine \<Rightarrow> bool" for E where
  start: "mem_inv (env_blake3 E) m \<Longrightarrow> follower E (with_validators E cfg m pool vs)"
| synced: "follower E e \<Longrightarrow> follower E (snd (replay_synced_block E t h ops receipts e))"
| finalized: "follower E e \<Longrightarrow> map_of (en_pending_blocks e) h = Some pb \<Longrightarrow> \<not> pb_already_executed pb \<Longrightarrow>
    bh_height (pb_header pb) = h \<Longrightarrow> h = tip_height e + 1 \<Longrightarrow> tip_height e < h \<Longrightarrow>
    follower E (finalize_pending_block E t h e)"
| accepted: "follower E e \<Longrightarrow> bookkept E e e' \<Longrightarrow> follower E e'"
| rolled_back: "follower E e \<Longrightarrow> b \<in> set (en_chain e) \<Longrightarrow> bh_height (fb_header b) < tip_height e \<Longrightarrow>
    min_rollback_target (en_journal e) = Some lowest \<Longrightarrow> lowest \<le> bh_height (fb_header b) \<Longrightarrow>
    rollback_to_height E (bh_height (fb_header b)) root e = (True, e') \<Longrightarrow> follower E e'"

lemma follower_journal_ok: "follower E e \<Longrightarrow> journal_ok E e"
proof (induction rule: follower.induct)
  case (rolled_back e b lowest root e')
  then show ?case
    using rollback_step(2) [OF rolled_back.IH rolled_back.hyps(2,3,4,5,6)] by simp
qed (simp_all add: journal_ok_start journal_ok_replay journal_ok_finalize_peer journal_ok_bookkept)

text \<open>C38: in-place rollback works for every block the journal covers.  Let a node have started from any store,
  replayed any synced blocks, valid or not, finalized any blocks of peers, done any bookkeeping, and
  rolled back any number of times.  Then a rollback to a block of its chain at or above the journal's
  lowest target succeeds exactly with that block's state root; the chain then ends with the block, the store has its
  root, and the node can go on from there.\<close>

theorem rollback_to_ancestor:
  assumes "follower E e" "b \<in> set (en_chain e)" "bh_height (fb_header b) < tip_height e"
    and "min_rollback_target (en_journal e) = Some lowest" "lowest \<le> bh_height (fb_header b)"
    and "rollback_to_height E (bh_height (fb_header b)) root e = (res, e')"
  shows "res = (root = br_state_root (fb_result b)) \<and>
    (res \<longrightarrow> tip_height e' = bh_height (fb_header b) \<and> store_root E e' = root \<and>
       en_chain e' = filter (\<lambda>a. bh_height (fb_header a) \<le> bh_height (fb_header b)) (en_chain e) \<and> follower E e')"
  using rollback_step [OF follower_journal_ok [OF assms(1)] assms(2-6)] follower.rolled_back [OF assms(1-5), of root e'] assms(6)
  by (cases res) simp_all

section \<open>Restart\<close>

text \<open>C39: a block that was committed eagerly but not finalized is undone by a restart.  Take a store without undo
  records above its tip, commit a block with its undo record, and start a new engine on the result: every key
  reads as before the block, and so does the root of the state.\<close>

theorem restart_undoes_unfinalized_block:
  assumes "revert_codec_ok E" "load_chain_meta m = (tip, epoch)" "no_records_above m tip" "tip < height"
    and "\<forall>k \<in> fst ` set (snd (stage_block E X m ops height)). k \<noteq> CHAIN_META_KEY \<and> \<not> prefix EAGER_REVERT_PREFIX k"
    and "execute_block_journaled_durable E X ops height m = ((r, revert), m')"
  shows "mem_get (en_store (with_validators E cfg m' pool vs)) = mem_get m \<and>
    tip_height (with_validators E cfg m' pool vs) = tip"
proof -
  obtain m'' where undo: "apply_durable_reverts_above E m' tip = (True, m'')" "mem_get m'' = mem_get m"
    using durable_record_undoes_block [OF assms(1,3,4) _ assms(6)] assms(5) by blast
  have "mem_get m' CHAIN_META_KEY = mem_get m CHAIN_META_KEY"
  proof -
    have "map_of (snd (stage_block E X m ops height)) CHAIN_META_KEY = None"
      using assms(5) by (auto simp: map_of_eq_None_iff)
    moreover have "CHAIN_META_KEY \<noteq> eager_revert_key height"
      by (simp add: CHAIN_META_KEY_def eager_revert_key_def EAGER_REVERT_PREFIX_def ascii_simps)
    ultimately show ?thesis
      by (simp add: durable_commit_get [OF assms(6)])
  qed
  then have "load_chain_meta m' = (tip, epoch)"
    using assms(2) by (simp add: load_chain_meta_def)
  then show ?thesis
    using undo by (simp add: with_validators_def Let_def tip_height_def marker_block_def word_gt_0)
qed

section \<open>Concrete nodes\<close>

definition sample_consensus :: consensus_env where
  "sample_consensus = node_env.extend sample_node
     (consensus_env.fields (\<lambda>h. le_bytes 8 (bh_height h)) (\<lambda>_. None) (\<lambda>_. None)
       \<lparr>to_vec = (\<lambda>_. []), from_slice = (\<lambda>_. Inl [])\<rparr> \<lparr>to_vec = (\<lambda>_. []), from_slice = (\<lambda>_. Inl [])\<rparr> None)"

lemma sample_consensus_simps [simp]:
  "env_blake3 sample_consensus = sample_hash" "enc_revert sample_consensus = sample_enc"
  "dec_revert sample_consensus b = Some (sample_dec b)" "revert_codec_ok sample_consensus"
  by (simp_all add: sample_consensus_def sample_node_def sample_exec_def exec_env.extend_def node_env.fields_def
      node_env.extend_def consensus_env.fields_def revert_codec_ok_def)

lemma empty_block_changes:
  assumes "be_epoch_randomness_height X \<le> 1"
  shows "fst ` set (snd (stage_block E X m [] 1)) = {RANDOMNESS_KEY}"
  using assms
  by (simp add: stage_block_def execute_block_sequential_def randomness_save_def json_save_def into_changes_def
      ov_put_def ov_new_def)

theorem restart_undoes_unfinalized_block_witness:
  "\<exists>r revert m'. execute_block_journaled_durable sample_consensus sample_executor [] 1 mem_new = ((r, revert), m') \<and>
     mem_get (en_store (with_validators sample_consensus default_engine_config m' (new_mempool 9) [])) = mem_get mem_new"
proof -
  obtain r revert m' where x: "execute_block_journaled_durable sample_consensus sample_executor [] 1 mem_new = ((r, revert), m')"
    by (metis surj_pair)
  have keys: "fst ` set (snd (stage_block sample_consensus sample_executor mem_new [] 1)) = {RANDOMNESS_KEY}"
    by (rule empty_block_changes) (simp add: sample_executor_def)
  have "load_chain_meta mem_new = (0, 0)" "no_records_above mem_new 0"
    by (simp_all add: load_chain_meta_def no_records_above_def)
  moreover have "RANDOMNESS_KEY \<noteq> CHAIN_META_KEY" "\<not> prefix EAGER_REVERT_PREFIX RANDOMNESS_KEY"
    by (simp_all add: RANDOMNESS_KEY_def CHAIN_META_KEY_def EAGER_REVERT_PREFIX_def ascii_simps)
  ultimately show ?thesis
    using restart_undoes_unfinalized_block [OF _ _ _ _ _ x, of 0 0 default_engine_config "new_mempool 9" "[]"] keys x by simp
qed

lemma append_block_config: "en_config (append_block E h b r e) = en_config e"
  by (simp add: append_block_def persist_block_and_meta_def prune_old_blocks_def clear_eager_revert_def Let_def)

lemma replay_accepts:
  assumes "journal_ok E e" "\<not> sync_refused E e h" "\<not> is_epoch_boundary (bh_height h)"
    and "bh_state_root h = br_state_root (fst (execute_block_with_height E (en_executor e) ops (bh_height h) (en_store e)))"
  shows "\<exists>r revert e'. replay_synced_block E t h ops [] e = (True, e') \<and> en_config e' = en_config e \<and>
    en_chain e' = en_chain e @ [synced_block h ops [] r] \<and> br_state_root r = bh_state_root h \<and>
    en_journal e' = journal_record (bh_height h) revert (en_journal e)"
proof -
  obtain r revert m where x:
    "execute_block_checked E (en_executor e) ops (bh_height h) (bh_state_root h) (en_store e) = (Some (r, revert), m)"
    and r: "br_state_root r = bh_state_root h"
    using assms(4) by (auto simp: execute_block_checked_def execute_block_with_height_def commit_capturing_revert_def
        Let_def split: prod.splits)
  have "replay_synced_block E t h ops [] e = (True, append_block E (bh_height h) (synced_block h ops [] r) revert
      (e\<lparr>en_store := m, en_sync_reverts := 0\<rparr>))"
    using assms(2,3) by (simp add: replay_synced_block_def journal_ok_restore [OF assms(1)] x Let_def try_epoch_transition_def)
  then show ?thesis
    using r by (auto simp: append_block_fields append_block_config)
qed

definition sample_start :: engine where
  "sample_start = with_validators sample_consensus default_engine_config mem_new (new_mempool 9) []"

lemma sample_start: "follower sample_consensus sample_start" "en_chain sample_start = []"
  "rj_entries (en_journal sample_start) = []" "rj_cap (en_journal sample_start) = 256"
  "ec_authenticate_sync_blocks (en_config sample_start) = False"
  by (simp_all add: sample_start_def follower.start mem_inv_new)
    (simp_all add: with_validators_def load_chain_meta_def new_journal_def ROLLBACK_JOURNAL_CAP_def default_engine_config_def Let_def)

definition sample_header :: "engine \<Rightarrow> block_header" where
  "sample_header e =
     \<lparr>bh_height = tip_height e + 1, bh_epoch = 0, bh_parent_hash = 0,
      bh_state_root = br_state_root (fst (execute_block_with_height sample_consensus (en_executor e) []
        (tip_height e + 1) (en_store e))),
      bh_transactions_root = 0, bh_receipts_root = 0, bh_proposer = 0, bh_timestamp_ms = 0, bh_proposer_signature = []\<rparr>"

lemma sample_sync:
  assumes "follower sample_consensus e" "\<not> ec_authenticate_sync_blocks (en_config e)" "tip_height e < 10"
  shows "\<exists>r revert e'. follower sample_consensus e' \<and> en_config e' = en_config e \<and>
    en_chain e' = en_chain e @ [synced_block (sample_header e) [] [] r] \<and>
    en_journal e' = journal_record (tip_height e + 1) revert (en_journal e)"
proof -
  have "unat (tip_height e) < 10"
    using assms(3) by (simp add: word_less_nat_alt)
  then have u: "unat (tip_height e + 1) = Suc (unat (tip_height e))"
    by (simp add: unat_plus_if')
  then have n: "tip_height e + 1 < 100" "tip_height e < tip_height e + 1" "0 < tip_height e + 1"
    using \<open>unat (tip_height e) < 10\<close> by (simp_all only: word_less_nat_alt u) simp_all
  then have h: "bh_height (sample_header e) = tip_height e + 1" "\<not> is_epoch_boundary (tip_height e + 1)"
    "\<not> sync_refused sample_consensus e (sample_header e)"
    using assms(2) by (auto simp: sample_header_def is_epoch_boundary_def sync_refused_def EPOCH_LENGTH_def
        div_word_less mod_word_less)
  from replay_accepts [OF follower_journal_ok [OF assms(1)] h(3), of "[]" undefined] h
  obtain r revert e' where e': "replay_synced_block sample_consensus undefined (sample_header e) [] [] e = (True, e')"
    "en_config e' = en_config e" "en_chain e' = en_chain e @ [synced_block (sample_header e) [] [] r]"
    "en_journal e' = journal_record (tip_height e + 1) revert (en_journal e)"
    by (auto simp: sample_header_def)
  moreover have "follower sample_consensus e'"
    using follower.synced [OF assms(1), of undefined "sample_header e" "[]" "[]"] e'(1) by simp
  ultimately show ?thesis by blast
qed

text \<open>Two synced blocks, then back to the first.\<close>

theorem rollback_to_ancestor_witness:
  "\<exists>e b e'. follower sample_consensus e \<and> tip_height e = 2 \<and> b \<in> set (en_chain e) \<and>
     rollback_to_height sample_consensus (bh_height (fb_header b)) (br_state_root (fb_result b)) e = (True, e') \<and>
     tip_height e' = 1"
proof -
  obtain r1 v1 e1 where e1: "follower sample_consensus e1" "en_config e1 = en_config sample_start"
    "en_chain e1 = [synced_block (sample_header sample_start) [] [] r1]"
    "en_journal e1 = journal_record 1 v1 (en_journal sample_start)"
    using sample_sync [of sample_start] sample_start by (auto simp: tip_height_def)
  let ?b = "synced_block (sample_header sample_start) [] [] r1"
  have b: "bh_height (fb_header ?b) = 1"
    by (simp add: synced_block_def sample_header_def tip_height_def sample_start)
  then have tip1: "tip_height e1 = 1"
    by (simp add: tip_height_def e1)
  obtain r2 v2 e where e: "follower sample_consensus e" "en_chain e = [?b, synced_block (sample_header e1) [] [] r2]"
    "en_journal e = journal_record 2 v2 (en_journal e1)"
    using sample_sync [of e1] e1 sample_start tip1 by auto
  have tip: "tip_height e = 2"
    by (simp add: tip_height_def [of e] e synced_block_def sample_header_def tip1)
  have low: "min_rollback_target (en_journal e) = Some 0"
    by (simp add: e e1 journal_record_def min_rollback_target_def sample_start sat_sub_def)
  obtain res e' where r: "rollback_to_height sample_consensus (bh_height (fb_header ?b)) (br_state_root (fb_result ?b)) e = (res, e')"
    by (metis surj_pair)
  show ?thesis
    using rollback_to_ancestor [OF e(1) _ _ low _ r] e tip b r by (intro exI [of _ e] exI [of _ ?b] exI [of _ e']) simp
qed

end
