(* ===== verification/Fork_Choice.thy ===== *)
theory Fork_Choice
  imports Node_Loop Chain_Rollback
begin

text \<open>
  What the fork choice of \<open>crates/solen-consensus/src/engine.rs\<close> (\<open>v2_tally\<close>, \<open>v2_leader\<close> and the winner
  that \<open>v2_evaluate\<close> looks for) guarantees: it does not depend on the order in which the hash maps of
  votes and of tallied hashes are traversed, because its order on candidates decides between any two of them and
  at most one hash has a quorum.
\<close>

section \<open>Tallies\<close>

definition voters_for :: "engine \<Rightarrow> u64 \<Rightarrow> hash \<Rightarrow> validator_id set" where
  "voters_for e height h = {i. map_of (get_or height [] (en_v2_votes e)) i = Some h}"

text \<open>Any list of the tally's entries, as a hash map may yield them.\<close>

definition tally_of :: "engine \<Rightarrow> u64 \<Rightarrow> (hash \<times> validator_id list) list \<Rightarrow> bool" where
  "tally_of e height t \<longleftrightarrow>
     distinct (map fst t) \<and> fst ` set t = {h. voters_for e height h \<noteq> {}} \<and>
     (\<forall>(h, is) \<in> set t. set is = voters_for e height h)"

lemma get_or_update: "get_or k d (AList.update j v xs) = (if k = j then v else get_or k d xs)"
  by (simp add: get_or_def update_conv')

lemma update_keys: "fst ` set (AList.update k v xs) = insert k (fst ` set xs)"
  by (simp add: update_conv' flip: dom_map_of_conv_image_fst)

lemma tally_fold:
  fixes vs :: "(validator_id \<times> hash) list"
  defines "cnt \<equiv> fold (\<lambda>(i, h) t. AList.update h (get_or h [] t @ [i]) t)"
  shows "get_or h [] (cnt vs t) = get_or h [] t @ map fst (filter (\<lambda>(_, h'). h' = h) vs)"
    "fst ` set (cnt vs t) = fst ` set t \<union> snd ` set vs"
    "distinct (map fst t) \<Longrightarrow> distinct (map fst (cnt vs t))"
  unfolding cnt_def
  by (induction vs arbitrary: t) (simp_all add: get_or_update update_keys distinct_update split: prod.split)

lemma tally_voters:
  "get_or h [] (v2_tally e height) = map fst (filter (\<lambda>(_, h'). h' = h) (get_or height [] (en_v2_votes e)))"
  "fst ` set (v2_tally e height) = snd ` set (get_or height [] (en_v2_votes e))"
  "distinct (map fst (v2_tally e height))"
  by (simp_all add: v2_tally_def tally_fold) (simp add: get_or_def)

lemma v2_tally_entry: "(h, is) \<in> set (v2_tally e height) \<Longrightarrow> is = get_or h [] (v2_tally e height)"
  using tally_voters(3) [of e height] by (simp add: get_or_def)

lemma v2_tally_is_tally:
  assumes "distinct (map fst (get_or height [] (en_v2_votes e)))"
  shows "tally_of e height (v2_tally e height)"
proof -
  let ?vs = "get_or height [] (en_v2_votes e)"
  have in_vs: "map_of ?vs i = Some h \<longleftrightarrow> (i, h) \<in> set ?vs" for i h
    using assms by simp
  have "set is = voters_for e height h" if "(h, is) \<in> set (v2_tally e height)" for h "is"
    using v2_tally_entry [OF that] by (auto simp: tally_voters voters_for_def in_vs image_iff)
  moreover have "snd ` set ?vs = {h. voters_for e height h \<noteq> {}}"
    by (force simp: voters_for_def in_vs image_iff)
  ultimately show ?thesis
    by (auto simp: tally_of_def tally_voters)
qed

section \<open>The choice does not depend on the order\<close>

text \<open>A choice by one pass over the candidates, with an order that never leaves two of them undecided.\<close>

definition pick_best :: "('a \<Rightarrow> 'a \<Rightarrow> bool) \<Rightarrow> 'a list \<Rightarrow> 'a option" where
  "pick_best better xs = fold (\<lambda>x best. case best of None \<Rightarrow> Some x
      | Some b \<Rightarrow> if better x b then Some x else best) xs None"

locale decisive_choice =
  fixes better :: "'a \<Rightarrow> 'a \<Rightarrow> bool"
  assumes irrefl: "\<not> better x x"
    and trans: "better x y \<Longrightarrow> better y z \<Longrightarrow> better x z"
    and total: "better x y \<or> better y x \<or> x = y"
begin

lemma pick_snoc:
  "pick_best better [] = None"
  "pick_best better (xs @ [x]) =
     (case pick_best better xs of None \<Rightarrow> Some x | Some b \<Rightarrow> Some (if better x b then x else b))"
  by (simp_all add: pick_best_def split: option.split)

lemma pick_max:
  "pick_best better xs = Some b \<Longrightarrow> b \<in> set xs \<and> (\<forall>x \<in> set xs. \<not> better x b)"
proof (induction xs arbitrary: b rule: rev_induct)
  case (snoc x xs)
  show ?case
  proof (cases "pick_best better xs")
    case None
    then have "xs = []"
      by (cases xs rule: rev_cases) (auto simp: pick_snoc split: option.splits)
    then show ?thesis
      using snoc.prems irrefl by (simp add: pick_best_def)
  next
    case (Some a)
    note a = snoc.IH [OF Some]
    have b: "b = (if better x a then x else a)"
      using snoc.prems Some by (simp add: pick_snoc)
    show ?thesis
      using a irrefl trans [of _ x a] by (auto simp: b)
  qed
qed (simp add: pick_snoc)

lemma pick_none: "pick_best better xs = None \<longleftrightarrow> xs = []"
  by (cases xs rule: rev_cases) (auto simp: pick_snoc split: option.splits)

lemma pick_set:
  assumes "set xs = set ys"
  shows "pick_best better xs = pick_best better ys"
proof (cases "pick_best better xs")
  case None
  then show ?thesis
    using assms by (simp add: pick_none)
next
  case (Some b)
  then obtain c where c: "pick_best better ys = Some c"
    using assms pick_none [of xs] pick_none [of ys] by (cases "pick_best better ys") auto
  have "b = c"
    using pick_max [OF Some] pick_max [OF c] assms total [of b c] by auto
  then show ?thesis
    using Some c by simp
qed

end

interpretation leader: decisive_choice leader_better
  by unfold_locales (auto simp: leader_better_def split: prod.splits)

text \<open>Two nodes with the same votes, candidates and validators.\<close>

definition same_view :: "engine \<Rightarrow> engine \<Rightarrow> u64 \<Rightarrow> bool" where
  "same_view e e' height \<longleftrightarrow>
     en_validators e = en_validators e' \<and> en_epoch_seed e = en_epoch_seed e' \<and>
     (\<forall>h. voters_for e height h = voters_for e' height h) \<and>
     (\<forall>h. is_invalid_at e height h = is_invalid_at e' height h) \<and>
     (\<forall>h. map_option (bh_proposer \<circ> pb_header) (map_of (get_or height [] (en_v2_blocks e)) h) =
          map_option (bh_proposer \<circ> pb_header) (map_of (get_or height [] (en_v2_blocks e')) h))"

lemma stake_of_set: "set is = set js \<Longrightarrow> stake_of vs is = stake_of vs js"
  by (simp add: stake_of_def)

lemma has_quorum_set: "set is = set js \<Longrightarrow> has_quorum vs is = has_quorum vs js"
  by (simp add: has_quorum_def)

lemma tally_entry:
  assumes "tally_of e height t" "(h, is) \<in> set t"
  shows "set is = voters_for e height h" "voters_for e height h \<noteq> {}"
proof -
  show "set is = voters_for e height h"
    using bspec [of "set t" "\<lambda>(h, is). set is = voters_for e height h" "(h, is)"] assms by (simp add: tally_of_def)
  have "h \<in> fst ` set t"
    using assms(2) by force
  then show "voters_for e height h \<noteq> {}"
    using assms(1) unfolding tally_of_def by (metis (mono_tags, lifting) mem_Collect_eq)
qed

lemma same_tally_entries:
  assumes "same_view e e' height" "tally_of e height t" "tally_of e' height t'" "(h, is) \<in> set t"
  shows "\<exists>js. (h, js) \<in> set t' \<and> set js = set is"
proof -
  have v: "voters_for e height h = voters_for e' height h"
    using assms(1) unfolding same_view_def by blast
  then have "h \<in> fst ` set t'"
    using tally_entry(2) [OF assms(2,4)] assms(3) unfolding tally_of_def by simp
  then obtain js where js: "(h, js) \<in> set t'"
    by auto
  then show ?thesis
    using tally_entry(1) [OF assms(3) js] tally_entry(1) [OF assms(2,4)] v by blast
qed

lemma map_filter_member: "x \<in> set (List.map_filter f xs) \<longleftrightarrow> (\<exists>y \<in> set xs. f y = Some x)"
  by (force simp: List.map_filter_def)

definition candidate_of ::
    "'a consensus_env_scheme \<Rightarrow> engine \<Rightarrow> u64 \<Rightarrow> hash \<times> validator_id list \<Rightarrow> (hash \<times> u128 \<times> nat) option" where
  "candidate_of E e height x =
     (if is_invalid_at e height (fst x) then None
      else map_option (\<lambda>pb. (fst x, stake_of (en_validators e) (snd x),
               rank_in (proposer_order_for_height (env_blake3 E) (en_validators e) height (en_epoch_seed e))
                 (bh_proposer (pb_header pb))))
             (map_of (get_or height [] (en_v2_blocks e)) (fst x)))"

lemma candidates_map: "v2_candidates E e height t = List.map_filter (candidate_of E e height) t"
  by (simp add: v2_candidates_def candidate_of_def [abs_def] Let_def case_prod_unfold)

lemma candidates_same:
  assumes v: "same_view e e' height" and t: "tally_of e height t" "tally_of e' height t'"
  shows "set (v2_candidates E e height t) \<subseteq> set (v2_candidates E e' height t')"
proof
  fix x assume "x \<in> set (v2_candidates E e height t)"
  then obtain y where y: "y \<in> set t" "candidate_of E e height y = Some x"
    by (auto simp: candidates_map map_filter_member)
  obtain h "is" where h: "y = (h, is)" by force
  obtain pb where x: "(h, is) \<in> set t" "\<not> is_invalid_at e height h"
      "map_of (get_or height [] (en_v2_blocks e)) h = Some pb"
    and x_eq: "x = (h, stake_of (en_validators e) is,
      rank_in (proposer_order_for_height (env_blake3 E) (en_validators e) height (en_epoch_seed e)) (bh_proposer (pb_header pb)))"
    using y unfolding h candidate_of_def
    by (cases "map_of (get_or height [] (en_v2_blocks e)) h") (simp_all split: if_splits)
  obtain js where js: "(h, js) \<in> set t'" "set js = set is"
    using same_tally_entries [OF v t x(1)] by blast
  obtain pb' where pb': "map_of (get_or height [] (en_v2_blocks e')) h = Some pb'"
    "bh_proposer (pb_header pb') = bh_proposer (pb_header pb)"
  proof -
    have "map_option (bh_proposer \<circ> pb_header) (map_of (get_or height [] (en_v2_blocks e')) h) = Some (bh_proposer (pb_header pb))"
      using v x(3) unfolding same_view_def by (metis (no_types, lifting) comp_apply option.simps(9))
    then show thesis
      using that by auto
  qed
  have x': "x = (h, stake_of (en_validators e') js,
      rank_in (proposer_order_for_height (env_blake3 E) (en_validators e') height (en_epoch_seed e')) (bh_proposer (pb_header pb')))"
    using v by (simp add: x_eq pb' same_view_def stake_of_set [OF js(2)])
  have "\<not> is_invalid_at e' height h"
    using v x(2) by (simp add: same_view_def)
  then show "x \<in> set (v2_candidates E e' height t')"
    unfolding candidates_map map_filter_member
    by (intro bexI [OF _ js(1)]) (simp add: candidate_of_def pb'(1) x')
qed

lemma same_view_sym: "same_view e e' height \<Longrightarrow> same_view e' e height"
  unfolding same_view_def by (elim conjE) (intro conjI; simp)

lemma leader_pick: "v2_leader E e height t = map_option fst (pick_best leader_better (v2_candidates E e height t))"
  by (simp add: v2_leader_def pick_best_def)

text \<open>At most one hash has a quorum.\<close>

lemma one_quorum:
  assumes "stakes_wf (en_validators e)" "tally_of e height t" "(h, is) \<in> set t" "(h', js) \<in> set t"
    and "has_quorum (en_validators e) is" "has_quorum (en_validators e) js"
  shows "h = h'"
proof -
  obtain i where "i \<in> set is" "i \<in> set js"
    using finality.honest_in_both [of "en_validators e" "set is" "set js" "{}"] assms(1,5,6) by auto
  then show ?thesis
    using tally_entry(1) [OF assms(2,3)] tally_entry(1) [OF assms(2,4)] by (simp add: voters_for_def)
qed

definition wins :: "engine \<Rightarrow> u64 \<Rightarrow> hash \<times> validator_id list \<Rightarrow> bool" where
  "wins e height x \<longleftrightarrow> (case x of (h, voters) \<Rightarrow> \<not> is_invalid_at e height h \<and> has_quorum (en_validators e) voters \<and>
     map_of (get_or height [] (en_v2_blocks e)) h \<noteq> None)"

lemma winner_find: "v2_winner e height t = map_option fst (find (wins e height) t)"
  by (simp add: v2_winner_def wins_def [abs_def] case_prod_unfold)

lemma winner_entry:
  assumes "stakes_wf (en_validators e)" "tally_of e height t" "(h, is) \<in> set t" "wins e height (h, is)"
  shows "v2_winner e height t = Some h"
proof -
  obtain h' js where f: "find (wins e height) t = Some (h', js)"
    using assms(3,4) by (cases "find (wins e height) t") (auto simp: find_None_iff)
  then have "(h', js) \<in> set t" "wins e height (h', js)"
    by (auto dest: find_SomeD)
  then have "h = h'"
    using one_quorum [OF assms(1,2,3)] assms(4) by (simp add: wins_def)
  then show ?thesis
    by (simp add: winner_find f)
qed

lemma winner_same:
  assumes "same_view e e' height" "stakes_wf (en_validators e)" "tally_of e height t" "tally_of e' height t'"
    and "v2_winner e height t = Some h"
  shows "v2_winner e' height t' = Some h"
proof -
  obtain "is" where w: "(h, is) \<in> set t" "wins e height (h, is)"
    using assms(5) by (auto simp: winner_find dest: find_SomeD)
  obtain js where js: "(h, js) \<in> set t'" "set js = set is"
    using same_tally_entries [OF assms(1,3,4) w(1)] by blast
  have "map_of (get_or height [] (en_v2_blocks e)) h = None \<longleftrightarrow> map_of (get_or height [] (en_v2_blocks e')) h = None"
    using assms(1) unfolding same_view_def by (metis option.map_disc_iff)
  moreover have "en_validators e = en_validators e'" "is_invalid_at e height h = is_invalid_at e' height h"
    using assms(1) by (simp_all add: same_view_def)
  ultimately have "wins e' height (h, js)"
    using w(2) has_quorum_set [OF js(2)] by (auto simp: wins_def)
  then show ?thesis
    using winner_entry [OF _ assms(4) js(1)] assms(2) \<open>en_validators e = en_validators e'\<close> by simp
qed

text \<open>C40: the fork choice is deterministic.  Two nodes that hold the same candidates, know the same votes and agree on
  the validators, the seed and the invalid blocks choose the same leader and the same block with a quorum, in
  whatever order they traverse their hash maps of votes and of tallied hashes; the tally a node computes is such a
  traversal.\<close>

theorem fork_choice_order_independent:
  assumes "same_view e e' height" "tally_of e height t" "tally_of e' height t'" "stakes_wf (en_validators e)"
  shows "v2_leader E e height t = v2_leader E e' height t' \<and> v2_winner e height t = v2_winner e' height t' \<and>
    (distinct (map fst (get_or height [] (en_v2_votes e))) \<longrightarrow> tally_of e height (v2_tally e height))"
proof (intro conjI impI)
  note v = same_view_sym [OF assms(1)]
  have "set (v2_candidates E e height t) = set (v2_candidates E e' height t')"
    using candidates_same [OF assms(1-3)] candidates_same [OF v assms(3,2)] by blast
  then show "v2_leader E e height t = v2_leader E e' height t'"
    unfolding leader_pick using leader.pick_set by metis
  have wf: "stakes_wf (en_validators e')"
    using assms(1,4) by (simp add: same_view_def)
  show "v2_winner e height t = v2_winner e' height t'"
    using winner_same [OF assms(1,4,2,3)] winner_same [OF v wf assms(3,2)]
    by (cases "v2_winner e height t"; cases "v2_winner e' height t'") auto
qed (rule v2_tally_is_tally)

text \<open>Three validators whose votes two nodes have received in different orders.\<close>

definition sample_candidate :: "validator_id \<Rightarrow> pending_block" where
  "sample_candidate i =
     \<lparr>pb_header = (sample_header sample_start)\<lparr>bh_proposer := i\<rparr>, pb_operations = [], pb_proposed_at = 0,
      pb_already_executed = False, pb_result = None, pb_revert = None, pb_mismatch_count = 0\<rparr>"

definition sample_votes_seen :: "(validator_id \<times> hash) list \<Rightarrow> engine" where
  "sample_votes_seen seen =
     sample_start\<lparr>en_validators := [new_validator_info 1 300, new_validator_info 2 100, new_validator_info 3 50],
       en_v2_votes := [(5, seen)], en_v2_invalid := [],
       en_v2_blocks := [(5, [(10, sample_candidate 1), (11, sample_candidate 3)])]\<rparr>"

lemma sample_votes_seen_simps [simp]:
  "en_v2_votes (sample_votes_seen seen) = [(5, seen)]"
  "en_validators (sample_votes_seen seen) = [new_validator_info 1 300, new_validator_info 2 100, new_validator_info 3 50]"
  "en_epoch_seed (sample_votes_seen seen) = en_epoch_seed sample_start"
  "en_v2_blocks (sample_votes_seen seen) = [(5, [(10, sample_candidate 1), (11, sample_candidate 3)])]"
  "is_invalid_at (sample_votes_seen seen) h x = False"
  by (simp_all add: sample_votes_seen_def is_invalid_at_def get_or_def)

theorem fork_choice_order_independent_witness:
  "let e = sample_votes_seen [(1, 10), (2, 10), (3, 11)]; e' = sample_votes_seen [(3, 11), (2, 10), (1, 10)]
   in v2_leader sample_consensus e 5 [(10, [1, 2]), (11, [3])] = v2_leader sample_consensus e' 5 [(11, [3]), (10, [2, 1])] \<and>
      v2_winner e' 5 [(11, [3]), (10, [2, 1])] = Some 10"
proof -
  let ?e = "sample_votes_seen [(1, 10), (2, 10), (3, 11)]" and ?e' = "sample_votes_seen [(3, 11), (2, 10), (1, 10)]"
  have v: "voters_for ?e 5 h = (if h = 10 then {1, 2} else if h = 11 then {3} else {})"
    "voters_for ?e' 5 h = (if h = 10 then {1, 2} else if h = 11 then {3} else {})" for h
    by (auto simp: voters_for_def get_or_def split: if_splits)
  have "same_view ?e ?e' 5"
    unfolding same_view_def v by simp
  moreover have "tally_of ?e 5 [(10, [1, 2]), (11, [3])]" "tally_of ?e' 5 [(11, [3]), (10, [2, 1])]"
    unfolding tally_of_def v by auto
  moreover have "stakes_wf (en_validators ?e)"
    by (simp add: stakes_wf_def new_validator_info_def)
  moreover have "v2_winner ?e 5 [(10, [1, 2]), (11, [3])] = Some 10"
    by (simp add: v2_winner_def get_or_def has_quorum_def new_validator_info_def)
  ultimately show ?thesis
    using fork_choice_order_independent [of ?e ?e' 5 "[(10, [1, 2]), (11, [3])]" "[(11, [3]), (10, [2, 1])]" sample_consensus]
    by (simp add: Let_def)
qed

end
