(* ===== verification/Rollup_Kit.thy ===== *)
theory Rollup_Kit
  imports Solen_Prelude
begin

text \<open>
  The off-chain parts of a rollup (\<open>crates/solen-rollup-kit\<close>): the sequencer that orders transactions into batches,
  the messenger between rollup domains and the relayer's event queue; and the registry of proof systems
  (\<open>crates/solen-system-contracts/src/proof_registry.rs\<close>).  The sequencer hands out exactly what it took in, in
  order; a message is executed at most once and not after its timeout.
\<close>

section \<open>Sequencer\<close>

datatype sequencer_error = SequencerFull | SequencerStopped

record l2_transaction =
  l2_sender :: "256 word"
  l2_nonce :: u64
  l2_data :: bytes
  l2_gas_limit :: u64

record sequencer_config =
  sq_rollup_id :: u64
  sq_max_pending :: nat
  sq_max_batch_size :: nat
  sq_batch_interval_ms :: u64

definition default_sequencer_config :: sequencer_config where
  "default_sequencer_config =
     \<lparr>sq_rollup_id = 1, sq_max_pending = 10000, sq_max_batch_size = 100, sq_batch_interval_ms = 1000\<rparr>"

record transaction_batch =
  tb_rollup_id :: u64
  tb_batch_index :: u64
  tb_transactions :: "l2_transaction list"
  tb_timestamp_ms :: u64

record rollup_sequencer =
  sq_config :: sequencer_config
  sq_pending :: "l2_transaction list"
  sq_counter :: u64

definition new_sequencer :: "sequencer_config \<Rightarrow> rollup_sequencer" where
  "new_sequencer cfg = \<lparr>sq_config = cfg, sq_pending = [], sq_counter = 0\<rparr>"

definition sequencer_submit :: "l2_transaction \<Rightarrow> rollup_sequencer \<Rightarrow> (sequencer_error + unit) \<times> rollup_sequencer" where
  "sequencer_submit tx q =
     (if sq_max_pending (sq_config q) \<le> length (sq_pending q) then (Inl SequencerFull, q)
      else (Inr (), q\<lparr>sq_pending := sq_pending q @ [tx]\<rparr>))"

definition produce_batch :: "u64 \<Rightarrow> rollup_sequencer \<Rightarrow> transaction_batch option \<times> rollup_sequencer" where
  "produce_batch now q =
     (if sq_pending q = [] then (None, q)
      else let n = min (sq_max_batch_size (sq_config q)) (length (sq_pending q)); c = sq_counter q + 1
           in (Some \<lparr>tb_rollup_id = sq_rollup_id (sq_config q), tb_batch_index = c,
                     tb_transactions = take n (sq_pending q), tb_timestamp_ms = now\<rparr>,
               q\<lparr>sq_pending := drop n (sq_pending q), sq_counter := c\<rparr>))"

datatype sequencer_event = SubmitTx l2_transaction | TakeBatch u64

text \<open>A history keeps the transactions that were accepted and the batches that were handed out.\<close>

fun sequencer_step ::
    "sequencer_event \<Rightarrow> l2_transaction list \<times> transaction_batch list \<times> rollup_sequencer
     \<Rightarrow> l2_transaction list \<times> transaction_batch list \<times> rollup_sequencer" where
  "sequencer_step (SubmitTx tx) (acc, bs, q) =
     (case sequencer_submit tx q of (Inl _, q') \<Rightarrow> (acc, bs, q') | (Inr _, q') \<Rightarrow> (acc @ [tx], bs, q'))"
| "sequencer_step (TakeBatch now) (acc, bs, q) =
     (case produce_batch now q of (None, q') \<Rightarrow> (acc, bs, q') | (Some b, q') \<Rightarrow> (acc, bs @ [b], q'))"

definition sequencer_run ::
    "sequencer_config \<Rightarrow> sequencer_event list \<Rightarrow> l2_transaction list \<times> transaction_batch list \<times> rollup_sequencer" where
  "sequencer_run cfg es = fold sequencer_step es ([], [], new_sequencer cfg)"

text \<open>Every accepted transaction is in exactly one batch or still waiting, in the order of acceptance; the batches are
  numbered from one and respect the size limit, and the queue respects its own.\<close>

lemma sequencer_fifo:
  "case sequencer_run cfg es of (acc, bs, q) \<Rightarrow>
     acc = concat (map tb_transactions bs) @ sq_pending q \<and>
     map tb_batch_index bs = map of_nat [1..<Suc (length bs)] \<and> sq_counter q = of_nat (length bs) \<and>
     (\<forall>b \<in> set bs. length (tb_transactions b) \<le> sq_max_batch_size cfg) \<and>
     length (sq_pending q) \<le> sq_max_pending cfg \<and> sq_config q = cfg"
proof (induction es rule: rev_induct)
  case Nil
  then show ?case by (simp add: sequencer_run_def new_sequencer_def)
next
  case (snoc ev es)
  obtain acc bs q where r: "sequencer_run cfg es = (acc, bs, q)"
    by (metis surj_pair)
  have run: "sequencer_run cfg (es @ [ev]) = sequencer_step ev (acc, bs, q)"
    using r by (simp add: sequencer_run_def)
  show ?case
    using snoc unfolding run r
    by (cases ev) (auto simp: sequencer_submit_def produce_batch_def Let_def)
qed

section \<open>Cross-domain messages\<close>

datatype messenger_error =
    DuplicateNonce u64
  | MessageExpired u64
  | MessageNotFound
  | MessageAlreadyExecuted

datatype message_status = MessagePending | MessageExecuted | MessageTimedOut | MessageFailed

record message_receipt =
  mr_id :: u64
  mr_source :: u64
  mr_destination :: u64
  mr_nonce :: u64
  mr_sender :: "256 word"
  mr_payload :: bytes
  mr_payload_hash :: hash
  mr_timeout_block :: u64
  mr_proof_reference :: hash
  mr_status :: message_status

record messenger =
  mg_messages :: "message_receipt list"
  mg_nonces :: "u64 \<times> u64 \<Rightarrow> u64 option"
  mg_next_id :: u64

definition new_messenger :: messenger where
  "new_messenger = \<lparr>mg_messages = [], mg_nonces = Map.empty, mg_next_id = 0\<rparr>"

definition send_message ::
    "(bytes \<Rightarrow> hash) \<Rightarrow> u64 \<Rightarrow> u64 \<Rightarrow> 256 word \<Rightarrow> bytes \<Rightarrow> u64 \<Rightarrow> messenger \<Rightarrow> u64 \<times> messenger" where
  "send_message blake3 src dst who payload timeout g =
     (let current = (case mg_nonces g (src, dst) of None \<Rightarrow> 0 | Some n \<Rightarrow> n); i = mg_next_id g
      in (i, \<lparr>mg_messages = mg_messages g @
                [\<lparr>mr_id = i, mr_source = src, mr_destination = dst, mr_nonce = current, mr_sender = who,
                  mr_payload = payload, mr_payload_hash = blake3 payload, mr_timeout_block = timeout,
                  mr_proof_reference = 0, mr_status = MessagePending\<rparr>],
              mg_nonces = (mg_nonces g)((src, dst) \<mapsto> current + 1), mg_next_id = i + 1\<rparr>))"

definition set_status :: "u64 \<Rightarrow> message_status \<Rightarrow> messenger \<Rightarrow> messenger" where
  "set_status i st g =
     g\<lparr>mg_messages := update_first (\<lambda>m. mr_id m = i) (\<lambda>m. m\<lparr>mr_status := st\<rparr>) (mg_messages g)\<rparr>"

definition execute_message :: "u64 \<Rightarrow> u64 \<Rightarrow> messenger \<Rightarrow> (messenger_error + message_receipt) \<times> messenger" where
  "execute_message i current g =
     (case find (\<lambda>m. mr_id m = i) (mg_messages g) of
        None \<Rightarrow> (Inl MessageNotFound, g)
      | Some m \<Rightarrow>
          if mr_status m = MessageExecuted then (Inl MessageAlreadyExecuted, g)
          else if mr_timeout_block m < current
          then (Inl (MessageExpired (mr_timeout_block m)), set_status i MessageTimedOut g)
          else (Inr (m\<lparr>mr_status := MessageExecuted\<rparr>), set_status i MessageExecuted g))"

definition pending_for_destination :: "messenger \<Rightarrow> u64 \<Rightarrow> message_receipt list" where
  "pending_for_destination g dst =
     filter (\<lambda>m. mr_destination m = dst \<and> mr_status m = MessagePending) (mg_messages g)"

definition get_message :: "messenger \<Rightarrow> u64 \<Rightarrow> message_receipt option" where
  "get_message g i = find (\<lambda>m. mr_id m = i) (mg_messages g)"

definition times_out :: "u64 \<Rightarrow> message_receipt \<Rightarrow> bool" where
  "times_out current m \<longleftrightarrow> mr_status m = MessagePending \<and> mr_timeout_block m < current"

definition expire_messages :: "u64 \<Rightarrow> messenger \<Rightarrow> nat \<times> messenger" where
  "expire_messages current g =
     (length (filter (times_out current) (mg_messages g)),
      g\<lparr>mg_messages := map (\<lambda>m. if times_out current m then m\<lparr>mr_status := MessageTimedOut\<rparr> else m) (mg_messages g)\<rparr>)"

datatype messenger_event =
    SendMsg u64 u64 "256 word" bytes u64
  | ExecuteMsg u64 u64
  | ExpireMsgs u64

text \<open>A history logs the identifier and the block of every execution.\<close>

fun messenger_step ::
    "(bytes \<Rightarrow> hash) \<Rightarrow> messenger_event \<Rightarrow> (u64 \<times> u64) list \<times> messenger \<Rightarrow> (u64 \<times> u64) list \<times> messenger" where
  "messenger_step blake3 (SendMsg src dst who payload timeout) (log, g) =
     (log, snd (send_message blake3 src dst who payload timeout g))"
| "messenger_step blake3 (ExecuteMsg i current) (log, g) =
     (case execute_message i current g of (Inl _, g') \<Rightarrow> (log, g') | (Inr _, g') \<Rightarrow> (log @ [(i, current)], g'))"
| "messenger_step blake3 (ExpireMsgs current) (log, g) = (log, snd (expire_messages current g))"

definition messenger_run :: "(bytes \<Rightarrow> hash) \<Rightarrow> messenger_event list \<Rightarrow> (u64 \<times> u64) list \<times> messenger" where
  "messenger_run blake3 es = fold (messenger_step blake3) es ([], new_messenger)"

definition executed_by :: "message_receipt list \<Rightarrow> u64 \<times> u64 \<Rightarrow> bool" where
  "executed_by ms x \<longleftrightarrow>
     (\<exists>m \<in> set ms. mr_id m = fst x \<and> mr_status m = MessageExecuted \<and> snd x \<le> mr_timeout_block m)"

definition messages_inv :: "(u64 \<times> u64) list \<Rightarrow> messenger \<Rightarrow> bool" where
  "messages_inv log g \<longleftrightarrow>
     map mr_id (mg_messages g) = map of_nat [0..<length (mg_messages g)] \<and>
     mg_next_id g = of_nat (length (mg_messages g)) \<and> distinct (map fst log) \<and>
     (\<forall>x \<in> set log. executed_by (mg_messages g) x)"

lemma ids_distinct:
  assumes "map mr_id ms = map of_nat [0..<length ms]" "length ms < 2 ^ 64"
  shows "distinct (map mr_id ms)"
proof -
  have "inj_on (of_nat :: nat \<Rightarrow> u64) {0..<length ms}"
  proof (rule inj_onI)
    fix x y assume *: "x \<in> {0..<length ms}" "y \<in> {0..<length ms}" "(of_nat x :: u64) = of_nat y"
    have "unat (of_nat z :: u64) = z" if "z \<in> {0..<length ms}" for z
      using that assms(2) by (intro unat_of_nat_exact) simp
    then show "x = y"
      using * by metis
  qed
  then show ?thesis
    by (simp add: assms(1) distinct_map)
qed

lemma update_first_keeps: "x \<in> set xs \<Longrightarrow> \<not> P x \<Longrightarrow> x \<in> set (update_first P f xs)"
  by (induction xs) auto

lemma find_id_unique: "distinct (map mr_id ms) \<Longrightarrow> m \<in> set ms \<Longrightarrow> find (\<lambda>x. mr_id x = mr_id m) ms = Some m"
  by (induction ms) (auto simp: image_iff)

lemma set_status_fields [simp]:
  "map mr_id (mg_messages (set_status i st g)) = map mr_id (mg_messages g)"
  "length (mg_messages (set_status i st g)) = length (mg_messages g)" "mg_next_id (set_status i st g) = mg_next_id g"
  by (simp_all add: set_status_def map_update_first)

lemma executed_mono: "executed_by ms x \<Longrightarrow> set ms \<subseteq> set ns \<Longrightarrow> executed_by ns x"
  unfolding executed_by_def by blast

text \<open>Changing the status of a message that has not been executed touches no executed one.\<close>

lemma executed_set_status:
  assumes "distinct (map mr_id (mg_messages g))" "find (\<lambda>m. mr_id m = i) (mg_messages g) = Some m"
    and "mr_status m \<noteq> MessageExecuted" "executed_by (mg_messages g) x"
  shows "fst x \<noteq> i" "executed_by (mg_messages (set_status i st g)) x"
proof -
  obtain y where y: "y \<in> set (mg_messages g)" "mr_id y = fst x" "mr_status y = MessageExecuted" "snd x \<le> mr_timeout_block y"
    using assms(4) unfolding executed_by_def by blast
  have "find (\<lambda>m. mr_id m = fst x) (mg_messages g) = Some y"
    using find_id_unique [OF assms(1) y(1)] y(2) by simp
  then show "fst x \<noteq> i"
    using assms(2,3) y(3) by auto
  then have "y \<in> set (mg_messages (set_status i st g))"
    using update_first_keeps [OF y(1), of "\<lambda>m. mr_id m = i"] y(2) by (simp add: set_status_def)
  then show "executed_by (mg_messages (set_status i st g)) x"
    unfolding executed_by_def using y(2-4) by blast
qed

lemma executed_new:
  assumes "find (\<lambda>m. mr_id m = i) (mg_messages g) = Some m" "current \<le> mr_timeout_block m"
  shows "executed_by (mg_messages (set_status i MessageExecuted g)) (i, current)"
proof -
  let ?m = "m\<lparr>mr_status := MessageExecuted\<rparr>"
  have "?m \<in> set (mg_messages (set_status i MessageExecuted g))"
    by (rule update_first_decomp [OF assms(1), of "\<lambda>m. m\<lparr>mr_status := MessageExecuted\<rparr>"]) (simp add: set_status_def)
  moreover have "mr_id m = i"
    using find_SomeD [OF assms(1)] by simp
  ultimately show ?thesis
    unfolding executed_by_def using assms(2) by (intro bexI [of _ ?m]) simp_all
qed

lemma execute_inv:
  assumes "messages_inv log g" "length (mg_messages g) < 2 ^ 64"
  shows "case_prod messages_inv (messenger_step blake3 (ExecuteMsg i current) (log, g))"
proof (cases "\<exists>m. find (\<lambda>m. mr_id m = i) (mg_messages g) = Some m \<and> mr_status m \<noteq> MessageExecuted")
  case True
  then obtain m where m: "find (\<lambda>m. mr_id m = i) (mg_messages g) = Some m" "mr_status m \<noteq> MessageExecuted"
    by blast
  have d: "distinct (map mr_id (mg_messages g))"
    using assms by (intro ids_distinct) (simp_all add: messages_inv_def)
  note old = executed_set_status [OF d m]
  have "messages_inv log (set_status i st g)" for st
    using assms(1) old(2) by (simp add: messages_inv_def)
  moreover have "i \<notin> fst ` set log"
    using assms(1) old(1) unfolding messages_inv_def by blast
  ultimately show ?thesis
    using m executed_new [OF m(1)] by (auto simp: execute_message_def messages_inv_def not_less)
next
  case False
  then show ?thesis
    using assms(1) by (auto simp: execute_message_def split: option.split)
qed

lemma send_inv:
  assumes "messages_inv log g"
  shows "messages_inv log (snd (send_message blake3 src dst who payload timeout g))"
  using assms executed_mono [of "mg_messages g" _ "mg_messages (snd (send_message blake3 src dst who payload timeout g))"]
  by (auto simp: messages_inv_def send_message_def Let_def)

lemma expire_inv:
  assumes "messages_inv log g"
  shows "messages_inv log (snd (expire_messages current g))"
proof -
  let ?f = "\<lambda>m. if times_out current m then m\<lparr>mr_status := MessageTimedOut\<rparr> else m"
  have "executed_by (map ?f ms) x" if "executed_by ms x" for ms x
    using that by (force simp: executed_by_def times_out_def)
  moreover have "mr_id \<circ> ?f = mr_id"
    by (simp add: fun_eq_iff)
  ultimately show ?thesis
    using assms by (simp add: messages_inv_def expire_messages_def)
qed

text \<open>Fewer than \<open>2 ^ 64\<close> events cannot wrap the identifiers.  No message is executed twice, and none after its timeout.
  A message that has timed out is not final: a later call with an earlier block still executes it.\<close>

lemma messages_executed_once:
  assumes "length es < 2 ^ 64" "messenger_run blake3 es = (log, g)"
  shows "distinct (map fst log) \<and> (\<forall>x \<in> set log. executed_by (mg_messages g) x)"
proof -
  have "messages_inv log g \<and> length (mg_messages g) \<le> length es"
    using assms
  proof (induction es arbitrary: log g rule: rev_induct)
    case Nil
    then show ?case by (auto simp: messenger_run_def messages_inv_def new_messenger_def)
  next
    case (snoc ev es)
    obtain log' g' where r: "messenger_run blake3 es = (log', g')"
      by (metis surj_pair)
    have run: "messenger_step blake3 ev (log', g') = (log, g)"
      using r snoc.prems(2) by (simp add: messenger_run_def)
    have inv: "messages_inv log' g'" and len: "length (mg_messages g') \<le> length es" "length (mg_messages g') < 2 ^ 64"
      using snoc.IH [OF _ r] snoc.prems(1) by auto
    have "length (mg_messages g) \<le> length (es @ [ev])"
      using len(1) run by (cases ev) (auto simp: send_message_def expire_messages_def execute_message_def Let_def
          split: option.splits if_splits)
    moreover have "messages_inv log g"
    proof (cases ev)
      case (ExecuteMsg i current)
      then show ?thesis
        using execute_inv [OF inv len(2), of blake3 i current] run by simp
    qed (use run send_inv [OF inv] expire_inv [OF inv] in auto)
    ultimately show ?case by blast
  qed
  then show ?thesis
    by (simp add: messages_inv_def)
qed

lemma timed_out_message_executes:
  assumes "find (\<lambda>m. mr_id m = i) (mg_messages g) = Some m" "mr_status m = MessageTimedOut" "current \<le> mr_timeout_block m"
  shows "fst (execute_message i current g) = Inr (m\<lparr>mr_status := MessageExecuted\<rparr>)"
  using assms by (simp add: execute_message_def not_less)

section \<open>Relayer\<close>

datatype relayer_event =
    RelayDeposit u64 "256 word" u128 u64
  | RelayWithdrawalFinalized u64 u64 u64
  | RelayBatchPublished u64 u64 hash

record bridge_relayer =
  rl_rollup_id :: u64
  rl_events :: "relayer_event list"
  rl_last_processed :: u64

definition new_relayer :: "u64 \<Rightarrow> bridge_relayer" where
  "new_relayer r = \<lparr>rl_rollup_id = r, rl_events = [], rl_last_processed = 0\<rparr>"

definition process_event :: "relayer_event \<Rightarrow> bridge_relayer \<Rightarrow> bridge_relayer" where
  "process_event ev r = r\<lparr>rl_events := rl_events r @ [ev]\<rparr>"

definition drain_events :: "bridge_relayer \<Rightarrow> relayer_event list \<times> bridge_relayer" where
  "drain_events r = (rl_events r, r\<lparr>rl_events := []\<rparr>)"

definition set_last_processed :: "u64 \<Rightarrow> bridge_relayer \<Rightarrow> bridge_relayer" where
  "set_last_processed block r = r\<lparr>rl_last_processed := block\<rparr>"

section \<open>Proof systems\<close>

datatype registry_error = SystemAlreadyRegistered string | SystemNotFound string

record proof_system_info =
  ps_name :: string
  ps_description :: string
  ps_is_active :: bool
  ps_rollups_using :: "u64 list"

type_synonym proof_registry = "proof_system_info list"

definition register_system :: "string \<Rightarrow> string \<Rightarrow> proof_registry \<Rightarrow> (registry_error + unit) \<times> proof_registry" where
  "register_system name descr reg =
     (if \<exists>s \<in> set reg. ps_name s = name then (Inl (SystemAlreadyRegistered name), reg)
      else (Inr (), reg @ [\<lparr>ps_name = name, ps_description = descr, ps_is_active = True, ps_rollups_using = []\<rparr>]))"

definition add_rollup :: "string \<Rightarrow> u64 \<Rightarrow> proof_registry \<Rightarrow> (registry_error + unit) \<times> proof_registry" where
  "add_rollup ptype r reg =
     (case find (\<lambda>s. ps_name s = ptype) reg of
        None \<Rightarrow> (Inl (SystemNotFound ptype), reg)
      | Some _ \<Rightarrow> (Inr (), update_first (\<lambda>s. ps_name s = ptype)
          (\<lambda>s. if r \<in> set (ps_rollups_using s) then s else s\<lparr>ps_rollups_using := ps_rollups_using s @ [r]\<rparr>) reg))"

definition active_systems :: "proof_registry \<Rightarrow> string list" where
  "active_systems reg = map ps_name (filter ps_is_active reg)"

text \<open>Names stay unique and no rollup is listed twice under a system.\<close>

definition registry_ok :: "proof_registry \<Rightarrow> bool" where
  "registry_ok reg \<longleftrightarrow> distinct (map ps_name reg) \<and> list_all (\<lambda>s. distinct (ps_rollups_using s)) reg"

lemma registry_ok_steps:
  assumes "registry_ok reg"
  shows "registry_ok (snd (register_system name descr reg))" "registry_ok (snd (add_rollup ptype r reg))"
proof -
  show "registry_ok (snd (register_system name descr reg))"
    using assms by (auto simp: registry_ok_def register_system_def)
  define f where "f = (\<lambda>s :: proof_system_info. if r \<in> set (ps_rollups_using s) then s else s\<lparr>ps_rollups_using := ps_rollups_using s @ [r]\<rparr>)"
  have f: "ps_name (f s) = ps_name s" "distinct (ps_rollups_using s) \<Longrightarrow> distinct (ps_rollups_using (f s))" for s
    by (simp_all add: f_def)
  have "map ps_name (update_first P f reg) = map ps_name reg" for P
    by (rule map_update_first) (rule f(1))
  moreover have "list_all (\<lambda>s. distinct (ps_rollups_using s)) (update_first P f reg)" for P
    using assms f(2) set_update_first [of _ P f reg] unfolding registry_ok_def list_all_iff by metis
  ultimately show "registry_ok (snd (add_rollup ptype r reg))"
    using assms by (simp add: registry_ok_def add_rollup_def f_def [symmetric] split: option.split)
qed

end
