(* ===== verification/Encrypted_Mempool.thy ===== *)
theory Encrypted_Mempool
  imports Chain_Types "HOL-Library.AList"
begin

text \<open>
  The commit-reveal pool (\<open>crates/solen-consensus/src/encrypted_mempool.rs\<close>).  The hash map of commitments is an
  association list with one entry per key.  A revealed operation comes from the sender of a commitment, and a
  commitment is revealed at most once; that the operation is the committed one is not checked.
\<close>

record operation_commitment =
  oc_commitment_hash :: hash
  oc_encrypted_data :: bytes
  oc_sender :: account_id
  oc_submitted_at :: u64

record revealed_operation =
  rv_commitment_hash :: hash
  rv_operation :: user_operation
  rv_reveal_key :: bytes

record encrypted_mempool =
  em_commitments :: "(hash \<times> operation_commitment) list"
  em_revealed :: "revealed_operation list"
  em_reveal_window :: u64
  em_max_size :: nat

definition new_encrypted_mempool :: "nat \<Rightarrow> u64 \<Rightarrow> encrypted_mempool" where
  "new_encrypted_mempool max_size window =
     \<lparr>em_commitments = [], em_revealed = [], em_reveal_window = window, em_max_size = max_size\<rparr>"

definition submit_commitment :: "operation_commitment \<Rightarrow> encrypted_mempool \<Rightarrow> bool \<times> encrypted_mempool" where
  "submit_commitment c p =
     (if em_max_size p \<le> length (em_commitments p) then (False, p)
      else (True, p\<lparr>em_commitments := AList.update (oc_commitment_hash c) c (em_commitments p)\<rparr>))"

definition commitment_preimage :: "operation_commitment \<Rightarrow> bytes" where
  "commitment_preimage c = oc_encrypted_data c @ id_bytes (oc_sender c)"

definition reveal ::
    "(bytes \<Rightarrow> hash) \<Rightarrow> hash \<Rightarrow> user_operation \<Rightarrow> bytes \<Rightarrow> encrypted_mempool \<Rightarrow> (string + unit) \<times> encrypted_mempool" where
  "reveal blake3 h op key p =
     (case map_of (em_commitments p) h of
        None \<Rightarrow> (Inl ''commitment not found'', p)
      | Some c \<Rightarrow>
          if blake3 (commitment_preimage c) \<noteq> h then (Inl ''commitment hash mismatch'', p)
          else if sender op \<noteq> oc_sender c then (Inl ''sender mismatch'', p)
          else (Inr (), p\<lparr>em_commitments := AList.delete h (em_commitments p),
                  em_revealed := em_revealed p @ [\<lparr>rv_commitment_hash = h, rv_operation = op, rv_reveal_key = key\<rparr>]\<rparr>))"

definition drain_revealed :: "encrypted_mempool \<Rightarrow> user_operation list \<times> encrypted_mempool" where
  "drain_revealed p = (map rv_operation (em_revealed p), p\<lparr>em_revealed := []\<rparr>)"

definition expire_commitments :: "u64 \<Rightarrow> encrypted_mempool \<Rightarrow> nat \<times> encrypted_mempool" where
  "expire_commitments current p =
     (let kept = filter (\<lambda>(_, c). current \<le> oc_submitted_at c + em_reveal_window p) (em_commitments p)
      in (length (em_commitments p) - length kept, p\<lparr>em_commitments := kept\<rparr>))"

definition create_commitment :: "(bytes \<Rightarrow> hash) \<Rightarrow> bytes \<Rightarrow> account_id \<Rightarrow> u64 \<Rightarrow> operation_commitment" where
  "create_commitment blake3 data who current =
     \<lparr>oc_commitment_hash = blake3 (data @ id_bytes who), oc_encrypted_data = data, oc_sender = who,
      oc_submitted_at = current\<rparr>"

section \<open>Commitments and reveals\<close>

text \<open>A commitment made with \<open>create_commitment\<close> that was accepted can be revealed, exactly once, with any operation
  of its sender, whatever was encrypted.\<close>

lemma reveal_any_operation_once:
  assumes "submit_commitment (create_commitment blake3 data (sender op) current) p = (True, p1)"
    and "reveal blake3 (blake3 (data @ id_bytes (sender op))) op key p1 = (r, p2)"
  shows "r = Inr ()" "map rv_operation (em_revealed p2) = map rv_operation (em_revealed p) @ [op]"
    "fst (reveal blake3 (blake3 (data @ id_bytes (sender op))) op' key' p2) = Inl ''commitment not found''"
proof -
  let ?c = "create_commitment blake3 data (sender op) current" and ?h = "blake3 (data @ id_bytes (sender op))"
  have p1: "p1 = p\<lparr>em_commitments := AList.update ?h ?c (em_commitments p)\<rparr>"
    using assms(1) by (simp add: submit_commitment_def create_commitment_def split: if_splits)
  have "map_of (em_commitments p1) ?h = Some ?c"
    by (simp add: p1 update_conv')
  moreover have "blake3 (commitment_preimage ?c) = ?h" "oc_sender ?c = sender op"
    by (simp_all add: commitment_preimage_def create_commitment_def)
  ultimately have "r = Inr () \<and> p2 = p1\<lparr>em_commitments := AList.delete ?h (em_commitments p1),
      em_revealed := em_revealed p1 @ [\<lparr>rv_commitment_hash = ?h, rv_operation = op, rv_reveal_key = key\<rparr>]\<rparr>"
    using assms(2) unfolding reveal_def by simp
  then have r: "r = Inr ()" and p2: "em_commitments p2 = AList.delete ?h (em_commitments p1)"
    "map rv_operation (em_revealed p2) = map rv_operation (em_revealed p1) @ [op]"
    by simp_all
  show "r = Inr ()"
    by (rule r)
  show "map rv_operation (em_revealed p2) = map rv_operation (em_revealed p) @ [op]"
    by (simp add: p2(2) p1)
  show "fst (reveal blake3 ?h op' key' p2) = Inl ''commitment not found''"
    unfolding reveal_def p2(1) by (simp add: delete_conv')
qed

text \<open>Every revealed operation is by the sender of a commitment whose hash the pool has checked.\<close>

lemma reveal_sound:
  assumes "reveal blake3 h op key p = (Inr (), p')"
  shows "\<exists>c. map_of (em_commitments p) h = Some c \<and> blake3 (oc_encrypted_data c @ id_bytes (sender op)) = h \<and>
    oc_sender c = sender op"
proof (cases "map_of (em_commitments p) h")
  case None
  then show ?thesis
    using assms by (simp add: reveal_def)
next
  case (Some c)
  then have "blake3 (commitment_preimage c) = h" "sender op = oc_sender c"
    using assms by (simp_all add: reveal_def split: if_splits)
  then show ?thesis
    using Some by (simp add: commitment_preimage_def)
qed

text \<open>The pool respects its size; a commitment under a key that is present replaces the old one.\<close>

lemma commitments_bounded:
  assumes "length (em_commitments p) \<le> em_max_size p"
  shows "length (em_commitments (snd (submit_commitment c p))) \<le> em_max_size p"
    "length (em_commitments (snd (reveal blake3 h op key p))) \<le> em_max_size p"
    "length (em_commitments (snd (expire_commitments current p))) \<le> em_max_size p"
proof -
  have "length (AList.update k v xs) \<le> Suc (length xs)" for k v and xs :: "('k \<times> 'v) list"
    by (induction xs) auto
  from this [of "oc_commitment_hash c" c "em_commitments p"]
  show "length (em_commitments (snd (submit_commitment c p))) \<le> em_max_size p"
    using assms by (simp add: submit_commitment_def)
  show "length (em_commitments (snd (reveal blake3 h op key p))) \<le> em_max_size p"
    using assms le_trans [OF length_delete_le assms] by (simp add: reveal_def split: option.split)
  show "length (em_commitments (snd (expire_commitments current p))) \<le> em_max_size p"
    using le_trans [OF length_filter_le assms] by (simp add: expire_commitments_def Let_def)
qed

end
