(* ===== verification/Peer_Reputation.thy ===== *)
theory Peer_Reputation
  imports Solen_Prelude "HOL-Library.AList"
begin

text \<open>
  The reputation of peers (\<open>crates/solen-p2p/src/reputation.rs\<close>): scores, their decay and escalating bans.  The
  time is the monotonic clock in milliseconds.  A score changes by at most a hundred per message, so it is an
  integer; the length of a ban is computed on 64 bits, where its product wraps.
\<close>

datatype 'p reputation_event =
    ValidBlock 'p
  | InvalidBlock 'p
  | ValidAttestation 'p
  | InvalidAttestation 'p
  | ForkMismatch 'p
  | ClearAllBans
  | GossipsubPenalize 'p

definition BAN_THRESHOLD :: int where "BAN_THRESHOLD = - 50"

definition BASE_BAN_DURATION_SECS :: u64 where "BASE_BAN_DURATION_SECS = 300"

definition MAX_BAN_DURATION_SECS :: u64 where "MAX_BAN_DURATION_SECS = 3600"

definition DECAY_INTERVAL_SECS :: nat where "DECAY_INTERVAL_SECS = 60"

definition DECAY_AMOUNT :: int where "DECAY_AMOUNT = 5"

definition MAX_TRACKED_PEERS :: nat where "MAX_TRACKED_PEERS = 500"

record peer_score =
  ps_score :: int
  ps_last_decay :: nat
  ps_banned_until :: "nat option"
  ps_ban_count :: u32
  ps_valid_messages :: u64
  ps_invalid_messages :: u64

definition new_peer_score :: "nat \<Rightarrow> peer_score" where
  "new_peer_score now =
     \<lparr>ps_score = 0, ps_last_decay = now, ps_banned_until = None, ps_ban_count = 0, ps_valid_messages = 0,
      ps_invalid_messages = 0\<rparr>"

definition apply_decay :: "nat \<Rightarrow> peer_score \<Rightarrow> peer_score" where
  "apply_decay now s =
     (if DECAY_INTERVAL_SECS * 1000 < now - ps_last_decay s
      then s\<lparr>ps_score := (if ps_score s < 0 then min (ps_score s + DECAY_AMOUNT) 0
                          else if 0 < ps_score s then max (ps_score s - DECAY_AMOUNT) 0 else ps_score s),
             ps_last_decay := now\<rparr>
      else s)"

text \<open>\<open>2u64.saturating_pow(ban_count)\<close>, then a product that wraps.\<close>

definition ban_secs :: "u32 \<Rightarrow> u64" where
  "ban_secs n = min (BASE_BAN_DURATION_SECS * (if unat n < 64 then 2 ^ unat n else - 1)) MAX_BAN_DURATION_SECS"

definition adjust :: "nat \<Rightarrow> int \<Rightarrow> peer_score \<Rightarrow> peer_score" where
  "adjust now delta s0 =
     (let s1 = apply_decay now s0;
          s2 = s1\<lparr>ps_score := ps_score s1 + delta\<rparr>;
          s3 = (if 0 < delta then s2\<lparr>ps_valid_messages := ps_valid_messages s2 + 1\<rparr>
                else s2\<lparr>ps_invalid_messages := ps_invalid_messages s2 + 1\<rparr>)
      in if ps_score s3 \<le> BAN_THRESHOLD \<and> ps_banned_until s3 = None
         then s3\<lparr>ps_ban_count := sat_add (ps_ban_count s3) 1,
                 ps_banned_until := Some (now + unat (ban_secs (ps_ban_count s3)) * 1000)\<rparr>
         else s3)"

definition score_is_banned :: "nat \<Rightarrow> peer_score \<Rightarrow> bool \<times> peer_score" where
  "score_is_banned now s =
     (case ps_banned_until s of
        Some until \<Rightarrow>
          if until \<le> now then (False, s\<lparr>ps_banned_until := None, ps_score := BAN_THRESHOLD div 2\<rparr>) else (True, s)
      | None \<Rightarrow> (False, s))"

type_synonym 'p peer_reputation = "('p \<times> peer_score) list"

definition get_or_create :: "nat \<Rightarrow> 'p \<Rightarrow> 'p peer_reputation \<Rightarrow> peer_score \<times> 'p peer_reputation" where
  "get_or_create now peer rep =
     (let rep1 = (if MAX_TRACKED_PEERS < length rep
                  then filter (\<lambda>(_, s). now - ps_last_decay s < 600000 \<or> ps_banned_until s \<noteq> None) rep else rep)
      in case map_of rep1 peer of
           Some s \<Rightarrow> (s, rep1)
         | None \<Rightarrow> (new_peer_score now, AList.update peer (new_peer_score now) rep1))"

definition peer_is_banned :: "nat \<Rightarrow> 'p \<Rightarrow> 'p peer_reputation \<Rightarrow> bool \<times> 'p peer_reputation" where
  "peer_is_banned now peer rep =
     (let (s, rep1) = get_or_create now peer rep; (banned, s') = score_is_banned now s
      in (banned, AList.update peer s' rep1))"

definition record_score :: "int \<Rightarrow> nat \<Rightarrow> 'p \<Rightarrow> 'p peer_reputation \<Rightarrow> 'p peer_reputation" where
  "record_score delta now peer rep =
     (let (s, rep1) = get_or_create now peer rep in AList.update peer (adjust now delta s) rep1)"

definition record_valid_block :: "nat \<Rightarrow> 'p \<Rightarrow> 'p peer_reputation \<Rightarrow> 'p peer_reputation" where
  "record_valid_block = record_score 2"

definition record_valid_attestation :: "nat \<Rightarrow> 'p \<Rightarrow> 'p peer_reputation \<Rightarrow> 'p peer_reputation" where
  "record_valid_attestation = record_score 1"

definition record_invalid_block :: "nat \<Rightarrow> 'p \<Rightarrow> 'p peer_reputation \<Rightarrow> 'p peer_reputation" where
  "record_invalid_block = record_score (- 10)"

definition record_invalid_attestation :: "nat \<Rightarrow> 'p \<Rightarrow> 'p peer_reputation \<Rightarrow> 'p peer_reputation" where
  "record_invalid_attestation = record_score (- 5)"

definition record_decode_failure :: "nat \<Rightarrow> 'p \<Rightarrow> 'p peer_reputation \<Rightarrow> 'p peer_reputation" where
  "record_decode_failure = record_score (- 3)"

definition record_rate_limited :: "nat \<Rightarrow> 'p \<Rightarrow> 'p peer_reputation \<Rightarrow> 'p peer_reputation" where
  "record_rate_limited = record_score (- 1)"

definition record_fork_mismatch :: "nat \<Rightarrow> 'p \<Rightarrow> 'p peer_reputation \<Rightarrow> 'p peer_reputation" where
  "record_fork_mismatch = record_score (- 100)"

definition clear_all_bans :: "'p peer_reputation \<Rightarrow> 'p peer_reputation" where
  "clear_all_bans rep =
     map (\<lambda>(p, s). (p, s\<lparr>ps_banned_until := None, ps_score := (if ps_score s < 0 then 0 else ps_score s)\<rparr>)) rep"

section \<open>Bans\<close>

text \<open>The first bans double up to an hour.  The 63rd and the 64th last no time at all: the product is a multiple of
  \<open>2 ^ 64\<close>.\<close>

lemma ban_secs_values:
  "map ban_secs [0, 1, 2, 3, 4] = [300, 600, 1200, 2400, 3600]" "ban_secs n \<le> 3600" "ban_secs 62 = 0" "ban_secs 63 = 0"
  by (simp_all add: ban_secs_def BASE_BAN_DURATION_SECS_def MAX_BAN_DURATION_SECS_def)

text \<open>A ban starts exactly when the score reaches the threshold, and its length is that of \<open>ban_secs\<close>.\<close>

lemma adjust_bans:
  assumes "ps_banned_until s = None"
  shows "ps_banned_until (adjust now delta s) =
    (if ps_score (apply_decay now s) + delta \<le> - 50 then Some (now + unat (ban_secs (ps_ban_count s)) * 1000) else None)"
  using assms by (auto simp: adjust_def Let_def apply_decay_def BAN_THRESHOLD_def)

text \<open>After a ban one more invalid block does not ban the peer again: the score restarts at half of the threshold.\<close>

lemma offence_after_ban_not_banned:
  assumes "ps_banned_until s = Some until" "until \<le> now" "score_is_banned now s = (b, s')"
  shows "\<not> b \<and> ps_banned_until (adjust now (- 10) s') = None"
  using assms by (auto simp: score_is_banned_def adjust_def apply_decay_def Let_def BAN_THRESHOLD_def DECAY_AMOUNT_def)

text \<open>Decay moves a score towards zero and never across it.\<close>

lemma decay_towards_zero:
  "\<bar>ps_score (apply_decay now s)\<bar> \<le> \<bar>ps_score s\<bar>" "0 \<le> ps_score (apply_decay now s) * ps_score s"
  by (auto simp: apply_decay_def DECAY_AMOUNT_def mult_nonneg_nonneg mult_nonpos_nonpos)

end
