(* ===== verification/Spec2Isabelle.thy ===== *)
theory Spec2Isabelle
  imports Treasury Call_Tree Fork_Choice Rollup_Kit Encrypted_Mempool Peer_Reputation
begin

text \<open>A verification of the Solen chain.

  Solen is a proof-of-stake chain written in Rust. A user operation enters the mempool, is put into a block by the
  proposer of the height, is executed against the state store, and becomes final when validators with more than two
  thirds of the stake attest the block. Accounts are ordinary entries of the store; staking, governance, vesting,
  guardian recovery, bridging, the treasury and intents are contracts built into the executor and reached at reserved
  addresses; all other contracts are WebAssembly. The development follows this path from the data to the node.

  \<^bold>\<open>Conventions.\<close> Machine integers are words of their width, so that every unchecked addition wraps and every
  \<open>saturating_\<close> or \<open>checked_\<close> operation is written out; \<open>usize\<close> is \<^typ>\<open>nat\<close>. A hash or identifier is a 256-bit word in
  big-endian byte order, so that its order is the byte order the code sorts by. Rust's \<open>Result\<close> is a sum with the
  error on the left, \<open>Option\<close> is \<open>option\<close>, a struct is a record, an enum a datatype. A function that mutates its
  receiver returns the new one. Code outside the repository is a field of an environment record that extends the one
  below it: hashing and the encoding of stored structures (\<open>ledger_env\<close>, \<open>sys_env\<close>), signatures and the
  WebAssembly engine (\<open>exec_env\<close>), and the encodings the node stores (\<open>node_env\<close>, \<open>consensus_env\<close>). What the theorems
  need of these fields is a named predicate on the environment, such as that decoding inverts encoding, and
  \<open>Sample_Env\<close> gives an instance for which all of them hold.

  \<^bold>\<open>Base.\<close> \<open>Solen_Prelude\<close>: widths, saturating arithmetic, little-endian bytes, sorted maps and the shared lemma
  collections. \<open>Encoding\<close>: Base58, hexadecimal and address parsing (solen-types/src/encoding.rs). \<open>Chain_Types\<close>:
  accounts, authentication methods, operations, the signed message and the reserved addresses (solen-types).
  \<open>Storage\<close>: the in-memory store with its cached Merkle root, the overlay with savepoints, and the incremental tree
  (solen-storage); it proves that the root is a function of the contents, that applying an overlay's changes makes the
  base read as the overlay did, and that a leaf does not bind the boundary of key and value. \<open>Ledger\<close>: the state
  manager and fees (solen-execution/src/state.rs, fees.rs).

  \<^bold>\<open>System contracts\<close> (solen-system-contracts). \<open>Guardian\<close>, \<open>Vesting\<close>, \<open>Governance\<close>, \<open>Staking\<close>, \<open>Bridge\<close>, \<open>Treasury\<close>:
  each contract's record and operations, with invariants over arbitrary histories of calls, given as inductive step
  relations. \<open>Sys_Base\<close> holds what the call handlers share; \<open>Vesting_Calls\<close>, \<open>Guardian_Calls\<close>, \<open>Governance_Calls\<close>,
  \<open>Staking_Calls\<close>, \<open>Bridge_Calls\<close> and \<open>System_Calls\<close> model solen-execution/src/system_calls.rs: decoding of arguments,
  loading and saving of the contract, balance changes, events and the router. \<open>Rollup_Proofs\<close>: committee attestations
  (solen-rollup-kit/src/prover.rs). The properties are conservation of tokens, authorisation, and single payment;
  where the code does not keep such a property the theorem states what it does instead.

  \<^bold>\<open>Execution.\<close> \<open>Vm\<close>: host functions, fuel and limits of a contract run (solen-vm). \<open>Auth\<close>: every authentication
  method (solen-execution/src/executor.rs, solen-crypto/src/pq.rs). \<open>Executor\<close>: validation, session keys, actions, nested
  contract calls, fees, rollback, sequential and parallel execution of a block. \<open>Operations\<close>, \<open>Call_Tree\<close> and \<open>Block_Ops\<close>
  hold the theorems on it: a failed operation is undone, an operation is authorised and runs once, session keys are
  confined, gas is bounded, parallel checking changes nothing, supply is conserved. \<open>Epoch_Rewards\<close>: epoch randomness
  and rewards. \<open>Block_Commit\<close>: staging, committing and undoing a block.

  \<^bold>\<open>Consensus\<close> (solen-consensus, solen-intents). \<open>Validator_Set\<close>: proposer selection and quorum. \<open>Consensus_Types\<close>,
  \<open>Slashing\<close>, \<open>Checkpoints\<close>: headers, attestations, evidence, epochs and checkpoints. \<open>Mempool\<close> and \<open>Intent_Pool\<close>.
  \<open>Rollback\<close>: the rollback journal and the durable undo records. \<open>Engine\<close>, \<open>Finality\<close> and \<open>Node_Steps\<close> model
  engine.rs: the engine is one record with a field per locked field of \<open>ConsensusEngine\<close>, and each handler is one
  function on it. A handler runs as one
  step, so a history of the engine is a sequence of handler calls; other tasks running between the locks of one
  handler are outside the model. The two clocks a handler reads are arguments. \<open>Chain_Rollback\<close>
  proves that rollbacks and restarts bring back the state they claim to. \<open>Snapshot\<close>: creating and restoring a state
  snapshot, and that one inverts the other. \<open>Encrypted_Mempool\<close>: the commit-reveal pool.

  \<^bold>\<open>Node\<close> (solen-node, solen-p2p). \<open>Node_Messages\<close>: the task that handles gossip messages and the status task of main.rs,
  on one record for the engine and the task's variables, with the messages sent in an outbox. \<open>Node_Loop\<close>: one iteration
  of the production loop with the tiers of automatic recovery; what peers report over HTTP and the files on disk are
  arguments. \<open>Fork_Choice\<close> proves that the choice between candidate blocks does not depend on the traversal of
  the hash maps. \<open>Peer_Reputation\<close>: scores and bans of peers. \<open>Rollup_Kit\<close>: the sequencer, messenger and relayer of a
  rollup (solen-rollup-kit) and the registry of proof systems, with the order of batches and the single execution of
  messages.

  \<^bold>\<open>Locales.\<close> The interfaces are locales interpreted on the model's definitions: \<open>state_store\<close> and \<open>scannable_store\<close>
  (the laws of a key-value store, for the memory store and the overlay), \<open>keyed_history\<close> (entries that may fire at
  most once, for proposals and withdrawals), \<open>counter_table\<close> (tables numbered by a counter, for recoveries and grants),
  \<open>quorum_system\<close> (two quorums share an honest member), \<open>release_curve\<close> (a bounded monotone payout), \<open>radix\<close>
  (positional digits, for Base58) and \<open>decisive_choice\<close> (a choice by one pass under a total order, for the leader).

  \<^bold>\<open>Termination and bounds.\<close> All functions are total. The recursion is on data except in the tree of contract calls,
  whose termination measure is the distance of the call depth from the code's limit of eight and the number of queued
  calls; no fuel is added to the model. The fuel of a contract run is the code's own counter. Lists stand for vectors
  and need not fit the memory of a machine; a theorem that relies on a count below 2 ^ 64 says so.

  \<^bold>\<open>Not modelled.\<close> The transport of messages, the start of the node, the RPC server, the indexer, the faucet and the command line (input and output around the
  engine); RocksDB, whose interface the in-memory store implements; key generation and the cryptographic primitives;
  the WebAssembly engine and its compilation cache; events and logging of the engine; the example contracts, SDKs and
  tools.\<close>

end
